(* ===== verification/Prelude.thy ===== *)
theory Prelude
  imports Main "HOL-Library.Word"
begin

text \<open>
  Shared vocabulary of the development: the machine types of the C++ sources, the ways a C++
  call can fail to return normally, the sequencing of fallible calls, and the arithmetic of
  big-endian ("network order") words that every protocol component uses.
\<close>

unbundle bit_operations_syntax

section \<open>Machine types and failures\<close>

type_synonym byte = "8 word"
type_synonym u16 = "16 word"
type_synonym u32 = "32 word"
type_synonym u64 = "64 word"

text \<open>
  The ways a call leaves a C++ function without returning: an exception of the standard library
  (with the text the code gives it), a failed \<open>assert\<close>, the access to an empty optional, the
  call of an empty \<open>std::function\<close>, an allocation of an impossible size or a \<open>std::vector\<close> of a negative one, a call of \<open>exit\<close>, a loop that never ends, or a step whose behaviour the language leaves undefined (a read outside
  an array, a signed overflow).
\<close>

datatype cpp_error =
    Out_of_range string
  | Assert_failed
  | Bad_optional_access
  | Bad_function_call
  | Bad_alloc
  | Length_error
  | Exit_failure
  | Diverges
  | Undefined_behaviour

type_synonym 'a res = "cpp_error + 'a"

definition rbind :: "'a res \<Rightarrow> ('a \<Rightarrow> 'b res) \<Rightarrow> 'b res" where
  "rbind m f = (case m of Inl e \<Rightarrow> Inl e | Inr a \<Rightarrow> f a)"

definition rassert :: "bool \<Rightarrow> unit res" where
  "rassert c = (if c then Inr () else Inl Assert_failed)"

lemma rbind_simps [simp]:
  "rbind (Inl e) f = Inl e"
  "rbind (Inr a) f = f a"
  by (simp_all add: rbind_def)

lemma rbind_eq_Inr [simp]: "rbind m f = Inr b \<longleftrightarrow> (\<exists>a. m = Inr a \<and> f a = Inr b)"
  by (cases m) auto

lemma rbindE:
  assumes "rbind m f = Inr b"
  obtains a where "m = Inr a" "f a = Inr b"
  using assms by auto

lemma rbind_assoc: "rbind (rbind m f) g = rbind m (\<lambda>x. rbind (f x) g)"
  by (cases m) auto

lemma rbind_cong:
  "m = m' \<Longrightarrow> (\<And>a. m' = Inr a \<Longrightarrow> f a = f' a) \<Longrightarrow> rbind m f = rbind m' f'"
  by (cases m') simp_all

text \<open>The failure of a call, if it failed; comparing failures needs no equality of states.\<close>

definition res_error :: "'a res \<Rightarrow> cpp_error option" where
  "res_error r = (case r of Inl e \<Rightarrow> Some e | Inr _ \<Rightarrow> None)"

lemma res_error_iff: "res_error r = Some e \<longleftrightarrow> r = Inl e"
  by (auto simp: res_error_def split: sum.splits)

lemma rassert_simps [simp]:
  "rassert True = Inr ()"
  "rassert False = Inl Assert_failed"
  by (simp_all add: rassert_def)

lemma rassert_eq_Inr [simp]: "rassert c = Inr u \<longleftrightarrow> c"
  by (simp add: rassert_def)

text \<open>The range of a 32 bit signed \<open>int\<close>; leaving it is undefined behaviour.\<close>

definition int_fits :: "int \<Rightarrow> bool" where
  "int_fits x \<longleftrightarrow> - (2 ^ 31) \<le> x \<and> x < 2 ^ 31"

text \<open>\<open>std::vector::at\<close> on octets or other elements.\<close>

definition vec_at :: "'a list \<Rightarrow> nat \<Rightarrow> 'a res" where
  "vec_at xs i = (if i < length xs then Inr (xs ! i) else Inl (Out_of_range ''vector::at''))"

lemma vec_at_eq_Inr [simp]: "vec_at xs i = Inr x \<longleftrightarrow> i < length xs \<and> xs ! i = x"
  by (simp add: vec_at_def)

lemma vec_at_in [simp]: "i < length xs \<Longrightarrow> vec_at xs i = Inr (xs ! i)"
  by simp

section \<open>Collections of facts\<close>

named_theorems codec_simps "laws of the big-endian codecs"
named_theorems frame_simps "what an operation leaves unchanged"

section \<open>Network byte order\<close>

text \<open>
  \<open>mk16\<close> and \<open>mk32\<close> are the expressions \<^verbatim>\<open>(p[0] << 8) | p[1]\<close> and
  \<^verbatim>\<open>(p[0] << 24) | (p[1] << 16) | (p[2] << 8) | p[3]\<close>; \<open>bytes16\<close> and \<open>bytes32\<close> are
  the stores \<^verbatim>\<open>s >> 8, s\<close> and \<^verbatim>\<open>l >> 24, l >> 16, l >> 8, l\<close> into octets.
\<close>

definition mk16 :: "byte \<Rightarrow> byte \<Rightarrow> u16" where
  "mk16 a b = push_bit 8 (ucast a) OR ucast b"

definition mk32 :: "byte \<Rightarrow> byte \<Rightarrow> byte \<Rightarrow> byte \<Rightarrow> u32" where
  "mk32 a b c d = push_bit 24 (ucast a) OR push_bit 16 (ucast b) OR push_bit 8 (ucast c) OR ucast d"

definition bytes16 :: "u16 \<Rightarrow> byte list" where
  "bytes16 w = [ucast (drop_bit 8 w), ucast w]"

definition bytes32 :: "u32 \<Rightarrow> byte list" where
  "bytes32 w = [ucast (drop_bit 24 w), ucast (drop_bit 16 w), ucast (drop_bit 8 w), ucast w]"

lemma length_bytes16 [simp]: "length (bytes16 w) = 2"
  by (simp add: bytes16_def)

lemma length_bytes32 [simp]: "length (bytes32 w) = 4"
  by (simp add: bytes32_def)

lemma mk16_split [codec_simps]: "mk16 (ucast (drop_bit 8 w)) (ucast w) = w"
  unfolding mk16_def by (rule bit_word_eqI) (auto simp: bit_simps)

lemma mk32_split [codec_simps]:
  "mk32 (ucast (drop_bit 24 w)) (ucast (drop_bit 16 w)) (ucast (drop_bit 8 w)) (ucast w) = w"
proof (rule bit_word_eqI)
  fix n assume "n < LENGTH(32)"
  then consider "n < 8" | "8 \<le> n" "n < 16" | "16 \<le> n" "n < 24" | "24 \<le> n" "n < 32"
    by fastforce
  then show "bit (mk32 (ucast (drop_bit 24 w)) (ucast (drop_bit 16 w)) (ucast (drop_bit 8 w)) (ucast w)) n
      \<longleftrightarrow> bit w n"
    by cases (auto simp: mk32_def bit_simps)
qed

lemma bytes16_obtain:
  obtains hi lo where "bytes16 w = [hi, lo]" "mk16 hi lo = w"
  by (rule that [of "ucast (drop_bit 8 w)" "ucast w"]) (simp_all only: bytes16_def mk16_split)

lemma bytes16_mk16 [codec_simps]: "bytes16 (mk16 a b) = [a, b]"
proof -
  have "ucast (drop_bit 8 (mk16 a b)) = a"
    unfolding mk16_def by (rule bit_word_eqI) (auto simp: bit_simps dest: bit_imp_le_length)
  moreover have "ucast (mk16 a b) = b"
    unfolding mk16_def by (rule bit_word_eqI) (auto simp: bit_simps)
  ultimately show ?thesis by (simp add: bytes16_def)
qed

lemma bytes32_obtain:
  obtains a b c d where "bytes32 w = [a, b, c, d]" "mk32 a b c d = w"
  by (rule that [of "ucast (drop_bit 24 w)" "ucast (drop_bit 16 w)" "ucast (drop_bit 8 w)" "ucast w"])
    (simp_all only: bytes32_def mk32_split)

lemma bytes32_mk32 [codec_simps]: "bytes32 (mk32 a b c d) = [a, b, c, d]"
proof -
  have "ucast (drop_bit 24 (mk32 a b c d)) = a" "ucast (drop_bit 16 (mk32 a b c d)) = b"
    "ucast (drop_bit 8 (mk32 a b c d)) = c" "ucast (mk32 a b c d) = d"
    unfolding mk32_def
    by (rule bit_word_eqI, auto simp: bit_simps dest: bit_imp_le_length)+
  then show ?thesis by (simp add: bytes32_def)
qed

text \<open>
  The loop \<^verbatim>\<open>out <<= 8; out |= p[i]\<close> and the number it computes: the octets read as base 256
  digits, most significant first, modulo the width of \<open>out\<close>.
\<close>

definition shift_in :: "u64 \<Rightarrow> byte \<Rightarrow> u64" where
  "shift_in acc b = push_bit 8 acc OR ucast b"

definition be_nat :: "byte list \<Rightarrow> nat" where
  "be_nat bs = foldl (\<lambda>a b. a * 256 + unat b) 0 bs"

lemma be_nat_Nil [simp]: "be_nat [] = 0"
  by (simp add: be_nat_def)

lemma be_nat_snoc [simp]: "be_nat (bs @ [b]) = be_nat bs * 256 + unat b"
  by (simp add: be_nat_def)

lemma unat_byte_less [simp]: "unat (b :: byte) < 256"
  using unsigned_less [of b] by simp

lemma be_nat_less: "be_nat bs < 256 ^ length bs"
proof (induction bs rule: rev_induct)
  case (snoc b bs)
  with unat_byte_less [of b] show ?case by (simp del: unat_byte_less)
qed simp

lemma shift_in_eq: "shift_in acc b = acc * 256 + ucast b"
proof -
  have "push_bit 8 acc AND (ucast b :: u64) = 0"
    by (rule bit_word_eqI) (auto simp: bit_simps dest: bit_imp_le_length)
  then have "push_bit 8 acc OR ucast b = push_bit 8 acc + (ucast b :: u64)"
    by (rule disjunctive_add_eq_or [symmetric])
  then show ?thesis by (simp add: shift_in_def push_bit_eq_mult mult.commute)
qed

lemma foldl_shift_in: "foldl shift_in 0 bs = of_nat (be_nat bs)"
  by (induction bs rule: rev_induct) (auto simp: shift_in_eq)

section \<open>Octet sources\<close>

text \<open>
  Loops that take octets one by one from a source and accumulate a value, as
  \<open>get_variable_size_integer\<close> and \<open>add_buffer_in\<close> do.  \<open>octet_source\<close> is the contract such
  a loop relies on: an abstract list of the octets still to come, and a \<open>get\<close> that hands out
  its head or fails when the list is empty.
\<close>

fun read_loop :: "('s \<Rightarrow> (byte \<times> 's) res) \<Rightarrow> ('a \<Rightarrow> byte \<Rightarrow> 'a) \<Rightarrow> nat \<Rightarrow> 'a \<Rightarrow> 's \<Rightarrow> ('a \<times> 's) res" where
  "read_loop get f 0 acc s = Inr (acc, s)"
| "read_loop get f (Suc n) acc s =
     rbind (get s) (\<lambda>(c, s'). read_loop get f n (f acc c) s')"

locale octet_source =
  fixes get :: "'s \<Rightarrow> (byte \<times> 's) res"
    and left :: "'s \<Rightarrow> byte list"
    and invar :: "'s \<Rightarrow> bool"
    and err :: cpp_error
  assumes get_empty: "invar s \<Longrightarrow> left s = [] \<Longrightarrow> get s = Inl err"
    and get_next: "invar s \<Longrightarrow> left s = c # cs \<Longrightarrow> \<exists>s'. get s = Inr (c, s') \<and> invar s' \<and> left s' = cs"
begin

lemma read_loop_enough:
  "invar s \<Longrightarrow> n \<le> length (left s) \<Longrightarrow>
   \<exists>s'. read_loop get f n acc s = Inr (foldl f acc (take n (left s)), s') \<and> invar s' \<and>
     left s' = drop n (left s)"
proof (induction n arbitrary: acc s)
  case (Suc n)
  then obtain c cs where l: "left s = c # cs" by (cases "left s") auto
  with Suc.prems obtain s' where s': "get s = Inr (c, s')" "invar s'" "left s' = cs"
    using get_next by blast
  with Suc.prems l obtain s'' where
    "read_loop get f n (f acc c) s' = Inr (foldl f (f acc c) (take n cs), s'')"
    "invar s''" "left s'' = drop n cs"
    using Suc.IH [of s' "f acc c"] by auto
  with s' l show ?case by simp
qed simp

lemma read_loop_short:
  "invar s \<Longrightarrow> length (left s) < n \<Longrightarrow> read_loop get f n acc s = Inl err"
proof (induction n arbitrary: acc s)
  case (Suc n)
  show ?case
  proof (cases "left s")
    case Nil
    with Suc.prems show ?thesis by (simp add: get_empty)
  next
    case (Cons c cs)
    with Suc.prems obtain s' where "get s = Inr (c, s')" "invar s'" "left s' = cs"
      using get_next by blast
    with Suc.prems Cons show ?thesis by (auto intro: Suc.IH)
  qed
qed simp

end

section \<open>Lists\<close>

lemma take_Suc_nth: "i < length xs \<Longrightarrow> take (Suc i) xs = take i xs @ [xs ! i]"
  by (rule take_Suc_conv_app_nth)

lemma drop_eq_Cons: "i < length xs \<Longrightarrow> drop i xs = xs ! i # drop (Suc i) xs"
  by (simp add: Cons_nth_drop_Suc)

end
