(* ===== verification/Hash.thy ===== *)
theory Hash
  imports Prelude
begin

text \<open>
  The hash and check functions \<open>MurmurHash64A\<close> and \<open>crc32\<close> of \<^verbatim>\<open>src/hash.cpp\<close>, and a small
  theory of reflected CRC registers that relates table driven and bit by bit computation at any
  width.
\<close>

unbundle bit_operations_syntax

section \<open>MurmurHash64A\<close>

text \<open>A 64 bit load from memory on a little-endian host.\<close>

definition load_le :: "byte list \<Rightarrow> u64" where
  "load_le bs = foldr (\<lambda>b acc. push_bit 8 acc OR ucast b) bs 0"

abbreviation murmur_m :: u64 where "murmur_m \<equiv> 0xc6a4a7935bd1e995"

definition murmur_mix :: "u64 \<Rightarrow> u64 \<Rightarrow> u64" where
  "murmur_mix h k0 =
     (let k1 = k0 * murmur_m;
          k2 = k1 XOR drop_bit 47 k1;
          k3 = k2 * murmur_m
      in (h XOR k3) * murmur_m)"

fun murmur_body :: "nat \<Rightarrow> byte list \<Rightarrow> u64 \<Rightarrow> u64 \<times> byte list" where
  "murmur_body 0 data h = (h, data)"
| "murmur_body (Suc n) data h = murmur_body n (drop 8 data) (murmur_mix h (load_le (take 8 data)))"

definition MurmurHash64A :: "byte list \<Rightarrow> u64 \<Rightarrow> u64" where
  "MurmurHash64A key seed =
     (let h0 = seed XOR (of_nat (length key) * murmur_m);
          (h1, data2) = murmur_body (length key div 8) key h0;
          h2 = (if data2 = [] then h1 else (h1 XOR load_le data2) * murmur_m);
          h3 = h2 XOR drop_bit 47 h2;
          h4 = h3 * murmur_m
      in h4 XOR drop_bit 47 h4)"

section \<open>crc32\<close>

text \<open>
  The inner loop of \<open>crc32\<close>: eight times \<^verbatim>\<open>b = (ch ^ crc) & 1; crc >>= 1; crc ^= p[b]; ch >>= 1\<close>.
\<close>

fun crc_bits :: "nat \<Rightarrow> 'a::len word \<Rightarrow> 'a word \<Rightarrow> byte \<Rightarrow> 'a word" where
  "crc_bits 0 p crc ch = crc"
| "crc_bits (Suc n) p crc ch =
     crc_bits n p (drop_bit 1 crc XOR (if bit ch 0 \<noteq> bit crc 0 then p else 0)) (drop_bit 1 ch)"

definition crc32 :: "byte list \<Rightarrow> u32 \<Rightarrow> u32" where
  "crc32 data polynomial = NOT (foldl (crc_bits 8 polynomial) 0xFFFFFFFF data)"

section \<open>Reflected CRC registers\<close>

text \<open>One step of the register without input; it is linear over exclusive or.\<close>

definition crc_step :: "'a::len word \<Rightarrow> 'a word \<Rightarrow> 'a word" where
  "crc_step p c = drop_bit 1 c XOR (if bit c 0 then p else 0)"

lemma crc_step_xor: "crc_step p (a XOR b) = crc_step p a XOR crc_step p b"
  by (rule bit_word_eqI) (auto simp: crc_step_def bit_simps simp del: bit_0)

lemma crc_steps_xor: "(crc_step p ^^ n) (a XOR b) = (crc_step p ^^ n) a XOR (crc_step p ^^ n) b"
  by (induction n) (simp_all add: crc_step_xor)

text \<open>While the low bits are zero the register is only shifted.\<close>

lemma crc_steps_shift: "take_bit n c = 0 \<Longrightarrow> (crc_step p ^^ n) c = drop_bit n c"
proof (induction n arbitrary: c)
  case (Suc n)
  have "\<not> bit c 0" using Suc.prems by (metis bit_take_bit_iff bit_0_eq bot_apply zero_less_Suc bot_bool_def)
  moreover have "take_bit n (drop_bit 1 c) = 0"
    using Suc.prems by (simp add: take_bit_drop_bit)
  ultimately show ?case
    using Suc.IH [of "drop_bit 1 c"] by (simp add: funpow_Suc_right crc_step_def del: funpow.simps bit_0)
qed simp

text \<open>Feeding the bits of an octet is the same as adding it to the register first.\<close>

lemma crc_bits_steps:
  fixes c :: "'a::len word"
  assumes "8 \<le> LENGTH('a)"
  shows "crc_bits n p c ch = (crc_step p ^^ n) (c XOR ucast ch) XOR ucast (drop_bit n ch)"
proof (induction n arbitrary: c ch)
  case 0
  show ?case by (simp add: xor.assoc)
next
  case (Suc n)
  let ?c = "drop_bit 1 c XOR (if bit ch 0 \<noteq> bit c 0 then p else 0)" and ?ch = "drop_bit 1 ch"
  have u: "(ucast (drop_bit 1 ch) :: 'a word) = drop_bit 1 (ucast ch)"
    using assms by (intro bit_word_eqI) (auto simp: bit_simps dest: bit_imp_le_length)
  have "bit (ucast ch :: 'a word) 0 \<longleftrightarrow> bit ch 0" by (simp add: bit_simps del: bit_0)
  then have "?c XOR ucast ?ch = crc_step p (c XOR ucast ch)"
    unfolding u by (intro bit_word_eqI) (auto simp: crc_step_def bit_simps simp del: bit_0)
  then show ?case
    using Suc.IH [of ?c ?ch] by (simp add: funpow_Suc_right del: funpow.simps bit_0)
qed

lemma crc_bits_8:
  fixes c :: "'a::len word"
  assumes "8 \<le> LENGTH('a)"
  shows "crc_bits 8 p c ch = (crc_step p ^^ 8) (c XOR ucast ch)"
proof -
  have "drop_bit 8 ch = 0" by (rule bit_word_eqI) (auto simp: bit_simps dest: bit_imp_le_length)
  then show ?thesis using crc_bits_steps [OF assms, of 8 p c ch] by simp
qed

text \<open>
  The table method: a register is shifted by a whole octet and corrected by the entry for the
  octet that was shifted out.
\<close>

lemma crc_bits_table:
  fixes c :: "'a::len word"
  assumes "8 \<le> LENGTH('a)"
  shows "crc_bits 8 p c ch = drop_bit 8 c XOR (crc_step p ^^ 8) (take_bit 8 (c XOR ucast ch))"
proof -
  let ?x = "c XOR ucast ch"
  let ?hi = "push_bit 8 (drop_bit 8 ?x)"
  have split: "?x = ?hi XOR take_bit 8 ?x"
    by (rule bit_word_eqI) (auto simp: bit_simps)
  have "take_bit 8 ?hi = 0" by (rule bit_word_eqI) (auto simp: bit_simps)
  then have "(crc_step p ^^ 8) ?hi = drop_bit 8 ?hi" by (rule crc_steps_shift)
  also have "\<dots> = drop_bit 8 c"
    by (rule bit_word_eqI) (auto simp: bit_simps dest: bit_imp_le_length)
  finally have "(crc_step p ^^ 8) ?x = drop_bit 8 c XOR (crc_step p ^^ 8) (take_bit 8 ?x)"
    using split crc_steps_xor [of 8 p ?hi "take_bit 8 ?x"] by metis
  then show ?thesis by (simp add: crc_bits_8 [OF assms])
qed

end
