(* ===== verification/Crc32c.thy ===== *)
theory Crc32c
  imports Hash
begin

text \<open>
  The table driven CRC32c of \<^verbatim>\<open>src/sctp_crc32c.cpp\<close>, which protects SCTP packets, and its
  equivalence with the bit by bit \<open>crc32\<close> of \<^verbatim>\<open>src/hash.cpp\<close>.
\<close>

unbundle bit_operations_syntax

section \<open>CRC32c\<close>

definition crc_c :: "u32 list" where
  "crc_c = [
     0x00000000, 0xF26B8303, 0xE13B70F7, 0x1350F3F4, 0xC79A971F, 0x35F1141C, 0x26A1E7E8, 0xD4CA64EB,
     0x8AD958CF, 0x78B2DBCC, 0x6BE22838, 0x9989AB3B, 0x4D43CFD0, 0xBF284CD3, 0xAC78BF27, 0x5E133C24,
     0x105EC76F, 0xE235446C, 0xF165B798, 0x030E349B, 0xD7C45070, 0x25AFD373, 0x36FF2087, 0xC494A384,
     0x9A879FA0, 0x68EC1CA3, 0x7BBCEF57, 0x89D76C54, 0x5D1D08BF, 0xAF768BBC, 0xBC267848, 0x4E4DFB4B,
     0x20BD8EDE, 0xD2D60DDD, 0xC186FE29, 0x33ED7D2A, 0xE72719C1, 0x154C9AC2, 0x061C6936, 0xF477EA35,
     0xAA64D611, 0x580F5512, 0x4B5FA6E6, 0xB93425E5, 0x6DFE410E, 0x9F95C20D, 0x8CC531F9, 0x7EAEB2FA,
     0x30E349B1, 0xC288CAB2, 0xD1D83946, 0x23B3BA45, 0xF779DEAE, 0x05125DAD, 0x1642AE59, 0xE4292D5A,
     0xBA3A117E, 0x4851927D, 0x5B016189, 0xA96AE28A, 0x7DA08661, 0x8FCB0562, 0x9C9BF696, 0x6EF07595,
     0x417B1DBC, 0xB3109EBF, 0xA0406D4B, 0x522BEE48, 0x86E18AA3, 0x748A09A0, 0x67DAFA54, 0x95B17957,
     0xCBA24573, 0x39C9C670, 0x2A993584, 0xD8F2B687, 0x0C38D26C, 0xFE53516F, 0xED03A29B, 0x1F682198,
     0x5125DAD3, 0xA34E59D0, 0xB01EAA24, 0x42752927, 0x96BF4DCC, 0x64D4CECF, 0x77843D3B, 0x85EFBE38,
     0xDBFC821C, 0x2997011F, 0x3AC7F2EB, 0xC8AC71E8, 0x1C661503, 0xEE0D9600, 0xFD5D65F4, 0x0F36E6F7,
     0x61C69362, 0x93AD1061, 0x80FDE395, 0x72966096, 0xA65C047D, 0x5437877E, 0x4767748A, 0xB50CF789,
     0xEB1FCBAD, 0x197448AE, 0x0A24BB5A, 0xF84F3859, 0x2C855CB2, 0xDEEEDFB1, 0xCDBE2C45, 0x3FD5AF46,
     0x7198540D, 0x83F3D70E, 0x90A324FA, 0x62C8A7F9, 0xB602C312, 0x44694011, 0x5739B3E5, 0xA55230E6,
     0xFB410CC2, 0x092A8FC1, 0x1A7A7C35, 0xE811FF36, 0x3CDB9BDD, 0xCEB018DE, 0xDDE0EB2A, 0x2F8B6829,
     0x82F63B78, 0x709DB87B, 0x63CD4B8F, 0x91A6C88C, 0x456CAC67, 0xB7072F64, 0xA457DC90, 0x563C5F93,
     0x082F63B7, 0xFA44E0B4, 0xE9141340, 0x1B7F9043, 0xCFB5F4A8, 0x3DDE77AB, 0x2E8E845F, 0xDCE5075C,
     0x92A8FC17, 0x60C37F14, 0x73938CE0, 0x81F80FE3, 0x55326B08, 0xA759E80B, 0xB4091BFF, 0x466298FC,
     0x1871A4D8, 0xEA1A27DB, 0xF94AD42F, 0x0B21572C, 0xDFEB33C7, 0x2D80B0C4, 0x3ED04330, 0xCCBBC033,
     0xA24BB5A6, 0x502036A5, 0x4370C551, 0xB11B4652, 0x65D122B9, 0x97BAA1BA, 0x84EA524E, 0x7681D14D,
     0x2892ED69, 0xDAF96E6A, 0xC9A99D9E, 0x3BC21E9D, 0xEF087A76, 0x1D63F975, 0x0E330A81, 0xFC588982,
     0xB21572C9, 0x407EF1CA, 0x532E023E, 0xA145813D, 0x758FE5D6, 0x87E466D5, 0x94B49521, 0x66DF1622,
     0x38CC2A06, 0xCAA7A905, 0xD9F75AF1, 0x2B9CD9F2, 0xFF56BD19, 0x0D3D3E1A, 0x1E6DCDEE, 0xEC064EED,
     0xC38D26C4, 0x31E6A5C7, 0x22B65633, 0xD0DDD530, 0x0417B1DB, 0xF67C32D8, 0xE52CC12C, 0x1747422F,
     0x49547E0B, 0xBB3FFD08, 0xA86F0EFC, 0x5A048DFF, 0x8ECEE914, 0x7CA56A17, 0x6FF599E3, 0x9D9E1AE0,
     0xD3D3E1AB, 0x21B862A8, 0x32E8915C, 0xC083125F, 0x144976B4, 0xE622F5B7, 0xF5720643, 0x07198540,
     0x590AB964, 0xAB613A67, 0xB831C993, 0x4A5A4A90, 0x9E902E7B, 0x6CFBAD78, 0x7FAB5E8C, 0x8DC0DD8F,
     0xE330A81A, 0x115B2B19, 0x020BD8ED, 0xF0605BEE, 0x24AA3F05, 0xD6C1BC06, 0xC5914FF2, 0x37FACCF1,
     0x69E9F0D5, 0x9B8273D6, 0x88D28022, 0x7AB90321, 0xAE7367CA, 0x5C18E4C9, 0x4F48173D, 0xBD23943E,
     0xF36E6F75, 0x0105EC76, 0x12551F82, 0xE03E9C81, 0x34F4F86A, 0xC69F7B69, 0xD5CF889D, 0x27A40B9E,
     0x79B737BA, 0x8BDCB4B9, 0x988C474D, 0x6AE7C44E, 0xBE2DA0A5, 0x4C4623A6, 0x5F16D052, 0xAD7D5351]"

definition CRC32C :: "u32 \<Rightarrow> byte \<Rightarrow> u32" where
  "CRC32C c d = drop_bit 8 c XOR (crc_c ! unat ((c XOR ucast d) AND 0xFF))"

definition byteswap32 :: "u32 \<Rightarrow> u32" where
  "byteswap32 r = mk32 (ucast (r AND 0xff)) (ucast (drop_bit 8 r AND 0xff)) (ucast (drop_bit 16 r AND 0xff))
     (ucast (drop_bit 24 r AND 0xff))"

definition generate_crc32c :: "byte list \<Rightarrow> u32" where
  "generate_crc32c buffer = byteswap32 (NOT (foldl CRC32C (NOT 0) buffer))"

section \<open>The table\<close>

definition step8 :: "u32 \<Rightarrow> u32 \<Rightarrow> u32" where
  "step8 p i = crc_step p (crc_step p (crc_step p (crc_step p (crc_step p (crc_step p (crc_step p (crc_step p i)))))))"

lemma step8_funpow: "step8 p i = (crc_step p ^^ 8) i"
  by (simp add: step8_def numeral_eq_Suc)

text \<open>
  By linearity the table for \<open>k + 1\<close> bits is the table for \<open>k\<close> bits, followed by the same
  table with the entry of bit \<open>k\<close> added.
\<close>

definition double_table :: "u32 list \<Rightarrow> u32 \<Rightarrow> u32 list" where
  "double_table t s = t @ map ((XOR) s) t"

primrec xor_table :: "u32 \<Rightarrow> nat \<Rightarrow> u32 list" where
  "xor_table p 0 = [0]"
| "xor_table p (Suc k) =
     double_table (xor_table p k) (step8 p (push_bit k 1))"

lemma of_nat_add_exp: "j < 2 ^ k \<Longrightarrow> (of_nat (2 ^ k + j) :: u32) = push_bit k 1 XOR of_nat j"
proof -
  assume j: "j < 2 ^ k"
  then have "take_bit k j = j" by (simp add: take_bit_nat_eq_self_iff)
  then have "\<not> bit j n" if "k \<le> n" for n using that by (metis bit_take_bit_iff not_le)
  then have "(push_bit k 1 :: u32) AND of_nat j = 0"
    by (intro bit_word_eqI) (auto simp: bit_simps bit_1_iff)
  then have "push_bit k 1 + of_nat j = (push_bit k 1 XOR of_nat j :: u32)"
    by (rule disjunctive_add_eq_xor)
  then show ?thesis by (simp add: push_bit_eq_mult)
qed

lemma xor_table_eq: "xor_table p k = map (\<lambda>j. step8 p (of_nat j)) [0..<2 ^ k]"
proof (induction k)
  case 0
  show ?case by (simp add: step8_def crc_step_def)
next
  case (Suc k)
  have "[0..<2 ^ Suc k] = [0..<2 ^ k] @ map ((+) (2 ^ k)) [0..<2 ^ k]"
    by (simp add: map_add_upt mult_2 add.commute upt_add_eq_append [of 0 "2 ^ k" "2 ^ k", simplified]
        flip: map_add_upt)
  moreover have "step8 p (of_nat (2 ^ k + j)) = step8 p (push_bit k 1) XOR step8 p (of_nat j)"
    if "j < 2 ^ k" for j
    using that by (simp only: of_nat_add_exp step8_funpow crc_steps_xor)
  ultimately show ?case
    by (simp add: Suc.IH double_table_def comp_def)
qed

lemma crc_c_table: "crc_c = xor_table 0x82F63B78 8"
  by code_simp

lemma crc_c_nth: "i < 256 \<Longrightarrow> crc_c ! i = (crc_step 0x82F63B78 ^^ 8) (of_nat i)"
  by (simp add: crc_c_table xor_table_eq step8_funpow)

lemma CRC32C_bits: "CRC32C c d = crc_bits 8 0x82F63B78 c d"
proof -
  let ?i = "unat ((c XOR ucast d) AND 0xFF)"
  have m: "(c XOR ucast d) AND 0xFF = take_bit 8 (c XOR ucast d)"
    by (simp add: take_bit_eq_mask mask_eq_exp_minus_1)
  then have "?i < 256"
    using take_bit_nat_less_exp [of 8 "unat (c XOR ucast d)"] by (simp add: unsigned_take_bit_eq del: take_bit_xor)
  then have "crc_c ! ?i = (crc_step 0x82F63B78 ^^ 8) (of_nat ?i)" by (rule crc_c_nth)
  with m show ?thesis by (simp add: CRC32C_def crc_bits_table)
qed

text \<open>
  C39. The table driven CRC32c that SCTP packets carry computes the same check value as the bit by
  bit CRC of hash.cpp with the reflected Castagnoli polynomial, for every message; only the four
  octets of the result are swapped end for end.
\<close>

theorem generate_crc32c_bitwise: "generate_crc32c buffer = byteswap32 (crc32 buffer 0x82F63B78)"
proof -
  have "CRC32C = crc_bits 8 0x82F63B78" by (intro ext CRC32C_bits)
  moreover have "NOT 0 = (0xFFFFFFFF :: u32)" by simp
  ultimately show ?thesis unfolding generate_crc32c_def crc32_def by metis
qed

end
