(* ===== verification/Str.thy ===== *)
theory Str
  imports Prelude "HOL-Library.Sublist"
begin

text \<open>
  The string helpers of \<^verbatim>\<open>src/str.cpp\<close> and the conversions of the C library the sources use
  with them: \<open>std::string::find\<close>, the \<open>printf\<close> conversions \<open>%d\<close>, \<open>%x\<close> and \<open>%02x\<close> of
  non-negative values, and \<open>strtol\<close> on digit strings.
\<close>

section \<open>Searching and splitting\<close>

text \<open>\<open>std::string::find\<close>: the first position at which \<open>what\<close> occurs; \<open>None\<close> is \<open>npos\<close>.\<close>

fun str_find :: "string \<Rightarrow> string \<Rightarrow> nat option" where
  "str_find what [] = (if what = [] then Some 0 else None)"
| "str_find what (c # cs) =
     (if prefix what (c # cs) then Some 0 else map_option Suc (str_find what cs))"

lemma str_find_Some: "str_find what s = Some n \<Longrightarrow> n + length what \<le> length s \<and> prefix what (drop n s)"
  by (induction what s arbitrary: n rule: str_find.induct)
    (auto split: if_splits dest: prefix_length_le)

lemma str_find_decomp:
  assumes "str_find what s = Some n"
  shows "s = take n s @ what @ drop (n + length what) s"
proof -
  from str_find_Some [OF assms] obtain r where r: "drop n s = what @ r" by (auto simp: prefix_def)
  then have "drop (length what) (drop n s) = r" by simp
  then have "drop (n + length what) s = r" by (simp add: add.commute)
  with r append_take_drop_id [of n s] show ?thesis by simp
qed

lemma str_find_first: "str_find what s = Some n \<Longrightarrow> m < n \<Longrightarrow> \<not> prefix what (drop m s)"
proof (induction what s arbitrary: n m rule: str_find.induct)
  case (2 what c cs)
  then show ?case by (cases m) (auto split: if_splits)
qed (auto split: if_splits)

lemma str_find_None: "str_find what s = None \<longleftrightarrow> \<not> sublist what s"
  by (induction what s rule: str_find.induct) (auto simp: sublist_Cons_right)

lemma drop_shorter: "sep \<noteq> [] \<Longrightarrow> pos + length sep \<le> length s \<Longrightarrow> length (drop (pos + length sep) s) < length s"
  by (cases sep) auto

text \<open>
  \<open>split\<close>.  With an empty splitter and a non-empty string the loop makes no progress and runs
  until the memory is exhausted: \<open>None\<close>.
\<close>

function split_loop :: "string \<Rightarrow> string \<Rightarrow> string list" where
  "split_loop splitter s =
     (case (if splitter = [] then None else str_find splitter s) of
        None \<Rightarrow> if s \<noteq> [] then [s] else []
      | Some pos \<Rightarrow>
          if length s - (pos + length splitter) = 0 then [take pos s, []]
          else take pos s # split_loop splitter (drop (pos + length splitter) s))"
  by pat_completeness auto
termination
proof (relation "measure (length \<circ> snd)", goal_cases)
  case (2 splitter s pos)
  then have "splitter \<noteq> []" "pos + length splitter \<le> length s"
    by (auto split: if_splits dest!: str_find_Some)
  then show ?case using drop_shorter by simp
qed simp

declare split_loop.simps [simp del]

definition split_str :: "string \<Rightarrow> string \<Rightarrow> string list option" where
  "split_str s splitter =
     (if splitter = [] then (if s = [] then Some [[], []] else None)
      else Some (split_loop splitter s))"

text \<open>\<open>merge\<close> appends the separator after every element.\<close>

definition merge_str :: "string list \<Rightarrow> string \<Rightarrow> string" where
  "merge_str ls seperator = foldl (\<lambda>out l. out @ l @ seperator) [] ls"

text \<open>\<open>std::tolower\<close> in the \<open>C\<close> locale, on every character.\<close>

definition to_lower :: "char \<Rightarrow> char" where
  "to_lower c =
     (let k = of_char c :: nat in if 65 \<le> k \<and> k \<le> 90 then char_of (k + 32) else c)"

definition str_tolower :: "string \<Rightarrow> string" where
  "str_tolower s = map to_lower s"

text \<open>\<open>find_header\<close>: the value of the last line whose text before the separator is the key.\<close>

definition header_value :: "string \<Rightarrow> string \<Rightarrow> string res" where
  "header_value key line =
     (if length key + 1 \<le> length line
      then Inr (dropWhile (\<lambda>c. c = CHR '' '') (drop (length key + 1) line))
      else Inl (Out_of_range ''basic_string::substr''))"

fun find_header_loop :: "string \<Rightarrow> string \<Rightarrow> string list \<Rightarrow> string option \<Rightarrow> string option res" where
  "find_header_loop key sep [] v = Inr v"
| "find_header_loop key sep (line # ls) v =
     (case split_loop sep line of
        p0 # p1 # _ \<Rightarrow>
          if str_tolower p0 = str_tolower key
          then rbind (header_value key line) (\<lambda>w. find_header_loop key sep ls (Some w))
          else find_header_loop key sep ls v
      | _ \<Rightarrow> find_header_loop key sep ls v)"

definition find_header :: "string list \<Rightarrow> string \<Rightarrow> string \<Rightarrow> string option res" where
  "find_header ls key sep = find_header_loop key sep ls None"

text \<open>\<open>replace\<close> starts over on the replaced text and need not end: \<open>None\<close> when it does not.\<close>

partial_function (option) replace_str :: "string \<Rightarrow> string \<Rightarrow> string \<Rightarrow> string option" where
  "replace_str target what by_what =
     (case str_find what target of
        None \<Rightarrow> Some target
      | Some found \<Rightarrow> replace_str (take found target @ by_what @ drop (found + length what) target) what by_what)"

section \<open>Conversions\<close>

definition digit_char :: "nat \<Rightarrow> char" where
  "digit_char d = (if d < 10 then char_of (48 + d) else char_of (87 + d))"

text \<open>The digits of a number in the given base, most significant first; \<open>%d\<close> and \<open>%x\<close>.\<close>

fun num_to_str :: "nat \<Rightarrow> nat \<Rightarrow> string" where
  "num_to_str base n =
     (if base < 2 \<or> n < base then [digit_char n]
      else num_to_str base (n div base) @ [digit_char (n mod base)])"

declare num_to_str.simps [simp del]

abbreviation fmt_d :: "nat \<Rightarrow> string" where "fmt_d \<equiv> num_to_str 10"
abbreviation fmt_x :: "nat \<Rightarrow> string" where "fmt_x \<equiv> num_to_str 16"

definition fmt_02x :: "nat \<Rightarrow> string" where
  "fmt_02x n = (if n < 16 then ''0'' else []) @ fmt_x n"

text \<open>
  \<open>strtol\<close> on a string without sign and leading blanks: the value of the longest prefix of
  digits of the base, 0 when there is none.  An \<open>0x\<close> prefix is not modelled; a value beyond
  the range of \<open>long\<close> is clamped by the C library.
\<close>

definition char_digit :: "nat \<Rightarrow> char \<Rightarrow> nat option" where
  "char_digit base c =
     (let k = of_char c :: nat;
          d = (if 48 \<le> k \<and> k \<le> 57 then Some (k - 48)
               else if 97 \<le> k \<and> k \<le> 122 then Some (k - 87)
               else if 65 \<le> k \<and> k \<le> 90 then Some (k - 55) else None)
      in case d of None \<Rightarrow> None | Some v \<Rightarrow> if v < base then Some v else None)"

fun strtol_loop :: "nat \<Rightarrow> nat \<Rightarrow> string \<Rightarrow> nat" where
  "strtol_loop base acc [] = acc"
| "strtol_loop base acc (c # cs) =
     (case char_digit base c of None \<Rightarrow> acc | Some d \<Rightarrow> strtol_loop base (acc * base + d) cs)"

definition strtol :: "string \<Rightarrow> nat \<Rightarrow> nat" where
  "strtol s base = min (strtol_loop base 0 s) (2 ^ 63 - 1)"

text \<open>\<open>bin_to_text\<close>.\<close>

definition byte_text :: "bool \<Rightarrow> nat \<Rightarrow> byte \<Rightarrow> string" where
  "byte_text prefer_ascii i b =
     (if prefer_ascii then
        (if 32 < b \<and> b < 127 then [char_of (unat b)] else ''['' @ fmt_02x (unat b) @ '']'')
      else (if i \<noteq> 0 then '' '' else []) @ fmt_02x (unat b))"

definition bin_to_text :: "byte list \<Rightarrow> bool \<Rightarrow> string" where
  "bin_to_text p prefer_ascii = concat (map (\<lambda>(i, b). byte_text prefer_ascii i b) (enumerate 0 p))"

section \<open>Splitting and joining\<close>

fun join_str :: "string \<Rightarrow> string list \<Rightarrow> string" where
  "join_str sep [] = []"
| "join_str sep [x] = x"
| "join_str sep (x # xs) = x @ sep @ join_str sep xs"

lemma join_str_Cons: "xs \<noteq> [] \<Longrightarrow> join_str sep (x # xs) = x @ sep @ join_str sep xs"
  by (cases xs) auto

lemma split_loop_None: "sep \<noteq> [] \<Longrightarrow> str_find sep s = None \<Longrightarrow> split_loop sep s = (if s \<noteq> [] then [s] else [])"
  by (subst split_loop.simps) simp

lemma split_loop_Some:
  "sep \<noteq> [] \<Longrightarrow> str_find sep s = Some pos \<Longrightarrow>
   split_loop sep s = (if length s = pos + length sep then [take pos s, []]
     else take pos s # split_loop sep (drop (pos + length sep) s))"
  using str_find_Some [of sep s pos] by (subst split_loop.simps) auto

lemma split_loop_nonempty: "sep \<noteq> [] \<Longrightarrow> s \<noteq> [] \<Longrightarrow> split_loop sep s \<noteq> []"
  by (cases "str_find sep s") (auto simp: split_loop_None split_loop_Some)

lemma not_sublist_take: "str_find what s = Some n \<Longrightarrow> what \<noteq> [] \<Longrightarrow> \<not> sublist what (take n s)"
proof
  assume f: "str_find what s = Some n" "what \<noteq> []" and "sublist what (take n s)"
  then obtain xs ys where t: "take n s = xs @ what @ ys" by (auto simp: sublist_def)
  then have "length xs < n" using f(2)
    by (metis length_append length_take min.cobounded2 add_less_cancel_left length_greater_0_conv
        less_le_trans add.right_neutral trans_less_add1)
  moreover have "prefix what (drop (length xs) s)"
  proof -
    have "s = xs @ what @ ys @ drop n s" using t append_take_drop_id [of n s] by simp
    then have "drop (length xs) s = what @ ys @ drop n s" by (metis append_eq_conv_conj)
    then show ?thesis by (simp add: prefix_def)
  qed
  ultimately show False using str_find_first [OF f(1)] by blast
qed

lemma join_split_loop: "sep \<noteq> [] \<Longrightarrow> join_str sep (split_loop sep s) = s"
proof (induction "length s" arbitrary: s rule: less_induct)
  case less
  show ?case
  proof (cases "str_find sep s")
    case None
    with less.prems show ?thesis by (simp add: split_loop_None)
  next
    case (Some pos)
    let ?r = "drop (pos + length sep) s"
    note d = str_find_decomp [OF Some] and b = str_find_Some [OF Some]
    show ?thesis
    proof (cases "length s = pos + length sep")
      case True
      with d less.prems Some show ?thesis by (simp add: split_loop_Some)
    next
      case False
      from b less.prems have "length ?r < length s" by (intro drop_shorter) auto
      then have "join_str sep (split_loop sep ?r) = ?r" using less by blast
      moreover have "split_loop sep ?r \<noteq> []" using False b less.prems by (intro split_loop_nonempty) auto
      ultimately show ?thesis using False Some less.prems d by (simp add: split_loop_Some join_str_Cons)
    qed
  qed
qed

lemma split_loop_parts: "sep \<noteq> [] \<Longrightarrow> p \<in> set (split_loop sep s) \<Longrightarrow> \<not> sublist sep p"
proof (induction "length s" arbitrary: s rule: less_induct)
  case less
  show ?case
  proof (cases "str_find sep s")
    case None
    with less.prems show ?thesis by (auto simp: split_loop_None str_find_None split: if_splits)
  next
    case (Some pos)
    note b = str_find_Some [OF Some]
    have "\<not> sublist sep (take pos s)" using Some less.prems(1) by (rule not_sublist_take)
    moreover have "length (drop (pos + length sep) s) < length s"
      using b less.prems(1) by (intro drop_shorter) auto
    then have "p \<in> set (split_loop sep (drop (pos + length sep) s)) \<Longrightarrow> \<not> sublist sep p"
      using less by blast
    ultimately show ?thesis using less.prems Some by (auto simp: split_loop_Some split: if_splits)
  qed
qed

text \<open>
  split takes a string apart without losing anything: for every string and every non-empty
  separator it returns pieces none of which contains the separator, and joining the pieces with
  the separator gives the string back.
\<close>

theorem split_str_join:
  assumes "splitter \<noteq> []"
  shows "\<exists>parts. split_str s splitter = Some parts \<and> join_str splitter parts = s \<and>
           (\<forall>p\<in>set parts. \<not> sublist splitter p)"
  using assms join_split_loop split_loop_parts by (auto simp: split_str_def)

theorem split_str_join_witness:
  "''.'' \<noteq> [] \<and> (\<exists>parts. split_str ''10.0.1'' ''.'' = Some parts \<and> join_str ''.'' parts = ''10.0.1'' \<and>
     (\<forall>p\<in>set parts. \<not> sublist ''.'' p))"
  using split_str_join [of "''.''" "''10.0.1''"] by simp

lemma str_find_single: "str_find [c] (x @ c # y) = Some (length x)" if "c \<notin> set x" for x
  using that by (induction x) auto

lemma split_loop_join:
  "\<forall>p\<in>set ls. c \<notin> set p \<Longrightarrow> ls \<noteq> [[]] \<Longrightarrow> split_loop [c] (join_str [c] ls) = ls"
proof (induction ls rule: induct_list012)
  case 1
  then show ?case by (simp add: split_loop_None)
next
  case (2 x)
  then have "str_find [c] x = None" by (auto simp: str_find_None sublist_def)
  with 2 show ?case by (simp add: split_loop_None)
next
  case (3 x y zs)
  let ?r = "join_str [c] (y # zs)"
  have "str_find [c] (x @ c # ?r) = Some (length x)" using "3.prems" by (simp add: str_find_single)
  moreover have "?r = [] \<longleftrightarrow> y # zs = [[]]" by (cases zs) auto
  ultimately show ?case using 3 by (auto simp: split_loop_Some)
qed

section \<open>Printing and reading numbers\<close>

lemma of_char_of [simp]: "n < 256 \<Longrightarrow> (of_char (char_of n :: char) :: nat) = n"
  by simp

lemma char_digit_digit_char [simp]: "d < base \<Longrightarrow> base \<le> 36 \<Longrightarrow> char_digit base (digit_char d) = Some d"
  by (auto simp: char_digit_def digit_char_def Let_def)

lemma strtol_loop_append:
  "\<forall>c\<in>set xs. char_digit base c \<noteq> None \<Longrightarrow>
   strtol_loop base acc (xs @ ys) = strtol_loop base (strtol_loop base acc xs) ys"
  by (induction xs arbitrary: acc) auto

lemma num_to_str_digits:
  "2 \<le> base \<Longrightarrow> c \<in> set (num_to_str base n) \<Longrightarrow> \<exists>d<base. c = digit_char d"
proof (induction base n rule: num_to_str.induct)
  case (1 base n)
  show ?case
  proof (cases "n < base")
    case True
    with "1.prems" show ?thesis by (subst (asm) num_to_str.simps) auto
  next
    case False
    with "1.prems" have "c = digit_char (n mod base) \<or> c \<in> set (num_to_str base (n div base))"
      by (subst (asm) num_to_str.simps) auto
    moreover have "n mod base < base" using "1.prems" by simp
    moreover have "c \<in> set (num_to_str base (n div base)) \<Longrightarrow> ?thesis" using 1 False by simp
    ultimately show ?thesis by blast
  qed
qed

lemma strtol_loop_num_to_str:
  assumes "2 \<le> base" and "base \<le> 36"
  shows "strtol_loop base 0 (num_to_str base n) = n"
  using assms
proof (induction base n rule: num_to_str.induct)
  case (1 base n)
  have ds: "\<forall>c\<in>set (num_to_str base (n div base)). char_digit base c \<noteq> None"
    using num_to_str_digits [of base] "1.prems" by fastforce
  show ?case
  proof (cases "n < base")
    case True
    with "1.prems" show ?thesis by (subst num_to_str.simps) simp
  next
    case False
    with 1 ds show ?thesis by (subst num_to_str.simps) (simp add: strtol_loop_append)
  qed
qed

lemma num_to_str_nonempty [simp]: "num_to_str base n \<noteq> []"
  by (subst num_to_str.simps) simp

lemma strtol_num_to_str: "2 \<le> base \<Longrightarrow> base \<le> 36 \<Longrightarrow> n < 2 ^ 63 \<Longrightarrow> strtol (num_to_str base n) base = n"
  by (simp add: strtol_def strtol_loop_num_to_str)

lemma strtol_fmt_02x: "n < 2 ^ 63 \<Longrightarrow> strtol (fmt_02x n) 16 = n"
  by (simp add: fmt_02x_def strtol_def strtol_loop_num_to_str char_digit_def)

lemma digit_char_not_sep:
  assumes "d < 36"
  shows "digit_char d \<noteq> CHR ''.''" and "digit_char d \<noteq> CHR '':''"
proof -
  have "(of_char (digit_char d) :: nat) \<noteq> 46" "(of_char (digit_char d) :: nat) \<noteq> 58"
    using assms by (auto simp: digit_char_def)
  moreover have "(of_char CHR ''.'' :: nat) = 46" "(of_char CHR '':'' :: nat) = 58" by simp_all
  ultimately show "digit_char d \<noteq> CHR ''.''" "digit_char d \<noteq> CHR '':''" by metis+
qed

end
