(* ===== verification/Ax25_Address.thy ===== *)
theory Ax25_Address
  imports Str
begin

text \<open>
  AX.25 addresses, the class \<open>ax25_address\<close> of \<^verbatim>\<open>src/ax25.cpp\<close>: a call sign of up to six
  characters, shifted left by one bit in the octets on the air, and an octet with the SSID, the
  end-of-address mark and the repeated bit.
\<close>

unbundle bit_operations_syntax

record ax25_address =
  ax_valid :: bool
  ax_invalid_reason :: string
  ax_address :: string
  ax_ssid :: int
  ax_end_mark :: bool
  ax_repeated :: bool

definition ax25_address_default :: ax25_address where
  "ax25_address_default = \<lparr>ax_valid = False, ax_invalid_reason = [], ax_address = [], ax_ssid = 0,
     ax_end_mark = False, ax_repeated = False\<rparr>"

text \<open>
  The loop over the six call sign octets: the state is the collected text and the flag \<open>end\<close>;
  \<open>Inl i\<close> when octet \<open>i\<close> has its lowest bit set (which octet 5 may in the constructor from
  octets, \<open>last_ok\<close>, but not in the one from an \<open>any_addr\<close>).
\<close>

definition octet_char :: "byte \<Rightarrow> char" where
  "octet_char b = char_of (unat (drop_bit 1 b))"

fun callsign_loop :: "bool \<Rightarrow> nat \<Rightarrow> byte list \<Rightarrow> string \<Rightarrow> bool \<Rightarrow> (nat \<times> string) + string" where
  "callsign_loop last_ok i [] acc fin = Inr acc"
| "callsign_loop last_ok i (b # bs) acc fin =
     (if b AND 1 \<noteq> 0 \<and> \<not> (last_ok \<and> i = 5) then Inl (i, acc)
      else let c = octet_char b in
        if of_char c = (0 :: nat) \<or> of_char c = (32 :: nat) \<or> fin
        then callsign_loop last_ok (Suc i) bs acc True
        else callsign_loop last_ok (Suc i) bs (acc @ [c]) fin)"

definition ssid_octet_set :: "byte \<Rightarrow> ax25_address \<Rightarrow> ax25_address" where
  "ssid_octet_set b a = a\<lparr>ax_end_mark := b AND 1 \<noteq> 0, ax_repeated := b AND 128 = 128,
     ax_ssid := uint (drop_bit 1 b AND 15), ax_valid := True\<rparr>"

text \<open>\<open>ax25_address(const std::vector<uint8_t> &)\<close>.\<close>

definition ax25_address_of_octets :: "byte list \<Rightarrow> ax25_address" where
  "ax25_address_of_octets from =
     (if length from < 7
      then ax25_address_default\<lparr>ax_invalid_reason := ''address too short '' @ fmt_d (length from) @ '' < 7 ''\<rparr>
      else case callsign_loop True 0 (take 6 from) [] False of
        Inl (i, txt) \<Rightarrow> ax25_address_default\<lparr>ax_address := txt,
          ax_invalid_reason := ''byte '' @ fmt_d i @ '' has lsb set ('' @ bin_to_text (take 6 from) False @ '')''\<rparr>
      | Inr txt \<Rightarrow> ssid_octet_set (from ! 6) (ax25_address_default\<lparr>ax_address := txt\<rparr>))"

text \<open>\<open>ax25_address(const any_addr &)\<close>, on the seven octets of the address.\<close>

definition ax25_address_of_addr :: "byte list \<Rightarrow> ax25_address" where
  "ax25_address_of_addr from =
     (case callsign_loop False 0 (take 6 from) [] False of
        Inl (i, txt) \<Rightarrow> ax25_address_default\<lparr>ax_address := txt\<rparr>
      | Inr txt \<Rightarrow> ssid_octet_set (from ! 6) (ax25_address_default\<lparr>ax_address := txt\<rparr>))"

definition ax25_address_make :: "string \<Rightarrow> int \<Rightarrow> bool \<Rightarrow> bool \<Rightarrow> ax25_address" where
  "ax25_address_make a ssid end_mark repeated =
     \<lparr>ax_valid = True, ax_invalid_reason = [], ax_address = a, ax_ssid = ssid,
      ax_end_mark = end_mark, ax_repeated = repeated\<rparr>"

text \<open>
  \<open>ax25_address(const std::string &, bool, bool)\<close>: the SSID is the character after the dash,
  as its code; \<open>a[dash + 1]\<close> behind the end of the string reads the terminating zero.
\<close>

definition ax25_address_of_string :: "string \<Rightarrow> bool \<Rightarrow> bool \<Rightarrow> ax25_address" where
  "ax25_address_of_string a end_mark repeated =
     (case str_find ''-'' a of
        Some dash \<Rightarrow> ax25_address_make (take dash a)
          (if dash + 1 < length a then of_char (a ! (dash + 1)) else 0) end_mark repeated
      | None \<Rightarrow> ax25_address_make a 0 end_mark repeated)"

text \<open>\<open>operator==\<close> ignores the end mark and the repeated bit.\<close>

definition ax25_address_eq :: "ax25_address \<Rightarrow> ax25_address \<Rightarrow> bool" where
  "ax25_address_eq a other \<longleftrightarrow>
     (if ax_valid other \<noteq> ax_valid a then False
      else if ax_address other \<noteq> ax_address a then False
      else if ax_ssid other \<noteq> ax_ssid a then False
      else True)"

definition set_address :: "string \<Rightarrow> int \<Rightarrow> ax25_address \<Rightarrow> ax25_address" where
  "set_address txt ssid a = a\<lparr>ax_address := txt, ax_ssid := ssid\<rparr>"

definition char_octet :: "char \<Rightarrow> byte" where
  "char_octet c = push_bit 1 (of_nat (of_char c))"

definition ssid_octet :: "int \<Rightarrow> bool \<Rightarrow> bool \<Rightarrow> byte" where
  "ssid_octet s e r = push_bit 1 (word_of_int s) OR (if e then 1 else 0) OR (if r then 128 else 0)"

definition generate_address :: "ax25_address \<Rightarrow> byte list" where
  "generate_address a =
     (let put_n = min 6 (length (ax_address a))
      in map char_octet (take put_n (ax_address a)) @ replicate (6 - put_n) (char_octet CHR '' '') @
         [ssid_octet (ax_ssid a) (ax_end_mark a) (ax_repeated a)])"

text \<open>\<open>to_str\<close>; the SSID is printed with \<open>%d\<close>.\<close>

definition ax25_address_to_str :: "ax25_address \<Rightarrow> string" where
  "ax25_address_to_str a = ax_address a @ ''-'' @
     (if ax_ssid a < 0 then ''-'' else []) @ fmt_d (nat \<bar>ax_ssid a\<bar>)"

section \<open>Addresses survive the air interface\<close>

lemma length_generate_address [simp]: "length (generate_address a) = 7"
  by (simp add: generate_address_def Let_def)

definition callsign_char :: "char \<Rightarrow> bool" where
  "callsign_char c \<longleftrightarrow> of_char c < (128 :: nat) \<and> of_char c \<noteq> (0 :: nat) \<and> of_char c \<noteq> (32 :: nat)"

text \<open>What a call sign looks like: up to six printable 7 bit characters, an SSID of four bits.\<close>

definition wf_ax25 :: "ax25_address \<Rightarrow> bool" where
  "wf_ax25 a \<longleftrightarrow> ax_valid a \<and> ax_invalid_reason a = [] \<and> length (ax_address a) \<le> 6 \<and>
     list_all callsign_char (ax_address a) \<and> 0 \<le> ax_ssid a \<and> ax_ssid a < 16"

lemma char_octet_even: "of_char c < (128 :: nat) \<Longrightarrow> char_octet c AND 1 = 0"
  unfolding char_octet_def
  by (rule bit_word_eqI) (simp only: bit_and_iff bit_push_bit_iff bit_1_iff bit_0_eq, auto)

lemma octet_char_octet: "of_char c < (128 :: nat) \<Longrightarrow> octet_char (char_octet c) = c"
proof -
  assume c: "of_char c < (128 :: nat)"
  have "unat (char_octet c) = 2 * of_char c"
    using c by (simp add: char_octet_def unat_word_ariths unat_of_nat)
  then have "unat (drop_bit 1 (char_octet c)) = of_char c"
    by (simp add: drop_bit_eq_div unat_div)
  then show ?thesis by (simp add: octet_char_def)
qed

lemma callsign_loop_chars:
  "list_all callsign_char cs \<Longrightarrow>
   callsign_loop ok i (map char_octet cs @ bs) acc False = callsign_loop ok (i + length cs) bs (acc @ cs) False"
  by (induction cs arbitrary: i acc)
    (auto simp: callsign_char_def char_octet_even octet_char_octet)

lemma callsign_loop_spaces:
  "callsign_loop ok i (replicate k (char_octet CHR '' '')) acc fin = Inr acc"
  by (induction k arbitrary: i fin) (auto simp: char_octet_even octet_char_octet)

lemma ssid_octet_roundtrip:
  assumes "0 \<le> s" and "s < 16"
  shows "ssid_octet s e r AND 1 \<noteq> 0 \<longleftrightarrow> e"
    and "ssid_octet s e r AND 128 = 128 \<longleftrightarrow> r"
    and "uint (drop_bit 1 (ssid_octet s e r) AND 15) = s"
proof -
  have "s = 0 \<or> s = 1 \<or> s = 2 \<or> s = 3 \<or> s = 4 \<or> s = 5 \<or> s = 6 \<or> s = 7 \<or> s = 8 \<or> s = 9 \<or> s = 10 \<or>
      s = 11 \<or> s = 12 \<or> s = 13 \<or> s = 14 \<or> s = 15"
    using assms by presburger
  then show "ssid_octet s e r AND 1 \<noteq> 0 \<longleftrightarrow> e" "ssid_octet s e r AND 128 = 128 \<longleftrightarrow> r"
    "uint (drop_bit 1 (ssid_octet s e r) AND 15) = s"
    unfolding ssid_octet_def by (elim disjE; cases e; cases r; simp)+
qed

lemma generate_address_split:
  assumes "wf_ax25 a"
  shows "take 6 (generate_address a) = map char_octet (ax_address a) @
      replicate (6 - length (ax_address a)) (char_octet CHR '' '')"
    and "generate_address a ! 6 = ssid_octet (ax_ssid a) (ax_end_mark a) (ax_repeated a)"
  using assms by (auto simp: generate_address_def Let_def wf_ax25_def nth_append)

lemma generate_address_parsed:
  assumes "wf_ax25 a"
  shows "ax25_address_of_octets (generate_address a) = a \<and> ax25_address_of_addr (generate_address a) = a"
proof -
  have ssid: "0 \<le> ax_ssid a" "ax_ssid a < 16" and cs: "list_all callsign_char (ax_address a)"
    and val: "ax_valid a" "ax_invalid_reason a = []"
    using assms by (auto simp: wf_ax25_def)
  have "callsign_loop ok 0 (take 6 (generate_address a)) [] False = Inr (ax_address a)" for ok
    by (simp add: generate_address_split [OF assms] callsign_loop_chars [OF cs] callsign_loop_spaces)
  moreover have "ssid_octet_set (generate_address a ! 6) (ax25_address_default\<lparr>ax_address := ax_address a\<rparr>) = a"
    by (simp add: generate_address_split [OF assms] ssid_octet_set_def ssid_octet_roundtrip [OF ssid]
        ax25_address_default_def val del: One_nat_def)
  ultimately show ?thesis
    by (simp add: ax25_address_of_octets_def ax25_address_of_addr_def)
qed

text \<open>
  An AX.25 address with a call sign of up to six characters and a four bit SSID survives the
  way over the air: the seven octets generate_address writes are parsed back, by the constructor
  from octets as well as by the one from an any_addr, into the same call sign, SSID, end mark and
  repeated bit, and the parsed address is valid.
\<close>

theorem ax25_address_roundtrip:
  assumes "wf_ax25 a"
  shows "ax25_address_of_octets (generate_address a) = a \<and> ax25_address_of_addr (generate_address a) = a"
  using assms by (rule generate_address_parsed)

theorem ax25_address_roundtrip_witness:
  "wf_ax25 (ax25_address_make ''PD9FVH'' 7 True False) \<and>
   ax25_address_of_octets (generate_address (ax25_address_make ''PD9FVH'' 7 True False))
     = ax25_address_make ''PD9FVH'' 7 True False"
proof -
  have "wf_ax25 (ax25_address_make ''PD9FVH'' 7 True False)"
    by (simp add: wf_ax25_def ax25_address_make_def callsign_char_def)
  with ax25_address_roundtrip [OF this] show ?thesis by simp
qed

text \<open>
  The SSID of an address given as text is taken from the code of the character after the dash,
  not from the number there: "PD9FVH-7" yields SSID 55, is printed as "PD9FVH-55" and differs,
  by operator==, from the address a receiver gets after the way over the air; of a two digit SSID
  only the first digit is used.
\<close>

theorem ax25_ssid_is_char_code:
  "ax25_address_to_str (ax25_address_of_string ''PD9FVH-7'' True False) = ''PD9FVH-55'' \<and>
   \<not> ax25_address_eq (ax25_address_of_string ''PD9FVH-7'' True False)
       (ax25_address_of_octets (generate_address (ax25_address_of_string ''PD9FVH-7'' True False))) \<and>
   ax_ssid (ax25_address_of_octets (generate_address (ax25_address_of_string ''PD9FVH-12'' True False))) = 1"
  by code_simp

end
