(* ===== verification/Buffer.thy ===== *)
theory Buffer
  imports Prelude
begin

text \<open>
  The cursors every parser and every packet builder works with: \<open>buffer_in\<close>
  (\<^verbatim>\<open>src/buffer_in.cpp\<close>), a bounds-checked reader over an octet region, and \<open>buffer_out\<close>
  (\<^verbatim>\<open>src/buffer_out.cpp\<close>), a growing vector with back-patching of length fields.
\<close>

unbundle bit_operations_syntax

section \<open>buffer_in\<close>

text \<open>
  \<open>bi_p\<close> is the memory that starts at the pointer \<open>p\<close>; \<open>bi_size\<close> and \<open>bi_o\<close> are the
  \<open>int\<close> fields of the class.  A read outside the memory is undefined behaviour.
\<close>

record buffer_in =
  bi_p :: "byte list"
  bi_size :: int
  bi_o :: int

definition buffer_in_empty :: buffer_in where
  "buffer_in_empty = \<lparr>bi_p = [], bi_size = 0, bi_o = 0\<rparr>"

definition buffer_in_new :: "byte list \<Rightarrow> int \<Rightarrow> buffer_in" where
  "buffer_in_new p sz = \<lparr>bi_p = p, bi_size = sz, bi_o = 0\<rparr>"

text \<open>The copy constructor takes the pointer and the size, not the offset.\<close>

definition buffer_in_copy :: "buffer_in \<Rightarrow> buffer_in" where
  "buffer_in_copy b = \<lparr>bi_p = bi_p b, bi_size = bi_size b, bi_o = 0\<rparr>"

text \<open>The octets \<open>p[o] \<dots> p[o + n - 1]\<close>.\<close>

definition read_mem :: "byte list \<Rightarrow> int \<Rightarrow> int \<Rightarrow> byte list res" where
  "read_mem p off n =
     (if 0 \<le> off \<and> 0 \<le> n \<and> off + n \<le> int (length p)
      then Inr (take (nat n) (drop (nat off) p)) else Inl Undefined_behaviour)"

text \<open>The guard \<^verbatim>\<open>if (o + len > size) throw std::out_of_range(name)\<close> of every multi-octet read.\<close>

definition need :: "buffer_in \<Rightarrow> int \<Rightarrow> string \<Rightarrow> unit res" where
  "need b len name =
     (if \<not> int_fits (bi_o b + len) then Inl Undefined_behaviour
      else if bi_o b + len > bi_size b then Inl (Out_of_range name)
      else Inr ())"

definition advance :: "buffer_in \<Rightarrow> int \<Rightarrow> buffer_in" where
  "advance b len = b\<lparr>bi_o := bi_o b + len\<rparr>"

definition get_net_byte :: "buffer_in \<Rightarrow> (byte \<times> buffer_in) res" where
  "get_net_byte b =
     (if bi_o b \<ge> bi_size b then Inl (Out_of_range ''buffer_in::get_net_byte'')
      else rbind (read_mem (bi_p b) (bi_o b) 1) (\<lambda>bs. Inr (bs ! 0, advance b 1)))"

definition get_net_short :: "buffer_in \<Rightarrow> (u16 \<times> buffer_in) res" where
  "get_net_short b =
     rbind (need b 2 ''buffer_in::get_net_short'') (\<lambda>_.
     rbind (read_mem (bi_p b) (bi_o b) 2) (\<lambda>bs.
     Inr (mk16 (bs ! 0) (bs ! 1), advance b 2)))"

definition get_net_long :: "buffer_in \<Rightarrow> (u32 \<times> buffer_in) res" where
  "get_net_long b =
     rbind (need b 4 ''buffer_in::get_net_long'') (\<lambda>_.
     rbind (read_mem (bi_p b) (bi_o b) 4) (\<lambda>bs.
     Inr (mk32 (bs ! 0) (bs ! 1) (bs ! 2) (bs ! 3), advance b 4)))"

definition get_net_long_long :: "buffer_in \<Rightarrow> (u64 \<times> buffer_in) res" where
  "get_net_long_long b =
     rbind (need b 8 ''buffer_in::get_net_long_long'') (\<lambda>_.
     rbind (read_mem (bi_p b) (bi_o b) 8) (\<lambda>bs.
     Inr (foldl shift_in 0 bs, advance b 8)))"

text \<open>
  \<open>get_segment\<close> hands out a reader over the memory at the cursor, \<open>get_string\<close> and
  \<open>get_bytes\<close> the octets themselves; a negative length is caught by none of the guards.
\<close>

definition get_segment :: "buffer_in \<Rightarrow> int \<Rightarrow> (buffer_in \<times> buffer_in) res" where
  "get_segment b len =
     rbind (need b len ''buffer_in::get_segment'') (\<lambda>_.
     if bi_o b < 0 then Inl Undefined_behaviour
     else Inr (buffer_in_new (drop (nat (bi_o b)) (bi_p b)) len, advance b len))"

definition get_string :: "buffer_in \<Rightarrow> int \<Rightarrow> (byte list \<times> buffer_in) res" where
  "get_string b len =
     rbind (need b len ''buffer_in::get_segment'') (\<lambda>_.
     rbind (read_mem (bi_p b) (bi_o b) len) (\<lambda>bs. Inr (bs, advance b len)))"

definition seek :: "buffer_in \<Rightarrow> int \<Rightarrow> buffer_in res" where
  "seek b len = rbind (need b len ''buffer_in::seek'') (\<lambda>_. Inr (advance b len))"

definition end_reached :: "buffer_in \<Rightarrow> bool" where
  "end_reached b \<longleftrightarrow> bi_o b = bi_size b"

definition get_n_bytes_left :: "buffer_in \<Rightarrow> int" where
  "get_n_bytes_left b = bi_size b - bi_o b"

definition peek :: "buffer_in \<Rightarrow> byte list res" where
  "peek b = read_mem (bi_p b) (bi_o b) (bi_size b - bi_o b)"

definition get_bytes :: "buffer_in \<Rightarrow> int \<Rightarrow> (byte list \<times> buffer_in) res" where
  "get_bytes b len =
     rbind (need b len ''buffer_in::get_bytes'') (\<lambda>_.
     rbind (read_mem (bi_p b) (bi_o b) len) (\<lambda>bs. Inr (bs, advance b len)))"

text \<open>\<open>get_variable_size_integer\<close>: \<open>len\<close> octets, shifted into 64 bits.\<close>

definition get_variable_size_integer :: "buffer_in \<Rightarrow> int \<Rightarrow> (u64 \<times> buffer_in) res" where
  "get_variable_size_integer b len = read_loop get_net_byte shift_in (nat len) 0 b"

section \<open>buffer_out\<close>

type_synonym buffer_out = "byte list"

definition add_net_byte :: "byte \<Rightarrow> buffer_out \<Rightarrow> buffer_out" where
  "add_net_byte b buf = buf @ [b]"

definition add_net_short :: "u16 \<Rightarrow> buffer_out \<Rightarrow> buffer_out" where
  "add_net_short s buf = buf @ [ucast (drop_bit 8 s)] @ [ucast s]"

definition add_net_long :: "u32 \<Rightarrow> buffer_out \<Rightarrow> buffer_out" where
  "add_net_long l buf =
     buf @ [ucast (drop_bit 24 l)] @ [ucast (drop_bit 16 l)] @ [ucast (drop_bit 8 l)] @ [ucast l]"

text \<open>
  \<open>buffer.at(i) = v\<close>; the index is a \<open>ssize_t\<close> converted to \<open>size_t\<close>, so that a negative
  one is out of range.
\<close>

definition vec_at_put :: "buffer_out \<Rightarrow> int \<Rightarrow> byte \<Rightarrow> buffer_out res" where
  "vec_at_put buf i v =
     (if 0 \<le> i \<and> i < int (length buf) then Inr (buf[nat i := v])
      else Inl (Out_of_range ''vector::at''))"

definition add_net_short_at :: "u16 \<Rightarrow> int \<Rightarrow> buffer_out \<Rightarrow> (int \<times> buffer_out) res" where
  "add_net_short_at s offset buf =
     (if offset \<noteq> -1 then
        rbind (vec_at_put buf (offset + 0) (ucast (drop_bit 8 s))) (\<lambda>b1.
        rbind (vec_at_put b1 (offset + 1) (ucast s)) (\<lambda>b2.
        Inr (offset, b2)))
      else Inr (int (length buf), buf @ [ucast (drop_bit 8 s)] @ [ucast s]))"

definition add_net_long_at :: "u32 \<Rightarrow> int \<Rightarrow> buffer_out \<Rightarrow> (int \<times> buffer_out) res" where
  "add_net_long_at l offset buf =
     (if offset \<noteq> -1 then
        rbind (vec_at_put buf (offset + 0) (ucast (drop_bit 24 l))) (\<lambda>b1.
        rbind (vec_at_put b1 (offset + 1) (ucast (drop_bit 16 l))) (\<lambda>b2.
        rbind (vec_at_put b2 (offset + 2) (ucast (drop_bit 8 l))) (\<lambda>b3.
        rbind (vec_at_put b3 (offset + 3) (ucast l)) (\<lambda>b4.
        Inr (offset, b4)))))
      else Inr (int (length buf),
        buf @ [ucast (drop_bit 24 l)] @ [ucast (drop_bit 16 l)] @ [ucast (drop_bit 8 l)] @ [ucast l]))"

definition add_buffer_out :: "buffer_out \<Rightarrow> buffer_out \<Rightarrow> buffer_out" where
  "add_buffer_out o' buf = buf @ o'"

definition add_buffer_in :: "buffer_in \<Rightarrow> buffer_out \<Rightarrow> (buffer_out \<times> buffer_in) res" where
  "add_buffer_in i buf = read_loop get_net_byte (\<lambda>acc c. acc @ [c]) (nat (get_n_bytes_left i)) buf i"

definition add_buffer :: "byte list \<Rightarrow> nat \<Rightarrow> buffer_out \<Rightarrow> buffer_out res" where
  "add_buffer p l buf = (if l \<le> length p then Inr (buf @ take l p) else Inl Undefined_behaviour)"

text \<open>\<open>add_padding\<close>: \<open>m\<close> is an \<open>int\<close>; the modulus by zero is undefined.\<close>

definition add_padding :: "nat \<Rightarrow> buffer_out \<Rightarrow> buffer_out res" where
  "add_padding m buf =
     (if m = 0 then Inl Undefined_behaviour
      else let padding = m - length buf mod m
           in if padding \<noteq> m then Inr (buf @ replicate padding 0) else Inr buf)"

definition compare :: "buffer_out \<Rightarrow> buffer_in \<Rightarrow> bool res" where
  "compare buf b = rbind (peek b) (\<lambda>p. Inr (p = buf))"

definition get_size :: "buffer_out \<Rightarrow> nat" where
  "get_size buf = length buf"

section \<open>The reader as a list of octets still to come\<close>

text \<open>
  A reader is well formed when its cursor lies inside the region it was given and the region
  lies inside the memory.  The bound on the size keeps the \<open>int\<close> arithmetic of the guards
  in range; an IP packet has at most 65535 octets.
\<close>

definition wf_in :: "buffer_in \<Rightarrow> bool" where
  "wf_in b \<longleftrightarrow> 0 \<le> bi_o b \<and> bi_o b \<le> bi_size b \<and> bi_size b \<le> int (length (bi_p b)) \<and>
     bi_size b < 2 ^ 30"

definition octets_left :: "buffer_in \<Rightarrow> byte list" where
  "octets_left b = take (nat (bi_size b - bi_o b)) (drop (nat (bi_o b)) (bi_p b))"

lemma wf_in_new: "length p < 2 ^ 30 \<Longrightarrow> wf_in (buffer_in_new p (int (length p)))"
  by (simp add: wf_in_def buffer_in_new_def)

lemma octets_left_new [simp]: "octets_left (buffer_in_new p (int (length p))) = p"
  by (simp add: octets_left_def buffer_in_new_def)

lemma length_octets_left: "wf_in b \<Longrightarrow> int (length (octets_left b)) = get_n_bytes_left b"
  by (auto simp: wf_in_def octets_left_def get_n_bytes_left_def min_def)

lemma octets_left_advance:
  "wf_in b \<Longrightarrow> 0 \<le> n \<Longrightarrow> octets_left (advance b n) = drop (nat n) (octets_left b)"
proof -
  assume *: "wf_in b" "0 \<le> n"
  then have "nat (bi_size b - bi_o b) - nat n = nat (bi_size b - (bi_o b + n))"
    "nat n + nat (bi_o b) = nat (bi_o b + n)"
    by (auto simp: wf_in_def)
  with * show ?thesis by (simp add: octets_left_def advance_def drop_take)
qed

lemma wf_in_advance:
  "wf_in b \<Longrightarrow> 0 \<le> n \<Longrightarrow> n \<le> int (length (octets_left b)) \<Longrightarrow> wf_in (advance b n)"
  by (simp add: length_octets_left get_n_bytes_left_def) (simp add: wf_in_def advance_def)

lemma need_ok:
  "wf_in b \<Longrightarrow> 0 \<le> n \<Longrightarrow> n \<le> int (length (octets_left b)) \<Longrightarrow> need b n name = Inr ()"
  by (simp add: length_octets_left get_n_bytes_left_def) (simp add: need_def wf_in_def int_fits_def)

lemma need_fails:
  "wf_in b \<Longrightarrow> int (length (octets_left b)) < n \<Longrightarrow> n \<le> 2 ^ 30 \<Longrightarrow>
   need b n name = Inl (Out_of_range name)"
  by (simp add: length_octets_left get_n_bytes_left_def) (simp add: need_def wf_in_def int_fits_def)

lemma read_mem_left:
  "wf_in b \<Longrightarrow> 0 \<le> n \<Longrightarrow> n \<le> int (length (octets_left b)) \<Longrightarrow>
   read_mem (bi_p b) (bi_o b) n = Inr (take (nat n) (octets_left b))"
  by (simp add: length_octets_left get_n_bytes_left_def)
    (auto simp: read_mem_def wf_in_def octets_left_def min_def)

lemmas reader_simps = need_ok need_fails read_mem_left

lemma get_net_byte_Nil:
  "wf_in b \<Longrightarrow> octets_left b = [] \<Longrightarrow> get_net_byte b = Inl (Out_of_range ''buffer_in::get_net_byte'')"
  using length_octets_left [of b] by (simp add: get_net_byte_def get_n_bytes_left_def)

lemma get_net_byte_Cons:
  assumes "wf_in b" and "octets_left b = c # cs"
  shows "get_net_byte b = Inr (c, advance b 1)"
proof -
  have "bi_o b < bi_size b"
    using length_octets_left [OF assms(1)] assms(2) by (simp add: get_n_bytes_left_def)
  with assms show ?thesis by (simp add: get_net_byte_def read_mem_left)
qed

interpretation bi: octet_source get_net_byte octets_left wf_in "Out_of_range ''buffer_in::get_net_byte''"
proof
  fix b c cs assume *: "wf_in b" "octets_left b = c # cs"
  then show "\<exists>b'. get_net_byte b = Inr (c, b') \<and> wf_in b' \<and> octets_left b' = cs"
    by (simp add: get_net_byte_Cons wf_in_advance octets_left_advance)
qed (simp add: get_net_byte_Nil)

lemma get_net_short_left:
  "wf_in b \<Longrightarrow> get_net_short b =
     (case octets_left b of
        x # y # _ \<Rightarrow> Inr (mk16 x y, advance b 2)
      | _ \<Rightarrow> Inl (Out_of_range ''buffer_in::get_net_short''))"
  by (auto simp: get_net_short_def reader_simps split: list.splits)

lemma get_net_long_left:
  "wf_in b \<Longrightarrow> get_net_long b =
     (case octets_left b of
        x # y # z # u # _ \<Rightarrow> Inr (mk32 x y z u, advance b 4)
      | _ \<Rightarrow> Inl (Out_of_range ''buffer_in::get_net_long''))"
  by (auto simp: get_net_long_def reader_simps split: list.splits)

lemma get_net_long_long_left:
  "wf_in b \<Longrightarrow> get_net_long_long b =
     (if 8 \<le> length (octets_left b)
      then Inr (foldl shift_in 0 (take 8 (octets_left b)), advance b 8)
      else Inl (Out_of_range ''buffer_in::get_net_long_long''))"
  by (auto simp: get_net_long_long_def reader_simps)

lemma get_bytes_left:
  "wf_in b \<Longrightarrow> 0 \<le> n \<Longrightarrow> n \<le> 2 ^ 30 \<Longrightarrow> get_bytes b n =
     (if n \<le> int (length (octets_left b)) then Inr (take (nat n) (octets_left b), advance b n)
      else Inl (Out_of_range ''buffer_in::get_bytes''))"
  by (auto simp: get_bytes_def reader_simps)

lemma get_string_left:
  "wf_in b \<Longrightarrow> 0 \<le> n \<Longrightarrow> n \<le> 2 ^ 30 \<Longrightarrow> get_string b n =
     (if n \<le> int (length (octets_left b)) then Inr (take (nat n) (octets_left b), advance b n)
      else Inl (Out_of_range ''buffer_in::get_segment''))"
  by (auto simp: get_string_def reader_simps)

lemma seek_left:
  "wf_in b \<Longrightarrow> 0 \<le> n \<Longrightarrow> n \<le> 2 ^ 30 \<Longrightarrow> seek b n =
     (if n \<le> int (length (octets_left b)) then Inr (advance b n)
      else Inl (Out_of_range ''buffer_in::seek''))"
  by (auto simp: seek_def reader_simps)

lemma get_segment_left:
  "wf_in b \<Longrightarrow> 0 \<le> n \<Longrightarrow> n \<le> 2 ^ 30 \<Longrightarrow> get_segment b n =
     (if n \<le> int (length (octets_left b))
      then Inr (buffer_in_new (drop (nat (bi_o b)) (bi_p b)) n, advance b n)
      else Inl (Out_of_range ''buffer_in::get_segment''))"
  by (auto simp: get_segment_def reader_simps) (simp add: wf_in_def)

lemma peek_left: "wf_in b \<Longrightarrow> peek b = Inr (octets_left b)"
  using read_mem_left [of b "int (length (octets_left b))"] length_octets_left [of b]
  by (simp add: peek_def get_n_bytes_left_def)

lemmas getter_simps = get_net_short_left get_net_long_left get_net_long_long_left
  get_bytes_left get_string_left seek_left get_segment_left

section \<open>Sequences of reads\<close>

text \<open>The calls a parser makes on one reader, and a parser's run of them.\<close>

datatype in_op =
    GetByte | GetShort | GetLong | GetLongLong
  | GetBytes int | GetString int | GetSegment int | Seek int

fun in_step :: "in_op \<Rightarrow> buffer_in \<Rightarrow> buffer_in res" where
  "in_step GetByte b = rbind (get_net_byte b) (Inr \<circ> snd)"
| "in_step GetShort b = rbind (get_net_short b) (Inr \<circ> snd)"
| "in_step GetLong b = rbind (get_net_long b) (Inr \<circ> snd)"
| "in_step GetLongLong b = rbind (get_net_long_long b) (Inr \<circ> snd)"
| "in_step (GetBytes n) b = rbind (get_bytes b n) (Inr \<circ> snd)"
| "in_step (GetString n) b = rbind (get_string b n) (Inr \<circ> snd)"
| "in_step (GetSegment n) b = rbind (get_segment b n) (Inr \<circ> snd)"
| "in_step (Seek n) b = seek b n"

fun in_run :: "in_op list \<Rightarrow> buffer_in \<Rightarrow> buffer_in res" where
  "in_run [] b = Inr b"
| "in_run (x # xs) b = rbind (in_step x b) (in_run xs)"

fun op_len :: "in_op \<Rightarrow> int" where
  "op_len GetByte = 1"
| "op_len GetShort = 2"
| "op_len GetLong = 4"
| "op_len GetLongLong = 8"
| "op_len (GetBytes n) = n"
| "op_len (GetString n) = n"
| "op_len (GetSegment n) = n"
| "op_len (Seek n) = n"

definition op_ok :: "in_op \<Rightarrow> bool" where
  "op_ok x \<longleftrightarrow> 0 \<le> op_len x \<and> op_len x \<le> 2 ^ 30"

lemma in_step_cases:
  assumes "wf_in b" and "op_ok x"
  shows "if op_len x \<le> int (length (octets_left b)) then in_step x b = Inr (advance b (op_len x))
         else \<exists>name. in_step x b = Inl (Out_of_range name)"
proof (cases x)
  case GetByte
  with assms show ?thesis
    by (cases "octets_left b") (auto simp: get_net_byte_Nil get_net_byte_Cons)
next
  case GetShort
  with assms show ?thesis by (auto simp: getter_simps split: list.splits)
next
  case GetLong
  with assms show ?thesis by (auto simp: getter_simps split: list.splits)
qed (use assms in \<open>auto simp: op_ok_def getter_simps\<close>)

lemma in_step_wf: "wf_in b \<Longrightarrow> op_ok x \<Longrightarrow> in_step x b = Inr b' \<Longrightarrow> wf_in b' \<and>
    octets_left b' = drop (nat (op_len x)) (octets_left b)"
  using in_step_cases [of b x]
  by (auto simp: op_ok_def wf_in_advance octets_left_advance split: if_splits)

text \<open>
  C37. A parser that makes any sequence of reads with lengths between 0 and 2^30 on a well-formed
  reader never reads outside the region: the run either ends with the well-formed reader that has
  consumed exactly the octets asked for, which happens iff there were that many, or it is stopped
  by the std::out_of_range exception of the first read that asks for too much.
\<close>

theorem in_run_safe:
  assumes "wf_in b" and "\<forall>x\<in>set xs. op_ok x"
  shows "if sum_list (map op_len xs) \<le> get_n_bytes_left b
         then \<exists>b'. in_run xs b = Inr b' \<and> wf_in b' \<and>
                octets_left b' = drop (nat (sum_list (map op_len xs))) (octets_left b)
         else \<exists>name. in_run xs b = Inl (Out_of_range name)"
  using assms
proof (induction xs arbitrary: b)
  case Nil
  then show ?case using length_octets_left [of b] by simp
next
  case (Cons x xs)
  have x: "wf_in b" "op_ok x" and nn: "0 \<le> sum_list (map op_len xs)"
    using Cons.prems by (auto simp: op_ok_def intro!: sum_list_nonneg)
  note left = length_octets_left [OF x(1)]
  show ?case
  proof (cases "op_len x \<le> int (length (octets_left b))")
    case False
    with in_step_cases [OF x] left nn show ?thesis by auto
  next
    case True
    let ?b = "advance b (op_len x)"
    have step: "in_step x b = Inr ?b" using in_step_cases [OF x] True by simp
    then have wf: "wf_in ?b" and oct: "octets_left ?b = drop (nat (op_len x)) (octets_left b)"
      using in_step_wf [OF x] by blast+
    have nb: "get_n_bytes_left ?b = get_n_bytes_left b - op_len x"
      by (simp add: get_n_bytes_left_def advance_def)
    have len: "nat (op_len x + sum_list (map op_len xs)) =
        nat (sum_list (map op_len xs)) + nat (op_len x)"
      using x nn by (simp add: op_ok_def nat_add_distrib)
    show ?thesis
      using Cons.IH [OF wf] Cons.prems step nb oct len by (auto split: if_splits)
  qed
qed

theorem in_run_safe_witness:
  "wf_in (buffer_in_new [1, 2, 3] 3) \<and>
   (\<exists>b'. in_run [GetShort, GetByte] (buffer_in_new [1, 2, 3] 3) = Inr b' \<and> wf_in b' \<and> octets_left b' = [])"
proof -
  have wf: "wf_in (buffer_in_new [1, 2, 3] 3)"
    by (simp add: wf_in_def buffer_in_new_def)
  have "octets_left (buffer_in_new [1, 2, 3] 3) = [1, 2, 3]"
    by (simp add: octets_left_def buffer_in_new_def)
  with in_run_safe [OF wf, of "[GetShort, GetByte]"] wf show ?thesis
    by (simp add: op_ok_def get_n_bytes_left_def buffer_in_new_def)
qed

section \<open>Builder and reader together\<close>

text \<open>
  A message as the sequence of fields its builder writes; a parser that knows the layout reads
  the fields back in the same order.
\<close>

datatype field = F8 byte | F16 u16 | F32 u32 | FRaw "byte list"

fun write_field :: "field \<Rightarrow> buffer_out \<Rightarrow> buffer_out" where
  "write_field (F8 b) buf = add_net_byte b buf"
| "write_field (F16 s) buf = add_net_short s buf"
| "write_field (F32 l) buf = add_net_long l buf"
| "write_field (FRaw bs) buf = add_buffer_out bs buf"

fun read_field :: "field \<Rightarrow> buffer_in \<Rightarrow> (field \<times> buffer_in) res" where
  "read_field (F8 _) b = rbind (get_net_byte b) (\<lambda>(v, b'). Inr (F8 v, b'))"
| "read_field (F16 _) b = rbind (get_net_short b) (\<lambda>(v, b'). Inr (F16 v, b'))"
| "read_field (F32 _) b = rbind (get_net_long b) (\<lambda>(v, b'). Inr (F32 v, b'))"
| "read_field (FRaw bs) b = rbind (get_bytes b (int (length bs))) (\<lambda>(v, b'). Inr (FRaw v, b'))"

fun read_fields :: "field list \<Rightarrow> buffer_in \<Rightarrow> (field list \<times> buffer_in) res" where
  "read_fields [] b = Inr ([], b)"
| "read_fields (f # fs) b =
     rbind (read_field f b) (\<lambda>(v, b'). rbind (read_fields fs b') (\<lambda>(vs, b''). Inr (v # vs, b'')))"

definition field_octets :: "field \<Rightarrow> byte list" where
  "field_octets f = write_field f []"

lemma field_octets_simps [simp]:
  "field_octets (F8 b) = [b]"
  "field_octets (F16 s) = bytes16 s"
  "field_octets (F32 l) = bytes32 l"
  "field_octets (FRaw bs) = bs"
  by (simp_all add: field_octets_def add_net_byte_def add_net_short_def add_net_long_def
      add_buffer_out_def bytes16_def bytes32_def)

lemma write_field_app: "write_field f buf = buf @ field_octets f"
  by (cases f) (simp_all add: add_net_byte_def add_net_short_def add_net_long_def
      add_buffer_out_def bytes16_def bytes32_def)

lemma fold_write_field: "fold write_field fs buf = buf @ concat (map field_octets fs)"
  by (induction fs arbitrary: buf) (simp_all add: write_field_app)

lemma read_field_octets:
  assumes "wf_in b" and "octets_left b = field_octets f @ rest"
  shows "\<exists>b'. read_field f b = Inr (f, b') \<and> wf_in b' \<and> octets_left b' = rest"
proof (cases f)
  case (F8 c)
  with assms bi.get_next [of b c rest] show ?thesis by auto
next
  case (FRaw bs)
  have "length bs \<le> 2 ^ 30"
    using length_octets_left [OF assms(1)] assms FRaw by (simp add: get_n_bytes_left_def wf_in_def)
  with assms FRaw show ?thesis
    by (simp add: getter_simps wf_in_advance octets_left_advance)
qed (use assms in \<open>auto simp: getter_simps bytes16_def bytes32_def codec_simps wf_in_advance octets_left_advance\<close>)

lemma read_fields_octets:
  "wf_in b \<Longrightarrow> octets_left b = concat (map field_octets fs) @ rest \<Longrightarrow>
   \<exists>b'. read_fields fs b = Inr (fs, b') \<and> wf_in b' \<and> octets_left b' = rest"
proof (induction fs arbitrary: b)
  case (Cons f fs)
  then obtain b' where b': "read_field f b = Inr (f, b')" "wf_in b'"
    "octets_left b' = concat (map field_octets fs) @ rest"
    using read_field_octets [of b f] by auto
  from Cons.IH [OF b'(2,3)] b'(1) show ?case by auto
qed simp

text \<open>
  Round trip between buffer_out and buffer_in: whatever octets, 16 bit words, 32 bit words and
  raw blocks a builder appends, in any order and number, a reader over the built buffer returns
  exactly those values and has then reached the end.
\<close>

theorem buffer_roundtrip:
  fixes fs :: "field list"
  defines "buf \<equiv> fold write_field fs []"
  assumes "get_size buf < 2 ^ 30"
  shows "\<exists>b'. read_fields fs (buffer_in_new buf (int (get_size buf))) = Inr (fs, b') \<and> end_reached b'"
proof -
  have buf: "buf = concat (map field_octets fs) @ []"
    by (simp add: buf_def fold_write_field)
  have "wf_in (buffer_in_new buf (int (length buf)))"
    using assms by (simp add: wf_in_new get_size_def)
  moreover have "octets_left (buffer_in_new buf (int (length buf))) = concat (map field_octets fs) @ []"
    using buf by simp
  ultimately obtain b' where b': "read_fields fs (buffer_in_new buf (int (length buf))) = Inr (fs, b')"
    "wf_in b'" "octets_left b' = []"
    using read_fields_octets by blast
  moreover have "end_reached b'"
    using b' length_octets_left [of b'] by (simp add: end_reached_def get_n_bytes_left_def)
  ultimately show ?thesis by (auto simp: get_size_def)
qed

theorem buffer_roundtrip_witness:
  "get_size (fold write_field [F16 0x1234, F8 7, F32 1, FRaw [1, 2]] []) < 2 ^ 30 \<and>
   (\<exists>b'. read_fields [F16 0x1234, F8 7, F32 1, FRaw [1, 2]]
       (buffer_in_new (fold write_field [F16 0x1234, F8 7, F32 1, FRaw [1, 2]] [])
         (int (get_size (fold write_field [F16 0x1234, F8 7, F32 1, FRaw [1, 2]] []))))
       = Inr ([F16 0x1234, F8 7, F32 1, FRaw [1, 2]], b') \<and> end_reached b')"
proof -
  have "get_size (fold write_field [F16 0x1234, F8 7, F32 1, FRaw [1, 2]] []) < 2 ^ 30"
    by (simp add: get_size_def add_buffer_out_def add_net_long_def add_net_byte_def add_net_short_def)
  with buffer_roundtrip [OF this] show ?thesis by blast
qed

section \<open>Length fields, padding and variable size integers\<close>

lemma add_net_short_at_in_range:
  assumes "0 \<le> off" and "off + 2 \<le> int (length buf)"
  shows "add_net_short_at s off buf =
    Inr (off, take (nat off) buf @ bytes16 s @ drop (nat off + 2) buf)"
proof -
  obtain n where n: "off = int n" using assms(1) nonneg_int_cases by blast
  with assms have len: "n + 2 \<le> length buf" by simp
  then have "buf = take n buf @ buf ! n # buf ! Suc n # drop (n + 2) buf"
    by (simp add: Cons_nth_drop_Suc)
  then obtain x y xs ys where buf: "buf = xs @ x # y # ys" "length xs = n"
    using len by (metis Suc_leD add_2_eq_Suc' length_take min.absorb2)
  with n show ?thesis
    by (simp add: add_net_short_at_def vec_at_put_def bytes16_def list_update_append nat_add_distrib)
qed

text \<open>
  Back-patching a 16 bit length field (buffer_out::add_net_short with an offset): with the
  offset of two octets that exist, exactly those two are overwritten, the size and every other
  octet are kept, and reading the field back gives the value; with any other offset but -1 the
  call is stopped by std::out_of_range; with -1 the value is appended and its position returned.
\<close>

theorem add_net_short_at_patches:
  "add_net_short_at s off buf =
     (if off = -1 then Inr (int (get_size buf), add_net_short s buf)
      else if 0 \<le> off \<and> off + 2 \<le> int (get_size buf)
      then Inr (off, take (nat off) buf @ bytes16 s @ drop (nat off + 2) buf)
      else Inl (Out_of_range ''vector::at''))"
proof (cases "0 \<le> off \<and> off + 2 \<le> int (get_size buf)")
  case True
  then show ?thesis using add_net_short_at_in_range [of off buf s] by (auto simp: get_size_def)
next
  case False
  then show ?thesis
    by (auto simp: add_net_short_at_def vec_at_put_def add_net_short_def get_size_def)
qed

text \<open>
  buffer_out::add_padding fills up with zero octets to the next multiple of m and to no more
  than that: the old content stays a prefix, fewer than m octets are added and the new size is
  divisible by m.
\<close>

theorem add_padding_aligns:
  assumes "0 < m"
  shows "\<exists>k. add_padding m buf = Inr (buf @ replicate k 0) \<and> k < m \<and> m dvd get_size (buf @ replicate k 0)"
proof (cases "length buf mod m = 0")
  case True
  with assms show ?thesis
    by (intro exI [of _ 0]) (auto simp: add_padding_def get_size_def)
next
  case False
  let ?k = "m - length buf mod m"
  have lt: "length buf mod m < m" using assms by simp
  have "(length buf + ?k) mod m = (length buf mod m + ?k) mod m" by (simp add: mod_add_left_eq)
  also have "\<dots> = 0" using lt by simp
  finally have "m dvd length buf + ?k" by auto
  with assms False lt show ?thesis
    by (intro exI [of _ ?k]) (auto simp: add_padding_def get_size_def Let_def)
qed

theorem add_padding_aligns_witness:
  "(0 :: nat) < 4 \<and> (\<exists>k. add_padding 4 [1, 2, 3, 4, 5] = Inr ([1, 2, 3, 4, 5] @ replicate k 0) \<and> k < 4 \<and>
     4 dvd get_size ([1, 2, 3, 4, 5] @ replicate k 0))"
  using add_padding_aligns [of 4 "[1, 2, 3, 4, 5]"] by simp

text \<open>
  get_variable_size_integer reads a big-endian integer of any length: on a well-formed reader
  with at least len octets it returns their value modulo 2^64 (exactly the value for len <= 8) and
  consumes them, and with fewer octets it is stopped by the out_of_range of get_net_byte.
\<close>

theorem get_variable_size_integer_value:
  assumes "wf_in b"
  shows "if nat len \<le> length (octets_left b)
         then \<exists>b'. get_variable_size_integer b len = Inr (of_nat (be_nat (take (nat len) (octets_left b))), b') \<and>
                wf_in b' \<and> octets_left b' = drop (nat len) (octets_left b) \<and>
                (len \<le> 8 \<longrightarrow> unat (of_nat (be_nat (take (nat len) (octets_left b))) :: u64)
                   = be_nat (take (nat len) (octets_left b)))
         else get_variable_size_integer b len = Inl (Out_of_range ''buffer_in::get_net_byte'')"
proof -
  have "unat (of_nat (be_nat bs) :: u64) = be_nat bs" if "length bs \<le> 8" for bs
  proof -
    have "(256 :: nat) ^ length bs \<le> 256 ^ 8" using that by (intro power_increasing) auto
    with be_nat_less [of bs] show ?thesis by (simp add: unat_of_nat)
  qed
  with bi.read_loop_enough [OF assms, of "nat len" shift_in 0]
    bi.read_loop_short [OF assms, of "nat len" shift_in 0]
  show ?thesis by (auto simp: get_variable_size_integer_def foldl_shift_in)
qed

theorem get_variable_size_integer_value_witness:
  "wf_in (buffer_in_new [1, 0, 9] 3) \<and>
   (\<exists>b'. get_variable_size_integer (buffer_in_new [1, 0, 9] 3) 2 = Inr (256, b'))"
proof -
  have wf: "wf_in (buffer_in_new [1, 0, 9] 3)"
    by (simp add: wf_in_def buffer_in_new_def)
  have "octets_left (buffer_in_new [1, 0, 9] 3) = [1, 0, 9]"
    by (simp add: octets_left_def buffer_in_new_def)
  with get_variable_size_integer_value [OF wf, of 2] wf show ?thesis
    by (auto simp: be_nat_def)
qed

end
