(* ===== verification/Any_Addr.thy ===== *)
theory Any_Addr
  imports Ax25_Address Hash Buffer "HOL-Library.List_Lexorder"
begin

text \<open>
  Addresses of every kind, the class \<open>any_addr\<close> of \<^verbatim>\<open>src/any_addr.cpp\<close>: a family, sixteen octets
  of room, the number of octets in use and whether the address was set.  The type \<open>addr\<close> is
  what such an object means once it is set; the other components use \<open>addr\<close> values, which the
  refinement theorems of this theory justify.
\<close>

unbundle bit_operations_syntax

section \<open>Families\<close>

datatype addr_family = AF_ipv4 | AF_mac | AF_ax25 | AF_ipv6

primrec family_nr :: "addr_family \<Rightarrow> nat" where
  "family_nr AF_ipv4 = 0"
| "family_nr AF_mac = 1"
| "family_nr AF_ax25 = 2"
| "family_nr AF_ipv6 = 3"

lemma family_nr_inj [simp]: "family_nr a = family_nr b \<longleftrightarrow> a = b"
  by (cases a; cases b) auto

instantiation addr_family :: linorder
begin

definition less_eq_addr_family :: "addr_family \<Rightarrow> addr_family \<Rightarrow> bool" where
  "less_eq_addr_family a b \<longleftrightarrow> family_nr a \<le> family_nr b"

definition less_addr_family :: "addr_family \<Rightarrow> addr_family \<Rightarrow> bool" where
  "less_addr_family a b \<longleftrightarrow> family_nr a < family_nr b"

instance
  by standard (auto simp: less_eq_addr_family_def less_addr_family_def
      simp flip: family_nr_inj)

end

primrec family_size :: "addr_family \<Rightarrow> nat" where
  "family_size AF_mac = 6"
| "family_size AF_ipv4 = 4"
| "family_size AF_ax25 = 7"
| "family_size AF_ipv6 = 16"

lemma family_size_bounds [simp]: "0 < family_size f" "family_size f \<le> 16"
  by (cases f; simp)+

section \<open>The class\<close>

record any_addr =
  af :: addr_family
  addr_room :: "byte list"
  addr_size :: int
  addr_is_set :: bool

definition any_addr_default :: any_addr where
  "any_addr_default = \<lparr>af = AF_mac, addr_room = replicate 16 0, addr_size = 0, addr_is_set = False\<rparr>"

definition is_set :: "any_addr \<Rightarrow> bool" where "is_set a = addr_is_set a"
definition get_family :: "any_addr \<Rightarrow> addr_family" where "get_family a = af a"
definition get_len :: "any_addr \<Rightarrow> int" where "get_len a = addr_size a"

text \<open>\<open>memcpy\<close> of \<open>n\<close> octets of \<open>src\<close> over the start of \<open>dst\<close>.\<close>

definition memcpy :: "byte list \<Rightarrow> byte list \<Rightarrow> nat \<Rightarrow> byte list res" where
  "memcpy dst src n =
     (if n \<le> length src \<and> n \<le> length dst then Inr (take n src @ drop n dst) else Inl Undefined_behaviour)"

definition any_addr_set :: "addr_family \<Rightarrow> byte list \<Rightarrow> any_addr \<Rightarrow> any_addr res" where
  "any_addr_set af_in src a =
     (let src_size = family_size af_in in
      rbind (memcpy (addr_room a) src src_size) (\<lambda>room.
      Inr (a\<lparr>addr_room := room, addr_size := int src_size, af := af_in, addr_is_set := True\<rparr>)))"

definition any_addr_new :: "addr_family \<Rightarrow> byte list \<Rightarrow> any_addr res" where
  "any_addr_new f src = any_addr_set f src any_addr_default"

text \<open>\<open>get(tgt, &tgt_size)\<close> and \<open>get(tgt, exp_size)\<close>: the octets copied to the target.\<close>

definition any_addr_get :: "any_addr \<Rightarrow> byte list res" where
  "any_addr_get a = rbind (rassert (addr_is_set a)) (\<lambda>_. Inr (take (nat (addr_size a)) (addr_room a)))"

definition any_addr_get_exp :: "any_addr \<Rightarrow> int \<Rightarrow> byte list res" where
  "any_addr_get_exp a exp_size =
     rbind (rassert (addr_is_set a)) (\<lambda>_.
     rbind (rassert (exp_size = addr_size a)) (\<lambda>_.
     Inr (take (nat exp_size) (addr_room a))))"

text \<open>The copy constructor and both assignments: the old octets stay behind the new ones.\<close>

definition any_addr_assign :: "any_addr \<Rightarrow> any_addr \<Rightarrow> any_addr res" where
  "any_addr_assign a other =
     rbind (any_addr_get other) (\<lambda>bs.
     rbind (memcpy (addr_room a) bs (length bs)) (\<lambda>room.
     Inr (a\<lparr>addr_room := room, addr_size := addr_size other, af := af other, addr_is_set := True\<rparr>)))"

definition any_addr_copy :: "any_addr \<Rightarrow> any_addr res" where
  "any_addr_copy other = any_addr_assign any_addr_default other"

text \<open>\<open>memcmp\<close> on blocks of equal length.\<close>

fun memcmp :: "byte list \<Rightarrow> byte list \<Rightarrow> int" where
  "memcmp (x # xs) (y # ys) = (if x < y then -1 else if x > y then 1 else memcmp xs ys)"
| "memcmp _ _ = 0"

definition compare_to :: "any_addr \<Rightarrow> any_addr \<Rightarrow> bool res" where
  "compare_to a other =
     rbind (rassert (addr_is_set a)) (\<lambda>_.
     if af other \<noteq> af a then Inr False
     else
       rbind (any_addr_get other) (\<lambda>bs.
       rbind (memcpy (replicate 16 0) bs (length bs)) (\<lambda>other_bytes.
       Inr (memcmp (take (nat (addr_size a)) other_bytes) (take (nat (addr_size a)) (addr_room a)) = 0))))"

definition any_addr_less :: "any_addr \<Rightarrow> any_addr \<Rightarrow> bool res" where
  "any_addr_less a rhs =
     rbind (rassert (addr_is_set a)) (\<lambda>_.
     if af a \<noteq> af rhs then Inr (af a < af rhs)
     else
       rbind (any_addr_get rhs) (\<lambda>bs.
       rbind (memcpy (replicate 16 0) bs (length bs)) (\<lambda>rhs_bytes.
       Inr (memcmp (take (nat (addr_size rhs)) (addr_room a)) (take (nat (addr_size rhs)) rhs_bytes) < 0))))"

definition get_word :: "any_addr \<Rightarrow> int \<Rightarrow> u16 res" where
  "get_word a nr =
     rbind (rassert (addr_is_set a)) (\<lambda>_.
     rbind (rassert (nr < addr_size a - 1)) (\<lambda>_.
     if nr < 0 then Inl Undefined_behaviour
     else Inr (mk16 (addr_room a ! nat nr) (addr_room a ! nat (nr + 1)))))"

definition any_addr_index :: "any_addr \<Rightarrow> int \<Rightarrow> byte res" where
  "any_addr_index a i =
     rbind (rassert (addr_is_set a)) (\<lambda>_.
     rbind (rassert (i < addr_size a)) (\<lambda>_.
     if i < 0 then Inl Undefined_behaviour else Inr (addr_room a ! nat i)))"

definition any_addr_hash :: "any_addr \<Rightarrow> u64 res" where
  "any_addr_hash a =
     rbind (rassert (addr_is_set a)) (\<lambda>_. Inr (MurmurHash64A (take (nat (addr_size a)) (addr_room a)) 123))"

text \<open>\<open>to_str\<close>; the family decides before the \<open>set_\<close> flag is looked at.\<close>

definition any_addr_to_str :: "any_addr \<Rightarrow> string res" where
  "any_addr_to_str a =
     (case af a of
        AF_ipv4 \<Rightarrow> Inr (join_str ''.'' (map (fmt_d \<circ> unat) (take 4 (addr_room a))))
      | AF_mac \<Rightarrow> Inr (join_str '':'' (map (fmt_02x \<circ> unat) (take 6 (addr_room a))))
      | AF_ax25 \<Rightarrow> Inr (ax25_address_to_str (ax25_address_of_octets (take 7 (addr_room a))))
      | AF_ipv6 \<Rightarrow>
          rbind (get_word a 0) (\<lambda>w0. rbind (get_word a 2) (\<lambda>w1. rbind (get_word a 4) (\<lambda>w2.
          rbind (get_word a 6) (\<lambda>w3. rbind (get_word a 8) (\<lambda>w4. rbind (get_word a 10) (\<lambda>w5.
          rbind (get_word a 12) (\<lambda>w6. rbind (get_word a 14) (\<lambda>w7.
          Inr (join_str '':'' (map (fmt_x \<circ> unat) [w0, w1, w2, w3, w4, w5, w6, w7])))))))))))"

text \<open>\<open>buffer_out::add_any_addr\<close>: the octets one by one through \<open>operator[]\<close>.\<close>

fun add_any_addr_loop :: "nat \<Rightarrow> int \<Rightarrow> any_addr \<Rightarrow> buffer_out \<Rightarrow> buffer_out res" where
  "add_any_addr_loop 0 i a buf = Inr buf"
| "add_any_addr_loop (Suc n) i a buf =
     rbind (any_addr_index a i) (\<lambda>b. add_any_addr_loop n (i + 1) a (buf @ [b]))"

definition add_any_addr :: "any_addr \<Rightarrow> buffer_out \<Rightarrow> buffer_out res" where
  "add_any_addr a buf = add_any_addr_loop (nat (get_len a)) 0 a buf"

text \<open>\<open>parse_address\<close>; \<open>temp\<close> are the \<open>exp_size\<close> octets before the address is built.\<close>

definition parse_address :: "string \<Rightarrow> nat \<Rightarrow> string \<Rightarrow> nat \<Rightarrow> any_addr res" where
  "parse_address str exp_size seperator base =
     (case split_str str seperator of
        None \<Rightarrow> Inl Diverges
      | Some parts \<Rightarrow>
          if length parts \<noteq> exp_size \<and> \<not> (exp_size = 16 \<and> length parts = 8) then Inl Exit_failure
          else if exp_size = 16 then
            any_addr_new AF_ipv6
              (concat (map (\<lambda>p. bytes16 (of_nat (strtol p base))) (take 8 parts)))
          else
            any_addr_new (if exp_size = 4 then AF_ipv4 else AF_mac)
              (map (\<lambda>p. of_nat (strtol p base)) parts))"

section \<open>Address values\<close>

datatype addr = Addr (addr_fam: addr_family) (octets: "byte list")

instantiation addr :: linorder
begin

definition less_eq_addr :: "addr \<Rightarrow> addr \<Rightarrow> bool" where
  "less_eq_addr a b \<longleftrightarrow> addr_fam a < addr_fam b \<or> (addr_fam a = addr_fam b \<and> octets a \<le> octets b)"

definition less_addr :: "addr \<Rightarrow> addr \<Rightarrow> bool" where
  "less_addr a b \<longleftrightarrow> addr_fam a < addr_fam b \<or> (addr_fam a = addr_fam b \<and> octets a < octets b)"

instance
  by standard (auto simp: less_eq_addr_def less_addr_def addr.expand)

end

text \<open>An address that was set by the class, and the value it denotes.\<close>

definition wf_any_addr :: "any_addr \<Rightarrow> bool" where
  "wf_any_addr a \<longleftrightarrow> addr_is_set a \<and> length (addr_room a) = 16 \<and> addr_size a = int (family_size (af a))"

definition addr_of :: "any_addr \<Rightarrow> addr" where
  "addr_of a = Addr (af a) (take (family_size (af a)) (addr_room a))"

definition wf_addr :: "addr \<Rightarrow> bool" where
  "wf_addr a \<longleftrightarrow> length (octets a) = family_size (addr_fam a)"

lemma wf_addr_of: "wf_any_addr a \<Longrightarrow> wf_addr (addr_of a)"
  by (simp add: wf_any_addr_def wf_addr_def addr_of_def)

lemma any_addr_set_wf:
  assumes "length (addr_room a) = 16" and "family_size f \<le> length src"
  shows "\<exists>a'. any_addr_set f src a = Inr a' \<and> wf_any_addr a' \<and> addr_of a' = Addr f (take (family_size f) src)"
  using assms by (simp add: any_addr_set_def memcpy_def wf_any_addr_def addr_of_def Let_def)

lemma any_addr_new_wf:
  "family_size f \<le> length src \<Longrightarrow>
   \<exists>a. any_addr_new f src = Inr a \<and> wf_any_addr a \<and> addr_of a = Addr f (take (family_size f) src)"
  unfolding any_addr_new_def by (rule any_addr_set_wf) (simp_all add: any_addr_default_def)

lemma any_addr_get_wf: "wf_any_addr a \<Longrightarrow> any_addr_get a = Inr (octets (addr_of a))"
  by (simp add: any_addr_get_def wf_any_addr_def addr_of_def)

lemma any_addr_assign_wf:
  assumes "length (addr_room a) = 16" and "wf_any_addr b"
  shows "\<exists>a'. any_addr_assign a b = Inr a' \<and> wf_any_addr a' \<and> addr_of a' = addr_of b"
  using assms by (auto simp: any_addr_assign_def any_addr_get_wf memcpy_def)
    (auto simp: wf_any_addr_def addr_of_def min_def)

lemma memcmp_eq: "length xs = length ys \<Longrightarrow> memcmp xs ys = 0 \<longleftrightarrow> xs = ys"
  by (induction xs ys rule: memcmp.induct) auto

lemma memcmp_less: "length xs = length ys \<Longrightarrow> memcmp xs ys < 0 \<longleftrightarrow> xs < ys"
  by (induction xs ys rule: memcmp.induct) auto

text \<open>
  Addresses compare as the values they denote: for any two addresses that were set,
  operator== is equality of family and octets, and operator< is a linear order on these, families
  first and then the octets as memcmp orders them; neither depends on what the unused octets hold.
  This is what std::map needs to find an address again.
\<close>

theorem any_addr_order:
  assumes "wf_any_addr a" and "wf_any_addr b"
  shows "compare_to a b = Inr (addr_of a = addr_of b) \<and> any_addr_less a b = Inr (addr_of a < addr_of b)"
proof (cases "af a = af b")
  case True
  let ?n = "family_size (af b)"
  have len: "length (octets (addr_of b)) = ?n" "?n \<le> 16"
    using wf_addr_of [OF assms(2)] by (simp_all add: wf_addr_def addr_of_def)
  have cp: "memcpy (replicate 16 0) (octets (addr_of b)) ?n = Inr (octets (addr_of b) @ replicate (16 - ?n) 0)"
    using len by (simp add: memcpy_def)
  have la: "length (take ?n (addr_room a)) = ?n"
    using assms by (simp add: wf_any_addr_def)
  show ?thesis
    using assms True len cp la
    by (simp add: compare_to_def any_addr_less_def any_addr_get_wf wf_any_addr_def less_addr_def)
      (auto simp: memcmp_eq memcmp_less addr_of_def)
next
  case False
  then show ?thesis
    using assms by (auto simp: compare_to_def any_addr_less_def wf_any_addr_def addr_of_def less_addr_def)
qed

theorem any_addr_order_witness:
  "\<exists>a b. any_addr_new AF_ipv4 [10, 0, 0, 1] = Inr a \<and> any_addr_new AF_ipv4 [10, 0, 0, 2] = Inr b \<and>
     compare_to a b = Inr False \<and> any_addr_less a b = Inr True"
proof -
  obtain a b where a: "any_addr_new AF_ipv4 [10, 0, 0, 1] = Inr a" "wf_any_addr a" "addr_of a = Addr AF_ipv4 [10, 0, 0, 1]"
    and b: "any_addr_new AF_ipv4 [10, 0, 0, 2] = Inr b" "wf_any_addr b" "addr_of b = Addr AF_ipv4 [10, 0, 0, 2]"
    using any_addr_new_wf [of AF_ipv4 "[10, 0, 0, 1]"] any_addr_new_wf [of AF_ipv4 "[10, 0, 0, 2]"] by auto
  with any_addr_order [OF a(2) b(2)] have "compare_to a b = Inr False" "any_addr_less a b = Inr True"
    by (simp_all add: less_addr_def)
  with a b show ?thesis by blast
qed

section \<open>Printing and parsing\<close>

definition addr_to_str :: "addr \<Rightarrow> string" where
  "addr_to_str a =
     (case addr_fam a of
        AF_ipv4 \<Rightarrow> join_str ''.'' (map (fmt_d \<circ> unat) (octets a))
      | AF_mac \<Rightarrow> join_str '':'' (map (fmt_02x \<circ> unat) (octets a))
      | AF_ax25 \<Rightarrow> ax25_address_to_str (ax25_address_of_octets (octets a))
      | AF_ipv6 \<Rightarrow> join_str '':''
          (map (\<lambda>i. fmt_x (unat (mk16 (octets a ! (2 * i)) (octets a ! (2 * i + 1))))) [0..<8]))"

lemma upt_8: "[0..<8] = [0, 1, 2, 3, 4, 5, 6, 7 :: nat]"
  by (simp add: upt_rec)

lemma any_addr_to_str_wf: "wf_any_addr a \<Longrightarrow> any_addr_to_str a = Inr (addr_to_str (addr_of a))"
  by (cases "af a")
    (simp_all add: any_addr_to_str_def addr_to_str_def addr_of_def get_word_def wf_any_addr_def upt_8)

lemma num_to_str_no_sep:
  assumes "2 \<le> base" and "base \<le> 36" and "c = CHR ''.'' \<or> c = CHR '':''"
  shows "c \<notin> set (num_to_str base n)"
proof
  assume "c \<in> set (num_to_str base n)"
  then obtain d where "d < base" "c = digit_char d" using num_to_str_digits [OF assms(1)] by blast
  then show False using assms(2,3) digit_char_not_sep [of d] by auto
qed

lemma fmt_no_sep:
  "CHR ''.'' \<notin> set (fmt_d n)" "CHR '':'' \<notin> set (fmt_x n)" "CHR '':'' \<notin> set (fmt_02x n)"
  by (simp_all add: num_to_str_no_sep fmt_02x_def)

lemma split_formatted:
  assumes "\<And>n. c \<notin> set (f n)" and "2 \<le> length ns"
  shows "split_str (join_str [c] (map f ns)) [c] = Some (map f ns)"
proof -
  have "map f ns \<noteq> [[]]" using assms(2) by (cases ns) auto
  then show ?thesis using assms(1) split_loop_join [of "map f ns" c] by (auto simp: split_str_def)
qed

lemma unat_less_2_63 [simp]: "unat (b :: byte) < 9223372036854775808" "unat (w :: u16) < 9223372036854775808"
proof -
  show "unat b < 9223372036854775808" using unat_byte_less [of b] by (simp del: unat_byte_less)
  have "unat w < 2 ^ LENGTH(16)" by (rule unsigned_less)
  then show "unat w < 9223372036854775808" by simp
qed

lemma octets_4: "length xs = 4 \<Longrightarrow> \<exists>a b c d. xs = [a, b, c, d]"
  by (auto simp: numeral_eq_Suc length_Suc_conv)

lemma octets_of_words:
  assumes "length xs = 2 * n"
  shows "concat (map (\<lambda>i. bytes16 (mk16 (xs ! (2 * i)) (xs ! (2 * i + 1)))) [0..<n]) = xs"
  using assms
proof (induction n arbitrary: xs)
  case (Suc n)
  then have t: "length (take (2 * n) xs) = 2 * n" by simp
  have "concat (map (\<lambda>i. bytes16 (mk16 (xs ! (2 * i)) (xs ! (2 * i + 1)))) [0..<n]) =
      concat (map (\<lambda>i. bytes16 (mk16 (take (2 * n) xs ! (2 * i)) (take (2 * n) xs ! (2 * i + 1)))) [0..<n])"
    by (intro arg_cong [where f = concat] map_cong) auto
  also have "\<dots> = take (2 * n) xs" by (rule Suc.IH [OF t])
  finally have "concat (map (\<lambda>i. bytes16 (mk16 (xs ! (2 * i)) (xs ! (2 * i + 1)))) [0..<n]) = take (2 * n) xs" .
  moreover have "take (2 * n) xs @ [xs ! (2 * n), xs ! Suc (2 * n)] = xs"
    using Suc.prems take_Suc_nth [of "2 * n" xs] take_Suc_nth [of "Suc (2 * n)" xs] by simp
  ultimately show ?case by (simp add: codec_simps)
qed simp

text \<open>
  What to_str prints, parse_address reads: for every IPv4, MAC and IPv6 address the text
  form, parsed with the separator and base the configuration uses for that family, gives the same
  address back.
\<close>

theorem addr_text_roundtrip:
  assumes "wf_addr a" and "addr_fam a \<noteq> AF_ax25"
  shows "\<exists>x. parse_address (addr_to_str a) (family_size (addr_fam a))
      (if addr_fam a = AF_ipv4 then ''.'' else '':'') (if addr_fam a = AF_ipv4 then 10 else 16) = Inr x \<and>
    wf_any_addr x \<and> addr_of x = a"
proof (cases "addr_fam a")
  case AF_ipv4
  then have len: "length (octets a) = 4" using assms(1) by (simp add: wf_addr_def)
  have "map ((\<lambda>p. of_nat (strtol p 10)) \<circ> (fmt_d \<circ> unat)) (octets a) = octets a"
    by (simp add: strtol_num_to_str map_idI)
  then show ?thesis
    using AF_ipv4 len any_addr_new_wf [of AF_ipv4 "octets a"]
      split_formatted [of "CHR ''.''" "fmt_d \<circ> unat" "octets a"]
    by (auto simp: parse_address_def addr_to_str_def fmt_no_sep addr.expand)
next
  case AF_mac
  then have len: "length (octets a) = 6" using assms(1) by (simp add: wf_addr_def)
  have "map ((\<lambda>p. of_nat (strtol p 16)) \<circ> (fmt_02x \<circ> unat)) (octets a) = octets a"
    by (simp add: strtol_fmt_02x map_idI)
  then show ?thesis
    using AF_mac len any_addr_new_wf [of AF_mac "octets a"]
      split_formatted [of "CHR '':''" "fmt_02x \<circ> unat" "octets a"]
    by (auto simp: parse_address_def addr_to_str_def fmt_no_sep addr.expand)
next
  case AF_ipv6
  then have len: "length (octets a) = 2 * 8" using assms(1) by (simp add: wf_addr_def)
  let ?w = "\<lambda>i. mk16 (octets a ! (2 * i)) (octets a ! (2 * i + 1))"
  have "concat (map ((\<lambda>p. bytes16 (of_nat (strtol p 16))) \<circ> (\<lambda>i. fmt_x (unat (?w i)))) [0..<8]) = octets a"
    using octets_of_words [OF len] by (simp add: comp_def strtol_num_to_str del: upt_conv_Cons)
  then show ?thesis
    using AF_ipv6 len any_addr_new_wf [of AF_ipv6 "octets a"]
      split_formatted [of "CHR '':''" "\<lambda>i. fmt_x (unat (?w i))" "[0..<8]"]
    by (auto simp: parse_address_def addr_to_str_def fmt_no_sep addr.expand simp del: upt_conv_Cons)
qed (use assms in simp)

theorem addr_text_roundtrip_witness:
  "wf_addr (Addr AF_ipv4 [192, 168, 3, 2]) \<and>
   (\<exists>x. parse_address (addr_to_str (Addr AF_ipv4 [192, 168, 3, 2])) 4 ''.'' 10 = Inr x \<and>
      wf_any_addr x \<and> addr_of x = Addr AF_ipv4 [192, 168, 3, 2])"
  using addr_text_roundtrip [of "Addr AF_ipv4 [192, 168, 3, 2]"] by (simp add: wf_addr_def)

text \<open>
  An address that was never set does not print as "(not set)": its family is still the
  default one, MAC, and to_str decides by the family before it looks at the flag, so that the
  text is that of the all-zero MAC address.
\<close>

theorem unset_addr_to_str:
  "\<not> is_set any_addr_default \<and> any_addr_to_str any_addr_default = Inr ''00:00:00:00:00:00''"
  by code_simp

end
