(* ===== verification/Address_Cache.thy ===== *)
theory Address_Cache
  imports Any_Addr
begin

text \<open>
  The table from network addresses to link addresses, the class \<open>address_cache\<close> of
  \<^verbatim>\<open>src/address_cache.cpp\<close>.  Its maps are static members, so that one table serves the ARP and
  the NDP resolver.  Interfaces, \<open>phys *\<close>, are numbers; the clock is an argument.
\<close>

type_synonym phys_id = nat

record address_entry =
  entry_ts :: u64
  entry_addr :: addr
  entry_interface :: phys_id

record address_cache =
  ac_cache :: "addr \<rightharpoonup> address_entry"
  ac_mac_cache :: "addr \<rightharpoonup> phys_id"
  address_cache_req :: u64
  address_cache_hit :: u64
  address_cache_store :: u64
  address_cache_update :: u64

definition address_cache_new :: address_cache where
  "address_cache_new = \<lparr>ac_cache = Map.empty, ac_mac_cache = Map.empty, address_cache_req = 0,
     address_cache_hit = 0, address_cache_store = 0, address_cache_update = 0\<rparr>"

definition link_family :: "addr \<Rightarrow> bool" where
  "link_family a \<longleftrightarrow> addr_fam a = AF_mac \<or> addr_fam a = AF_ax25"

definition ip_family :: "addr \<Rightarrow> bool" where
  "ip_family a \<longleftrightarrow> addr_fam a = AF_ipv4 \<or> addr_fam a = AF_ipv6"

definition store_entry :: "u64 \<Rightarrow> addr \<Rightarrow> addr \<Rightarrow> phys_id \<Rightarrow> bool \<Rightarrow> address_cache \<Rightarrow> address_cache" where
  "store_entry now mac ip interface static_entry c =
     (let e = \<lparr>entry_ts = (if static_entry then 0 else now), entry_addr = mac, entry_interface = interface\<rparr> in
      case ac_cache c ip of
        None \<Rightarrow> c\<lparr>ac_cache := (ac_cache c)(ip \<mapsto> e), address_cache_store := address_cache_store c + 1\<rparr>
      | Some old \<Rightarrow>
          if entry_ts old \<noteq> 0
          then c\<lparr>ac_cache := (ac_cache c)(ip \<mapsto> e), address_cache_update := address_cache_update c + 1\<rparr>
          else c)"

definition store_mac :: "addr \<Rightarrow> phys_id \<Rightarrow> address_cache \<Rightarrow> address_cache" where
  "store_mac mac interface c =
     (case ac_mac_cache c mac of
        None \<Rightarrow> c\<lparr>ac_mac_cache := (ac_mac_cache c)(mac \<mapsto> interface)\<rparr>
      | Some _ \<Rightarrow> c)"

definition update_cache :: "u64 \<Rightarrow> addr \<Rightarrow> addr \<Rightarrow> phys_id \<Rightarrow> bool \<Rightarrow> address_cache \<Rightarrow> address_cache res" where
  "update_cache now mac ip interface static_entry c =
     rbind (rassert (link_family mac)) (\<lambda>_.
     rbind (rassert (ip_family ip)) (\<lambda>_.
     Inr (store_mac mac interface (store_entry now mac ip interface static_entry c))))"

definition add_static_entry :: "u64 \<Rightarrow> phys_id \<Rightarrow> addr \<Rightarrow> addr \<Rightarrow> address_cache \<Rightarrow> address_cache res" where
  "add_static_entry now interface mac ip c = update_cache now mac ip interface True c"

definition query_cache :: "addr \<Rightarrow> bool \<Rightarrow> address_cache \<Rightarrow> (phys_id \<times> addr) option \<times> address_cache" where
  "query_cache ip static_entry c =
     (let c1 = c\<lparr>address_cache_req := address_cache_req c + 1\<rparr> in
      case ac_cache c ip of
        None \<Rightarrow> (None, c1)
      | Some e \<Rightarrow>
          if static_entry \<and> entry_ts e \<noteq> 0 then (None, c1)
          else (Some (entry_interface e, entry_addr e), c1\<lparr>address_cache_hit := address_cache_hit c1 + 1\<rparr>))"

definition query_mac_cache :: "addr \<Rightarrow> address_cache \<Rightarrow> phys_id option \<times> address_cache" where
  "query_mac_cache mac c = (ac_mac_cache c mac, c\<lparr>address_cache_req := address_cache_req c + 1\<rparr>)"

text \<open>One round of \<open>cache_cleaner\<close>; the age is a difference of unsigned words.\<close>

definition expired :: "u64 \<Rightarrow> address_entry \<Rightarrow> bool" where
  "expired now e \<longleftrightarrow> entry_ts e \<noteq> 0 \<and> 3600000000 \<le> now - entry_ts e"

definition cache_cleaner :: "u64 \<Rightarrow> address_cache \<Rightarrow> address_cache" where
  "cache_cleaner now c = c\<lparr>ac_cache := (\<lambda>ip.
     case ac_cache c ip of None \<Rightarrow> None | Some e \<Rightarrow> if expired now e then None else Some e)\<rparr>"

section \<open>What the table promises\<close>

definition lookup :: "addr \<Rightarrow> address_cache \<Rightarrow> (phys_id \<times> addr) option" where
  "lookup ip c = map_option (\<lambda>e. (entry_interface e, entry_addr e)) (ac_cache c ip)"

definition pinned :: "addr \<Rightarrow> address_cache \<Rightarrow> bool" where
  "pinned ip c \<longleftrightarrow> (\<exists>e. ac_cache c ip = Some e \<and> entry_ts e = 0)"

lemma query_cache_lookup: "fst (query_cache ip False c) = lookup ip c"
  by (auto simp: query_cache_def lookup_def Let_def split: option.splits)

lemma query_cache_frame [frame_simps]:
  "ac_cache (snd (query_cache ip s c)) = ac_cache c"
  "ac_mac_cache (snd (query_cache ip s c)) = ac_mac_cache c"
  "ac_cache (snd (query_mac_cache ip c)) = ac_cache c"
  "ac_mac_cache (snd (query_mac_cache ip c)) = ac_mac_cache c"
  by (auto simp: query_cache_def query_mac_cache_def Let_def split: option.splits)

lemma update_cache_Inr:
  "update_cache now mac ip i s c = Inr c' \<longleftrightarrow>
   link_family mac \<and> ip_family ip \<and> c' = store_mac mac i (store_entry now mac ip i s c)"
  by (auto simp: update_cache_def)

lemma update_cache_entry:
  assumes "update_cache now mac ip i s c = Inr c'"
  shows "ac_cache c' ip' =
    (if ip' = ip \<and> \<not> pinned ip c
     then Some \<lparr>entry_ts = (if s then 0 else now), entry_addr = mac, entry_interface = i\<rparr>
     else ac_cache c ip')"
  using assms
  by (auto simp: update_cache_Inr store_mac_def store_entry_def pinned_def Let_def split: option.splits)

text \<open>
  The contract a resolver relies on: an update answers the next lookups of its address and no
  others, unless the address is pinned, and pinned addresses stay as they are.
\<close>

locale address_store =
  fixes step :: "'e \<Rightarrow> 's \<Rightarrow> 's res"
    and look :: "'a \<Rightarrow> 's \<Rightarrow> 'v option"
    and pin :: "'a \<Rightarrow> 's \<Rightarrow> bool"
    and writes :: "'e \<Rightarrow> 'a \<Rightarrow> 'v option"
    and drops :: "'e \<Rightarrow> 's \<Rightarrow> 'a \<Rightarrow> bool"
  assumes look_step: "step e s = Inr s' \<Longrightarrow>
      look a s' = (if pin a s then look a s else case writes e a of Some v \<Rightarrow> Some v
        | None \<Rightarrow> if drops e s a then None else look a s)"
    and pin_step: "step e s = Inr s' \<Longrightarrow> pin a s \<Longrightarrow> pin a s'"
begin

fun steps :: "'e list \<Rightarrow> 's \<Rightarrow> 's res" where
  "steps [] s = Inr s"
| "steps (e # es) s = rbind (step e s) (steps es)"

lemma pinned_stays: "steps es s = Inr s' \<Longrightarrow> pin a s \<Longrightarrow> pin a s' \<and> look a s' = look a s"
proof (induction es arbitrary: s)
  case (Cons e es)
  then obtain s1 where "step e s = Inr s1" "steps es s1 = Inr s'" by auto
  with Cons.IH [of s1] Cons.prems(2) look_step [of e s s1 a] pin_step [of e s s1 a] show ?case by simp
qed simp

lemma look_steps_unwritten:
  "steps es s = Inr s' \<Longrightarrow> (\<And>e. e \<in> set es \<Longrightarrow> writes e a = None) \<Longrightarrow>
   look a s' = look a s \<or> look a s' = None"
proof (induction es arbitrary: s)
  case (Cons e es)
  then obtain s1 where "step e s = Inr s1" "steps es s1 = Inr s'" by auto
  with Cons.IH [of s1] Cons.prems(2) [of e] Cons.prems(2) look_step [of e s s1 a] show ?case
    by (auto split: if_splits)
qed simp

text \<open>What a lookup finds was there before or was written in between.\<close>

lemma look_steps_source:
  "steps es s = Inr s' \<Longrightarrow> look a s' = Some v \<Longrightarrow> look a s = Some v \<or> (\<exists>e\<in>set es. writes e a = Some v)"
proof (induction es arbitrary: s)
  case (Cons e es)
  then obtain s1 where s1: "step e s = Inr s1" "steps es s1 = Inr s'" by auto
  with Cons.IH [of s1] Cons.prems(2) look_step [of e s s1 a] show ?case
    by (auto split: if_splits option.splits)
qed simp

end

section \<open>Runs of the table\<close>

datatype cache_event =
    Update u64 addr addr phys_id bool
  | Query addr bool
  | Query_mac addr
  | Clean u64

fun cache_step :: "cache_event \<Rightarrow> address_cache \<Rightarrow> address_cache res" where
  "cache_step (Update now mac ip i s) c = update_cache now mac ip i s c"
| "cache_step (Query ip s) c = Inr (snd (query_cache ip s c))"
| "cache_step (Query_mac mac) c = Inr (snd (query_mac_cache mac c))"
| "cache_step (Clean now) c = Inr (cache_cleaner now c)"

fun cache_run :: "cache_event list \<Rightarrow> address_cache \<Rightarrow> address_cache res" where
  "cache_run [] c = Inr c"
| "cache_run (e # es) c = rbind (cache_step e c) (cache_run es)"

fun event_writes :: "cache_event \<Rightarrow> addr \<Rightarrow> (phys_id \<times> addr) option" where
  "event_writes (Update now mac ip i s) a = (if a = ip then Some (i, mac) else None)"
| "event_writes _ a = None"

fun event_drops :: "cache_event \<Rightarrow> address_cache \<Rightarrow> addr \<Rightarrow> bool" where
  "event_drops (Clean now) c a = (\<exists>e. ac_cache c a = Some e \<and> expired now e)"
| "event_drops _ c a = False"

lemma cache_step_look:
  assumes "cache_step e c = Inr c'"
  shows "lookup a c' = (if pinned a c then lookup a c else case event_writes e a of Some v \<Rightarrow> Some v
    | None \<Rightarrow> if event_drops e c a then None else lookup a c)"
  using assms
proof (cases e)
  case (Update now mac ip i s)
  with assms update_cache_entry [of now mac ip i s c c' a] show ?thesis
    by (auto simp: lookup_def pinned_def)
qed (auto simp: lookup_def frame_simps cache_cleaner_def pinned_def expired_def split: option.splits)

lemma cache_step_pin:
  assumes "cache_step e c = Inr c'" and "pinned a c"
  shows "pinned a c'"
  using assms
proof (cases e)
  case (Update now mac ip i s)
  with assms update_cache_entry [of now mac ip i s c c' a] show ?thesis
    by (auto simp: pinned_def)
qed (auto simp: frame_simps cache_cleaner_def pinned_def expired_def split: option.splits)

interpretation ac: address_store cache_step lookup pinned event_writes event_drops
  by (unfold_locales, rule cache_step_look, assumption) (rule cache_step_pin)

lemma cache_run_steps: "cache_run es c = ac.steps es c"
  by (induction es arbitrary: c) (auto simp: rbind_def split: sum.splits)

text \<open>
  A static entry is never lost or changed: once update_cache stored an address with
  static_entry, every later query_cache answers its link address and interface, whatever updates
  (static or not, for this or other addresses), queries and rounds of the cleaner follow.
\<close>

theorem static_entry_permanent:
  assumes "update_cache now mac ip i True c = Inr c1" and "\<not> pinned ip c" and "cache_run es c1 = Inr c2"
  shows "fst (query_cache ip s c2) = Some (i, mac)"
proof -
  have p: "pinned ip c1" "lookup ip c1 = Some (i, mac)"
    using update_cache_entry [OF assms(1), of ip] assms(2) by (auto simp: pinned_def lookup_def)
  with ac.pinned_stays [of es c1 c2 ip] assms(3) have "pinned ip c2" "lookup ip c2 = Some (i, mac)"
    by (auto simp: cache_run_steps)
  then show ?thesis
    by (auto simp: query_cache_def pinned_def lookup_def)
qed

theorem static_entry_permanent_witness:
  "\<exists>c1 c2. update_cache 5 (Addr AF_mac [2, 0, 0, 0, 0, 1]) (Addr AF_ipv4 [10, 0, 0, 1]) 3 True address_cache_new = Inr c1 \<and>
     cache_run [Update 9 (Addr AF_mac [6, 6, 6, 6, 6, 6]) (Addr AF_ipv4 [10, 0, 0, 1]) 4 False, Clean 9000000000] c1 = Inr c2 \<and>
     fst (query_cache (Addr AF_ipv4 [10, 0, 0, 1]) False c2) = Some (3, Addr AF_mac [2, 0, 0, 0, 0, 1])"
proof -
  let ?ip = "Addr AF_ipv4 [10, 0, 0, 1]" and ?m = "Addr AF_mac [2, 0, 0, 0, 0, 1]"
  let ?es = "[Update 9 (Addr AF_mac [6, 6, 6, 6, 6, 6]) ?ip 4 False, Clean 9000000000]"
  obtain c1 where c1: "update_cache 5 ?m ?ip 3 True address_cache_new = Inr c1"
    by (simp add: update_cache_Inr link_family_def ip_family_def)
  obtain c2 where c2: "cache_run ?es c1 = Inr c2"
    by (simp add: update_cache_Inr link_family_def ip_family_def)
  have "\<not> pinned ?ip address_cache_new" by (simp add: pinned_def address_cache_new_def)
  with static_entry_permanent [OF c1 _ c2, of False] c1 c2 show ?thesis by blast
qed

fun names_ip :: "addr \<Rightarrow> cache_event \<Rightarrow> bool" where
  "names_ip a (Update now mac ip i s) = (a = ip)"
| "names_ip a _ = False"

definition cleaned :: "u64 \<Rightarrow> cache_event list \<Rightarrow> bool" where
  "cleaned now es = list_ex (\<lambda>e. case e of Clean t \<Rightarrow> 3600000000 \<le> t - now | _ \<Rightarrow> False) es"

lemma cache_step_entry:
  assumes "cache_step e c = Inr c'" and "\<not> names_ip a e"
  shows "ac_cache c' a = (case e of Clean t \<Rightarrow>
    (case ac_cache c a of None \<Rightarrow> None | Some x \<Rightarrow> if expired t x then None else Some x) | _ \<Rightarrow> ac_cache c a)"
  using assms update_cache_entry by (cases e) (fastforce simp: frame_simps cache_cleaner_def)+

lemma cache_run_entry:
  assumes "cache_run es c = Inr c'" and "\<not> list_ex (names_ip a) es"
    and "ac_cache c a = Some e \<or> ac_cache c a = None" and "entry_ts e \<noteq> 0"
  shows "ac_cache c' a = (if ac_cache c a = None \<or> cleaned (entry_ts e) es then None else Some e)"
  using assms
proof (induction es arbitrary: c)
  case (Cons x es)
  then obtain c1 where c1: "cache_step x c = Inr c1" "cache_run es c1 = Inr c'" by auto
  with Cons.prems(2) have "ac_cache c1 a = (case x of Clean t \<Rightarrow>
      (case ac_cache c a of None \<Rightarrow> None | Some x \<Rightarrow> if expired t x then None else Some x) | _ \<Rightarrow> ac_cache c a)"
    by (intro cache_step_entry) auto
  with Cons.IH [OF c1(2)] Cons.prems show ?case
    by (auto simp: cleaned_def expired_def split: cache_event.splits if_splits)
qed (auto simp: cleaned_def)

text \<open>
  A learned entry answers until the cleaner finds it an hour old: after update_cache
  stored a link address without static_entry, at time now, and as long as no other update names
  the address, query_cache answers it, unless a round of the cleaner ran at a time t with
  t - now of at least 3600 seconds; then it answers nothing.
\<close>

theorem learned_entry_lifetime:
  assumes "update_cache now mac ip i False c = Inr c1" and "\<not> pinned ip c" and "now \<noteq> 0"
    and "cache_run es c1 = Inr c2" and "\<not> list_ex (names_ip ip) es"
  shows "fst (query_cache ip False c2) = (if cleaned now es then None else Some (i, mac))"
  using update_cache_entry [OF assms(1), of ip] assms(2,3) cache_run_entry [OF assms(4,5)]
  by (simp add: query_cache_lookup lookup_def)

theorem learned_entry_lifetime_witness:
  "\<exists>c1 c2. update_cache 5 (Addr AF_mac [2, 0, 0, 0, 0, 1]) (Addr AF_ipv4 [10, 0, 0, 1]) 3 False address_cache_new = Inr c1 \<and>
     cache_run [Clean 3600000000, Query_mac (Addr AF_mac [2, 0, 0, 0, 0, 1])] c1 = Inr c2 \<and>
     fst (query_cache (Addr AF_ipv4 [10, 0, 0, 1]) False c2) = Some (3, Addr AF_mac [2, 0, 0, 0, 0, 1])"
proof -
  let ?ip = "Addr AF_ipv4 [10, 0, 0, 1]" and ?m = "Addr AF_mac [2, 0, 0, 0, 0, 1]"
  let ?es = "[Clean 3600000000, Query_mac ?m]"
  obtain c1 where c1: "update_cache 5 ?m ?ip 3 False address_cache_new = Inr c1"
    by (simp add: update_cache_Inr link_family_def ip_family_def)
  obtain c2 where c2: "cache_run ?es c1 = Inr c2" by simp
  have "\<not> pinned ?ip address_cache_new" "\<not> cleaned 5 ?es" "\<not> list_ex (names_ip ?ip) ?es"
    by (simp_all add: pinned_def address_cache_new_def cleaned_def)
  with learned_entry_lifetime [OF c1 _ _ c2] c1 c2 show ?thesis by auto
qed

end
