(* ===== verification/Mac_Resolver.thy ===== *)
theory Mac_Resolver
  imports Address_Cache
begin

text \<open>
  The resolution of a network address to a link address, the class \<open>mac_resolver\<close> of
  \<^verbatim>\<open>src/mac_resolver.cpp\<close>, on top of the address cache.  \<open>get_mac\<close> blocks: it asks, and then
  looks at the table \<open>work\<close> of open questions until an answer is there or a second has passed.
  Its entry and every round of its waiting loop are a step each, since it gives up the lock
  between them.  The virtual functions \<open>send_request\<close> and \<open>check_special_ip_addresses\<close> are
  arguments.
\<close>

text \<open>
  \<open>work\<close> maps the address of an open question to the answer, when there is one: an
  \<open>optional<mac_resolver_result>\<close>, whose member \<open>mac\<close> is itself optional.
\<close>

record mac_resolver =
  mr_cache :: address_cache
  work :: "addr \<rightharpoonup> addr option option"
  mr_stop_flag :: bool

definition mac_resolver_new :: "address_cache \<Rightarrow> mac_resolver" where
  "mac_resolver_new c = \<lparr>mr_cache = c, work = Map.empty, mr_stop_flag = False\<rparr>"

datatype 'a progress = Finished 'a | Waiting bool

text \<open>
  Up to the waiting loop: the answer for special addresses and from the cache, otherwise the
  request.  \<open>sent\<close> is the answer of \<open>send_request\<close>; a question that is already open is not
  asked anew in \<open>work\<close>.
\<close>

definition get_mac_start ::
  "(addr \<Rightarrow> addr_family \<Rightarrow> addr option res) \<Rightarrow> addr_family \<Rightarrow> phys_id \<Rightarrow> addr \<Rightarrow> bool res \<Rightarrow> mac_resolver \<Rightarrow>
   ((phys_id \<times> addr) option progress \<times> mac_resolver) res" where
  "get_mac_start check_special phys_family interface ip sent r =
     rbind (check_special ip phys_family) (\<lambda>special.
     case special of
       Some m \<Rightarrow> Inr (Finished (Some (interface, m)), r)
     | None \<Rightarrow>
         let (cache_result, c1) = query_cache ip False (mr_cache r); r1 = r\<lparr>mr_cache := c1\<rparr> in
         case cache_result of
           Some hit \<Rightarrow> Inr (Finished (Some hit), r1)
         | None \<Rightarrow>
             rbind sent (\<lambda>ok.
             if \<not> ok then Inr (Finished None, r1)
             else Inr (Waiting False, r1\<lparr>work := (case work r1 ip of None \<Rightarrow> (work r1)(ip \<mapsto> None) | Some _ \<Rightarrow> work r1)\<rparr>)))"

text \<open>
  A round of the loop at \<open>elapsed\<close> milliseconds after the request: the flag tells whether the
  request is repeated in it.
\<close>

definition get_mac_round ::
  "u64 \<Rightarrow> phys_id \<Rightarrow> addr \<Rightarrow> u64 \<Rightarrow> bool \<Rightarrow> mac_resolver \<Rightarrow>
   ((phys_id \<times> addr) option progress \<times> bool \<times> mac_resolver) res" where
  "get_mac_round now interface ip elapsed repeated r =
     (if mr_stop_flag r \<or> 1000 \<le> elapsed then Inr (Finished None, False, r\<lparr>work := (work r)(ip := None)\<rparr>)
      else case work r ip of
        None \<Rightarrow> Inr (Finished None, False, r)
      | Some (Some result) \<Rightarrow>
          let r1 = r\<lparr>work := (work r)(ip := None)\<rparr> in
          (case result of
             Some m \<Rightarrow>
               rbind (update_cache now m ip interface False (mr_cache r1)) (\<lambda>c.
               Inr (Finished (Some (interface, m)), False, r1\<lparr>mr_cache := c\<rparr>))
           | None \<Rightarrow> Inl Bad_optional_access)
      | Some None \<Rightarrow>
          if \<not> repeated \<and> 500 \<le> elapsed then Inr (Waiting True, True, r)
          else Inr (Waiting repeated, False, r))"

text \<open>An answer from the network, as the handlers of ARP and NDP store it.\<close>

definition resolve_answer :: "addr \<Rightarrow> addr option \<Rightarrow> mac_resolver \<Rightarrow> mac_resolver" where
  "resolve_answer ip result r =
     (case work r ip of None \<Rightarrow> r | Some _ \<Rightarrow> r\<lparr>work := (work r)(ip \<mapsto> Some result)\<rparr>)"

definition get_phys_by_mac :: "addr \<Rightarrow> mac_resolver \<Rightarrow> phys_id option \<times> mac_resolver" where
  "get_phys_by_mac mac r = (let (rc, c) = query_mac_cache mac (mr_cache r) in (rc, r\<lparr>mr_cache := c\<rparr>))"

text \<open>\<open>get_addr\<close>, \<open>transmit_packet\<close> and \<open>get_max_packet_size\<close> of a resolver are not to be called.\<close>

definition mac_resolver_get_addr :: "addr res" where
  "mac_resolver_get_addr = Inl Assert_failed"

definition mac_resolver_transmit_packet :: "bool res" where
  "mac_resolver_transmit_packet = Inl Assert_failed"

definition mac_resolver_get_max_packet_size :: "int res" where
  "mac_resolver_get_max_packet_size = Inl Assert_failed"

section \<open>The waiting loop\<close>

text \<open>
  What other threads do to the entry of the question while this one waits: the handlers of the network store an
  answer, or another thread that waits for the same address and shares the entry takes it away, because it
  has seen the answer or has waited long enough; it leaves the cache \<open>c\<close> behind.
\<close>

datatype mac_event = Answer "addr option" | Taken address_cache

definition mac_event_effect :: "addr \<Rightarrow> mac_event option \<Rightarrow> mac_resolver \<Rightarrow> mac_resolver" where
  "mac_event_effect ip e r =
     (case e of None \<Rightarrow> r
      | Some (Answer a) \<Rightarrow> resolve_answer ip a r
      | Some (Taken c) \<Rightarrow> r\<lparr>mr_cache := c, work := (work r)(ip := None)\<rparr>)"

text \<open>
  The loop against an environment: in the \<open>k\<close>-th entry of \<open>ts\<close>, the clock after the request and
  what happens to the question while the thread waits before that round.
\<close>

fun get_mac_wait ::
  "u64 \<Rightarrow> phys_id \<Rightarrow> addr \<Rightarrow> (u64 \<times> mac_event option) list \<Rightarrow> bool \<Rightarrow> nat \<Rightarrow> mac_resolver \<Rightarrow>
   ((phys_id \<times> addr) option progress \<times> nat \<times> mac_resolver) res" where
  "get_mac_wait now interface ip [] repeated n r = Inr (Waiting repeated, n, r)"
| "get_mac_wait now interface ip ((elapsed, e) # ts) repeated n r =
     rbind (get_mac_round now interface ip elapsed repeated (mac_event_effect ip e r)) (\<lambda>(p, again, r2).
        let n' = (if again then Suc n else n) in
        case p of Finished x \<Rightarrow> Inr (Finished x, n', r2)
        | Waiting rep \<Rightarrow> get_mac_wait now interface ip ts rep n' r2)"

definition quiet :: "(u64 \<times> mac_event option) list \<Rightarrow> bool" where
  "quiet ts = list_all (\<lambda>(t, e). t < 1000 \<and> e = None) ts"

definition late :: "(u64 \<times> mac_event option) list \<Rightarrow> bool" where
  "late ts = list_ex (\<lambda>(t, e). 500 \<le> t) ts"

text \<open>While nothing happens the request is repeated once, in the first round after 500 ms.\<close>

lemma get_mac_wait_quiet:
  assumes "work r ip = Some None" and "\<not> mr_stop_flag r" and "quiet qs"
  shows "get_mac_wait now i ip (qs @ ts) rep n r =
    get_mac_wait now i ip ts (rep \<or> late qs) (if \<not> rep \<and> late qs then Suc n else n) r"
  using assms(3)
proof (induction qs arbitrary: rep n)
  case (Cons q qs)
  then obtain t where "q = (t, None)" "\<not> 1000 \<le> t" "quiet qs" by (cases q) (auto simp: quiet_def)
  with assms(1,2) Cons.IH show ?case
    by (cases "500 \<le> t") (simp_all add: get_mac_round_def late_def mac_event_effect_def)
qed (simp add: late_def)

text \<open>
  C38. A thread that waits for a link address gets the answer or gives up.  While nothing happens to its
  question it waits; its request is repeated once if it still waits after half a second, and never
  otherwise.  The first answer within the second is returned, closes the question and is in the
  cache for the next lookups (an answer without an address is an exception); after a second the question
  is closed without a result.  When another thread that waits for the same address has taken the
  entry away, this one returns without a result, even if the answer has just come.
\<close>

theorem get_mac_outcome:
  assumes "work r ip = Some None" and "\<not> mr_stop_flag r" and "\<not> pinned ip (mr_cache r)"
    and "quiet qs" and "link_family m" and "ip_family ip"
  shows "(t < 1000 \<longrightarrow>
      (\<exists>r'. get_mac_wait now i ip (qs @ (t, Some (Answer (Some m))) # rest) False 0 r = Inr (Finished (Some (i, m)), if late qs then 1 else 0, r') \<and>
        work r' ip = None \<and> lookup ip (mr_cache r') = Some (i, m)) \<and>
      get_mac_wait now i ip (qs @ (t, Some (Answer None)) # rest) False 0 r = Inl Bad_optional_access) \<and>
    (1000 \<le> t \<longrightarrow>
      (\<exists>r'. get_mac_wait now i ip (qs @ (t, None) # rest) False 0 r = Inr (Finished None, if late qs then 1 else 0, r') \<and>
        work r' ip = None \<and> mr_cache r' = mr_cache r)) \<and>
    (\<exists>r'. get_mac_wait now i ip (qs @ (t, Some (Taken c)) # rest) False 0 r = Inr (Finished None, if late qs then 1 else 0, r') \<and>
      work r' ip = None \<and> mr_cache r' = c)"
proof -
  obtain c1 where c1: "update_cache now m ip i False (mr_cache r) = Inr c1"
    using assms(5,6) by (simp add: update_cache_Inr)
  from update_cache_entry [OF c1, of ip] assms(3) have "lookup ip c1 = Some (i, m)"
    by (simp add: lookup_def)
  with c1 assms(1,2,4) show ?thesis
    by (auto simp: get_mac_wait_quiet get_mac_round_def mac_event_effect_def resolve_answer_def Let_def not_le)
qed

theorem get_mac_outcome_witness:
  "\<exists>r'. get_mac_wait 7 3 (Addr AF_ipv4 [10, 0, 0, 1])
      [(100, None), (600, None), (700, Some (Answer (Some (Addr AF_mac [2, 0, 0, 0, 0, 1]))))] False 0
      ((mac_resolver_new address_cache_new)\<lparr>work := [Addr AF_ipv4 [10, 0, 0, 1] \<mapsto> None]\<rparr>) =
    Inr (Finished (Some (3, Addr AF_mac [2, 0, 0, 0, 0, 1])), 1, r')"
proof -
  let ?ip = "Addr AF_ipv4 [10, 0, 0, 1]" and ?m = "Addr AF_mac [2, 0, 0, 0, 0, 1]"
  let ?r = "(mac_resolver_new address_cache_new)\<lparr>work := [?ip \<mapsto> None]\<rparr>"
  let ?qs = "[(100, None), (600, None)] :: (u64 \<times> mac_event option) list"
  have h: "work ?r ?ip = Some None" "\<not> mr_stop_flag ?r" "\<not> pinned ?ip (mr_cache ?r)"
    by (simp_all add: mac_resolver_new_def address_cache_new_def pinned_def)
  have q: "quiet ?qs" "link_family ?m" "ip_family ?ip" "late ?qs" "(700 :: u64) < 1000"
    by (simp_all add: quiet_def link_family_def ip_family_def late_def)
  from get_mac_outcome [OF h q(1-3), of 700 7 3 "[]"] obtain r' where
    "get_mac_wait 7 3 ?ip (?qs @ [(700, Some (Answer (Some ?m)))]) False 0 ?r = Inr (Finished (Some (3, ?m)), if late ?qs then 1 else 0, r')"
    using q(5) by blast
  then have "get_mac_wait 7 3 ?ip (?qs @ [(700, Some (Answer (Some ?m)))]) False 0 ?r = Inr (Finished (Some (3, ?m)), 1, r')"
    unfolding if_P [OF q(4)] .
  then show ?thesis by (simp only: append.simps) blast
qed

end
