(* ===== verification/Net.thy ===== *)
theory Net
  imports Any_Addr
begin

text \<open>
  The arithmetic on packets that the layers share: the Internet checksum of
  \<^verbatim>\<open>src/network_layer.cpp\<close>, the checksum of TCP and UDP with its pseudo header of
  \<^verbatim>\<open>src/transport_layer.cpp\<close>, and the subnet tests and address helpers of \<^verbatim>\<open>src/net.cpp\<close>.
\<close>

unbundle bit_operations_syntax

section \<open>The Internet checksum\<close>

text \<open>\<open>htons (p[i])\<close> reads the octets \<open>2 * i\<close> and \<open>2 * i + 1\<close> in network order.\<close>

fun words16 :: "byte list \<Rightarrow> u16 list" where
  "words16 (a # b # r) = mk16 a b # words16 r"
| "words16 _ = []"

definition checksum_fold :: "u32 \<Rightarrow> u16" where
  "checksum_fold cksum =
     (let c1 = drop_bit 16 cksum + (cksum AND 0xffff);
          c2 = c1 + drop_bit 16 c1
      in NOT (ucast c2))"

definition ip_checksum :: "byte list \<Rightarrow> nat \<Rightarrow> u16 res" where
  "ip_checksum p n =
     (if length p < 2 * n then Inl Undefined_behaviour
      else Inr (checksum_fold (foldl (\<lambda>c w. c + ucast w) 0 (words16 (take (2 * n) p)))))"

text \<open>
  The pseudo header is written over zeroed memory; \<open>len\<close> is the \<open>int\<close> length of the payload,
  whose octets are \<open>bytes32 (of_nat len)\<close>.
\<close>

definition pseudo_header_v6 :: "addr \<Rightarrow> addr \<Rightarrow> bool \<Rightarrow> nat \<Rightarrow> byte list" where
  "pseudo_header_v6 src dst tcp len =
     octets src @ octets dst @ bytes32 (of_nat len) @ [0, 0, 0, if tcp then 0x06 else 0x11]"

definition pseudo_header_v4 :: "addr \<Rightarrow> addr \<Rightarrow> bool \<Rightarrow> nat \<Rightarrow> byte list" where
  "pseudo_header_v4 src dst tcp len =
     octets src @ octets dst @ [0, if tcp then 0x06 else 0x11] @ bytes16 (of_nat len)"

definition tcp_udp_checksum :: "addr \<Rightarrow> addr \<Rightarrow> bool \<Rightarrow> byte list \<Rightarrow> u16 res" where
  "tcp_udp_checksum src_addr dst_addr tcp payload =
     (let len = length payload; pad = replicate (len mod 2) 0 in
      if addr_fam dst_addr = AF_ipv6 then
        rbind (rassert (length (octets src_addr) = 16)) (\<lambda>_.
        ip_checksum (pseudo_header_v6 src_addr dst_addr tcp len @ payload @ pad) ((40 + len + len mod 2) div 2))
      else if addr_fam dst_addr = AF_ipv4 then
        rbind (rassert (length (octets src_addr) = 4)) (\<lambda>_.
        ip_checksum (pseudo_header_v4 src_addr dst_addr tcp len @ payload @ pad) ((12 + len + len mod 2) div 2))
      else Inr 0)"

section \<open>Subnets\<close>

text \<open>
  \<open>check_subnet\<close> with a prefix length, as the routing of IPv6 uses it: whole octets first, then
  the remaining bits under a mask.  A prefix length beyond the address reads past its end.
\<close>

definition check_subnet_cidr :: "addr \<Rightarrow> addr \<Rightarrow> int \<Rightarrow> bool res" where
  "check_subnet_cidr a network cidr =
     rbind (rassert (length (octets a) = 16)) (\<lambda>_.
     rbind (rassert (length (octets network) = 16)) (\<lambda>_.
     if cidr \<le> - 8 \<or> 128 < cidr then Inl Undefined_behaviour
     else
       let n_bytes = nat (cidr div 8); n_bits = nat (cidr mod 8) in
       if take n_bytes (octets a) \<noteq> take n_bytes (octets network) then Inr False
       else if n_bits \<noteq> 0 then
         let mask = push_bit (8 - n_bits) 0xff in
         Inr (octets a ! n_bytes AND mask = octets network ! n_bytes AND mask)
       else Inr True))"

text \<open>\<open>check_subnet\<close> with a netmask; \<open>operator[]\<close> asserts that the index is in the address.\<close>

definition addr_at :: "addr \<Rightarrow> nat \<Rightarrow> byte res" where
  "addr_at a i = (if i < length (octets a) then Inr (octets a ! i) else Inl Assert_failed)"

fun check_subnet_loop :: "addr \<Rightarrow> addr \<Rightarrow> byte list \<Rightarrow> nat \<Rightarrow> bool res" where
  "check_subnet_loop a network [] i = Inr True"
| "check_subnet_loop a network (m # ms) i =
     rbind (addr_at a i) (\<lambda>x. rbind (addr_at network i) (\<lambda>y.
     if x AND m \<noteq> y then Inr False else check_subnet_loop a network ms (Suc i)))"

definition check_subnet_mask :: "addr \<Rightarrow> addr \<Rightarrow> byte list \<Rightarrow> bool res" where
  "check_subnet_mask a network netmask = check_subnet_loop a network netmask 0"

section \<open>Address helpers\<close>

definition gen_opponent_mac :: "addr \<Rightarrow> addr res" where
  "gen_opponent_mac my_mac =
     (if length (octets my_mac) < 6 then Inl Assert_failed
      else Inr (Addr AF_mac (map2 (XOR) (take 6 (octets my_mac)) [0xaa, 0x55, 0xaa, 0x55, 0xaa, 0x55])))"

text \<open>
  \<open>swap_mac\<close> and \<open>swap_ipv4\<close> exchange \<open>n\<close> octets at \<open>i\<close> with \<open>n\<close> octets at \<open>j\<close> of a buffer
  through a temporary; the blocks may overlap.
\<close>

definition blit :: "nat \<Rightarrow> byte list \<Rightarrow> byte list \<Rightarrow> byte list" where
  "blit i src buf = take i buf @ src @ drop (i + length src) buf"

definition swap_blocks :: "nat \<Rightarrow> nat \<Rightarrow> nat \<Rightarrow> byte list \<Rightarrow> byte list res" where
  "swap_blocks n i j buf =
     (if i + n \<le> length buf \<and> j + n \<le> length buf
      then let temp = take n (drop i buf); buf1 = blit i (take n (drop j buf)) buf in Inr (blit j temp buf1)
      else Inl Undefined_behaviour)"

definition swap_mac :: "nat \<Rightarrow> nat \<Rightarrow> byte list \<Rightarrow> byte list res" where
  "swap_mac i j buf = swap_blocks 6 i j buf"

definition swap_ipv4 :: "nat \<Rightarrow> nat \<Rightarrow> byte list \<Rightarrow> byte list res" where
  "swap_ipv4 i j buf = swap_blocks 4 i j buf"

section \<open>The checksum as a sum modulo 65535\<close>

definition word_sum :: "byte list \<Rightarrow> nat" where
  "word_sum p = sum_list (map unat (words16 p))"

definition ones_sum :: "nat \<Rightarrow> nat" where
  "ones_sum s = (let c = s div 65536 + s mod 65536 in if 65536 \<le> c then c - 65535 else c)"

lemma ones_sum_props:
  assumes "s < 2 ^ 32"
  shows "ones_sum s \<le> 65535" and "ones_sum s mod 65535 = s mod 65535" and "ones_sum s = 0 \<longleftrightarrow> s = 0"
proof -
  have b: "s div 65536 < 65536" "s mod 65536 < 65536" using assms by auto
  then show "ones_sum s \<le> 65535" by (auto simp: ones_sum_def Let_def)
  have "s = 65536 * (s div 65536) + s mod 65536" by simp
  then have "s = s div 65536 * 65535 + (s div 65536 + s mod 65536)" by linarith
  then have "s mod 65535 = (s div 65536 + s mod 65536) mod 65535" by (metis mod_mult_self3)
  moreover have "(c - 65535) mod 65535 = c mod 65535" if "65536 \<le> c" for c :: nat
    using that le_mod_geq [of 65535 c] by simp
  ultimately show "ones_sum s mod 65535 = s mod 65535"
    by (simp add: ones_sum_def Let_def)
  show "ones_sum s = 0 \<longleftrightarrow> s = 0" by (auto simp: ones_sum_def Let_def)
qed

lemma ones_sum_full: "s < 2 ^ 32 \<Longrightarrow> 0 < s \<Longrightarrow> s mod 65535 = 0 \<Longrightarrow> ones_sum s = 65535"
  using ones_sum_props [of s] by (metis le_neq_implies_less mod_less neq0_conv)

lemma unat_not16: "unat (NOT w) = 65535 - unat (w :: u16)"
proof -
  have "NOT w = -1 - w" by (simp add: not_eq_complement)
  then show ?thesis using unat_sub [of w "-1"]
    by (simp add: unsigned_minus_1_eq_mask mask_eq_exp_minus_1)
qed

lemma fold_carry:
  assumes "u < 131071"
  shows "(u + u div 65536) mod 4294967296 mod 65536 = (if 65536 \<le> u then u - 65535 else u :: nat)"
proof (cases "65536 \<le> u")
  case True
  then have "u div 65536 = 1" using assms by (intro div_nat_eqI) simp_all
  moreover have "(u + 1) mod 65536 = u + 1 - 65536"
    using True assms le_mod_geq [of 65536 "u + 1"] by (simp del: One_nat_def)
  ultimately show ?thesis using True assms by simp
qed simp

lemma unat_checksum_fold: "unat (checksum_fold c) = 65535 - ones_sum (unat c)"
proof -
  have c: "unat c < 2 ^ LENGTH(32)" by (rule unsigned_less)
  define c1 where "c1 = drop_bit 16 c + (c AND 0xffff)"
  have m: "(c AND 0xffff) = take_bit 16 c"
    using take_bit_eq_mask [of 16 c] by (simp add: mask_eq_exp_minus_1)
  have "unat c1 = unat c div 65536 + unat c mod 65536"
    unfolding c1_def m unat_word_ariths
    using c by (simp add: drop_bit_eq_div take_bit_eq_mod unat_div unat_mod)
  moreover have "unat (drop_bit 16 c1) = unat c1 div 65536"
    by (simp add: drop_bit_eq_div unat_div)
  ultimately have "unat (ucast (c1 + drop_bit 16 c1) :: u16) = ones_sum (unat c)"
    using fold_carry [of "unat c1"] c
    by (simp add: unat_word_ariths unsigned_ucast_eq take_bit_eq_mod ones_sum_def Let_def)
  then show ?thesis
    by (simp add: checksum_fold_def c1_def Let_def unat_not16)
qed

lemma unat_u16_less: "unat (w :: u16) < 65536"
  using unsigned_less [of w] by simp

lemma unat_sum_words:
  "unat c + sum_list (map unat ws) < 2 ^ 32 \<Longrightarrow>
   unat (foldl (\<lambda>c (w :: u16). c + ucast w) (c :: u32) ws) = unat c + sum_list (map unat ws)"
proof (induction ws arbitrary: c)
  case (Cons w ws)
  have w: "unat (ucast w :: u32) = unat w"
    using unat_u16_less [of w] by (simp add: unsigned_ucast_eq take_bit_nat_eq_self)
  with Cons.prems have "unat (c + ucast w) = unat c + unat w"
    by (simp add: unat_word_ariths)
  with Cons show ?case by simp
qed simp

lemma length_words16 [simp]: "length (words16 p) = length p div 2"
  by (induction p rule: words16.induct) auto

lemma sum_u16_bound: "sum_list (map unat (ws :: u16 list)) \<le> 65535 * length ws"
proof (induction ws)
  case (Cons w ws)
  have "unat w < 2 ^ LENGTH(16)" by (rule unsigned_less)
  with Cons show ?case by simp
qed simp

lemma word_sum_bound: "length p \<le> 131072 \<Longrightarrow> word_sum p < 2 ^ 32"
  using sum_u16_bound [of "words16 p"] by (simp add: word_sum_def)

lemma ip_checksum_value:
  assumes "2 * n \<le> length p" and "n \<le> 65536"
  shows "\<exists>c. ip_checksum p n = Inr c \<and> unat c = 65535 - ones_sum (word_sum (take (2 * n) p))"
  using assms unat_sum_words [of 0 "words16 (take (2 * n) p)"] word_sum_bound [of "take (2 * n) p"]
  by (simp add: ip_checksum_def unat_checksum_fold word_sum_def)

lemma words16_append: "even (length xs) \<Longrightarrow> words16 (xs @ ys) = words16 xs @ words16 ys"
  by (induction xs rule: words16.induct) auto

lemma words16_bytes16 [simp]: "words16 (bytes16 w @ ys) = w # words16 ys"
  by (simp add: bytes16_def codec_simps)

lemma word_sum_field:
  "even (length pre) \<Longrightarrow> word_sum (pre @ bytes16 w @ post) = word_sum pre + unat w + word_sum post"
  by (simp add: word_sum_def words16_append)

lemma ones_sum_complete:
  assumes "s < 2 ^ 32" and "s + (65535 - ones_sum s) < 2 ^ 32"
  shows "ones_sum (s + (65535 - ones_sum s)) = 65535"
proof (rule ones_sum_full)
  note o = ones_sum_props [OF assms(1)]
  show "0 < s + (65535 - ones_sum s)" using o(3) by (cases "s = 0") auto
  have "(s + (65535 - ones_sum s)) mod 65535 = (s mod 65535 + (65535 - ones_sum s)) mod 65535"
    by (simp add: mod_simps)
  also have "\<dots> = (ones_sum s + (65535 - ones_sum s)) mod 65535"
    using o(2) by (metis mod_add_left_eq)
  finally show "(s + (65535 - ones_sum s)) mod 65535 = 0" using o(1) by simp
qed (rule assms(2))

lemma checksum_fills:
  assumes "even (length pre)" and "even (length post)" and "length pre + 2 + length post = 2 * n"
    and "n \<le> 65536" and "ip_checksum (pre @ bytes16 0 @ post) n = Inr c"
  shows "ip_checksum (pre @ bytes16 c @ post) n = Inr 0"
proof -
  let ?s = "word_sum pre + word_sum post"
  have "unat c = 65535 - ones_sum ?s"
    using ip_checksum_value [of n "pre @ bytes16 0 @ post"] assms word_sum_field [of pre 0 post] by simp
  moreover obtain c' where c': "ip_checksum (pre @ bytes16 c @ post) n = Inr c'"
    "unat c' = 65535 - ones_sum (word_sum (pre @ bytes16 c @ post))"
    using ip_checksum_value [of n "pre @ bytes16 c @ post"] assms by auto
  moreover have "?s < 2 ^ 32" "word_sum (pre @ bytes16 c @ post) < 2 ^ 32"
    using word_sum_bound [of "pre @ bytes16 0 @ post"] word_sum_bound [of "pre @ bytes16 c @ post"]
      word_sum_field [of pre 0 post] assms by simp_all
  ultimately have "unat c' = 0"
    using word_sum_field [OF assms(1), of c post] ones_sum_complete [of ?s] by (simp add: ac_simps)
  with c' show ?thesis by (simp add: unsigned_eq_0_iff)
qed

text \<open>
  A packet that carries its own checksum checks to zero: when the sender computes
  ip_checksum over an even number of octets (at most 128 KiB) whose checksum field, at an even
  offset, is zero, and stores the result in that field in network order, then ip_checksum over the
  packet with the field filled in is zero.  No carry is lost in the 32 bit accumulator.
\<close>

theorem checksum_verifies:
  assumes "even (length pre)" and "even (length post)" and "length pre + 2 + length post = 2 * n"
    and "n \<le> 65536" and "ip_checksum (pre @ bytes16 0 @ post) n = Inr c"
  shows "ip_checksum (pre @ bytes16 c @ post) n = Inr 0"
  using assms by (rule checksum_fills)

theorem checksum_verifies_witness:
  "ip_checksum ([0x45, 0, 0, 0x1c] @ bytes16 0 @ [192, 168, 3, 1]) 5 = Inr 0xf739 \<and>
   ip_checksum ([0x45, 0, 0, 0x1c] @ bytes16 0xf739 @ [192, 168, 3, 1]) 5 = Inr 0"
proof -
  have c: "ip_checksum ([0x45, 0, 0, 0x1c] @ bytes16 0 @ [192, 168, 3, 1]) 5 = Inr 0xf739"
    by code_simp
  with checksum_verifies [OF _ _ _ _ c] show ?thesis by simp
qed

text \<open>The same for the checksum of TCP and UDP, with the pseudo header in front.\<close>

lemma tcp_udp_checksum_fills:
  assumes "wf_addr src" and "wf_addr dst" and "addr_fam src = addr_fam dst"
    and "even (length pre)" and "length pre + 2 + length post \<le> 65535"
    and "tcp_udp_checksum src dst tcp (pre @ bytes16 0 @ post) = Inr c"
    and "addr_fam dst = AF_ipv4 \<or> addr_fam dst = AF_ipv6"
  shows "tcp_udp_checksum src dst tcp (pre @ bytes16 c @ post) = Inr 0"
proof -
  let ?len = "length pre + 2 + length post"
  let ?pad = "replicate (?len mod 2) (0 :: byte)"
  have ev: "even (length (post @ ?pad))" using assms(4) by (cases "even (length post)") (auto simp: odd_iff_mod_2_eq_one)
  have l4: "length (pseudo_header_v4 src dst tcp ?len) = 12" if "addr_fam dst = AF_ipv4"
    using that assms by (simp add: pseudo_header_v4_def wf_addr_def)
  have l6: "length (pseudo_header_v6 src dst tcp ?len) = 40" if "addr_fam dst = AF_ipv6"
    using that assms by (simp add: pseudo_header_v6_def wf_addr_def)
  from assms(7) show ?thesis
  proof
    assume f: "addr_fam dst = AF_ipv4"
    then show ?thesis
      using checksum_fills [of "pseudo_header_v4 src dst tcp ?len @ pre" "post @ ?pad" "(12 + ?len + ?len mod 2) div 2" c]
        assms ev l4 by (simp add: tcp_udp_checksum_def Let_def wf_addr_def)
  next
    assume f: "addr_fam dst = AF_ipv6"
    then show ?thesis
      using checksum_fills [of "pseudo_header_v6 src dst tcp ?len @ pre" "post @ ?pad" "(40 + ?len + ?len mod 2) div 2" c]
        assms ev l6 by (simp add: tcp_udp_checksum_def Let_def wf_addr_def)
  qed
qed

text \<open>The order of the two addresses in the pseudo header does not matter.\<close>

lemma foldl_sum_words: "foldl (\<lambda>c (w :: u16). c + ucast w) (c :: u32) ws = c + sum_list (map ucast ws)"
  by (induction ws arbitrary: c) (auto simp: ac_simps)

lemma ip_checksum_swap:
  assumes "even (length xs)" and "even (length ys)" and "length xs + length ys \<le> 2 * n"
  shows "ip_checksum (xs @ ys @ zs) n = ip_checksum (ys @ xs @ zs) n"
proof -
  have t: "take (2 * n) (xs @ ys @ zs) = xs @ ys @ take (2 * n - length xs - length ys) zs"
    "take (2 * n) (ys @ xs @ zs) = ys @ xs @ take (2 * n - length xs - length ys) zs"
    using assms(3) by (simp_all add: add.commute diff_diff_left)
  show ?thesis
    unfolding ip_checksum_def t foldl_sum_words
    using assms(1,2) by (simp add: words16_append ac_simps)
qed

lemma tcp_udp_checksum_swap:
  assumes "wf_addr a" and "wf_addr b" and "addr_fam a = addr_fam b"
  shows "tcp_udp_checksum a b tcp payload = tcp_udp_checksum b a tcp payload"
proof -
  let ?len = "length payload"
  let ?pad = "payload @ replicate (?len mod 2) 0"
  let ?t4 = "[0, if tcp then 6 else 17] @ bytes16 (of_nat ?len) @ ?pad"
  let ?t6 = "bytes32 (of_nat ?len) @ [0, 0, 0, if tcp then 6 else 17] @ ?pad"
  show ?thesis
  proof (cases "addr_fam b")
    case AF_ipv4
    with assms ip_checksum_swap [of "octets a" "octets b" "(12 + ?len + ?len mod 2) div 2" ?t4]
    show ?thesis by (simp add: tcp_udp_checksum_def pseudo_header_v4_def wf_addr_def Let_def)
  next
    case AF_ipv6
    with assms ip_checksum_swap [of "octets a" "octets b" "(40 + ?len + ?len mod 2) div 2" ?t6]
    show ?thesis by (simp add: tcp_udp_checksum_def pseudo_header_v6_def wf_addr_def Let_def)
  qed (use assms in \<open>simp_all add: tcp_udp_checksum_def\<close>)
qed

section \<open>Subnets as prefixes of bits\<close>

text \<open>Bit \<open>j\<close> of an address, counted from the most significant one.\<close>

definition addr_bit :: "byte list \<Rightarrow> nat \<Rightarrow> bool" where
  "addr_bit bs j = bit (bs ! (j div 8)) (7 - j mod 8)"

definition same_prefix :: "nat \<Rightarrow> byte list \<Rightarrow> byte list \<Rightarrow> bool" where
  "same_prefix k xs ys \<longleftrightarrow> (\<forall>j<k. addr_bit xs j = addr_bit ys j)"

text \<open>The netmask of \<open>k\<close> leading ones.\<close>

definition prefix_netmask :: "nat \<Rightarrow> byte list" where
  "prefix_netmask k = map (\<lambda>i. push_bit (8 - (min 8 (k - 8 * i))) 0xff) [0..<4]"

lemma bit_ff: "bit (0xff :: byte) i \<longleftrightarrow> i < 8"
proof -
  have "(0xff :: byte) = mask 8" by (simp add: mask_eq_exp_minus_1)
  then have "bit (0xff :: byte) i = bit (mask 8 :: byte) i" by (rule arg_cong)
  also have "\<dots> \<longleftrightarrow> i < 8" unfolding bit_mask_iff by simp
  finally show ?thesis .
qed

lemma and_ff [simp]: "(x :: byte) AND 0xff = x"
  by (rule bit_word_eqI) (simp only: bit_and_iff bit_ff, simp)

lemma and_ff00: "(x :: byte) AND 0xff00 = 0"
proof -
  have "(0xff00 :: byte) = 0" by simp
  then show ?thesis by (simp only: and_zero_eq)
qed

lemma mask_eq_bits:
  assumes "k \<le> 8"
  shows "(x :: byte) AND push_bit (8 - k) 0xff = y AND push_bit (8 - k) 0xff \<longleftrightarrow> (\<forall>i<k. bit x (7 - i) = bit y (7 - i))"
proof
  assume l: "x AND push_bit (8 - k) 0xff = y AND push_bit (8 - k) 0xff"
  show "\<forall>i<k. bit x (7 - i) = bit y (7 - i)"
  proof (intro allI impI)
    fix i assume "i < k"
    then have "bit (push_bit (8 - k) (0xff :: byte)) (7 - i)"
      using assms unfolding bit_push_bit_iff bit_ff by auto
    with arg_cong [OF l, of "\<lambda>w. bit w (7 - i)"] show "bit x (7 - i) = bit y (7 - i)"
      by (simp add: bit_and_iff)
  qed
next
  assume r: "\<forall>i<k. bit x (7 - i) = bit y (7 - i)"
  show "x AND push_bit (8 - k) 0xff = y AND push_bit (8 - k) 0xff"
  proof (rule bit_word_eqI)
    fix n assume "n < LENGTH(8)"
    then have "8 - k \<le> n \<Longrightarrow> bit x n = bit y n" using r [rule_format, of "7 - n"] assms by simp
    then show "bit (x AND push_bit (8 - k) 0xff) n = bit (y AND push_bit (8 - k) 0xff) n"
      by (auto simp: bit_and_iff bit_push_bit_iff)
  qed
qed

lemma byte_eq_bits: "(x :: byte) = y \<longleftrightarrow> (\<forall>i<8. bit x (7 - i) = bit y (7 - i))"
  using mask_eq_bits [of 8 x y] by simp

lemma all_less_add: "(\<forall>j<m + k. P j) \<longleftrightarrow> (\<forall>j<m. P j) \<and> (\<forall>i<k. P (m + i))" for m k :: nat
proof (intro iffI conjI allI impI)
  fix j assume a: "(\<forall>j<m. P j) \<and> (\<forall>i<k. P (m + i))" and j: "j < m + k"
  then show "P j" using a [THEN conjunct2, rule_format, of "j - m"] by (cases "j < m") auto
qed auto

lemma same_prefix_split:
  "same_prefix (m + k) xs ys \<longleftrightarrow> same_prefix m xs ys \<and> (\<forall>i<k. addr_bit xs (m + i) = addr_bit ys (m + i))"
  unfolding same_prefix_def by (rule all_less_add)

lemma addr_bit_in: "i < 8 \<Longrightarrow> addr_bit xs (8 * n + i) = bit (xs ! n) (7 - i)"
  by (simp add: addr_bit_def)

lemma same_prefix_bytes:
  "n \<le> length xs \<Longrightarrow> n \<le> length ys \<Longrightarrow> take n xs = take n ys \<longleftrightarrow> same_prefix (8 * n) xs ys"
proof (induction n)
  case (Suc n)
  then have "take (Suc n) xs = take (Suc n) ys \<longleftrightarrow> take n xs = take n ys \<and> xs ! n = ys ! n"
    by (simp add: take_Suc_nth)
  moreover have "8 * Suc n = 8 * n + 8" by simp
  ultimately show ?case
    using Suc by (simp only: same_prefix_split) (simp add: addr_bit_in byte_eq_bits)
qed (simp add: same_prefix_def)

text \<open>
  check_subnet with a prefix length compares exactly the leading bits: for two IPv6
  addresses and a prefix length from 0 to 128 it answers whether their first cidr bits agree.
\<close>

theorem check_subnet_cidr_prefix:
  assumes "length (octets a) = 16" and "length (octets network) = 16" and "0 \<le> cidr" and "cidr \<le> 128"
  shows "check_subnet_cidr a network cidr = Inr (same_prefix (nat cidr) (octets a) (octets network))"
proof -
  define n k where "n = nat (cidr div 8)" and "k = nat (cidr mod 8)"
  have nk: "nat cidr = 8 * n + k" "k < 8" "n \<le> 16"
    using assms(3,4) by (auto simp: n_def k_def nat_div_distrib nat_mod_distrib)
  have p: "same_prefix (nat cidr) (octets a) (octets network) \<longleftrightarrow>
      take n (octets a) = take n (octets network) \<and>
      octets a ! n AND push_bit (8 - k) 0xff = octets network ! n AND push_bit (8 - k) 0xff"
    using nk assms(1,2)
    by (simp add: same_prefix_split mask_eq_bits addr_bit_in same_prefix_bytes)
  show ?thesis
    using assms p unfolding check_subnet_cidr_def n_def k_def by (auto simp: Let_def and_ff00)
qed

theorem check_subnet_cidr_prefix_witness:
  "check_subnet_cidr (Addr AF_ipv6 (0xfe # 0x80 # replicate 14 0)) (Addr AF_ipv6 (0xfe # 0xbf # replicate 14 0)) 10
     = Inr (same_prefix 10 (0xfe # 0x80 # replicate 14 0) (0xfe # 0xbf # replicate 14 0))"
  using check_subnet_cidr_prefix [of "Addr AF_ipv6 (0xfe # 0x80 # replicate 14 0)" "Addr AF_ipv6 (0xfe # 0xbf # replicate 14 0)" 10]
  by simp

lemma check_subnet_loop_all:
  assumes "i + length ms \<le> length (octets a)" and "i + length ms \<le> length (octets network)"
  shows "check_subnet_loop a network ms i =
    Inr (\<forall>j<length ms. octets a ! (i + j) AND ms ! j = octets network ! (i + j))"
  using assms
proof (induction ms arbitrary: i)
  case (Cons m ms)
  then show ?case by (simp add: addr_at_def All_less_Suc2)
qed simp

lemma and_mask_eq_bits:
  assumes "k \<le> 8"
  shows "(x :: byte) AND push_bit (8 - k) 0xff = y \<longleftrightarrow>
    (\<forall>i<k. bit x (7 - i) = bit y (7 - i)) \<and> (\<forall>i<8. k \<le> i \<longrightarrow> \<not> bit y (7 - i))"
proof -
  have "bit (push_bit (8 - k) (0xff :: byte)) (7 - i) \<longleftrightarrow> i < k" if "i < 8" for i
    using that assms unfolding bit_push_bit_iff bit_ff by auto
  then show ?thesis
    using assms by (auto simp: byte_eq_bits bit_and_iff) (meson not_less order_less_le_trans)+
qed

lemma prefix_netmask_props: "length (prefix_netmask k) = 4"
  "j < 4 \<Longrightarrow> prefix_netmask k ! j = push_bit (8 - (min 8 (k - 8 * j))) 0xff"
  by (simp_all add: prefix_netmask_def)

lemma all_less_mult: "(\<forall>j<8 * m. P j) \<longleftrightarrow> (\<forall>j<m. \<forall>i<8. P (8 * j + i))" for m :: nat
proof (induction m)
  case (Suc m)
  have "8 * Suc m = 8 * m + 8" by simp
  with Suc show ?case by (simp only: all_less_add All_less_Suc) blast
qed simp

text \<open>
  check_subnet with a netmask, for a contiguous netmask of k leading ones: it answers
  whether the address has the k leading bits of the network and the network has no bit set
  behind them.  A network whose host bits are not zero therefore matches no address at all.
\<close>

theorem check_subnet_mask_prefix:
  assumes "length (octets a) = 4" and "length (octets network) = 4" and "k \<le> 32"
  shows "check_subnet_mask a network (prefix_netmask k) =
    Inr (same_prefix k (octets a) (octets network) \<and> (\<forall>j<32. k \<le> j \<longrightarrow> \<not> addr_bit (octets network) j))"
proof -
  let ?a = "octets a" and ?n = "octets network"
  have "octets a ! j AND prefix_netmask k ! j = ?n ! j \<longleftrightarrow>
      (\<forall>i<8. (8 * j + i < k \<longrightarrow> addr_bit ?a (8 * j + i) = addr_bit ?n (8 * j + i)) \<and>
        (k \<le> 8 * j + i \<longrightarrow> \<not> addr_bit ?n (8 * j + i)))" if "j < 4" for j
  proof -
    have "i < min 8 (k - 8 * j) \<longleftrightarrow> i < 8 \<and> 8 * j + i < k" "min 8 (k - 8 * j) \<le> i \<longleftrightarrow> 8 \<le> i \<or> k \<le> 8 * j + i" for i
      by auto
    then show ?thesis
      using that and_mask_eq_bits [of "min 8 (k - 8 * j)" "?a ! j" "?n ! j"]
      by (auto simp: prefix_netmask_props addr_bit_in)
  qed
  then have "(\<forall>j<4. ?a ! j AND prefix_netmask k ! j = ?n ! j) \<longleftrightarrow>
      (\<forall>j<4. \<forall>i<8. (8 * j + i < k \<longrightarrow> addr_bit ?a (8 * j + i) = addr_bit ?n (8 * j + i)) \<and>
        (k \<le> 8 * j + i \<longrightarrow> \<not> addr_bit ?n (8 * j + i)))"
    by blast
  also have "\<dots> \<longleftrightarrow> (\<forall>j<8 * 4. (j < k \<longrightarrow> addr_bit ?a j = addr_bit ?n j) \<and> (k \<le> j \<longrightarrow> \<not> addr_bit ?n j))"
    by (rule all_less_mult [symmetric])
  also have "\<dots> \<longleftrightarrow> same_prefix k ?a ?n \<and> (\<forall>j<32. k \<le> j \<longrightarrow> \<not> addr_bit ?n j)"
    using assms(3) by (auto simp: same_prefix_def)
  finally show ?thesis
    using assms check_subnet_loop_all [of 0 "prefix_netmask k" a network]
    by (simp add: check_subnet_mask_def prefix_netmask_props(1))
qed

theorem check_subnet_mask_prefix_witness:
  "check_subnet_mask (Addr AF_ipv4 [192, 168, 3, 7]) (Addr AF_ipv4 [192, 168, 3, 0]) (prefix_netmask 24) =
     Inr (same_prefix 24 [192, 168, 3, 7] [192, 168, 3, 0] \<and> (\<forall>j<32. 24 \<le> j \<longrightarrow> \<not> addr_bit [192, 168, 3, 0] j))"
  using check_subnet_mask_prefix [of "Addr AF_ipv4 [192, 168, 3, 7]" "Addr AF_ipv4 [192, 168, 3, 0]" 24] by simp

end
