(* ===== verification/Arp.thy ===== *)
theory Arp
  imports Mac_Resolver Net
begin

text \<open>
  ARP, the class \<open>arp\<close> of \<^verbatim>\<open>src/arp.cpp\<close>: the handler of received packets, the requests, and the
  addresses that need no request.  What is sent is a value of type \<open>frame\<close>, the arguments of
  \<open>phys::transmit_packet\<close>.
\<close>

unbundle bit_operations_syntax

record frame =
  tx_interface :: phys_id
  tx_dst_mac :: addr
  tx_src_mac :: addr
  tx_ether_type :: u16
  tx_payload :: "byte list"

record arp =
  arp_resolver :: mac_resolver
  arp_my_mac :: addr
  arp_my_ip :: addr
  arp_interface :: phys_id
  arp_requests :: u64
  arp_for_me :: u64

text \<open>\<open>n\<close> octets at an offset of a packet; beyond its end they are not the packet's.\<close>

definition octets_at :: "byte list \<Rightarrow> nat \<Rightarrow> nat \<Rightarrow> byte list res" where
  "octets_at p off n = (if off + n \<le> length p then Inr (take n (drop off p)) else Inl Undefined_behaviour)"

lemma octets_at_middle: "length a = n \<Longrightarrow> length b = k \<Longrightarrow> octets_at (a @ b @ c) n k = Inr b"
  by (simp add: octets_at_def)

definition patch_at :: "nat \<Rightarrow> byte list \<Rightarrow> byte list \<Rightarrow> byte list res" where
  "patch_at off src buf = (if off + length src \<le> length buf then Inr (blit off src buf) else Inl Undefined_behaviour)"

text \<open>The fields of a packet, as the handler reads them.\<close>

record arp_fields =
  af_ether_type :: u16
  af_request :: u16
  sha_offset :: nat
  spa_offset :: nat
  tha_offset :: nat
  tpa_offset :: nat
  f_THA :: "byte list"
  f_SHA :: "byte list"
  f_TPA :: "byte list"
  f_SPA :: "byte list"

definition arp_parse :: "byte list \<Rightarrow> arp_fields option res" where
  "arp_parse p =
     (if length p < 6 then Inr None
      else
        let hw_size = unat (p ! 4); p_size = unat (p ! 5);
            sha = 8; spa = 8 + hw_size; tha = spa + p_size; tpa = tha + hw_size; end_offset = tpa + p_size
        in if length p < end_offset then Inr None
           else
             let ether_type = mk16 (p ! 2) (p ! 3); request = mk16 (p ! 6) (p ! 7) in
             if (ether_type = 0x0800 \<and> p_size \<noteq> 4) \<or> (ether_type = 0x08ff \<and> hw_size \<noteq> 7) \<or>
                (ether_type = 0x00cc \<and> hw_size \<noteq> 7)
             then Inr None
             else
               rbind (octets_at p tha 6) (\<lambda>THA. rbind (octets_at p sha 6) (\<lambda>SHA.
               rbind (octets_at p tpa 4) (\<lambda>TPA. rbind (octets_at p spa 4) (\<lambda>SPA.
               Inr (Some \<lparr>af_ether_type = ether_type, af_request = request, sha_offset = sha, spa_offset = spa,
                 tha_offset = tha, tpa_offset = tpa, f_THA = THA, f_SHA = SHA, f_TPA = TPA, f_SPA = SPA\<rparr>))))))"

definition is_gratuitous :: "arp_fields \<Rightarrow> bool" where
  "is_gratuitous f \<longleftrightarrow> (af_request f = 1 \<or> af_request f = 2) \<and> f_THA f = replicate 6 0xff \<and> f_TPA f = f_SPA f"

definition arp_learn :: "u64 \<Rightarrow> arp_fields \<Rightarrow> arp \<Rightarrow> arp res" where
  "arp_learn now f a =
     (if is_gratuitous f
      then rbind (update_cache now (Addr AF_mac (f_SHA f)) (Addr AF_ipv4 (f_SPA f)) (arp_interface a) False
             (mr_cache (arp_resolver a))) (\<lambda>c.
           Inr (a\<lparr>arp_resolver := (arp_resolver a)\<lparr>mr_cache := c\<rparr>\<rparr>))
      else Inr a)"

text \<open>The answer to a request for this host, built in a copy of the request.\<close>

definition arp_reply :: "addr \<Rightarrow> arp_fields \<Rightarrow> byte list \<Rightarrow> byte list res" where
  "arp_reply my_mac f p =
     rbind (swap_mac (sha_offset f) (tha_offset f) p) (\<lambda>r1.
     rbind (if af_ether_type f = 0x0800 then
              rbind (rassert (length (octets my_mac) = 6)) (\<lambda>_. patch_at (sha_offset f) (octets my_mac) r1)
            else if af_ether_type f = 0x08ff \<or> af_ether_type f = 0x00cc then
              rbind (rassert (length (octets my_mac) = 7)) (\<lambda>_. patch_at (sha_offset f) (octets my_mac) r1)
            else Inr r1) (\<lambda>r2.
     swap_ipv4 (spa_offset f) (tpa_offset f) (r2[7 := 2])))"

text \<open>The link address in a reply; \<open>None\<close> is an \<open>any_addr\<close> that was not set.\<close>

definition arp_work_mac :: "arp_fields \<Rightarrow> byte list \<Rightarrow> addr option res" where
  "arp_work_mac f p =
     (if af_ether_type f = 0x0800 then rbind (octets_at p (sha_offset f) 6) (\<lambda>m. Inr (Some (Addr AF_mac m)))
      else if af_ether_type f = 0x08ff \<or> af_ether_type f = 0x00cc then
        rbind (octets_at p (sha_offset f) 7) (\<lambda>m. Inr (Some (Addr AF_ax25 m)))
      else Inr None)"

text \<open>
  A round of \<open>operator()\<close>: a packet that came in through \<open>interface\<close> from the link address
  \<open>src\<close>.  Copying a link address that was not set into \<open>work\<close> fails an assertion.
\<close>

definition arp_handle :: "u64 \<Rightarrow> phys_id \<Rightarrow> addr \<Rightarrow> byte list \<Rightarrow> arp \<Rightarrow> (frame list \<times> arp) res" where
  "arp_handle now interface src p a0 =
     (let a = a0\<lparr>arp_requests := arp_requests a0 + 1\<rparr> in
      rbind (arp_parse p) (\<lambda>parsed.
      case parsed of
        None \<Rightarrow> Inr ([], a)
      | Some f \<Rightarrow>
          rbind (arp_learn now f a) (\<lambda>a1.
          if af_request f = 1 then
            (if Addr AF_ipv4 (f_TPA f) = arp_my_ip a1 then
               rbind (arp_reply (arp_my_mac a1) f p) (\<lambda>reply.
               Inr ([\<lparr>tx_interface = interface, tx_dst_mac = src, tx_src_mac = arp_my_mac a1,
                      tx_ether_type = 0x0806, tx_payload = reply\<rparr>],
                    a1\<lparr>arp_for_me := arp_for_me a1 + 1\<rparr>))
             else Inr ([], a1))
          else if af_request f = 2 then
            rbind (arp_work_mac f p) (\<lambda>work_mac.
            case (work (arp_resolver a1) (Addr AF_ipv4 (f_SPA f)), work_mac) of
              (None, _) \<Rightarrow> Inr ([], a1)
            | (Some _, None) \<Rightarrow> Inl Assert_failed
            | (Some _, Some m) \<Rightarrow>
                Inr ([], a1\<lparr>arp_resolver := resolve_answer (Addr AF_ipv4 (f_SPA f)) (Some m) (arp_resolver a1)\<rparr>))
          else Inr ([], a1))))"

text \<open>\<open>send_request\<close>: the request, or nothing when the families are not served.\<close>

definition arp_send_request :: "addr \<Rightarrow> addr_family \<Rightarrow> arp \<Rightarrow> frame option res" where
  "arp_send_request ip fam a =
     (if fam \<noteq> AF_mac \<and> fam \<noteq> AF_ax25 then Inr None
      else if addr_fam ip \<noteq> AF_ipv4 then Inr None
      else
        let hw_size = (if fam = AF_mac then 6 else 7) in
        rbind (rassert (length (octets (arp_my_mac a)) = hw_size)) (\<lambda>_.
        rbind (rassert (length (octets (arp_my_ip a)) = 4)) (\<lambda>_.
        rbind (rassert (length (octets ip) = 4)) (\<lambda>_.
        Inr (Some \<lparr>tx_interface = arp_interface a,
          tx_dst_mac = (if fam = AF_mac then Addr AF_mac (replicate 6 0xff)
                        else Addr AF_ax25 (generate_address (ax25_address_make ''QST'' 0 True False))),
          tx_src_mac = arp_my_mac a, tx_ether_type = 0x0806,
          tx_payload = [0, if fam = AF_mac then 1 else 3] @
            (if fam = AF_ax25 then [0x00, 0xcc] else [0x08, 0x00]) @
            [of_nat hw_size, 4, 0, 1] @ octets (arp_my_mac a) @ octets (arp_my_ip a) @
            replicate hw_size 0 @ octets ip\<rparr>)))))"

definition arp_check_special_ip_addresses :: "addr \<Rightarrow> addr_family \<Rightarrow> addr option res" where
  "arp_check_special_ip_addresses ip family =
     rbind (addr_at ip 0) (\<lambda>b0.
     rbind (if b0 AND 0xf0 = 224 then
              (if family = AF_mac then
                 rbind (addr_at ip 1) (\<lambda>b1. rbind (addr_at ip 2) (\<lambda>b2. rbind (addr_at ip 3) (\<lambda>b3.
                 Inr (Some (Addr AF_mac [0x01, 0x00, 0x5e, b1, b2, b3])))))
               else if family = AF_ax25 then
                 Inr (Some (Addr AF_ax25 (generate_address (ax25_address_make ''QST'' 0 False False))))
               else Inr None)
            else Inr None) (\<lambda>multicast.
     case multicast of
       Some m \<Rightarrow> Inr (Some m)
     | None \<Rightarrow>
         if take 4 (octets ip) = replicate 4 255 then Inr (Some (Addr AF_mac (replicate 6 0xff))) else Inr None))"

section \<open>Question and answer\<close>

lemma mk16_values [simp]:
  "mk16 8 0 = 0x0800" "mk16 0 0xcc = 0x00cc" "mk16 0 1 = 1" "mk16 0 2 = 2"
  by code_simp+

lemma length_6: "length xs = 6 \<Longrightarrow> \<exists>a b c d e f. xs = [a, b, c, d, e, f]"
  by (auto simp: numeral_eq_Suc length_Suc_conv)

lemma length_7: "length xs = 7 \<Longrightarrow> \<exists>a b c d e f g. xs = [a, b, c, d, e, f, g]"
  by (auto simp: numeral_eq_Suc length_Suc_conv)

text \<open>Learning from a gratuitous packet changes the cache only.\<close>

lemma arp_learn_step:
  "\<exists>c. arp_learn now f a = Inr (a\<lparr>arp_resolver := (arp_resolver a)\<lparr>mr_cache := c\<rparr>\<rparr>)"
proof (cases "is_gratuitous f")
  case False
  then show ?thesis by (intro exI [of _ "mr_cache (arp_resolver a)"]) (simp add: arp_learn_def)
next
  case True
  then show ?thesis by (auto simp: arp_learn_def update_cache_def link_family_def ip_family_def)
qed

definition arp_packet :: "addr_family \<Rightarrow> byte \<Rightarrow> byte list \<Rightarrow> byte list \<Rightarrow> byte list \<Rightarrow> byte list \<Rightarrow> byte list" where
  "arp_packet fam oper sha spa tha tpa =
     [0, if fam = AF_mac then 1 else 3] @ (if fam = AF_ax25 then [0x00, 0xcc] else [0x08, 0x00]) @
     [of_nat (length sha), 4, 0, oper] @ sha @ spa @ tha @ tpa"

definition hw_ok :: "addr_family \<Rightarrow> byte list \<Rightarrow> bool" where
  "hw_ok fam m \<longleftrightarrow> (fam = AF_mac \<and> length m = 6) \<or> (fam = AF_ax25 \<and> length m = 7)"

lemma arp_parse_packet:
  assumes "hw_ok fam sha" "hw_ok fam tha" "length spa = 4" "length tpa = 4"
  shows "arp_parse (arp_packet fam oper sha spa tha tpa) =
    Inr (Some \<lparr>af_ether_type = (if fam = AF_ax25 then 0x00cc else 0x0800), af_request = mk16 0 oper, sha_offset = 8,
      spa_offset = 8 + length sha, tha_offset = 12 + length sha, tpa_offset = 12 + 2 * length sha,
      f_THA = take 6 tha, f_SHA = take 6 sha, f_TPA = tpa, f_SPA = spa\<rparr>)"
proof -
  obtain s0 s1 s2 s3 t0 t1 t2 t3 where ips: "spa = [s0, s1, s2, s3]" "tpa = [t0, t1, t2, t3]"
    using octets_4 [OF assms(3)] octets_4 [OF assms(4)] by blast
  show ?thesis
    using assms(1,2) unfolding hw_ok_def
  proof (elim disjE conjE)
    assume h: "fam = AF_mac" "length sha = 6" "length tha = 6"
    then obtain a b c d e f a' b' c' d' e' f' where "sha = [a, b, c, d, e, f]" "tha = [a', b', c', d', e', f']"
      using length_6 [of sha] length_6 [of tha] by auto
    with h ips show ?thesis
      by (simp add: arp_parse_def arp_packet_def octets_at_def)
  next
    assume h: "fam = AF_ax25" "length sha = 7" "length tha = 7"
    then obtain a b c d e f g a' b' c' d' e' f' g' where "sha = [a, b, c, d, e, f, g]" "tha = [a', b', c', d', e', f', g']"
      using length_7 [of sha] length_7 [of tha] by auto
    with h ips show ?thesis
      by (simp add: arp_parse_def arp_packet_def octets_at_def)
  qed auto
qed

lemma arp_reply_packet:
  assumes "hw_ok fam sha" "hw_ok fam tha" "hw_ok fam (octets my_mac)" "length spa = 4" "length tpa = 4"
    and "arp_parse (arp_packet fam 1 sha spa tha tpa) = Inr (Some fl)"
  shows "arp_reply my_mac fl (arp_packet fam 1 sha spa tha tpa) =
    Inr (arp_packet fam 2 (octets my_mac) tpa (take 6 sha @ drop 6 tha) spa)"
proof -
  obtain s0 s1 s2 s3 t0 t1 t2 t3 where ips: "spa = [s0, s1, s2, s3]" "tpa = [t0, t1, t2, t3]"
    using octets_4 [OF assms(4)] octets_4 [OF assms(5)] by blast
  have fl: "sha_offset fl = 8" "spa_offset fl = 8 + length sha" "tha_offset fl = 12 + length sha"
    "tpa_offset fl = 12 + 2 * length sha" "af_ether_type fl = (if fam = AF_ax25 then 0x00cc else 0x0800)"
    using assms(6) arp_parse_packet [OF assms(1,2,4,5), of 1] by auto
  show ?thesis
    using assms(1-3) unfolding hw_ok_def
  proof (elim disjE conjE)
    assume h: "fam = AF_mac" "length sha = 6" "length tha = 6" "length (octets my_mac) = 6"
    then obtain a b c d e f a' b' c' d' e' f' a2 b2 c2 d2 e2 f2 where "sha = [a, b, c, d, e, f]" "tha = [a', b', c', d', e', f']"
      "octets my_mac = [a2, b2, c2, d2, e2, f2]"
      using length_6 [of sha] length_6 [of tha] length_6 [of "octets my_mac"] by auto
    with h ips show ?thesis
      by (simp add: fl arp_reply_def arp_packet_def swap_mac_def swap_ipv4_def swap_blocks_def blit_def patch_at_def)
  next
    assume h: "fam = AF_ax25" "length sha = 7" "length tha = 7" "length (octets my_mac) = 7"
    then obtain a b c d e f g a' b' c' d' e' f' g' a2 b2 c2 d2 e2 f2 g2 where "sha = [a, b, c, d, e, f, g]" "tha = [a', b', c', d', e', f', g']"
      "octets my_mac = [a2, b2, c2, d2, e2, f2, g2]"
      using length_7 [of sha] length_7 [of tha] length_7 [of "octets my_mac"] by auto
    with h ips show ?thesis
      by (simp add: fl arp_reply_def arp_packet_def swap_mac_def swap_ipv4_def swap_blocks_def blit_def patch_at_def)
  qed auto
qed

lemma arp_handle_request:
  assumes "hw_ok fam sha" "hw_ok fam tha" "hw_ok fam (octets (arp_my_mac a))" "length spa = 4" "length tpa = 4"
    and "arp_my_ip a = Addr AF_ipv4 tpa"
  shows "\<exists>a'. arp_handle now i src (arp_packet fam 1 sha spa tha tpa) a =
    Inr ([\<lparr>tx_interface = i, tx_dst_mac = src, tx_src_mac = arp_my_mac a, tx_ether_type = 0x0806,
      tx_payload = arp_packet fam 2 (octets (arp_my_mac a)) tpa (take 6 sha @ drop 6 tha) spa\<rparr>], a')"
proof -
  let ?p = "arp_packet fam 1 sha spa tha tpa"
  obtain f where f: "arp_parse ?p = Inr (Some f)" "af_request f = 1" "f_TPA f = tpa"
    by (simp add: arp_parse_packet [OF assms(1,2,4,5)])
  note reply = arp_reply_packet [OF assms(1-5) f(1)]
  obtain c where "arp_learn now f (a\<lparr>arp_requests := arp_requests a + 1\<rparr>) =
      Inr (a\<lparr>arp_requests := arp_requests a + 1, arp_resolver := (arp_resolver a)\<lparr>mr_cache := c\<rparr>\<rparr>)"
    using arp_learn_step [of now f "a\<lparr>arp_requests := arp_requests a + 1\<rparr>"] by auto
  with f reply assms(6) show ?thesis by (simp add: arp_handle_def Let_def)
qed

lemma arp_handle_reply:
  assumes "hw_ok fam sha" "hw_ok fam tha" "length spa = 4" "length tpa = 4"
    and "work (arp_resolver a) (Addr AF_ipv4 spa) \<noteq> None"
  shows "\<exists>a'. arp_handle now i src (arp_packet fam 2 sha spa tha tpa) a = Inr ([], a') \<and>
    work (arp_resolver a') (Addr AF_ipv4 spa) = Some (Some (Some (Addr fam sha)))"
proof -
  let ?p = "arp_packet fam 2 sha spa tha tpa"
  obtain f where f: "arp_parse ?p = Inr (Some f)" "af_request f = 2" "f_SPA f = spa"
    "sha_offset f = 8" "af_ether_type f = (if fam = AF_ax25 then 0x00cc else 0x0800)"
    by (simp add: arp_parse_packet [OF assms(1-4)])
  have m: "arp_work_mac f ?p = Inr (Some (Addr fam sha))"
    using assms(1,3) f(4,5) by (auto simp: arp_work_mac_def hw_ok_def octets_at_def arp_packet_def)
  obtain c where "arp_learn now f (a\<lparr>arp_requests := arp_requests a + 1\<rparr>) =
      Inr (a\<lparr>arp_requests := arp_requests a + 1, arp_resolver := (arp_resolver a)\<lparr>mr_cache := c\<rparr>\<rparr>)"
    using arp_learn_step [of now f "a\<lparr>arp_requests := arp_requests a + 1\<rparr>"] by auto
  with f m assms(5) show ?thesis
    by (auto simp: arp_handle_def Let_def resolve_answer_def)
qed

text \<open>
  C18. ARP finds the link address: host a, with an open question for the address of host b,
  sends its request; b's handler answers with exactly one frame, addressed to the sender of the
  request, from b's link address; a's handler stores, from that frame, b's link address as the
  answer to its question.  This holds on Ethernet and on AX.25 interfaces.
\<close>

theorem arp_exchange:
  assumes "hw_ok fam (octets (arp_my_mac a))" and "hw_ok fam (octets (arp_my_mac b))"
    and "arp_my_mac b = Addr fam mb" and "arp_my_ip a = Addr AF_ipv4 ipa" and "arp_my_ip b = Addr AF_ipv4 ipb"
    and "length ipa = 4" and "length ipb = 4" and "work (arp_resolver a) (arp_my_ip b) = Some None"
  shows "\<exists>request reply b' a'. arp_send_request (arp_my_ip b) fam a = Inr (Some request) \<and>
    arp_handle now1 i (tx_src_mac request) (tx_payload request) b = Inr ([reply], b') \<and>
    tx_dst_mac reply = arp_my_mac a \<and> tx_src_mac reply = arp_my_mac b \<and> tx_interface reply = i \<and>
    arp_handle now2 (arp_interface a) (tx_src_mac reply) (tx_payload reply) a = Inr ([], a') \<and>
    work (arp_resolver a') (arp_my_ip b) = Some (Some (Some (arp_my_mac b)))"
proof -
  let ?hw = "family_size fam"
  have hw: "hw_ok fam (replicate ?hw 0)" "length (octets (arp_my_mac a)) = ?hw"
    "hw_ok fam (take 6 (octets (arp_my_mac a)) @ drop 6 (replicate ?hw 0))"
    using assms(1) by (auto simp: hw_ok_def)
  obtain request where r: "arp_send_request (arp_my_ip b) fam a = Inr (Some request)" "tx_src_mac request = arp_my_mac a"
    "tx_payload request = arp_packet fam 1 (octets (arp_my_mac a)) ipa (replicate ?hw 0) ipb"
    using assms(1,4,5,6,7) by (auto simp: arp_send_request_def arp_packet_def hw_ok_def)
  obtain b' where b': "arp_handle now1 i (tx_src_mac request) (tx_payload request) b = Inr ([\<lparr>tx_interface = i,
      tx_dst_mac = arp_my_mac a, tx_src_mac = arp_my_mac b, tx_ether_type = 0x0806,
      tx_payload = arp_packet fam 2 (octets (arp_my_mac b)) ipb (take 6 (octets (arp_my_mac a)) @ drop 6 (replicate ?hw 0)) ipa\<rparr>], b')"
    using arp_handle_request [OF assms(1) hw(1) assms(2,6,7,5), of now1 i "tx_src_mac request"] r by auto
  obtain a' where "arp_handle now2 (arp_interface a) (arp_my_mac b)
      (arp_packet fam 2 (octets (arp_my_mac b)) ipb (take 6 (octets (arp_my_mac a)) @ drop 6 (replicate ?hw 0)) ipa) a = Inr ([], a')"
    "work (arp_resolver a') (arp_my_ip b) = Some (Some (Some (arp_my_mac b)))"
    using arp_handle_reply [OF assms(2) hw(3) assms(7,6), of a now2 "arp_interface a" "arp_my_mac b"] assms(3,5,8) by auto
  with r b' show ?thesis by auto
qed

definition example_arp :: "addr \<Rightarrow> addr \<Rightarrow> (addr \<rightharpoonup> addr option option) \<Rightarrow> arp" where
  "example_arp mac ip w = \<lparr>arp_resolver = (mac_resolver_new address_cache_new)\<lparr>work := w\<rparr>, arp_my_mac = mac,
     arp_my_ip = ip, arp_interface = 1, arp_requests = 0, arp_for_me = 0\<rparr>"

theorem arp_exchange_witness:
  "\<exists>request reply b' a'.
    arp_send_request (Addr AF_ipv4 [10, 0, 0, 2]) AF_mac
      (example_arp (Addr AF_mac [2, 0, 0, 0, 0, 1]) (Addr AF_ipv4 [10, 0, 0, 1]) [Addr AF_ipv4 [10, 0, 0, 2] \<mapsto> None]) = Inr (Some request) \<and>
    arp_handle 5 1 (tx_src_mac request) (tx_payload request)
      (example_arp (Addr AF_mac [2, 0, 0, 0, 0, 2]) (Addr AF_ipv4 [10, 0, 0, 2]) Map.empty) = Inr ([reply], b') \<and>
    arp_handle 6 1 (tx_src_mac reply) (tx_payload reply)
      (example_arp (Addr AF_mac [2, 0, 0, 0, 0, 1]) (Addr AF_ipv4 [10, 0, 0, 1]) [Addr AF_ipv4 [10, 0, 0, 2] \<mapsto> None]) = Inr ([], a') \<and>
    work (arp_resolver a') (Addr AF_ipv4 [10, 0, 0, 2]) = Some (Some (Some (Addr AF_mac [2, 0, 0, 0, 0, 2])))"
proof -
  let ?a = "example_arp (Addr AF_mac [2, 0, 0, 0, 0, 1]) (Addr AF_ipv4 [10, 0, 0, 1]) [Addr AF_ipv4 [10, 0, 0, 2] \<mapsto> None]"
  let ?b = "example_arp (Addr AF_mac [2, 0, 0, 0, 0, 2]) (Addr AF_ipv4 [10, 0, 0, 2]) Map.empty"
  have e: "arp_my_mac ?a = Addr AF_mac [2, 0, 0, 0, 0, 1]" "arp_my_mac ?b = Addr AF_mac [2, 0, 0, 0, 0, 2]"
    "arp_my_ip ?a = Addr AF_ipv4 [10, 0, 0, 1]" "arp_my_ip ?b = Addr AF_ipv4 [10, 0, 0, 2]" "arp_interface ?a = 1"
    by (simp_all add: example_arp_def)
  have w: "work (arp_resolver ?a) (arp_my_ip ?b) = Some None" by (simp add: example_arp_def mac_resolver_new_def)
  have h: "hw_ok AF_mac (octets (arp_my_mac ?a))" "hw_ok AF_mac (octets (arp_my_mac ?b))"
    by (simp_all add: e hw_ok_def)
  from arp_exchange [OF h e(2-4) _ _ w, of 5 1 6] show ?thesis unfolding e by auto
qed

text \<open>
  The sizes in a packet are not checked against what the handler reads: an Ethernet/IPv4
  packet that claims link addresses of zero octets passes every check, and the handler then reads
  six octets of link address beyond its end; and a reply with an unknown protocol type, for an
  address that is being resolved, ends the program in a failed assertion.
\<close>

theorem arp_untrusted_packet:
  "arp_parse [0, 1, 8, 0, 0, 4, 0, 1, 10, 0, 0, 1, 10, 0, 0, 2] = Inl Undefined_behaviour \<and>
   arp_handle 6 1 (Addr AF_mac [2, 0, 0, 0, 0, 2])
     ([0, 1, 9, 9, 6, 4, 0, 2] @ [2, 0, 0, 0, 0, 2] @ [10, 0, 0, 2] @ [2, 0, 0, 0, 0, 1] @ [10, 0, 0, 1])
     (example_arp (Addr AF_mac [2, 0, 0, 0, 0, 1]) (Addr AF_ipv4 [10, 0, 0, 1]) [Addr AF_ipv4 [10, 0, 0, 2] \<mapsto> None])
   = Inl Assert_failed"
proof
  show "arp_parse [0, 1, 8, 0, 0, 4, 0, 1, 10, 0, 0, 1, 10, 0, 0, 2] = Inl Undefined_behaviour"
    by code_simp
  show "arp_handle 6 1 (Addr AF_mac [2, 0, 0, 0, 0, 2])
     ([0, 1, 9, 9, 6, 4, 0, 2] @ [2, 0, 0, 0, 0, 2] @ [10, 0, 0, 2] @ [2, 0, 0, 0, 0, 1] @ [10, 0, 0, 1])
     (example_arp (Addr AF_mac [2, 0, 0, 0, 0, 1]) (Addr AF_ipv4 [10, 0, 0, 1]) [Addr AF_ipv4 [10, 0, 0, 2] \<mapsto> None])
   = Inl Assert_failed"
    unfolding res_error_iff [symmetric] by code_simp
qed

end
