(* ===== verification/Fifo.thy ===== *)
theory Fifo
  imports Prelude
begin

text \<open>
  The packet queue between the threads, the class template \<open>fifo\<close> of \<^verbatim>\<open>src/fifo.h\<close> with its
  usage histogram \<open>fifo_stats\<close> (\<^verbatim>\<open>src/fifo_stats.cpp\<close>).  Every method runs under the mutex of
  the queue, so that a method is one step; waiting on a condition variable ends the step with
  \<open>Blocks\<close> and the thread tries again in a later one.
\<close>

section \<open>fifo_stats\<close>

record fifo_stats =
  counters :: "u64 list"
  divider :: int

definition up_size :: int where "up_size = 100"

definition fifo_stats_new :: "int \<Rightarrow> fifo_stats" where
  "fifo_stats_new range_max = \<lparr>counters = replicate (nat up_size) 0, divider = (range_max + 1) div up_size\<rparr>"

text \<open>Division by zero and an index outside \<open>counters\<close> are undefined behaviour.\<close>

definition fifo_stats_count :: "int \<Rightarrow> fifo_stats \<Rightarrow> fifo_stats res" where
  "fifo_stats_count value fs =
     (if divider fs = 0 then Inl Undefined_behaviour
      else let i = value div divider fs in
        if 0 \<le> i \<and> i < int (length (counters fs))
        then Inr (fs\<lparr>counters := (counters fs)[nat i := counters fs ! nat i + 1]\<rparr>)
        else Inl Undefined_behaviour)"

section \<open>The queue\<close>

record 'a fifo =
  f_data :: "'a list"
  n_elements :: nat
  read_pointer :: nat
  write_pointer :: nat
  full :: bool
  interrupted :: bool
  fs :: fifo_stats
  n_in :: u64
  fifo_n_in_stats :: u64
  fifo_full_count :: u64

text \<open>\<open>new T[n_elements]\<close> holds default constructed elements, \<open>d\<close>.\<close>

definition fifo_new :: "'a \<Rightarrow> nat \<Rightarrow> 'a fifo" where
  "fifo_new d n = \<lparr>f_data = replicate n d, n_elements = n, read_pointer = 0, write_pointer = 0,
     full = False, interrupted = False, fs = fifo_stats_new (int n), n_in = 0, fifo_n_in_stats = 0,
     fifo_full_count = 0\<rparr>"

datatype ('r, 'f) outcome = Blocks 'f | Done 'r 'f

definition interrupt :: "'a fifo \<Rightarrow> 'a fifo" where
  "interrupt f = f\<lparr>interrupted := True\<rparr>"

text \<open>The common tail of \<open>put\<close> and \<open>try_put\<close>: store, advance, count.\<close>

definition store :: "'a \<Rightarrow> 'a fifo \<Rightarrow> 'a fifo res" where
  "store element f =
     (if n_elements f = 0 \<or> length (f_data f) \<le> write_pointer f then Inl Undefined_behaviour
      else
        let f1 = f\<lparr>f_data := (f_data f)[write_pointer f := element],
                   write_pointer := (write_pointer f + 1) mod n_elements f,
                   n_in := n_in f + 1\<rparr>
        in rbind (fifo_stats_count (sint (ucast (n_in f1) :: u32)) (fs f1)) (\<lambda>fs'.
           Inr (f1\<lparr>fs := fs', fifo_n_in_stats := n_in f1,
                   full := (write_pointer f1 = read_pointer f1)\<rparr>)))"

text \<open>\<open>put\<close>: the entry, which counts a full queue once, and the retry after a wake-up.\<close>

definition put_retry :: "'a \<Rightarrow> 'a fifo \<Rightarrow> (unit, 'a fifo) outcome res" where
  "put_retry element f =
     (if full f then Inr (Blocks f) else rbind (store element f) (\<lambda>f'. Inr (Done () f')))"

definition put :: "'a \<Rightarrow> 'a fifo \<Rightarrow> (unit, 'a fifo) outcome res" where
  "put element f =
     (if full f then put_retry element (f\<lparr>fifo_full_count := fifo_full_count f + 1\<rparr>)
      else put_retry element f)"

definition try_put :: "'a \<Rightarrow> 'a fifo \<Rightarrow> (bool \<times> 'a fifo) res" where
  "try_put element f =
     (if full f then Inr (False, f\<lparr>fifo_full_count := fifo_full_count f + 1\<rparr>)
      else rbind (store element f) (\<lambda>f'. Inr (True, f')))"

definition remove :: "'a fifo \<Rightarrow> ('a option \<times> 'a fifo) res" where
  "remove f =
     (if n_elements f = 0 \<or> length (f_data f) \<le> read_pointer f then Inl Undefined_behaviour
      else Inr (Some (f_data f ! read_pointer f),
             f\<lparr>read_pointer := (read_pointer f + 1) mod n_elements f, n_in := n_in f - 1, full := False\<rparr>))"

definition is_empty :: "'a fifo \<Rightarrow> bool" where
  "is_empty f \<longleftrightarrow> read_pointer f = write_pointer f \<and> \<not> full f"

definition get :: "'a fifo \<Rightarrow> ('a option, 'a fifo) outcome res" where
  "get f =
     (if is_empty f \<and> \<not> interrupted f then Inr (Blocks f)
      else if interrupted f then Inr (Done None f)
      else rbind (remove f) (\<lambda>(x, f'). Inr (Done x f')))"

text \<open>
  \<open>get(ms)\<close>: the entry is that of \<open>get()\<close>; after a wait, \<open>timed_out\<close> is the answer of
  \<open>pthread_cond_timedwait\<close>, and a time-out gives up even if an element arrived meanwhile.
\<close>

definition get_timed :: "'a fifo \<Rightarrow> ('a option, 'a fifo) outcome res" where
  "get_timed f = get f"

definition get_timed_wake :: "bool \<Rightarrow> 'a fifo \<Rightarrow> ('a option, 'a fifo) outcome res" where
  "get_timed_wake timed_out f =
     (if timed_out then Inr (Done None f) else get_timed f)"

section \<open>The queue as a list\<close>

definition count :: "'a fifo \<Rightarrow> nat" where
  "count f = (if full f then n_elements f
     else (write_pointer f + n_elements f - read_pointer f) mod n_elements f)"

definition contents :: "'a fifo \<Rightarrow> 'a list" where
  "contents f = map (\<lambda>i. f_data f ! ((read_pointer f + i) mod n_elements f)) [0..<count f]"

text \<open>The invariant of the ring.\<close>

definition wf_fifo :: "'a fifo \<Rightarrow> bool" where
  "wf_fifo f \<longleftrightarrow> 0 < n_elements f \<and> n_elements f < 2 ^ 31 - 1 \<and> length (f_data f) = n_elements f \<and>
     read_pointer f < n_elements f \<and> write_pointer f < n_elements f \<and>
     (full f \<longrightarrow> read_pointer f = write_pointer f) \<and> n_in f = of_nat (count f)"

text \<open>The fill level from which on the histogram has no counter for one more element.\<close>

definition stats_limit :: "'a fifo \<Rightarrow> nat" where
  "stats_limit f = nat (divider (fs f) * int (length (counters (fs f)))) - 1"

lemma wf_fifo_new: "0 < n \<Longrightarrow> n < 2 ^ 31 - 1 \<Longrightarrow> wf_fifo (fifo_new d n) \<and> contents (fifo_new d n) = []"
  by (simp add: wf_fifo_def fifo_new_def contents_def count_def)

lemma mod_wrap: "(r :: nat) < n \<Longrightarrow> w < n \<Longrightarrow> (w + n - r) mod n = (if r \<le> w then w - r else w + n - r)"
  by (auto simp: mod_if)

lemma mod_wrap_add: "(r :: nat) < n \<Longrightarrow> i < n \<Longrightarrow> (r + i) mod n = (if r + i < n then r + i else r + i - n)"
  by (auto simp: mod_if)

lemma count_less: "wf_fifo f \<Longrightarrow> \<not> full f \<Longrightarrow> count f < n_elements f"
  by (simp add: wf_fifo_def count_def)

lemma count_le: "wf_fifo f \<Longrightarrow> count f \<le> n_elements f"
  using count_less [of f] by (cases "full f") (auto simp: count_def)

lemma length_contents [simp]: "length (contents f) = count f"
  by (simp add: contents_def)

lemma is_empty_contents: "wf_fifo f \<Longrightarrow> is_empty f \<longleftrightarrow> contents f = []"
  by (auto simp: is_empty_def contents_def wf_fifo_def count_def mod_wrap split: if_splits)

lemma full_contents: "wf_fifo f \<Longrightarrow> full f \<longleftrightarrow> length (contents f) = n_elements f"
  using count_less [of f] by (auto simp: count_def)

lemma sint_small: "k < 2 ^ 31 \<Longrightarrow> sint (ucast (of_nat k :: u64) :: u32) = int k"
  by (simp add: sint_uint unsigned_ucast_eq unsigned_of_nat take_bit_nat_eq_self
      signed_take_bit_int_eq_self take_bit_int_eq_self flip: take_bit_eq_mod)

text \<open>The write position is the first free cell behind the contents.\<close>

lemma write_pos:
  assumes "wf_fifo f" and "\<not> full f"
  shows "(read_pointer f + count f) mod n_elements f = write_pointer f"
    and "i < count f \<Longrightarrow> (read_pointer f + i) mod n_elements f \<noteq> write_pointer f"
  using assms by (auto simp: wf_fifo_def count_def mod_wrap mod_wrap_add split: if_splits)

definition advance_write :: "'a \<Rightarrow> 'a fifo \<Rightarrow> 'a fifo" where
  "advance_write x f = f\<lparr>f_data := (f_data f)[write_pointer f := x],
     write_pointer := (write_pointer f + 1) mod n_elements f, n_in := n_in f + 1,
     full := ((write_pointer f + 1) mod n_elements f = read_pointer f)\<rparr>"

lemma count_advance_write: "wf_fifo f \<Longrightarrow> \<not> full f \<Longrightarrow> count (advance_write x f) = Suc (count f)"
  by (cases "Suc (write_pointer f) < n_elements f")
    (auto simp: wf_fifo_def count_def advance_write_def mod_wrap mod_if)

lemma advance_write_ok:
  assumes "wf_fifo f" and "\<not> full f"
  shows "wf_fifo (advance_write x f)" and "contents (advance_write x f) = contents f @ [x]"
proof -
  note c = count_advance_write [OF assms, of x]
  show "wf_fifo (advance_write x f)"
    unfolding wf_fifo_def c using assms by (simp add: wf_fifo_def advance_write_def)
  have w: "write_pointer f < length (f_data f)" using assms by (simp add: wf_fifo_def)
  show "contents (advance_write x f) = contents f @ [x]"
    unfolding contents_def c
    using write_pos [OF assms] w
    by (auto simp: advance_write_def nth_list_update) blast
qed

lemma wf_fifo_stat_fields [simp]:
  "wf_fifo (f\<lparr>fs := st, fifo_n_in_stats := v\<rparr>) = wf_fifo f"
  "contents (f\<lparr>fs := st, fifo_n_in_stats := v\<rparr>) = contents f"
  "wf_fifo (f\<lparr>fifo_full_count := u\<rparr>) = wf_fifo f"
  "contents (f\<lparr>fifo_full_count := u\<rparr>) = contents f"
  "wf_fifo (f\<lparr>interrupted := i\<rparr>) = wf_fifo f"
  "contents (f\<lparr>interrupted := i\<rparr>) = contents f"
  by (simp_all add: wf_fifo_def count_def contents_def)

lemma store_eq:
  assumes "wf_fifo f" and "\<not> full f"
  shows "store x f = rbind (fifo_stats_count (int (Suc (count f))) (fs f))
    (\<lambda>st. Inr ((advance_write x f)\<lparr>fs := st, fifo_n_in_stats := n_in f + 1\<rparr>))"
proof -
  have n: "n_in f + 1 = of_nat (Suc (count f))"
    using assms(1) by (simp add: wf_fifo_def)
  have "count f < 2 ^ 31 - 1" using count_less [OF assms] assms(1) by (simp add: wf_fifo_def)
  then have "sint (ucast (n_in f + 1) :: u32) = int (Suc (count f))"
    unfolding n by (intro sint_small) simp
  with assms show ?thesis
    by (cases "fifo_stats_count (int (Suc (count f))) (fs f)")
      (simp_all add: store_def advance_write_def wf_fifo_def Let_def)
qed

lemma div_int_less: "0 < d \<Longrightarrow> int k div d < int l \<longleftrightarrow> int k < d * int l"
  by (cases d rule: int_cases2)
    (simp_all add: div_less_iff_less_mult mult.commute del: of_nat_mult flip: of_nat_div of_nat_mult)

lemma fifo_stats_count_defined:
  "0 \<le> divider st \<Longrightarrow> fifo_stats_count (int k) st =
     (if int k < divider st * int (length (counters st))
      then Inr (st\<lparr>counters := (counters st)[nat (int k div divider st) := counters st ! nat (int k div divider st) + 1]\<rparr>)
      else Inl Undefined_behaviour)"
  using div_int_less [of "divider st" k "length (counters st)"]
  by (auto simp: fifo_stats_count_def Let_def pos_imp_zdiv_nonneg_iff)

lemma fifo_stats_count_keeps:
  "fifo_stats_count v st = Inr st' \<Longrightarrow> divider st' = divider st \<and> length (counters st') = length (counters st)"
  by (auto simp: fifo_stats_count_def Let_def split: if_splits)

lemma store_ok:
  assumes "wf_fifo f" and "\<not> full f" and "store x f = Inr f'"
  shows "wf_fifo f' \<and> contents f' = contents f @ [x] \<and> stats_limit f' = stats_limit f \<and>
    divider (fs f') = divider (fs f)"
  using assms advance_write_ok [OF assms(1,2), of x] fifo_stats_count_keeps
  by (fastforce simp: store_eq stats_limit_def)

lemma store_defined:
  assumes "wf_fifo f" and "\<not> full f" and "0 \<le> divider (fs f)"
  shows "(\<exists>f'. store x f = Inr f') \<longleftrightarrow> count f < stats_limit f"
  by (auto simp: store_eq [OF assms(1,2)] fifo_stats_count_defined [OF assms(3), of "Suc (count f)", simplified] stats_limit_def)

lemma count_remove:
  "wf_fifo f \<Longrightarrow> count f = Suc k \<Longrightarrow>
   count (f\<lparr>read_pointer := (read_pointer f + 1) mod n_elements f, n_in := m, full := False\<rparr>) = k"
  by (cases "Suc (read_pointer f) < n_elements f")
    (auto simp: wf_fifo_def count_def mod_wrap mod_if split: if_splits)

lemma remove_ok:
  assumes "wf_fifo f" and "contents f = x # xs"
  shows "\<exists>f'. remove f = Inr (Some x, f') \<and> wf_fifo f' \<and> contents f' = xs \<and> fs f' = fs f"
proof -
  define f' where "f' = f\<lparr>read_pointer := (read_pointer f + 1) mod n_elements f, n_in := n_in f - 1, full := False\<rparr>"
  have k: "count f = Suc (length xs)" using arg_cong [OF assms(2), of length] by simp
  then have c: "count f' = length xs" unfolding f'_def by (rule count_remove [OF assms(1)])
  have "wf_fifo f'"
    unfolding wf_fifo_def c using assms(1) k by (auto simp: f'_def wf_fifo_def)
  moreover have "contents f ! 0 = f_data f ! read_pointer f"
    using k assms(1) by (simp add: contents_def wf_fifo_def del: upt_Suc)
  moreover have "contents f' = xs"
  proof (rule nth_equalityI)
    fix i assume "i < length (contents f')"
    with c k have "contents f' ! i = contents f ! Suc i"
      by (simp add: contents_def f'_def mod_simps del: upt_Suc)
    with assms(2) show "contents f' ! i = xs ! i" by simp
  qed (simp add: c)
  ultimately show ?thesis
    using assms by (auto simp: remove_def f'_def wf_fifo_def)
qed

section \<open>Runs of the queue\<close>

text \<open>
  The calls of the threads, one locked step each: what it put into the queue, what it took out.
  The continuation of a call that blocked is a later step.
\<close>

datatype 'a fifo_op = Op_put 'a | Op_put_retry 'a | Op_try_put 'a | Op_get | Op_get_timed bool | Op_interrupt

definition pushed :: "'a \<Rightarrow> (unit, 'a fifo) outcome \<Rightarrow> 'a list \<times> 'a list \<times> 'a fifo" where
  "pushed x r = (case r of Blocks f \<Rightarrow> ([], [], f) | Done _ f \<Rightarrow> ([x], [], f))"

definition pulled :: "('a option, 'a fifo) outcome \<Rightarrow> 'a list \<times> 'a list \<times> 'a fifo" where
  "pulled r = (case r of Blocks f \<Rightarrow> ([], [], f) | Done None f \<Rightarrow> ([], [], f) | Done (Some x) f \<Rightarrow> ([], [x], f))"

fun fifo_step :: "'a fifo_op \<Rightarrow> 'a fifo \<Rightarrow> ('a list \<times> 'a list \<times> 'a fifo) res" where
  "fifo_step (Op_put x) f = rbind (put x f) (\<lambda>r. Inr (pushed x r))"
| "fifo_step (Op_put_retry x) f = rbind (put_retry x f) (\<lambda>r. Inr (pushed x r))"
| "fifo_step (Op_try_put x) f = rbind (try_put x f) (\<lambda>(ok, f'). Inr (if ok then [x] else [], [], f'))"
| "fifo_step Op_get f = rbind (get f) (\<lambda>r. Inr (pulled r))"
| "fifo_step (Op_get_timed timed_out) f = rbind (get_timed_wake timed_out f) (\<lambda>r. Inr (pulled r))"
| "fifo_step Op_interrupt f = Inr ([], [], interrupt f)"

text \<open>
  Conservation over runs, for every machine whose steps keep an abstract list in order: what was
  in it and what came in is, in this order, what went out and what is still in it.
\<close>

fun run_steps :: "('o \<Rightarrow> 'q \<Rightarrow> ('a list \<times> 'a list \<times> 'q) res) \<Rightarrow> 'o list \<Rightarrow> 'q \<Rightarrow> ('a list \<times> 'a list \<times> 'q) res" where
  "run_steps step [] q = Inr ([], [], q)"
| "run_steps step (p # ps) q =
     rbind (step p q) (\<lambda>(i, d, q'). rbind (run_steps step ps q') (\<lambda>(is, ds, q''). Inr (i @ is, d @ ds, q'')))"

locale conserving_queue =
  fixes step :: "'o \<Rightarrow> 'q \<Rightarrow> ('a list \<times> 'a list \<times> 'q) res"
    and abs :: "'q \<Rightarrow> 'a list"
    and invar :: "'q \<Rightarrow> bool"
    and limit :: "'q \<Rightarrow> nat"
  assumes step_conserves: "invar q \<Longrightarrow> step p q = Inr (i, d, q') \<Longrightarrow>
      invar q' \<and> abs q @ i = d @ abs q' \<and> length i \<le> 1 \<and> limit q' = limit q"
    and step_defined: "invar q \<Longrightarrow> length (abs q) < limit q \<Longrightarrow> \<exists>r. step p q = Inr r"
begin

lemma run_conserves:
  "invar q \<Longrightarrow> run_steps step ps q = Inr (i, d, q') \<Longrightarrow> invar q' \<and> abs q @ i = d @ abs q'"
proof (induction ps arbitrary: q i d)
  case (Cons p ps)
  from Cons.prems obtain i1 d1 q1 i2 d2 where
    s: "step p q = Inr (i1, d1, q1)" "run_steps step ps q1 = Inr (i2, d2, q')" "i = i1 @ i2" "d = d1 @ d2"
    by auto
  with step_conserves [OF Cons.prems(1) s(1)] Cons.IH [of q1 i2 d2]
  show ?case by (metis append.assoc)
qed simp

lemma run_defined:
  "invar q \<Longrightarrow> length (abs q) + length ps \<le> limit q \<Longrightarrow> \<exists>r. run_steps step ps q = Inr r"
proof (induction ps arbitrary: q)
  case (Cons p ps)
  then obtain i d q1 where s: "step p q = Inr (i, d, q1)"
    using step_defined [of q p] by auto
  with step_conserves [OF Cons.prems(1) s]
  have q1: "invar q1" "abs q @ i = d @ abs q1" "length i \<le> 1" "limit q1 = limit q" by auto
  from arg_cong [OF q1(2), of length] q1(3) have "length (abs q1) \<le> length (abs q) + 1" by simp
  with Cons.prems(2) q1(4) have "length (abs q1) + length ps \<le> limit q1" by simp
  with Cons.IH [OF q1(1)] s show ?case by fastforce
qed simp

end

definition fifo_inv :: "'a fifo \<Rightarrow> bool" where
  "fifo_inv f \<longleftrightarrow> wf_fifo f \<and> 0 \<le> divider (fs f)"

definition conserves :: "'a fifo \<Rightarrow> 'a list \<times> 'a list \<times> 'a fifo \<Rightarrow> bool" where
  "conserves f r \<longleftrightarrow> (case r of (i, d, f') \<Rightarrow>
     fifo_inv f' \<and> contents f @ i = d @ contents f' \<and> length i \<le> 1 \<and> stats_limit f' = stats_limit f)"

lemma fifo_inv_stat_fields [simp]:
  "fifo_inv (f\<lparr>fifo_full_count := u\<rparr>) = fifo_inv f"
  "stats_limit (f\<lparr>fifo_full_count := u\<rparr>) = stats_limit f"
  "fifo_inv (f\<lparr>interrupted := b\<rparr>) = fifo_inv f"
  "stats_limit (f\<lparr>interrupted := b\<rparr>) = stats_limit f"
  by (simp_all add: fifo_inv_def stats_limit_def)

lemma conserves_same: "fifo_inv f' \<Longrightarrow> contents f' = contents f \<Longrightarrow> stats_limit f' = stats_limit f \<Longrightarrow>
    conserves f ([], [], f')"
  by (simp add: conserves_def)

lemma store_conserves:
  "fifo_inv f \<Longrightarrow> \<not> full f \<Longrightarrow> store x f = Inr f' \<Longrightarrow> conserves f ([x], [], f')"
  using store_ok [of f x f'] by (simp add: conserves_def fifo_inv_def)

lemma put_retry_conserves: "fifo_inv f \<Longrightarrow> put_retry x f = Inr r \<Longrightarrow> conserves f (pushed x r)"
  using store_conserves [of f x]
  by (auto simp: put_retry_def pushed_def conserves_same split: if_splits)

lemma put_conserves: "fifo_inv f \<Longrightarrow> put x f = Inr r \<Longrightarrow> conserves f (pushed x r)"
  using put_retry_conserves [of f x r] put_retry_conserves [of "f\<lparr>fifo_full_count := fifo_full_count f + 1\<rparr>" x r]
  by (auto simp: put_def conserves_def split: if_splits)

lemma get_outcome:
  assumes "fifo_inv f"
  shows "\<exists>r. get f = Inr r \<and> conserves f (pulled r)"
proof (cases "contents f")
  case Nil
  with assms show ?thesis
    by (auto simp: get_def is_empty_contents fifo_inv_def pulled_def intro!: conserves_same)
next
  case (Cons x xs)
  with assms obtain f' where "remove f = Inr (Some x, f')" "wf_fifo f'" "contents f' = xs" "fs f' = fs f"
    using remove_ok [of f x xs] by (auto simp: fifo_inv_def)
  with assms Cons show ?thesis
    by (auto simp: get_def is_empty_contents fifo_inv_def pulled_def conserves_def stats_limit_def)
qed

lemma get_timed_outcome:
  "fifo_inv f \<Longrightarrow> \<exists>r. get_timed_wake timed_out f = Inr r \<and> conserves f (pulled r)"
  using get_outcome [of f]
  by (auto simp: get_timed_wake_def get_timed_def pulled_def intro!: conserves_same)

lemma ex_triple [simp]: "\<exists>a b c. t = (a, b, c)"
  by (metis prod_cases3)

lemma fifo_step_conserves:
  assumes "fifo_inv f" and "fifo_step p f = Inr r"
  shows "conserves f r"
proof (cases p)
  case (Op_put x)
  with assms put_conserves [of f x] show ?thesis by auto
next
  case (Op_put_retry x)
  with assms put_retry_conserves [of f x] show ?thesis by auto
next
  case (Op_try_put x)
  with assms store_conserves [of f x] show ?thesis
    by (auto simp: try_put_def conserves_same split: if_splits)
next
  case Op_get
  with assms get_outcome [of f] show ?thesis by auto
next
  case (Op_get_timed t)
  with assms get_timed_outcome [of f t] show ?thesis by auto
next
  case Op_interrupt
  with assms show ?thesis by (auto simp: interrupt_def conserves_same)
qed

lemma fifo_step_defined:
  assumes "fifo_inv f" and "length (contents f) < stats_limit f"
  shows "\<exists>r. fifo_step p f = Inr r"
proof -
  have st: "\<not> full f \<Longrightarrow> \<exists>f'. store x f = Inr f'" for x
    using assms by (auto simp: fifo_inv_def store_defined)
  show ?thesis
  proof (cases p)
    case (Op_put x) with st [of x] show ?thesis by (auto simp: put_def put_retry_def)
  next
    case (Op_put_retry x) with st [of x] show ?thesis by (auto simp: put_retry_def)
  next
    case (Op_try_put x) with st [of x] show ?thesis by (auto simp: try_put_def)
  next
    case Op_get with get_outcome [OF assms(1)] show ?thesis by auto
  next
    case (Op_get_timed t) with get_timed_outcome [OF assms(1), of t] show ?thesis by auto
  qed simp
qed

interpretation fifo_queue: conserving_queue fifo_step contents fifo_inv stats_limit
proof
  fix f f' :: "'a fifo" and p i d
  assume "fifo_inv f" "fifo_step p f = Inr (i, d, f')"
  from fifo_step_conserves [OF this]
  show "fifo_inv f' \<and> contents f @ i = d @ contents f' \<and> length i \<le> 1 \<and> stats_limit f' = stats_limit f"
    by (simp add: conserves_def)
qed (rule fifo_step_defined)

lemma fifo_new_inv: "0 < n \<Longrightarrow> n < 2 ^ 31 - 1 \<Longrightarrow> fifo_inv (fifo_new d n)"
  using wf_fifo_new [of n d] by (simp add: fifo_inv_def fifo_new_def fifo_stats_new_def up_size_def)

lemma stats_limit_new: "stats_limit (fifo_new d n) = nat (100 * ((int n + 1) div 100)) - 1"
  by (simp add: stats_limit_def fifo_new_def fifo_stats_new_def up_size_def mult.commute)

text \<open>
  C12. A queue delivers the elements it accepted, each once and in the order of their arrival,
  whatever the order in which the threads call it: after any run from a new queue, the accepted
  elements are the delivered ones followed by those still queued, of which there are never more
  than the size of the queue, and the ring is well formed.
\<close>

theorem fifo_order:
  assumes "0 < n" and "n < 2 ^ 31 - 1" and "run_steps fifo_step ps (fifo_new d n) = Inr (accepted, delivered, f)"
  shows "accepted = delivered @ contents f \<and> wf_fifo f \<and> length (contents f) \<le> n_elements f"
  using fifo_queue.run_conserves [OF fifo_new_inv [OF assms(1,2)] assms(3)] wf_fifo_new [OF assms(1,2), of d]
  by (auto simp: fifo_inv_def count_le)

theorem fifo_order_witness:
  "\<exists>f. run_steps fifo_step [Op_put (7::nat), Op_put 8, Op_get, Op_try_put 9] (fifo_new 0 128) = Inr ([7, 8, 9], [7], f) \<and>
    [7, 8, 9] = [7] @ contents f"
proof -
  have "case run_steps fifo_step [Op_put (7::nat), Op_put 8, Op_get, Op_try_put 9] (fifo_new 0 128) of
      Inr (a, d, f) \<Rightarrow> a = [7, 8, 9] \<and> d = [7] | Inl e \<Rightarrow> False"
    by code_simp
  then obtain f where f: "run_steps fifo_step [Op_put (7::nat), Op_put 8, Op_get, Op_try_put 9] (fifo_new 0 128) = Inr ([7, 8, 9], [7], f)"
    by (auto split: sum.splits)
  from fifo_order [OF _ _ f] have "[7, 8, 9] = [7] @ contents f" by simp
  with f show ?thesis by blast
qed

lemma puts_defined:
  "fifo_inv f \<Longrightarrow> count f + k \<le> n_elements f \<Longrightarrow>
   (\<exists>r. run_steps fifo_step (replicate k (Op_put x)) f = Inr r) \<longleftrightarrow> k = 0 \<or> count f + k \<le> stats_limit f"
proof (induction k arbitrary: f)
  case (Suc k)
  then have nf: "\<not> full f" by (auto simp: count_def)
  with Suc.prems have d: "(\<exists>f'. store x f = Inr f') \<longleftrightarrow> count f < stats_limit f"
    by (simp add: fifo_inv_def store_defined)
  show ?case
  proof (cases "store x f")
    case (Inl e)
    with d nf show ?thesis by (auto simp: put_def put_retry_def)
  next
    case (Inr f')
    with Suc.prems nf have f': "fifo_inv f'" "count f' = Suc (count f)" "stats_limit f' = stats_limit f"
      "n_elements f' = n_elements f"
      using store_ok [of f x f'] length_contents [of f'] by (auto simp: fifo_inv_def store_eq advance_write_def)
    with Suc.prems have "(\<exists>r. run_steps fifo_step (replicate k (Op_put x)) f' = Inr r) \<longleftrightarrow>
        k = 0 \<or> count f' + k \<le> stats_limit f'"
      by (intro Suc.IH) auto
    moreover have "(\<exists>r. run_steps fifo_step (replicate (Suc k) (Op_put x)) f = Inr r) \<longleftrightarrow>
        (\<exists>r. run_steps fifo_step (replicate k (Op_put x)) f' = Inr r)"
      using Inr nf by (fastforce simp: put_def put_retry_def pushed_def)
    ultimately show ?thesis using Inr d f' by auto
  qed
qed simp

text \<open>
  The usage histogram bounds the queue: filling a new queue of size \<open>n\<close> with \<open>k \<le> n\<close>
  elements is defined exactly as long as \<open>k\<close> is below 100 times the divider \<open>(n + 1) / 100\<close>.
  A queue of 128 elements, the size of the packet queues, writes outside \<open>counters\<close> when its
  100th element is queued; one of less than 99 elements divides by zero at once.
\<close>

theorem fifo_histogram_limit:
  assumes "0 < k" and "k \<le> n" and "n < 2 ^ 31 - 1"
  shows "(\<exists>r. run_steps fifo_step (replicate k (Op_put x)) (fifo_new d n) = Inr r) \<longleftrightarrow>
    int k < 100 * ((int n + 1) div 100)"
proof -
  have "(\<exists>r. run_steps fifo_step (replicate k (Op_put x)) (fifo_new d n) = Inr r) \<longleftrightarrow>
      k \<le> nat (100 * ((int n + 1) div 100)) - 1"
    using puts_defined [of "fifo_new d n" k x] assms fifo_new_inv [of n d]
    by (simp add: stats_limit_new) (simp add: fifo_new_def count_def)
  also have "\<dots> \<longleftrightarrow> int k < 100 * ((int n + 1) div 100)"
    using assms(1) by linarith
  finally show ?thesis .
qed

theorem fifo_histogram_limit_witness:
  "(\<exists>r. run_steps fifo_step (replicate 99 (Op_put 5)) (fifo_new (0::nat) 128) = Inr r) \<and>
   \<not> (\<exists>r. run_steps fifo_step (replicate 100 (Op_put 5)) (fifo_new (0::nat) 128) = Inr r)"
  using fifo_histogram_limit [of 99 128 5 0] fifo_histogram_limit [of 100 128 5 0] by simp

end
