(* ===== verification/Router.thy ===== *)
theory Router
  imports Arp Fifo
begin

text \<open>
  The router, \<^verbatim>\<open>src/router.cpp\<close>: the routing table, the queue of packets to send, and the thread
  that takes a packet from the queue, finds its route and its link addresses, and transmits it.
  The calls into the resolvers, \<open>mac_resolver::get_mac\<close>, and into the interfaces,
  \<open>phys::get_phys_type\<close> and \<open>phys::get_local_mac\<close>, are arguments.
\<close>

section \<open>Data\<close>

text \<open>The union \<open>mask\<close>; the family of the network tells which member is in use.\<close>

datatype route_mask = Ipv4_netmask "byte list" | Ipv6_prefix_length int

record ip_router_entry =
  re_local_ip :: addr
  re_network_address :: addr
  re_mask :: route_mask
  re_priority :: int
  re_interface :: phys_id
  re_mac_lookup :: nat
  re_default_gateway :: "addr option"

record ax25_router_entry =
  ax_interface :: "phys_id option"
  ax_via :: "addr option"

record queued_packet =
  qp_dst_mac :: "addr option"
  qp_src_mac :: "addr option"
  qp_ether_type :: u16
  qp_dst_ip :: "addr option"
  qp_src_ip :: "addr option"
  qp_data :: "byte list"

record router =
  ip_table :: "ip_router_entry list"
  ax25_table :: "addr \<rightharpoonup> ax25_router_entry"
  ax25_default_interface :: "phys_id option"
  r_pkts :: "queued_packet fifo"

section \<open>The table\<close>

definition same_route_v4 :: "ip_router_entry \<Rightarrow> ip_router_entry \<Rightarrow> bool" where
  "same_route_v4 re e \<longleftrightarrow> re_network_address re = re_network_address e \<and> re_mask re = re_mask e \<and>
     re_interface e = re_interface re"

text \<open>The loop of \<open>add_router_ipv4\<close>: only the resolver and the gateway of a known route change.\<close>

fun add_or_update_v4 :: "ip_router_entry \<Rightarrow> ip_router_entry list \<Rightarrow> ip_router_entry list" where
  "add_or_update_v4 re [] = [re]"
| "add_or_update_v4 re (e # es) =
     (if same_route_v4 re e
      then e\<lparr>re_mac_lookup := re_mac_lookup re, re_default_gateway := re_default_gateway re\<rparr> # es
      else e # add_or_update_v4 re es)"

definition add_router_ipv4 ::
  "addr \<Rightarrow> addr \<Rightarrow> byte list \<Rightarrow> addr option \<Rightarrow> int \<Rightarrow> phys_id \<Rightarrow> nat \<Rightarrow> router \<Rightarrow> router res" where
  "add_router_ipv4 local_ip network netmask gateway priority interface iarp r =
     rbind (rassert (addr_fam network = AF_ipv4)) (\<lambda>_.
     Inr (r\<lparr>ip_table := add_or_update_v4
       \<lparr>re_local_ip = local_ip, re_network_address = network, re_mask = Ipv4_netmask netmask, re_priority = priority,
        re_interface = interface, re_mac_lookup = iarp, re_default_gateway = gateway\<rparr> (ip_table r)\<rparr>))"

definition same_route_v6 :: "ip_router_entry \<Rightarrow> ip_router_entry \<Rightarrow> bool" where
  "same_route_v6 re e \<longleftrightarrow> re_network_address e = re_network_address re \<and> re_mask e = re_mask re"

definition add_router_ipv6 :: "addr \<Rightarrow> addr \<Rightarrow> int \<Rightarrow> int \<Rightarrow> phys_id \<Rightarrow> nat \<Rightarrow> router \<Rightarrow> router res" where
  "add_router_ipv6 local_ip network cidr priority interface indp r =
     rbind (rassert (addr_fam network = AF_ipv6)) (\<lambda>_.
     let re = \<lparr>re_local_ip = local_ip, re_network_address = network, re_mask = Ipv6_prefix_length cidr,
           re_priority = priority, re_interface = interface, re_mac_lookup = indp, re_default_gateway = None\<rparr> in
     Inr (if list_ex (same_route_v6 re) (ip_table r) then r else r\<lparr>ip_table := ip_table r @ [re]\<rparr>))"

definition add_ax25_route :: "addr \<Rightarrow> phys_id option \<Rightarrow> addr option \<Rightarrow> router \<Rightarrow> router" where
  "add_ax25_route callsign interface via r =
     r\<lparr>ax25_table := (ax25_table r)(callsign \<mapsto> \<lparr>ax_interface = interface, ax_via = via\<rparr>)\<rparr>"

definition set_default_ax25_interface :: "phys_id \<Rightarrow> router \<Rightarrow> router" where
  "set_default_ax25_interface i r = r\<lparr>ax25_default_interface := Some i\<rparr>"

section \<open>Queueing\<close>

definition route_packet ::
  "addr option \<Rightarrow> u16 \<Rightarrow> addr \<Rightarrow> addr option \<Rightarrow> addr \<Rightarrow> byte list \<Rightarrow> router \<Rightarrow> (bool \<times> router) res" where
  "route_packet override_dst_mac ether_type dst_ip src_mac src_ip payload r =
     rbind (rassert (case override_dst_mac of None \<Rightarrow> True | Some m \<Rightarrow> link_family m)) (\<lambda>_.
     rbind (rassert (case src_mac of None \<Rightarrow> True | Some m \<Rightarrow> link_family m)) (\<lambda>_.
     rbind (if ether_type \<noteq> 0x08FF
            then rbind (rassert (ip_family dst_ip)) (\<lambda>_. rbind (rassert (ip_family src_ip)) (\<lambda>_. Inr (Some dst_ip, Some src_ip)))
            else Inr (None, None)) (\<lambda>(dst, src).
     rbind (try_put \<lparr>qp_dst_mac = override_dst_mac, qp_src_mac = src_mac, qp_ether_type = ether_type,
              qp_dst_ip = dst, qp_src_ip = src, qp_data = payload\<rparr> (r_pkts r)) (\<lambda>(ok, q).
     Inr (ok, r\<lparr>r_pkts := q\<rparr>)))))"

section \<open>Finding a route\<close>

text \<open>The tests of the loop of \<open>find_route\<close>, in their order.\<close>

definition route_matches :: "(phys_id \<Rightarrow> addr_family) \<Rightarrow> addr option \<Rightarrow> addr \<Rightarrow> ip_router_entry \<Rightarrow> bool res" where
  "route_matches phys_type mac ip entry =
     (if addr_fam (re_network_address entry) \<noteq> addr_fam ip then Inr False
      else if (case mac of None \<Rightarrow> False | Some m \<Rightarrow> phys_type (re_interface entry) \<noteq> addr_fam m) then Inr False
      else case (addr_fam (re_network_address entry), re_mask entry) of
        (AF_ipv4, Ipv4_netmask m) \<Rightarrow> check_subnet_mask ip (re_network_address entry) m
      | (AF_ipv6, Ipv6_prefix_length l) \<Rightarrow> check_subnet_cidr ip (re_network_address entry) l
      | (AF_ipv4, _) \<Rightarrow> Inl Undefined_behaviour
      | (AF_ipv6, _) \<Rightarrow> Inl Undefined_behaviour
      | _ \<Rightarrow> Inr False)"

fun find_route_loop ::
  "(phys_id \<Rightarrow> addr_family) \<Rightarrow> addr option \<Rightarrow> addr \<Rightarrow> ip_router_entry list \<Rightarrow> ip_router_entry option \<Rightarrow>
   ip_router_entry option res" where
  "find_route_loop phys_type mac ip [] re = Inr re"
| "find_route_loop phys_type mac ip (entry # es) re =
     rbind (route_matches phys_type mac ip entry) (\<lambda>m.
     find_route_loop phys_type mac ip es
       (if m \<and> (case re of None \<Rightarrow> True | Some old \<Rightarrow> re_priority old < re_priority entry) then Some entry else re))"

definition find_route ::
  "(phys_id \<Rightarrow> addr_family) \<Rightarrow> addr option \<Rightarrow> addr \<Rightarrow> router \<Rightarrow> ip_router_entry option res" where
  "find_route phys_type mac ip r = find_route_loop phys_type mac ip (ip_table r) None"

section \<open>Sending\<close>

text \<open>
  \<open>get_mac lookup interface ip\<close> is the answer of the resolver \<open>lookup\<close>; the routes of the two IP
  families have a resolver, other families have none.
\<close>

definition resolve_mac_by_addr ::
  "(nat \<Rightarrow> phys_id \<Rightarrow> addr \<Rightarrow> (phys_id \<times> addr) option) \<Rightarrow> ip_router_entry \<Rightarrow> addr \<Rightarrow> (phys_id \<times> addr) option" where
  "resolve_mac_by_addr get_mac re a =
     (if ip_family (re_network_address re) then get_mac (re_mac_lookup re) (re_interface re) a else None)"

text \<open>
  The destination link address of a packet with both routes known: \<open>Inr None\<close> drops the packet.
  The branch for the gateway reads the result of the failed first resolution.
\<close>

definition choose_dst_mac ::
  "(nat \<Rightarrow> phys_id \<Rightarrow> addr \<Rightarrow> (phys_id \<times> addr) option) \<Rightarrow> queued_packet \<Rightarrow> addr \<Rightarrow> ip_router_entry \<Rightarrow> ip_router_entry \<Rightarrow>
   addr option res" where
  "choose_dst_mac get_mac qp dst_ip dst_route src_route =
     (case qp_dst_mac qp of
        Some m \<Rightarrow> Inr (Some m)
      | None \<Rightarrow>
          let local_adapter_target_mac_dst = resolve_mac_by_addr get_mac dst_route dst_ip in
          case local_adapter_target_mac_dst of
            Some (interface, m) \<Rightarrow> Inr (Some m)
          | None \<Rightarrow>
              (case re_default_gateway src_route of
                 None \<Rightarrow> Inr None
               | Some gateway \<Rightarrow>
                   (case resolve_mac_by_addr get_mac dst_route gateway of
                      None \<Rightarrow> Inr None
                    | Some local_adapter_target_mac_gw \<Rightarrow>
                        (case local_adapter_target_mac_dst of
                           None \<Rightarrow> Inl Bad_optional_access
                         | Some (interface, m) \<Rightarrow> Inr (Some m)))))"

text \<open>A round of \<open>operator()\<close>: what is transmitted for a packet of the queue.\<close>

definition forward_packet ::
  "(phys_id \<Rightarrow> addr_family) \<Rightarrow> (phys_id \<Rightarrow> addr) \<Rightarrow> (nat \<Rightarrow> phys_id \<Rightarrow> addr \<Rightarrow> (phys_id \<times> addr) option) \<Rightarrow>
   queued_packet \<Rightarrow> router \<Rightarrow> frame option res" where
  "forward_packet phys_type local_mac get_mac qp r =
     (case qp_dst_ip qp of None \<Rightarrow> Inl Bad_optional_access | Some dst_ip \<Rightarrow>
      rbind (find_route phys_type (qp_dst_mac qp) dst_ip r) (\<lambda>dst_route.
      case qp_src_ip qp of None \<Rightarrow> Inl Bad_optional_access | Some src_ip \<Rightarrow>
      rbind (find_route phys_type (qp_src_mac qp) src_ip r) (\<lambda>src_route.
      case (dst_route, src_route) of
        (Some d, Some s) \<Rightarrow>
          rbind (choose_dst_mac get_mac qp dst_ip d s) (\<lambda>chosen.
          case chosen of
            None \<Rightarrow> Inr None
          | Some dst_mac \<Rightarrow>
              Inr (Some (if re_interface d \<noteq> re_interface s
                then \<lparr>tx_interface = re_interface d, tx_dst_mac = dst_mac, tx_src_mac = local_mac (re_interface d),
                      tx_ether_type = qp_ether_type qp, tx_payload = qp_data qp\<rparr>
                else \<lparr>tx_interface = re_interface d, tx_dst_mac = dst_mac, tx_src_mac = local_mac (re_interface s),
                      tx_ether_type = qp_ether_type qp, tx_payload = qp_data qp\<rparr>)))
      | _ \<Rightarrow> Inr None)))"

section \<open>The table stays well formed\<close>

definition wf_entry :: "ip_router_entry \<Rightarrow> bool" where
  "wf_entry e \<longleftrightarrow> wf_addr (re_network_address e) \<and>
     (case re_mask e of
        Ipv4_netmask m \<Rightarrow> addr_fam (re_network_address e) = AF_ipv4 \<and> length m = 4
      | Ipv6_prefix_length l \<Rightarrow> addr_fam (re_network_address e) = AF_ipv6 \<and> 0 \<le> l \<and> l \<le> 128)"

text \<open>No route is in the table twice: network and mask, and for IPv4 the interface, tell them apart.\<close>

definition route_key :: "ip_router_entry \<Rightarrow> addr \<times> route_mask \<times> phys_id" where
  "route_key e = (re_network_address e, re_mask e,
     if addr_fam (re_network_address e) = AF_ipv4 then re_interface e else 0)"

definition wf_table :: "ip_router_entry list \<Rightarrow> bool" where
  "wf_table t \<longleftrightarrow> list_all wf_entry t \<and> distinct (map route_key t)"

lemma add_or_update_v4_keys:
  assumes "addr_fam (re_network_address re) = AF_ipv4"
  shows "map route_key (add_or_update_v4 re t) =
    (if route_key re \<in> set (map route_key t) then map route_key t else map route_key t @ [route_key re])"
proof (induction t)
  case (Cons e t)
  have "same_route_v4 re e \<longleftrightarrow> route_key re = route_key e"
    using assms by (auto simp: same_route_v4_def route_key_def)
  with Cons show ?case by (auto simp: route_key_def)
qed simp

lemma add_or_update_v4_entries:
  "wf_entry re \<Longrightarrow> list_all wf_entry t \<Longrightarrow> list_all wf_entry (add_or_update_v4 re t)"
  by (induction t) (auto simp: wf_entry_def split: route_mask.splits)

lemma add_or_update_v4_wf:
  assumes "wf_entry re" and "addr_fam (re_network_address re) = AF_ipv4" and "wf_table t"
  shows "wf_table (add_or_update_v4 re t)"
  using assms add_or_update_v4_entries [of re t] add_or_update_v4_keys [OF assms(2), of t]
  by (auto simp: wf_table_def)

datatype route_config =
    Route4 addr addr "byte list" "addr option" int phys_id nat
  | Route6 addr addr int int phys_id nat

fun config_step :: "route_config \<Rightarrow> router \<Rightarrow> router res" where
  "config_step (Route4 local_ip network netmask gateway priority interface iarp) r =
     add_router_ipv4 local_ip network netmask gateway priority interface iarp r"
| "config_step (Route6 local_ip network cidr priority interface indp) r =
     add_router_ipv6 local_ip network cidr priority interface indp r"

fun configure :: "route_config list \<Rightarrow> router \<Rightarrow> router res" where
  "configure [] r = Inr r"
| "configure (c # cs) r = rbind (config_step c r) (configure cs)"

text \<open>
  A configuration that makes sense: networks have the length of their family, masks their range.  Neither the
  reader of the configuration nor the handler of router advertisements checks the prefix length.
\<close>

fun config_ok :: "route_config \<Rightarrow> bool" where
  "config_ok (Route4 local_ip network netmask gateway priority interface iarp) =
     (wf_addr network \<and> length netmask = 4)"
| "config_ok (Route6 local_ip network cidr priority interface indp) =
     (wf_addr network \<and> 0 \<le> cidr \<and> cidr \<le> 128)"

lemma config_step_wf:
  assumes "config_ok c" and "config_step c r = Inr r'" and "wf_table (ip_table r)"
  shows "wf_table (ip_table r')"
proof (cases c)
  case (Route4 l n m g p i a)
  with assms show ?thesis
    by (auto simp: add_router_ipv4_def wf_entry_def intro!: add_or_update_v4_wf)
next
  case (Route6 l n k p i d)
  let ?re = "\<lparr>re_local_ip = l, re_network_address = n, re_mask = Ipv6_prefix_length k, re_priority = p,
    re_interface = i, re_mac_lookup = d, re_default_gateway = None\<rparr>"
  have new: "\<not> list_ex (same_route_v6 ?re) t \<Longrightarrow> route_key ?re \<notin> route_key ` set t" for t
    unfolding list_ex_iff same_route_v6_def route_key_def by auto
  from Route6 assms(1,2) have "addr_fam n = AF_ipv6" "wf_entry ?re"
    "r' = (if list_ex (same_route_v6 ?re) (ip_table r) then r else r\<lparr>ip_table := ip_table r @ [?re]\<rparr>)"
    by (auto simp: add_router_ipv6_def Let_def wf_entry_def)
  with assms(3) new show ?thesis by (simp add: wf_table_def)
qed

lemma configure_wf:
  "list_all config_ok cs \<Longrightarrow> configure cs r = Inr r' \<Longrightarrow> wf_table (ip_table r) \<Longrightarrow> wf_table (ip_table r')"
  by (induction cs arbitrary: r) (auto dest: config_step_wf)

section \<open>The best route\<close>

text \<open>A scan that keeps the first of the best elements seen so far.\<close>

fun first_best :: "('e \<Rightarrow> bool) \<Rightarrow> ('e \<Rightarrow> int) \<Rightarrow> 'e list \<Rightarrow> 'e option \<Rightarrow> 'e option" where
  "first_best P prio [] re = re"
| "first_best P prio (e # es) re =
     first_best P prio es (if P e \<and> (case re of None \<Rightarrow> True | Some old \<Rightarrow> prio old < prio e) then Some e else re)"

lemma first_best_some:
  "first_best P prio es (Some x) =
     (case first_best P prio es None of None \<Rightarrow> Some x | Some y \<Rightarrow> if prio x < prio y then Some y else Some x)"
proof (induction es arbitrary: x)
  case (Cons e es)
  then show ?case
    using Cons [of e] Cons [of x] by (auto split: option.splits)
qed simp

lemma first_best_spec:
  "case first_best P prio es None of
     None \<Rightarrow> \<forall>e\<in>set es. \<not> P e
   | Some b \<Rightarrow> \<exists>pre post. es = pre @ b # post \<and> P b \<and>
       (\<forall>e\<in>set pre. P e \<longrightarrow> prio e < prio b) \<and> (\<forall>e\<in>set post. P e \<longrightarrow> prio e \<le> prio b)"
proof (induction es)
  case (Cons e es)
  show ?case
  proof (cases "P e")
    case False
    with Cons show ?thesis
      by (auto split: option.splits) (metis append_Cons set_ConsD)
  next
    case True
    show ?thesis
    proof (cases "first_best P prio es None")
      case None
      with Cons True have "first_best P prio (e # es) None = Some e" "\<forall>x\<in>set es. \<not> P x"
        by (auto simp: first_best_some)
      with True show ?thesis by (simp, intro exI [of _ "[]"] exI [of _ es]) simp
    next
      case (Some y)
      with Cons obtain pre post where "es = pre @ y # post" "P y" "\<forall>e\<in>set pre. P e \<longrightarrow> prio e < prio y"
        "\<forall>e\<in>set post. P e \<longrightarrow> prio e \<le> prio y" by auto
      with True Some show ?thesis
        by (cases "prio e < prio y")
          (force simp: first_best_some intro: exI [of _ "e # pre"],
           force simp: first_best_some intro: exI [of _ "[]"])
    qed
  qed
qed simp

lemma check_subnet_defined:
  "wf_entry e \<Longrightarrow> wf_addr ip \<Longrightarrow> \<exists>b. route_matches pt mac ip e = Inr b"
  using check_subnet_loop_all [of 0 _ ip "re_network_address e"]
  by (auto simp: route_matches_def wf_entry_def wf_addr_def check_subnet_mask_def check_subnet_cidr_def Let_def
      split: route_mask.splits addr_family.splits option.splits)

definition matches :: "(phys_id \<Rightarrow> addr_family) \<Rightarrow> addr option \<Rightarrow> addr \<Rightarrow> ip_router_entry \<Rightarrow> bool" where
  "matches pt mac ip e \<longleftrightarrow> route_matches pt mac ip e = Inr True"

lemma find_route_loop_best:
  "list_all wf_entry es \<Longrightarrow> wf_addr ip \<Longrightarrow>
   find_route_loop pt mac ip es re = Inr (first_best (matches pt mac ip) re_priority es re)"
proof (induction es arbitrary: re)
  case (Cons e es)
  then obtain b where "route_matches pt mac ip e = Inr b" using check_subnet_defined [of e ip pt mac] by auto
  with Cons show ?case by (cases b) (simp_all add: matches_def)
qed simp

text \<open>
  C19. Routing is by priority: in any table the configuration can build from well formed networks
  and masks, with IPv6 prefix lengths from 0 to 128, find_route returns without failing.  It returns a route that matches the address (family, interface type of the
  given link address, subnet), with no matching route of higher priority in the table, and the
  first of those with the same priority; it returns none only if no route matches.  The table
  never holds the same route twice.
\<close>

theorem find_route_best:
  assumes "list_all config_ok cs" and "configure cs r0 = Inr r" and "ip_table r0 = []" and "wf_addr ip"
  shows "distinct (map route_key (ip_table r)) \<and>
    (\<exists>found. find_route pt mac ip r = Inr found \<and>
      (case found of
         None \<Rightarrow> \<forall>e\<in>set (ip_table r). \<not> matches pt mac ip e
       | Some b \<Rightarrow> \<exists>pre post. ip_table r = pre @ b # post \<and> matches pt mac ip b \<and>
           (\<forall>e\<in>set pre. matches pt mac ip e \<longrightarrow> re_priority e < re_priority b) \<and>
           (\<forall>e\<in>set post. matches pt mac ip e \<longrightarrow> re_priority e \<le> re_priority b)))"
proof -
  have wf: "wf_table (ip_table r)"
    using configure_wf [OF assms(1,2)] assms(3) by (simp add: wf_table_def)
  then have "find_route pt mac ip r = Inr (first_best (matches pt mac ip) re_priority (ip_table r) None)"
    using find_route_loop_best [OF _ assms(4)] by (simp add: find_route_def wf_table_def)
  with wf first_best_spec [where P = "matches pt mac ip" and prio = re_priority and es = "ip_table r"] show ?thesis
    by (simp add: wf_table_def)
qed

definition router_new :: router where
  "router_new = \<lparr>ip_table = [], ax25_table = Map.empty, ax25_default_interface = None,
     r_pkts = fifo_new \<lparr>qp_dst_mac = None, qp_src_mac = None, qp_ether_type = 0, qp_dst_ip = None, qp_src_ip = None, qp_data = []\<rparr> 256\<rparr>"

definition example_config :: "route_config list" where
  "example_config =
     [Route4 (Addr AF_ipv4 [192, 168, 3, 1]) (Addr AF_ipv4 [192, 168, 3, 0]) [255, 255, 255, 0] None 10 1 1,
      Route4 (Addr AF_ipv4 [192, 168, 3, 1]) (Addr AF_ipv4 [0, 0, 0, 0]) [0, 0, 0, 0] (Some (Addr AF_ipv4 [192, 168, 3, 254])) 1 1 1]"

theorem find_route_best_witness:
  "\<exists>r. configure example_config router_new = Inr r \<and>
     (\<exists>found. find_route (\<lambda>_. AF_mac) None (Addr AF_ipv4 [192, 168, 3, 77]) r = Inr found \<and>
      (case found of
         None \<Rightarrow> \<forall>e\<in>set (ip_table r). \<not> matches (\<lambda>_. AF_mac) None (Addr AF_ipv4 [192, 168, 3, 77]) e
       | Some b \<Rightarrow> matches (\<lambda>_. AF_mac) None (Addr AF_ipv4 [192, 168, 3, 77]) b))"
proof -
  let ?ip = "Addr AF_ipv4 [192, 168, 3, 77]"
  obtain r where r: "configure example_config router_new = Inr r"
    by (simp add: example_config_def add_router_ipv4_def)
  have "list_all config_ok example_config" "ip_table router_new = []" "wf_addr ?ip"
    by (simp_all add: example_config_def router_new_def wf_addr_def)
  from find_route_best [OF this(1) r this(2,3), of "\<lambda>_. AF_mac" None] r show ?thesis
    by (force split: option.splits)
qed

section \<open>Forwarding\<close>

lemma choose_dst_mac_source:
  "choose_dst_mac gm qp dip d s = Inr (Some m) \<Longrightarrow>
   qp_dst_mac qp = Some m \<or> (qp_dst_mac qp = None \<and> (\<exists>i. gm (re_mac_lookup d) (re_interface d) dip = Some (i, m)))"
  by (auto simp: choose_dst_mac_def resolve_mac_by_addr_def Let_def split: option.splits if_splits)

text \<open>
  C20. What the router transmits: the payload and ether type of the queued packet, unchanged,
  on the interface of the best route for the destination, with the link address of that interface
  as the source; the destination link address is the one queued with the packet, or else the
  answer of that route's resolver for the destination itself.  A packet without a route for its
  source is never transmitted.
\<close>

theorem forward_packet_frame:
  assumes "forward_packet pt local_mac get_mac qp r = Inr (Some f)"
  shows "\<exists>dip sip d s. qp_dst_ip qp = Some dip \<and> qp_src_ip qp = Some sip \<and>
    find_route pt (qp_dst_mac qp) dip r = Inr (Some d) \<and> find_route pt (qp_src_mac qp) sip r = Inr (Some s) \<and>
    tx_payload f = qp_data qp \<and> tx_ether_type f = qp_ether_type qp \<and> tx_interface f = re_interface d \<and>
    tx_src_mac f = local_mac (re_interface d) \<and>
    (case qp_dst_mac qp of Some m \<Rightarrow> tx_dst_mac f = m
     | None \<Rightarrow> \<exists>i. get_mac (re_mac_lookup d) (re_interface d) dip = Some (i, tx_dst_mac f))"
proof -
  from assms obtain dip sip where ip: "qp_dst_ip qp = Some dip" "qp_src_ip qp = Some sip"
    by (auto simp: forward_packet_def split: option.splits)
  from assms ip obtain dr where dr: "find_route pt (qp_dst_mac qp) dip r = Inr dr"
    by (cases "find_route pt (qp_dst_mac qp) dip r") (auto simp: forward_packet_def)
  from assms ip dr obtain sr where sr: "find_route pt (qp_src_mac qp) sip r = Inr sr"
    by (cases "find_route pt (qp_src_mac qp) sip r") (auto simp: forward_packet_def)
  from assms ip dr sr obtain d s where ds: "dr = Some d" "sr = Some s"
    by (cases dr; cases sr) (auto simp: forward_packet_def)
  from assms ip dr sr ds obtain m where r: "choose_dst_mac get_mac qp dip d s = Inr (Some m)"
    "f = \<lparr>tx_interface = re_interface d, tx_dst_mac = m, tx_src_mac = local_mac (re_interface d),
          tx_ether_type = qp_ether_type qp, tx_payload = qp_data qp\<rparr>"
    by (cases "choose_dst_mac get_mac qp dip d s") (auto simp: forward_packet_def split: option.splits if_splits)
  with ip dr sr ds choose_dst_mac_source [OF r(1)] show ?thesis by auto
qed

definition example_packet :: "addr \<Rightarrow> queued_packet" where
  "example_packet dst = \<lparr>qp_dst_mac = None, qp_src_mac = None, qp_ether_type = 0x0800, qp_dst_ip = Some dst,
     qp_src_ip = Some (Addr AF_ipv4 [192, 168, 3, 1]), qp_data = [1, 2, 3]\<rparr>"

definition example_router :: router where
  "example_router = (case configure example_config router_new of Inr r \<Rightarrow> r | Inl e \<Rightarrow> router_new)"

definition example_get_mac :: "addr \<Rightarrow> nat \<Rightarrow> phys_id \<Rightarrow> addr \<Rightarrow> (phys_id \<times> addr) option" where
  "example_get_mac known l i a = (if a = known then Some (i, Addr AF_mac [2, 0, 0, 0, 0, 9]) else None)"

theorem forward_packet_frame_witness:
  "\<exists>f d. forward_packet (\<lambda>_. AF_mac) (\<lambda>_. Addr AF_mac [2, 0, 0, 0, 0, 1])
       (example_get_mac (Addr AF_ipv4 [192, 168, 3, 77])) (example_packet (Addr AF_ipv4 [192, 168, 3, 77])) example_router = Inr (Some f) \<and>
     find_route (\<lambda>_. AF_mac) None (Addr AF_ipv4 [192, 168, 3, 77]) example_router = Inr (Some d) \<and>
     tx_interface f = re_interface d \<and> tx_payload f = [1, 2, 3]"
proof -
  let ?ip = "Addr AF_ipv4 [192, 168, 3, 77]"
  let ?fw = "forward_packet (\<lambda>_. AF_mac) (\<lambda>_. Addr AF_mac [2, 0, 0, 0, 0, 1]) (example_get_mac ?ip) (example_packet ?ip) example_router"
  have "case ?fw of Inr (Some f) \<Rightarrow> True | _ \<Rightarrow> False" by code_simp
  then obtain f where f: "?fw = Inr (Some f)" by (auto split: sum.splits option.splits)
  with forward_packet_frame [OF f] show ?thesis by (auto simp: example_packet_def)
qed

text \<open>
  The default gateway never carries a packet: when the destination itself cannot be
  resolved but the gateway can, the router reads the link address from the failed resolution and
  the optional throws; so does every packet of ether type 0x08ff, which route_packet queues
  without network addresses.
\<close>

theorem gateway_route_throws:
  assumes "qp_dst_ip qp = Some dip" and "qp_src_ip qp = Some sip" and "qp_dst_mac qp = None"
    and "find_route pt None dip r = Inr (Some d)" and "find_route pt (qp_src_mac qp) sip r = Inr (Some s)"
    and "get_mac (re_mac_lookup d) (re_interface d) dip = None"
    and "re_default_gateway s = Some gw" and "get_mac (re_mac_lookup d) (re_interface d) gw = Some hop"
    and "ip_family (re_network_address d)"
  shows "forward_packet pt local_mac get_mac qp r = Inl Bad_optional_access \<and>
    forward_packet pt local_mac get_mac (qp\<lparr>qp_dst_ip := None, qp_src_ip := None\<rparr>) r = Inl Bad_optional_access"
  using assms by (simp add: forward_packet_def choose_dst_mac_def resolve_mac_by_addr_def)

theorem gateway_route_throws_witness:
  "forward_packet (\<lambda>_. AF_mac) (\<lambda>_. Addr AF_mac [2, 0, 0, 0, 0, 1])
       (example_get_mac (Addr AF_ipv4 [192, 168, 3, 254]))
       ((example_packet (Addr AF_ipv4 [8, 8, 8, 8]))\<lparr>qp_src_ip := Some (Addr AF_ipv4 [8, 8, 4, 4])\<rparr>) example_router
   = Inl Bad_optional_access"
proof -
  let ?gw = "Addr AF_ipv4 [192, 168, 3, 254]" and ?dip = "Addr AF_ipv4 [8, 8, 8, 8]" and ?sip = "Addr AF_ipv4 [8, 8, 4, 4]"
  let ?d = "\<lparr>re_local_ip = Addr AF_ipv4 [192, 168, 3, 1], re_network_address = Addr AF_ipv4 [0, 0, 0, 0],
      re_mask = Ipv4_netmask [0, 0, 0, 0], re_priority = 1, re_interface = 1, re_mac_lookup = 1, re_default_gateway = Some ?gw\<rparr>"
  have d: "find_route (\<lambda>_. AF_mac) None ?dip example_router = Inr (Some ?d)" by code_simp
  have s: "find_route (\<lambda>_. AF_mac) None ?sip example_router = Inr (Some ?d)" by code_simp
  show ?thesis
    using gateway_route_throws [of "(example_packet ?dip)\<lparr>qp_src_ip := Some ?sip\<rparr>" ?dip ?sip "\<lambda>_. AF_mac" example_router ?d ?d
        "example_get_mac ?gw" ?gw "(1, Addr AF_mac [2, 0, 0, 0, 0, 9])"] d s
    by (simp add: example_packet_def example_get_mac_def ip_family_def)
qed

end
