(* ===== verification/Network_Layer.thy ===== *)
theory Network_Layer
  imports Router
begin

text \<open>
  What the network and transport layers share: packets (\<^verbatim>\<open>src/packet.cpp\<close>), the registration of
  protocols and the hand-over of packets through the queues (\<^verbatim>\<open>src/network_layer.cpp\<close>,
  \<^verbatim>\<open>src/transport_layer.cpp\<close>), and the contract of a network layer as its clients use it.
\<close>

record packet =
  pk_src_mac_addr :: addr
  pk_src_addr :: addr
  pk_dst_addr :: addr
  pk_data :: "byte list"
  pk_header :: "byte list"
  pk_is_forwarded :: bool

text \<open>The two constructors; the one of the link layers has no separate link address.\<close>

definition packet_new :: "addr \<Rightarrow> addr \<Rightarrow> addr \<Rightarrow> byte list \<Rightarrow> byte list \<Rightarrow> bool \<Rightarrow> packet" where
  "packet_new src_mac_addr src_addr dst_addr data header is_forwarded =
     \<lparr>pk_src_mac_addr = src_mac_addr, pk_src_addr = src_addr, pk_dst_addr = dst_addr, pk_data = data,
      pk_header = header, pk_is_forwarded = is_forwarded\<rparr>"

definition packet_new_link :: "addr \<Rightarrow> addr \<Rightarrow> byte list \<Rightarrow> byte list \<Rightarrow> bool \<Rightarrow> packet" where
  "packet_new_link src_addr dst_addr data header is_forwarded =
     packet_new src_addr src_addr dst_addr data header is_forwarded"

definition packet_duplicate :: "packet \<Rightarrow> packet" where
  "packet_duplicate p = packet_new (pk_src_mac_addr p) (pk_src_addr p) (pk_dst_addr p) (pk_data p) (pk_header p) (pk_is_forwarded p)"

definition no_packet :: packet where
  "no_packet = packet_new (Addr AF_mac []) (Addr AF_mac []) (Addr AF_mac []) [] [] False"

text \<open>\<open>register_protocol\<close> and \<open>get_transport_layer\<close>: \<open>std::map::insert\<close> keeps an older entry.\<close>

definition register_protocol :: "byte \<Rightarrow> 'p \<Rightarrow> (byte \<rightharpoonup> 'p) \<Rightarrow> (byte \<rightharpoonup> 'p)" where
  "register_protocol protocol p prot_map =
     (case prot_map protocol of None \<Rightarrow> prot_map(protocol \<mapsto> p) | Some _ \<Rightarrow> prot_map)"

definition get_transport_layer :: "byte \<Rightarrow> (byte \<rightharpoonup> 'p) \<Rightarrow> 'p option" where
  "get_transport_layer protocol prot_map = prot_map protocol"

text \<open>Handing a packet to a queue; a full queue drops it.\<close>

definition queue_packet :: "packet \<Rightarrow> packet fifo \<Rightarrow> packet fifo res" where
  "queue_packet p pkts = rbind (try_put p pkts) (\<lambda>(ok, q). Inr q)"

definition queue_incoming_packet :: "phys_id \<Rightarrow> packet \<Rightarrow> (phys_id \<times> packet) fifo \<Rightarrow> (phys_id \<times> packet) fifo res" where
  "queue_incoming_packet interface p pkts = rbind (try_put (interface, p) pkts) (\<lambda>(ok, q). Inr q)"

lemma try_put_accepts:
  assumes "fifo_inv q" and "\<not> full q" and "count q < stats_limit q"
  shows "\<exists>q'. try_put x q = Inr (True, q') \<and> fifo_inv q' \<and> contents q' = contents q @ [x]"
proof -
  obtain q' where q': "store x q = Inr q'"
    using assms store_defined [of q x] by (auto simp: fifo_inv_def)
  with assms(2) have "try_put x q = Inr (True, q')" by (simp add: try_put_def)
  moreover from store_conserves [OF assms(1,2) q'] have "fifo_inv q'" "contents q' = contents q @ [x]"
    by (simp_all add: conserves_def)
  ultimately show ?thesis by blast
qed

lemma queue_packet_accepts:
  "fifo_inv q \<Longrightarrow> \<not> full q \<Longrightarrow> count q < stats_limit q \<Longrightarrow>
   \<exists>q'. queue_packet p q = Inr q' \<and> fifo_inv q' \<and> contents q' = contents q @ [p]"
  using try_put_accepts [of q p] by (auto simp: queue_packet_def)

section \<open>The contract of a network layer\<close>

text \<open>
  What a transport protocol relies on: a payload that one host puts into a datagram is the payload
  the other host takes out of it, also when the link layer padded the frame, with the protocol
  number and both addresses.
\<close>

locale ip_layer =
  fixes encode :: "addr \<Rightarrow> addr \<Rightarrow> byte \<Rightarrow> byte list \<Rightarrow> byte list"
    and decode :: "byte list \<Rightarrow> (addr \<times> addr \<times> byte \<times> byte list) option"
    and usable :: "addr \<Rightarrow> bool"
    and fits :: "byte list \<Rightarrow> byte list \<Rightarrow> bool"
  assumes decode_encode: "usable src \<Longrightarrow> usable dst \<Longrightarrow> fits payload pad \<Longrightarrow>
      decode (encode src dst protocol payload @ pad) = Some (src, dst, protocol, payload)"
    and usable_wf: "usable a \<Longrightarrow> wf_addr a \<and> (addr_fam a = AF_ipv4 \<or> addr_fam a = AF_ipv6)"
    and usable_same: "usable a \<Longrightarrow> usable b \<Longrightarrow> addr_fam a = addr_fam b"
begin

text \<open>A checked segment arrives with a checksum that verifies.\<close>

lemma segment_arrives:
  assumes "usable src" and "usable dst" and "even (length pre)" and "length pre + 2 + length post \<le> 65535"
    and "tcp_udp_checksum src dst tcp (pre @ bytes16 0 @ post) = Inr c"
    and "fits (pre @ bytes16 c @ post) pad"
  shows "decode (encode src dst protocol (pre @ bytes16 c @ post) @ pad) = Some (src, dst, protocol, pre @ bytes16 c @ post) \<and>
    tcp_udp_checksum src dst tcp (pre @ bytes16 c @ post) = Inr 0"
  using decode_encode [OF assms(1,2,6)] tcp_udp_checksum_fills [OF _ _ _ assms(3,4,5)]
    usable_wf [OF assms(1)] usable_wf [OF assms(2)] usable_same [OF assms(1,2)] by auto

end

end
