(* ===== verification/Ipv4.thy ===== *)
theory Ipv4
  imports Network_Layer
begin

text \<open>
  IPv4, \<^verbatim>\<open>src/ipv4.cpp\<close>: building and queueing outgoing datagrams, and the handler of incoming
  ones, which learns link addresses, checks the header, and delivers, forwards or drops.
\<close>

unbundle bit_operations_syntax

record ipv4 =
  ip4_arp_cache :: address_cache
  ip4_myip :: addr
  ip4_forward :: bool
  ip4_prot_map :: "byte \<rightharpoonup> packet fifo"
  ip4_router :: router
  ip_n_pkt :: u64
  ip_n_disc :: u64
  ip_n_del :: u64
  ip_n_out_req :: u64
  ipv4_n_pkt :: u64
  ipv4_not_me :: u64
  ipv4_ttl_ex :: u64
  ipv4_unk_prot :: u64
  ipv4_n_tx :: u64

definition ipv4_new :: "address_cache \<Rightarrow> addr \<Rightarrow> router \<Rightarrow> bool \<Rightarrow> ipv4 res" where
  "ipv4_new cache myip r forward =
     rbind (rassert (addr_fam myip = AF_ipv4)) (\<lambda>_.
     Inr \<lparr>ip4_arp_cache = cache, ip4_myip = myip, ip4_forward = forward, ip4_prot_map = Map.empty, ip4_router = r,
       ip_n_pkt = 0, ip_n_disc = 0, ip_n_del = 0, ip_n_out_req = 0, ipv4_n_pkt = 0, ipv4_not_me = 0, ipv4_ttl_ex = 0,
       ipv4_unk_prot = 0, ipv4_n_tx = 0\<rparr>)"

section \<open>Sending\<close>

text \<open>The header, with the checksum field as given.\<close>

definition ipv4_header :: "addr \<Rightarrow> addr \<Rightarrow> byte \<Rightarrow> byte \<Rightarrow> nat \<Rightarrow> u16 \<Rightarrow> byte list" where
  "ipv4_header src dst tos protocol out_size checksum =
     [0x45, tos] @ bytes16 (of_nat out_size) @ [0, 0, 0x40, 0, 64, protocol] @ bytes16 checksum @ octets src @ octets dst"

definition ipv4_datagram :: "addr \<Rightarrow> addr \<Rightarrow> byte \<Rightarrow> byte \<Rightarrow> byte list \<Rightarrow> byte list res" where
  "ipv4_datagram src dst tos protocol payload =
     rbind (ip_checksum (ipv4_header src dst tos protocol (20 + length payload) 0 @ payload) 10) (\<lambda>checksum.
     Inr (ipv4_header src dst tos protocol (20 + length payload) checksum @ payload))"

text \<open>
  \<open>transmit_packet\<close>.  An address that was not set (\<open>None\<close>) has the family MAC, so that the
  second assertion fails before its replacement by the own address is reached.
\<close>

definition ipv4_transmit_packet ::
  "addr option \<Rightarrow> addr \<Rightarrow> addr option \<Rightarrow> byte \<Rightarrow> byte list \<Rightarrow> byte list option \<Rightarrow> ipv4 \<Rightarrow> (bool \<times> ipv4) res" where
  "ipv4_transmit_packet dst_mac dst_ip src_ip protocol payload header_template s =
     rbind (rassert (addr_fam dst_ip = AF_ipv4)) (\<lambda>_.
     rbind (rassert (case src_ip of None \<Rightarrow> False | Some a \<Rightarrow> addr_fam a = AF_ipv4)) (\<lambda>_.
     let s1 = s\<lparr>ipv4_n_tx := ipv4_n_tx s + 1, ip_n_out_req := ip_n_out_req s + 1\<rparr>;
         src = (case src_ip of None \<Rightarrow> ip4_myip s | Some a \<Rightarrow> a) in
     rbind (case header_template of None \<Rightarrow> Inr 0
            | Some h \<Rightarrow> if 1 < length h then Inr (h ! 1) else Inl Undefined_behaviour) (\<lambda>tos.
     rbind (rassert (length (octets src) = 4)) (\<lambda>_.
     rbind (rassert (length (octets dst_ip) = 4)) (\<lambda>_.
     rbind (ipv4_datagram src dst_ip tos protocol payload) (\<lambda>out.
     rbind (route_packet dst_mac 0x0800 dst_ip None src out (ip4_router s1)) (\<lambda>(rc, r).
     Inr (rc, s1\<lparr>ip4_router := r\<rparr>))))))))"

section \<open>Receiving\<close>

definition ipv4_header_size :: "byte list \<Rightarrow> nat" where
  "ipv4_header_size p = unat (p ! 0 AND 15) * 4"

definition ipv4_ip_size :: "byte list \<Rightarrow> nat" where
  "ipv4_ip_size p = unat (mk16 (p ! 2) (p ! 3))"

definition ipv4_src :: "byte list \<Rightarrow> addr" where
  "ipv4_src p = Addr AF_ipv4 (take 4 (drop 12 p))"

definition ipv4_dst :: "byte list \<Rightarrow> addr" where
  "ipv4_dst p = Addr AF_ipv4 (take 4 (drop 16 p))"

definition ipv4_learn :: "u64 \<Rightarrow> phys_id \<Rightarrow> packet \<Rightarrow> ipv4 \<Rightarrow> ipv4 res" where
  "ipv4_learn now interface pkt s =
     (if pk_is_forwarded pkt then Inr s
      else rbind (update_cache now (pk_src_addr pkt) (ipv4_src (pk_data pkt)) interface False (ip4_arp_cache s)) (\<lambda>c.
           Inr (s\<lparr>ip4_arp_cache := c\<rparr>)))"

text \<open>A datagram for another host.\<close>

definition ipv4_not_for_me :: "packet \<Rightarrow> nat \<Rightarrow> ipv4 \<Rightarrow> ipv4 res" where
  "ipv4_not_for_me pkt sz s =
     (let p = pk_data pkt; pkt_dst = ipv4_dst p in
      rbind (if ip4_forward s \<and> octets pkt_dst ! 0 AND 0xf0 \<noteq> 224
             then rbind (route_packet None 0x0800 pkt_dst (Some (pk_src_mac_addr pkt)) (ipv4_src p) (take sz p) (ip4_router s)) (\<lambda>(rc, r).
                  Inr (s\<lparr>ip4_router := r\<rparr>))
             else Inr (s\<lparr>ip_n_disc := ip_n_disc s + 1\<rparr>)) (\<lambda>s1.
      Inr (s1\<lparr>ipv4_not_me := ipv4_not_me s1 + 1\<rparr>)))"

text \<open>A round of \<open>operator()\<close>.\<close>

definition ipv4_handle :: "u64 \<Rightarrow> phys_id \<Rightarrow> packet \<Rightarrow> ipv4 \<Rightarrow> ipv4 res" where
  "ipv4_handle now interface pkt s0 =
     (let p = pk_data pkt in
      if length p < 20 then Inr s0
      else
        let s = s0\<lparr>ip_n_pkt := ip_n_pkt s0 + 1, ipv4_n_pkt := ipv4_n_pkt s0 + 1\<rparr> in
        if drop_bit 4 (p ! 0) \<noteq> 4 then Inr (s\<lparr>ip_n_disc := ip_n_disc s + 1\<rparr>)
        else
          rbind (ipv4_learn now interface pkt s) (\<lambda>s1.
          if p ! 8 \<le> 1 then Inr (s1\<lparr>ip_n_disc := ip_n_disc s1 + 1, ipv4_ttl_ex := ipv4_ttl_ex s1 + 1\<rparr>)
          else
            let header_size = ipv4_header_size p; ip_size = ipv4_ip_size p in
            if length p < ip_size then Inr (s1\<lparr>ip_n_disc := ip_n_disc s1 + 1\<rparr>)
            else if ip_size < header_size then Inr (s1\<lparr>ip_n_disc := ip_n_disc s1 + 1\<rparr>)
            else case ip4_prot_map s1 (p ! 9) of
              None \<Rightarrow> Inr (s1\<lparr>ipv4_unk_prot := ipv4_unk_prot s1 + 1, ip_n_disc := ip_n_disc s1 + 1\<rparr>)
            | Some q \<Rightarrow>
                if ipv4_dst p \<noteq> ip4_myip s1 then ipv4_not_for_me pkt ip_size s1
                else
                  rbind (queue_packet
                    (packet_new (pk_src_mac_addr pkt) (ipv4_src p) (ipv4_dst p)
                       (take (ip_size - header_size) (drop header_size p)) (take header_size p) False) q) (\<lambda>q'.
                  Inr (s1\<lparr>ip4_prot_map := (ip4_prot_map s1)(p ! 9 \<mapsto> q'), ip_n_del := ip_n_del s1 + 1\<rparr>))))"

section \<open>A datagram arrives as it was sent\<close>

text \<open>What the checks of the handler leave of a datagram for the own address.\<close>

definition ipv4_decode :: "byte list \<Rightarrow> (addr \<times> addr \<times> byte \<times> byte list) option" where
  "ipv4_decode p =
     (let header_size = ipv4_header_size p; ip_size = ipv4_ip_size p in
      if length p < 20 \<or> drop_bit 4 (p ! 0) \<noteq> 4 \<or> p ! 8 \<le> 1 \<or> length p < ip_size \<or> ip_size < header_size then None
      else Some (ipv4_src p, ipv4_dst p, p ! 9, take (ip_size - header_size) (drop header_size p)))"

definition ipv4_encode :: "byte \<Rightarrow> addr \<Rightarrow> addr \<Rightarrow> byte \<Rightarrow> byte list \<Rightarrow> byte list" where
  "ipv4_encode tos src dst protocol payload =
     (case ipv4_datagram src dst tos protocol payload of Inr out \<Rightarrow> out | Inl e \<Rightarrow> [])"

definition ipv4_usable :: "addr \<Rightarrow> bool" where
  "ipv4_usable a \<longleftrightarrow> wf_addr a \<and> addr_fam a = AF_ipv4"

definition ipv4_fits :: "byte list \<Rightarrow> byte list \<Rightarrow> bool" where
  "ipv4_fits payload pad \<longleftrightarrow> 20 + length payload \<le> 65535"

lemma ipv4_usable_octets: "ipv4_usable a \<Longrightarrow> \<exists>w x y z. a = Addr AF_ipv4 [w, x, y, z]"
  using octets_4 [of "octets a"] by (cases a) (auto simp: ipv4_usable_def wf_addr_def)

lemma length_ipv4_header: "ipv4_usable src \<Longrightarrow> ipv4_usable dst \<Longrightarrow> length (ipv4_header src dst tos protocol n c) = 20"
  by (auto simp: ipv4_header_def dest!: ipv4_usable_octets)

lemma ipv4_datagram_defined:
  assumes "ipv4_usable src" and "ipv4_usable dst"
  shows "\<exists>c. ipv4_datagram src dst tos protocol payload = Inr (ipv4_header src dst tos protocol (20 + length payload) c @ payload) \<and>
    ip_checksum (ipv4_header src dst tos protocol (20 + length payload) c @ payload) 10 = Inr 0"
proof -
  let ?n = "20 + length payload"
  let ?pre = "[0x45, tos] @ bytes16 (of_nat ?n) @ [0, 0, 0x40, 0, 64, protocol]" and ?post = "octets src @ octets dst"
  have l: "length (octets src) = 4" "length (octets dst) = 4"
    using assms by (auto dest!: ipv4_usable_octets)
  have t: "ip_checksum (ipv4_header src dst tos protocol ?n x @ payload) 10 = ip_checksum (?pre @ bytes16 x @ ?post) 10" for x
    using l by (simp add: ip_checksum_def ipv4_header_def)
  obtain c where c: "ip_checksum (?pre @ bytes16 0 @ ?post) 10 = Inr c"
    using ip_checksum_value [of 10 "?pre @ bytes16 0 @ ?post"] l by auto
  from checksum_fills [OF _ _ _ _ c] l have "ip_checksum (?pre @ bytes16 c @ ?post) 10 = Inr 0" by simp
  with c have "ipv4_datagram src dst tos protocol payload = Inr (ipv4_header src dst tos protocol ?n c @ payload)"
    "ip_checksum (ipv4_header src dst tos protocol ?n c @ payload) 10 = Inr 0"
    unfolding ipv4_datagram_def t by simp_all
  then show ?thesis by blast
qed

lemma ipv4_first_octet: "drop_bit 4 (0x45 :: byte) = 4" "unat ((0x45 :: byte) AND 15) = 5"
  by code_simp+

lemma unat_of_nat16: "n \<le> 65535 \<Longrightarrow> unat (of_nat n :: u16) = n"
  by (simp add: unsigned_of_nat take_bit_nat_eq_self)

lemma ipv4_fields:
  assumes "ipv4_usable src" and "ipv4_usable dst" and "n \<le> 65535"
    and "p = ipv4_header src dst tos protocol n c @ rest"
  shows "drop_bit 4 (p ! 0) = 4" "ipv4_header_size p = 20" "ipv4_ip_size p = n" "ipv4_src p = src" "ipv4_dst p = dst"
    "p ! 9 = protocol" "p ! 8 = 64" "drop 20 p = rest" "take 20 p = ipv4_header src dst tos protocol n c"
proof -
  obtain a1 a2 a3 a4 b1 b2 b3 b4 where ab: "src = Addr AF_ipv4 [a1, a2, a3, a4]" "dst = Addr AF_ipv4 [b1, b2, b3, b4]"
    using assms(1,2) [THEN ipv4_usable_octets] by auto
  obtain hi lo where n: "bytes16 (of_nat n) = [hi, lo]" "mk16 hi lo = of_nat n" by (rule bytes16_obtain)
  obtain ch cl where c: "bytes16 c = [ch, cl]" by (rule bytes16_obtain)
  have p: "p = [0x45, tos, hi, lo, 0, 0, 0x40, 0, 64, protocol, ch, cl, a1, a2, a3, a4, b1, b2, b3, b4] @ rest"
    using assms(4) ab n c by (simp add: ipv4_header_def)
  show "take 20 p = ipv4_header src dst tos protocol n c" "drop 20 p = rest"
    using assms(4) length_ipv4_header [OF assms(1,2)] by simp_all
  show "drop_bit 4 (p ! 0) = 4" "ipv4_header_size p = 20"
    by (simp_all only: p ipv4_header_size_def append_Cons nth_Cons_0 ipv4_first_octet)
  show "ipv4_ip_size p = n"
    using unat_of_nat16 [OF assms(3)] n(2) by (simp add: p ipv4_ip_size_def)
  show "ipv4_src p = src" "ipv4_dst p = dst" "p ! 9 = protocol" "p ! 8 = 64"
    by (simp_all add: p ab ipv4_src_def ipv4_dst_def)
qed

lemma ttl_not_exceeded: "\<not> (64 :: byte) \<le> 1" "\<not> (255 :: byte) \<le> 1"
  by code_simp+

lemma ipv4_encode_eq:
  assumes "ipv4_usable src" and "ipv4_usable dst"
  obtains c where "ipv4_encode tos src dst protocol payload = ipv4_header src dst tos protocol (20 + length payload) c @ payload"
    "ipv4_datagram src dst tos protocol payload = Inr (ipv4_encode tos src dst protocol payload)"
proof -
  obtain c where c: "ipv4_datagram src dst tos protocol payload = Inr (ipv4_header src dst tos protocol (20 + length payload) c @ payload)"
    using ipv4_datagram_defined [OF assms, of tos protocol payload] by blast
  then have "ipv4_encode tos src dst protocol payload = ipv4_header src dst tos protocol (20 + length payload) c @ payload"
    by (simp only: ipv4_encode_def sum.case)
  with c that show thesis by simp
qed

lemma ipv4_decode_encode:
  assumes "ipv4_usable src" and "ipv4_usable dst" and "ipv4_fits payload pad"
  shows "ipv4_decode (ipv4_encode tos src dst protocol payload @ pad) = Some (src, dst, protocol, payload)"
proof -
  obtain c where e: "ipv4_encode tos src dst protocol payload = ipv4_header src dst tos protocol (20 + length payload) c @ payload"
    using ipv4_encode_eq [OF assms(1,2)] by metis
  define p where "p = ipv4_encode tos src dst protocol payload @ pad"
  have "p = ipv4_header src dst tos protocol (20 + length payload) c @ payload @ pad" by (simp add: p_def e)
  note f = ipv4_fields [OF assms(1,2) _ this]
  have "20 + length payload \<le> length p" using length_ipv4_header [OF assms(1,2)] by (simp add: p_def e)
  with f assms(3) show ?thesis
    unfolding p_def [symmetric] by (simp add: ipv4_decode_def ipv4_fits_def ttl_not_exceeded)
qed

interpretation ip4: ip_layer "ipv4_encode tos" ipv4_decode ipv4_usable ipv4_fits for tos
  by unfold_locales (auto simp: ipv4_decode_encode ipv4_usable_def)

lemma ipv4_handle_delivers:
  assumes "ipv4_decode (pk_data pkt) = Some (src, dst, protocol, payload)" and "dst = ip4_myip s"
    and "link_family (pk_src_addr pkt)" and "ip4_prot_map s protocol = Some q"
    and "fifo_inv q" and "\<not> full q" and "count q < stats_limit q"
  shows "\<exists>s' q'. ipv4_handle now interface pkt s = Inr s' \<and> ip4_prot_map s' protocol = Some q' \<and>
    contents q' = contents q @ [packet_new (pk_src_mac_addr pkt) src dst payload (take (ipv4_header_size (pk_data pkt)) (pk_data pkt)) False]"
proof -
  let ?s = "s\<lparr>ip_n_pkt := ip_n_pkt s + 1, ipv4_n_pkt := ipv4_n_pkt s + 1\<rparr>"
  obtain s1 where s1: "ipv4_learn now interface pkt ?s = Inr s1" "ip4_prot_map s1 = ip4_prot_map s" "ip4_myip s1 = ip4_myip s"
    using assms(3) by (cases "pk_is_forwarded pkt") (auto simp: ipv4_learn_def update_cache_def ip_family_def ipv4_src_def)
  obtain q' where "queue_packet (packet_new (pk_src_mac_addr pkt) src dst payload (take (ipv4_header_size (pk_data pkt)) (pk_data pkt)) False) q = Inr q'"
    "contents q' = contents q @ [packet_new (pk_src_mac_addr pkt) src dst payload (take (ipv4_header_size (pk_data pkt)) (pk_data pkt)) False]"
    using queue_packet_accepts [OF assms(5-7)] by blast
  with assms(1,2,4) s1 show ?thesis
    by (auto simp: ipv4_handle_def ipv4_decode_def Let_def split: if_splits)
qed

text \<open>
  C33. An IPv4 datagram arrives as it was sent: the octets that transmit_packet queues for
  sending carry a header whose checksum verifies, and the handler of the host with the destination
  address appends to the queue of the protocol a packet with exactly the payload and the two
  addresses, also when the link layer padded the frame.  The payload may be up to 65515 octets.
\<close>

theorem ipv4_delivery:
  assumes "ipv4_usable src" and "ipv4_usable dst" and "20 + length payload \<le> 65535"
    and "ipv4_datagram src dst tos protocol payload = Inr out"
    and "pk_data pkt = out @ pad" and "ip4_myip s = dst" and "link_family (pk_src_addr pkt)"
    and "ip4_prot_map s protocol = Some q" and "fifo_inv q" and "\<not> full q" and "count q < stats_limit q"
  shows "ip_checksum out 10 = Inr 0 \<and>
    (\<exists>s' q'. ipv4_handle now interface pkt s = Inr s' \<and> ip4_prot_map s' protocol = Some q' \<and>
       contents q' = contents q @ [packet_new (pk_src_mac_addr pkt) src dst payload (take 20 out) False])"
proof -
  obtain c where c: "out = ipv4_header src dst tos protocol (20 + length payload) c @ payload" "ip_checksum out 10 = Inr 0"
    using ipv4_datagram_defined [OF assms(1,2), of tos protocol payload] assms(4) by auto
  have d: "ipv4_decode (pk_data pkt) = Some (src, dst, protocol, payload)"
    using ip4.decode_encode [OF assms(1,2), of payload pad tos protocol] assms(3,4,5)
    by (simp add: ipv4_fits_def ipv4_encode_def)
  have "pk_data pkt = ipv4_header src dst tos protocol (20 + length payload) c @ payload @ pad"
    using c(1) assms(5) by simp
  note f = ipv4_fields [OF assms(1,2,3) this]
  have "take 20 (pk_data pkt) = take 20 out" using f(9) c(1) length_ipv4_header [OF assms(1,2)] by simp
  with ipv4_handle_delivers [OF d _ assms(7-11), of now interface] assms(6) c(2) f(2) show ?thesis by simp
qed

definition example_ipv4 :: ipv4 where
  "example_ipv4 = \<lparr>ip4_arp_cache = address_cache_new, ip4_myip = Addr AF_ipv4 [10, 0, 0, 2], ip4_forward = True,
     ip4_prot_map = [17 \<mapsto> fifo_new no_packet 128], ip4_router = router_new,
     ip_n_pkt = 0, ip_n_disc = 0, ip_n_del = 0, ip_n_out_req = 0, ipv4_n_pkt = 0, ipv4_not_me = 0, ipv4_ttl_ex = 0,
     ipv4_unk_prot = 0, ipv4_n_tx = 0\<rparr>"

lemma new_queue_ready:
  assumes "0 < n" and "n < 2 ^ 31 - 1" and "101 \<le> n"
  shows "fifo_inv (fifo_new d n)" "\<not> full (fifo_new d n)" "count (fifo_new d n) < stats_limit (fifo_new d n)"
proof -
  show "fifo_inv (fifo_new d n)" by (rule fifo_new_inv [OF assms(1,2)])
  show "\<not> full (fifo_new d n)" by (simp add: fifo_new_def)
  have "1 \<le> (int n + 1) div 100" using assms(3) by simp
  then have "0 < nat (100 * ((int n + 1) div 100)) - 1" by linarith
  then show "count (fifo_new d n) < stats_limit (fifo_new d n)"
    by (simp add: stats_limit_new) (simp add: count_def fifo_new_def)
qed

theorem ipv4_delivery_witness:
  "\<exists>out s' q'. ipv4_datagram (Addr AF_ipv4 [10, 0, 0, 1]) (Addr AF_ipv4 [10, 0, 0, 2]) 0 17 [1, 2, 3] = Inr out \<and>
     ipv4_handle 5 1 (packet_new_link (Addr AF_mac [2, 0, 0, 0, 0, 1]) (Addr AF_mac [2, 0, 0, 0, 0, 2]) (out @ [0, 0]) [] False)
       example_ipv4 = Inr s' \<and> ip4_prot_map s' 17 = Some q' \<and>
     contents q' = [packet_new (Addr AF_mac [2, 0, 0, 0, 0, 1]) (Addr AF_ipv4 [10, 0, 0, 1]) (Addr AF_ipv4 [10, 0, 0, 2]) [1, 2, 3] (take 20 out) False]"
proof -
  let ?src = "Addr AF_ipv4 [10, 0, 0, 1]" and ?dst = "Addr AF_ipv4 [10, 0, 0, 2]" and ?q = "fifo_new no_packet 128"
  let ?pkt = "\<lambda>out. packet_new_link (Addr AF_mac [2, 0, 0, 0, 0, 1]) (Addr AF_mac [2, 0, 0, 0, 0, 2]) (out @ [0, 0]) [] False"
  have u: "ipv4_usable ?src" "ipv4_usable ?dst" by (simp_all add: ipv4_usable_def wf_addr_def)
  obtain out where out: "ipv4_datagram ?src ?dst 0 17 [1, 2, 3] = Inr out"
    using ipv4_datagram_defined [OF u] by blast
  have d: "pk_data (?pkt out) = out @ [0, 0]" "ip4_myip example_ipv4 = ?dst" "link_family (pk_src_addr (?pkt out))"
    "ip4_prot_map example_ipv4 17 = Some ?q" "contents ?q = []"
    using wf_fifo_new [of 128 no_packet]
    by (simp_all add: packet_new_link_def packet_new_def example_ipv4_def link_family_def)
  from ipv4_delivery [OF u _ out d(1-4) new_queue_ready, of 5 1] d(5) out show ?thesis
    by (auto simp: packet_new_link_def packet_new_def)
qed

text \<open>
  A host that forwards hands a datagram for another host to its router unchanged, cut to
  the length its header states: the time to live is not decremented.  Datagrams for multicast
  groups are never forwarded, and a host that does not forward queues nothing.
\<close>

theorem ipv4_forwarding:
  assumes "ipv4_decode (pk_data pkt) = Some (src, dst, protocol, payload)" and "dst \<noteq> ip4_myip s"
    and "link_family (pk_src_addr pkt)" and "link_family (pk_src_mac_addr pkt)" and "ip4_prot_map s protocol \<noteq> None"
    and "fifo_inv (r_pkts (ip4_router s))" and "\<not> full (r_pkts (ip4_router s))"
    and "count (r_pkts (ip4_router s)) < stats_limit (r_pkts (ip4_router s))"
  shows "\<exists>s'. ipv4_handle now interface pkt s = Inr s' \<and> ip4_prot_map s' = ip4_prot_map s \<and>
    contents (r_pkts (ip4_router s')) = contents (r_pkts (ip4_router s)) @
      (if ip4_forward s \<and> octets dst ! 0 AND 0xf0 \<noteq> 224
       then [\<lparr>qp_dst_mac = None, qp_src_mac = Some (pk_src_mac_addr pkt), qp_ether_type = 0x0800,
              qp_dst_ip = Some dst, qp_src_ip = Some src, qp_data = take (ipv4_ip_size (pk_data pkt)) (pk_data pkt)\<rparr>]
       else [])"
proof -
  let ?s = "s\<lparr>ip_n_pkt := ip_n_pkt s + 1, ipv4_n_pkt := ipv4_n_pkt s + 1\<rparr>" and ?p = "pk_data pkt"
  have sd: "src = ipv4_src ?p" "dst = ipv4_dst ?p"
    using assms(1) by (auto simp: ipv4_decode_def Let_def split: if_splits)
  obtain s1 where s1: "ipv4_learn now interface pkt ?s = Inr s1" "ip4_prot_map s1 = ip4_prot_map s" "ip4_myip s1 = ip4_myip s"
    "ip4_router s1 = ip4_router s" "ip4_forward s1 = ip4_forward s"
    using assms(3) by (cases "pk_is_forwarded pkt") (auto simp: ipv4_learn_def update_cache_def ip_family_def ipv4_src_def)
  have h: "ipv4_handle now interface pkt s = ipv4_not_for_me pkt (ipv4_ip_size ?p) s1"
    using assms(1,2,5) s1 by (auto simp: ipv4_handle_def ipv4_decode_def Let_def split: if_splits)
  let ?qp = "\<lparr>qp_dst_mac = None, qp_src_mac = Some (pk_src_mac_addr pkt), qp_ether_type = 0x0800,
              qp_dst_ip = Some dst, qp_src_ip = Some src, qp_data = take (ipv4_ip_size ?p) ?p\<rparr>"
  obtain q' where "try_put ?qp (r_pkts (ip4_router s)) = Inr (True, q')" "contents q' = contents (r_pkts (ip4_router s)) @ [?qp]"
    using try_put_accepts [OF assms(6-8)] by blast
  with s1 assms(4) sd show ?thesis
    unfolding h by (auto simp: ipv4_not_for_me_def route_packet_def ip_family_def ipv4_dst_def ipv4_src_def Let_def)
qed

theorem ipv4_forwarding_witness:
  "\<exists>s'. ipv4_handle 5 1 (packet_new_link (Addr AF_mac [2, 0, 0, 0, 0, 1]) (Addr AF_mac [2, 0, 0, 0, 0, 2])
        (ipv4_encode 0 (Addr AF_ipv4 [10, 0, 0, 1]) (Addr AF_ipv4 [10, 0, 0, 9]) 17 [1, 2, 3]) [] False) example_ipv4 = Inr s' \<and>
     contents (r_pkts (ip4_router s')) \<noteq> []"
proof -
  let ?src = "Addr AF_ipv4 [10, 0, 0, 1]" and ?dst = "Addr AF_ipv4 [10, 0, 0, 9]"
  let ?pkt = "packet_new_link (Addr AF_mac [2, 0, 0, 0, 0, 1]) (Addr AF_mac [2, 0, 0, 0, 0, 2]) (ipv4_encode 0 ?src ?dst 17 [1, 2, 3]) [] False"
  have u: "ipv4_usable ?src" "ipv4_usable ?dst" by (simp_all add: ipv4_usable_def wf_addr_def)
  have d: "ipv4_decode (pk_data ?pkt) = Some (?src, ?dst, 17, [1, 2, 3])"
    using ip4.decode_encode [OF u, of "[1, 2, 3]" "[]" 0 17] by (simp add: packet_new_link_def packet_new_def ipv4_fits_def)
  have h: "?dst \<noteq> ip4_myip example_ipv4" "link_family (pk_src_addr ?pkt)" "link_family (pk_src_mac_addr ?pkt)"
    "ip4_prot_map example_ipv4 17 \<noteq> None" "(10 :: byte) AND 0xf0 \<noteq> 224" "ip4_forward example_ipv4"
    by (simp_all add: example_ipv4_def packet_new_link_def packet_new_def link_family_def)
  obtain e where q: "r_pkts (ip4_router example_ipv4) = fifo_new e 256"
    by (simp add: example_ipv4_def router_new_def)
  have c: "contents (fifo_new e 256) = []" using wf_fifo_new [of 256 e] by simp
  have r: "fifo_inv (r_pkts (ip4_router example_ipv4))" "\<not> full (r_pkts (ip4_router example_ipv4))"
    "count (r_pkts (ip4_router example_ipv4)) < stats_limit (r_pkts (ip4_router example_ipv4))"
    unfolding q using new_queue_ready [of 256 e] by simp_all
  from ipv4_forwarding [OF d h(1-4) r, of 5 1] h(5,6) c show ?thesis unfolding q by auto
qed

end
