(* ===== verification/Ipv6.thy ===== *)
theory Ipv6
  imports Ipv4
begin

text \<open>
  IPv6, \<^verbatim>\<open>src/ipv6.cpp\<close>: building and queueing outgoing datagrams, and the handler of incoming
  ones with its walk over the extension headers.
\<close>

unbundle bit_operations_syntax

record ipv6 =
  ip6_ndp_cache :: address_cache
  ip6_myip :: addr
  ip6_prot_map :: "byte \<rightharpoonup> packet fifo"
  ip6_router :: router
  ip6_n_pkt :: u64
  ip6_n_disc :: u64
  ip6_n_del :: u64
  ip6_n_out_req :: u64
  ipv6_n_pkt :: u64
  ipv6_not_me :: u64
  ipv6_unk_prot :: u64
  ipv6_n_tx :: u64

definition ipv6_new :: "address_cache \<Rightarrow> addr \<Rightarrow> router \<Rightarrow> ipv6 res" where
  "ipv6_new cache myip r =
     rbind (rassert (addr_fam myip = AF_ipv6)) (\<lambda>_.
     Inr \<lparr>ip6_ndp_cache = cache, ip6_myip = myip, ip6_prot_map = Map.empty, ip6_router = r, ip6_n_pkt = 0, ip6_n_disc = 0,
       ip6_n_del = 0, ip6_n_out_req = 0, ipv6_n_pkt = 0, ipv6_not_me = 0, ipv6_unk_prot = 0, ipv6_n_tx = 0\<rparr>)"

section \<open>Sending\<close>

text \<open>\<open>flow_label\<close> are random octets; twenty bits of them are sent.\<close>

definition ipv6_header :: "u32 \<Rightarrow> addr \<Rightarrow> addr \<Rightarrow> byte \<Rightarrow> nat \<Rightarrow> byte list" where
  "ipv6_header flow_label src dst protocol pl_size =
     [0x60, ucast (drop_bit 16 flow_label) AND 0x0f, ucast (drop_bit 8 flow_label), ucast flow_label] @
     bytes16 (of_nat pl_size) @ [protocol, 255] @ octets src @ octets dst"

definition ipv6_encode :: "u32 \<Rightarrow> addr \<Rightarrow> addr \<Rightarrow> byte \<Rightarrow> byte list \<Rightarrow> byte list" where
  "ipv6_encode flow_label src dst protocol payload =
     ipv6_header flow_label src dst protocol (length payload) @ payload"

definition ipv6_transmit_packet ::
  "u32 \<Rightarrow> addr option \<Rightarrow> addr \<Rightarrow> addr \<Rightarrow> byte \<Rightarrow> byte list \<Rightarrow> ipv6 \<Rightarrow> (bool \<times> ipv6) res" where
  "ipv6_transmit_packet flow_label dst_mac dst_ip src_ip protocol payload s =
     (let s1 = s\<lparr>ipv6_n_tx := ipv6_n_tx s + 1, ip6_n_out_req := ip6_n_out_req s + 1\<rparr> in
      rbind (rassert (length (octets src_ip) = 16)) (\<lambda>_.
      rbind (rassert (length (octets dst_ip) = 16)) (\<lambda>_.
      rbind (route_packet dst_mac 0x86dd dst_ip None src_ip (ipv6_encode flow_label src_ip dst_ip protocol payload) (ip6_router s1))
        (\<lambda>(rc, r). Inr (rc, s1\<lparr>ip6_router := r\<rparr>)))))"

section \<open>Receiving\<close>

text \<open>The walk over the extension headers, from offset \<open>nh\<close> while eight octets are left before \<open>eh\<close>.\<close>

function ext_walk :: "byte list \<Rightarrow> nat \<Rightarrow> nat \<Rightarrow> byte \<Rightarrow> byte \<times> nat" where
  "ext_walk p eh nh protocol =
     (if nh + 8 \<le> eh then ext_walk p eh (nh + (unat (p ! (nh + 1)) + 1) * 8) (p ! nh) else (protocol, nh))"
  by auto
termination by (relation "measure (\<lambda>(p, eh, nh, protocol). eh - nh)") auto

declare ext_walk.simps [simp del]

definition ipv6_src :: "byte list \<Rightarrow> addr" where
  "ipv6_src p = Addr AF_ipv6 (take 16 (drop 8 p))"

definition ipv6_dst :: "byte list \<Rightarrow> addr" where
  "ipv6_dst p = Addr AF_ipv6 (take 16 (drop 24 p))"

definition link_local_scope_multicast_adress :: "addr \<Rightarrow> bool" where
  "link_local_scope_multicast_adress a \<longleftrightarrow> octets a ! 0 = 0xff \<and> octets a ! 1 = 0x02"

definition ipv6_learn :: "u64 \<Rightarrow> phys_id \<Rightarrow> packet \<Rightarrow> ipv6 \<Rightarrow> ipv6 res" where
  "ipv6_learn now interface pkt s =
     (if pk_is_forwarded pkt then Inr s
      else rbind (update_cache now (pk_src_addr pkt) (ipv6_src (pk_data pkt)) interface False (ip6_ndp_cache s)) (\<lambda>c.
           Inr (s\<lparr>ip6_ndp_cache := c\<rparr>)))"

text \<open>
  Protocol, payload and header of a packet of at least 40 octets.  The length field is only
  compared with the size of the packet, not with what is left behind the header: copying the
  payload may read outside.
\<close>

definition ipv6_extract :: "byte list \<Rightarrow> byte \<times> byte list res \<times> byte list res" where
  "ipv6_extract p =
     (let ip_size = min (unat (mk16 (p ! 4) (p ! 5))) (length p);
          (protocol, header_size) = ext_walk p (length p - ip_size) 40 (p ! 6)
      in (protocol, octets_at p header_size ip_size, octets_at p 0 header_size))"

definition ipv6_handle :: "u64 \<Rightarrow> phys_id \<Rightarrow> packet \<Rightarrow> ipv6 \<Rightarrow> ipv6 res" where
  "ipv6_handle now interface pkt s0 =
     (let s = s0\<lparr>ip6_n_pkt := ip6_n_pkt s0 + 1\<rparr>; p = pk_data pkt in
      if length p < 40 then Inr (s\<lparr>ip6_n_disc := ip6_n_disc s + 1\<rparr>)
      else if drop_bit 4 (p ! 0) \<noteq> 6 then Inr (s\<lparr>ip6_n_disc := ip6_n_disc s + 1\<rparr>)
      else
        let s1 = s\<lparr>ipv6_n_pkt := ipv6_n_pkt s + 1\<rparr> in
        if ipv6_dst p \<noteq> ip6_myip s1 \<and> \<not> link_local_scope_multicast_adress (ipv6_dst p)
        then Inr (s1\<lparr>ipv6_not_me := ipv6_not_me s1 + 1, ip6_n_disc := ip6_n_disc s1 + 1\<rparr>)
        else
          rbind (ipv6_learn now interface pkt s1) (\<lambda>s2.
          let (protocol, payload, header) = ipv6_extract p in
          case ip6_prot_map s2 protocol of
            None \<Rightarrow> Inr (s2\<lparr>ipv6_unk_prot := ipv6_unk_prot s2 + 1, ip6_n_disc := ip6_n_disc s2 + 1\<rparr>)
          | Some q \<Rightarrow>
              rbind payload (\<lambda>pl. rbind header (\<lambda>h.
              rbind (queue_packet (packet_new (pk_src_mac_addr pkt) (ipv6_src p) (ipv6_dst p) pl h False) q) (\<lambda>q'.
              Inr (s2\<lparr>ip6_prot_map := (ip6_prot_map s2)(protocol \<mapsto> q'), ip6_n_del := ip6_n_del s2 + 1\<rparr>))))))"

section \<open>A datagram arrives as it was sent\<close>

definition ipv6_decode :: "byte list \<Rightarrow> (addr \<times> addr \<times> byte \<times> byte list) option" where
  "ipv6_decode p =
     (if length p < 40 \<or> drop_bit 4 (p ! 0) \<noteq> 6 then None
      else case ipv6_extract p of
        (protocol, Inr payload, Inr header) \<Rightarrow> Some (ipv6_src p, ipv6_dst p, protocol, payload)
      | _ \<Rightarrow> None)"

definition ipv6_usable :: "addr \<Rightarrow> bool" where
  "ipv6_usable a \<longleftrightarrow> wf_addr a \<and> addr_fam a = AF_ipv6"

definition ipv6_fits :: "byte list \<Rightarrow> byte list \<Rightarrow> bool" where
  "ipv6_fits payload pad \<longleftrightarrow> length payload \<le> 65535 \<and> length pad < 8"

lemma length_ipv6_header: "ipv6_usable src \<Longrightarrow> ipv6_usable dst \<Longrightarrow> length (ipv6_header fl src dst protocol n) = 40"
  by (simp add: ipv6_header_def ipv6_usable_def wf_addr_def)

lemma ipv6_first_octet: "drop_bit 4 (0x60 :: byte) = 6"
  by code_simp

lemma ipv6_fields:
  assumes "ipv6_usable src" and "ipv6_usable dst" and "n \<le> 65535" and "p = ipv6_header fl src dst protocol n @ rest"
  shows "drop_bit 4 (p ! 0) = 6" "unat (mk16 (p ! 4) (p ! 5)) = n" "p ! 6 = protocol" "ipv6_src p = src" "ipv6_dst p = dst"
    "drop 40 p = rest" "length p = 40 + length rest"
proof -
  obtain hi lo where n: "bytes16 (of_nat n) = [hi, lo]" "mk16 hi lo = of_nat n" by (rule bytes16_obtain)
  have l: "length (octets src) = 16" "length (octets dst) = 16" "addr_fam src = AF_ipv6" "addr_fam dst = AF_ipv6"
    using assms(1,2) by (simp_all add: ipv6_usable_def wf_addr_def)
  obtain x1 x2 x3 where p: "p = [0x60, x1, x2, x3, hi, lo, protocol, 255] @ octets src @ octets dst @ rest"
    using assms(4) n by (simp add: ipv6_header_def)
  show "drop_bit 4 (p ! 0) = 6" by (simp only: p append_Cons nth_Cons_0 ipv6_first_octet)
  show "unat (mk16 (p ! 4) (p ! 5)) = n" using unat_of_nat16 [OF assms(3)] n(2) by (simp add: p)
  show "p ! 6 = protocol" by (simp add: p)
  show "ipv6_src p = src" "ipv6_dst p = dst"
    using l by (simp_all add: p ipv6_src_def ipv6_dst_def addr.expand)
  show "drop 40 p = rest" "length p = 40 + length rest" using l by (simp_all add: p)
qed

lemma ipv6_extract_sent:
  assumes "ipv6_usable src" and "ipv6_usable dst" and "ipv6_fits payload pad"
    and "p = ipv6_encode fl src dst protocol payload @ pad"
  shows "ipv6_extract p = (protocol, Inr payload, Inr (take 40 p))"
proof -
  have p: "p = ipv6_header fl src dst protocol (length payload) @ payload @ pad"
    using assms(4) by (simp add: ipv6_encode_def)
  note f = ipv6_fields [OF assms(1,2) _ p]
  have e: "length p - min (length payload) (length p) = 40 + length pad"
    using f(7) assms(3) by (simp add: ipv6_fits_def)
  have "ext_walk p (40 + length pad) 40 (p ! 6) = (protocol, 40)"
    using assms(3) f(3) by (simp add: ext_walk.simps ipv6_fits_def)
  with f e assms(3) show ?thesis
    by (simp add: ipv6_extract_def octets_at_def ipv6_fits_def)
qed

lemma ipv6_decode_encode:
  assumes "ipv6_usable src" and "ipv6_usable dst" and "ipv6_fits payload pad"
  shows "ipv6_decode (ipv6_encode fl src dst protocol payload @ pad) = Some (src, dst, protocol, payload)"
proof -
  define p where "p = ipv6_encode fl src dst protocol payload @ pad"
  have "p = ipv6_header fl src dst protocol (length payload) @ payload @ pad"
    by (simp add: p_def ipv6_encode_def)
  note f = ipv6_fields [OF assms(1,2) _ this]
  with ipv6_extract_sent [OF assms p_def] assms(3) show ?thesis
    unfolding p_def [symmetric] by (simp add: ipv6_decode_def ipv6_fits_def)
qed

interpretation ip6: ip_layer "ipv6_encode fl" ipv6_decode ipv6_usable ipv6_fits for fl
  by unfold_locales (auto simp: ipv6_decode_encode ipv6_usable_def)

text \<open>
  C34. An IPv6 datagram arrives as it was sent: the handler of the host with the destination
  address appends to the queue of the protocol a packet with exactly the payload and the two
  addresses, as long as the link layer padded the frame by less than eight octets.
\<close>

theorem ipv6_delivery:
  assumes "ipv6_usable src" and "ipv6_usable dst" and "length payload \<le> 65535" and "length pad < 8"
    and "pk_data pkt = ipv6_encode fl src dst protocol payload @ pad" and "ip6_myip s = dst" and "link_family (pk_src_addr pkt)"
    and "ip6_prot_map s protocol = Some q" and "fifo_inv q" and "\<not> full q" and "count q < stats_limit q"
  shows "\<exists>s' q' h. ipv6_handle now interface pkt s = Inr s' \<and> ip6_prot_map s' protocol = Some q' \<and>
    contents q' = contents q @ [packet_new (pk_src_mac_addr pkt) src dst payload h False]"
proof -
  let ?p = "pk_data pkt"
  let ?s = "s\<lparr>ip6_n_pkt := ip6_n_pkt s + 1, ipv6_n_pkt := ipv6_n_pkt s + 1\<rparr>"
  have p: "?p = ipv6_header fl src dst protocol (length payload) @ payload @ pad"
    using assms(5) by (simp add: ipv6_encode_def)
  note f = ipv6_fields [OF assms(1-3) p]
  have x: "ipv6_extract ?p = (protocol, Inr payload, Inr (take 40 ?p))"
    using ipv6_extract_sent [OF assms(1,2) _ assms(5)] assms(3,4) by (simp add: ipv6_fits_def)
  obtain s2 where s2: "ipv6_learn now interface pkt ?s = Inr s2" "ip6_prot_map s2 = ip6_prot_map s"
    using assms(7) by (cases "pk_is_forwarded pkt") (auto simp: ipv6_learn_def update_cache_def ip_family_def ipv6_src_def)
  obtain q' where "queue_packet (packet_new (pk_src_mac_addr pkt) src dst payload (take 40 ?p) False) q = Inr q'"
    "contents q' = contents q @ [packet_new (pk_src_mac_addr pkt) src dst payload (take 40 ?p) False]"
    using queue_packet_accepts [OF assms(9-11)] by blast
  with f x s2 assms(6,8) show ?thesis by (auto simp: ipv6_handle_def Let_def)
qed

definition example_ipv6 :: ipv6 where
  "example_ipv6 = \<lparr>ip6_ndp_cache = address_cache_new, ip6_myip = Addr AF_ipv6 (replicate 15 0 @ [2]),
     ip6_prot_map = [17 \<mapsto> fifo_new no_packet 128], ip6_router = router_new, ip6_n_pkt = 0, ip6_n_disc = 0,
     ip6_n_del = 0, ip6_n_out_req = 0, ipv6_n_pkt = 0, ipv6_not_me = 0, ipv6_unk_prot = 0, ipv6_n_tx = 0\<rparr>"

theorem ipv6_delivery_witness:
  "\<exists>s' q' h. ipv6_handle 5 1 (packet_new_link (Addr AF_mac [2, 0, 0, 0, 0, 1]) (Addr AF_mac [2, 0, 0, 0, 0, 2])
       (ipv6_encode 7 (Addr AF_ipv6 (replicate 15 0 @ [1])) (Addr AF_ipv6 (replicate 15 0 @ [2])) 17 [1, 2, 3] @ [0]) [] False)
       example_ipv6 = Inr s' \<and> ip6_prot_map s' 17 = Some q' \<and>
     contents q' = [packet_new (Addr AF_mac [2, 0, 0, 0, 0, 1]) (Addr AF_ipv6 (replicate 15 0 @ [1]))
       (Addr AF_ipv6 (replicate 15 0 @ [2])) [1, 2, 3] h False]"
proof -
  let ?src = "Addr AF_ipv6 (replicate 15 0 @ [1])" and ?dst = "Addr AF_ipv6 (replicate 15 0 @ [2])" and ?q = "fifo_new no_packet 128"
  let ?pkt = "packet_new_link (Addr AF_mac [2, 0, 0, 0, 0, 1]) (Addr AF_mac [2, 0, 0, 0, 0, 2])
    (ipv6_encode 7 ?src ?dst 17 [1, 2, 3] @ [0]) [] False"
  have u: "ipv6_usable ?src" "ipv6_usable ?dst" by (simp_all add: ipv6_usable_def wf_addr_def)
  have d: "pk_data ?pkt = ipv6_encode 7 ?src ?dst 17 [1, 2, 3] @ [0]" "ip6_myip example_ipv6 = ?dst" "link_family (pk_src_addr ?pkt)"
    "ip6_prot_map example_ipv6 17 = Some ?q" "contents ?q = []" "pk_src_mac_addr ?pkt = Addr AF_mac [2, 0, 0, 0, 0, 1]"
    using wf_fifo_new [of 128 no_packet]
    by (simp_all add: packet_new_link_def packet_new_def example_ipv6_def link_family_def)
  from ipv6_delivery [OF u _ _ d(1-4) new_queue_ready, of 5 1] d(5,6) show ?thesis by simp
qed

text \<open>
  The length field of an IPv6 packet is trusted: for a packet of only a header, whose
  length field is 40, the handler copies forty octets from behind the end of the packet; and in a
  frame that the link layer padded by eight octets or more, the payload is taken for extension
  headers, so that its first octet decides about the protocol.
\<close>

theorem ipv6_untrusted_length:
  "ipv6_handle 5 1 (packet_new_link (Addr AF_mac [2, 0, 0, 0, 0, 1]) (Addr AF_mac [2, 0, 0, 0, 0, 2])
      (ipv6_header 7 (Addr AF_ipv6 (replicate 15 0 @ [1])) (Addr AF_ipv6 (replicate 15 0 @ [2])) 17 40) [] False) example_ipv6
     = Inl Undefined_behaviour \<and>
   fst (ipv6_extract (ipv6_encode 7 (Addr AF_ipv6 (replicate 15 0 @ [1])) (Addr AF_ipv6 (replicate 15 0 @ [2])) 17
      [99, 0, 1, 2] @ replicate 8 0)) = 99"
proof
  show "ipv6_handle 5 1 (packet_new_link (Addr AF_mac [2, 0, 0, 0, 0, 1]) (Addr AF_mac [2, 0, 0, 0, 0, 2])
      (ipv6_header 7 (Addr AF_ipv6 (replicate 15 0 @ [1])) (Addr AF_ipv6 (replicate 15 0 @ [2])) 17 40) [] False) example_ipv6
     = Inl Undefined_behaviour"
    unfolding res_error_iff [symmetric] by code_simp
  show "fst (ipv6_extract (ipv6_encode 7 (Addr AF_ipv6 (replicate 15 0 @ [1])) (Addr AF_ipv6 (replicate 15 0 @ [2])) 17
      [99, 0, 1, 2] @ replicate 8 0)) = 99"
    by code_simp
qed

end
