(* ===== verification/Icmp.thy ===== *)
theory Icmp
  imports Ipv6
begin

text \<open>
  ICMP for both IP versions, \<^verbatim>\<open>src/icmp4.cpp\<close> and \<^verbatim>\<open>src/icmp6.cpp\<close>, and the request side of the
  neighbour discovery of \<^verbatim>\<open>src/ndp.cpp\<close>.  What is sent is a value of type \<open>ip_send\<close>, the arguments
  of \<open>network_layer::transmit_packet\<close>; \<open>mtu\<close> is the answer of \<open>get_max_packet_size\<close>.
\<close>

unbundle bit_operations_syntax

record ip_send =
  is_dst_mac :: "addr option"
  is_dst_ip :: addr
  is_src_ip :: addr
  is_protocol :: byte
  is_payload :: "byte list"
  is_header_template :: "byte list option"

section \<open>ICMP version 4\<close>

record icmp4 =
  icmp_requests :: u64
  icmp_req_ping :: u64
  icmp_transmit :: u64

text \<open>
  The reply to a message: \<open>None\<close> for the types that are dropped.  A timestamp request that is
  too short is sent back as it came.
\<close>

definition icmp4_reply :: "u32 \<Rightarrow> byte list \<Rightarrow> byte list option" where
  "icmp4_reply reply_ts p =
     (if p ! 0 = 8 then Some (p[0 := 0])
      else if p ! 0 = 13 then
        (if 20 \<le> length p
         then let b = bytes32 reply_ts in
           Some (p[0 := 14, 12 := b ! 0, 16 := b ! 0, 13 := b ! 1, 17 := b ! 1, 14 := b ! 2, 18 := b ! 2, 15 := b ! 3, 19 := b ! 3])
         else Some p)
      else None)"

text \<open>The checksum of the whole words of a message, stored over its field.\<close>

definition icmp4_fill_checksum :: "byte list \<Rightarrow> byte list res" where
  "icmp4_fill_checksum reply =
     (let r0 = reply[2 := 0, 3 := 0] in
      rbind (ip_checksum r0 (length r0 div 2)) (\<lambda>checksum.
      Inr (r0[2 := bytes16 checksum ! 0, 3 := bytes16 checksum ! 1])))"

definition icmp4_template :: "byte list \<Rightarrow> byte list res" where
  "icmp4_template header =
     (if length header < 6 then Inl Undefined_behaviour
      else let identification = bytes16 (mk16 (header ! 4) (header ! 5) + 1) in
        Inr (header[4 := identification ! 0, 5 := identification ! 1]))"

text \<open>A round of \<open>operator()\<close>.\<close>

definition icmp4_handle :: "u32 \<Rightarrow> packet \<Rightarrow> icmp4 \<Rightarrow> (ip_send list \<times> icmp4) res" where
  "icmp4_handle reply_ts pkt s0 =
     (let p = pk_data pkt in
      if length p < 8 then Inr ([], s0)
      else
        let s1 = s0\<lparr>icmp_requests := icmp_requests s0 + 1\<rparr>;
            s = (if p ! 0 = 8 then s1\<lparr>icmp_req_ping := icmp_req_ping s1 + 1\<rparr> else s1) in
        case icmp4_reply reply_ts p of
          None \<Rightarrow> Inr ([], s)
        | Some reply \<Rightarrow>
            rbind (icmp4_template (pk_header pkt)) (\<lambda>header_copy.
            rbind (icmp4_fill_checksum reply) (\<lambda>out.
            Inr ([\<lparr>is_dst_mac = None, is_dst_ip = pk_src_addr pkt, is_src_ip = pk_dst_addr pkt, is_protocol = 1,
                   is_payload = out, is_header_template = Some header_copy\<rparr>], s))))"

text \<open>\<open>send_packet\<close>: an error message with the header and eight octets of the packet it is about.\<close>

definition icmp4_send_packet :: "u16 \<Rightarrow> addr \<Rightarrow> addr \<Rightarrow> byte \<Rightarrow> byte \<Rightarrow> packet \<Rightarrow> icmp4 \<Rightarrow> (ip_send \<times> icmp4) res" where
  "icmp4_send_packet mtu dst_ip src_ip type code p s =
     (let s1 = s\<lparr>icmp_transmit := icmp_transmit s + 1\<rparr>;
          quoted = pk_header p @ take 8 (pk_data p);
          out_size = 8 + length quoted; padded = out_size + out_size mod 2 in
      if 576 < 8 + length quoted then Inl Undefined_behaviour
      else
        let out = [type, code, 0, 0, 0, 0] @ bytes16 mtu @ quoted @ replicate (out_size mod 2) 0 in
        rbind (ip_checksum out ((padded + 1) div 2)) (\<lambda>checksum.
        Inr (\<lparr>is_dst_mac = None, is_dst_ip = dst_ip, is_src_ip = src_ip, is_protocol = 1,
              is_payload = [type, code] @ bytes16 checksum @ [0, 0] @ bytes16 mtu @ quoted @ replicate (out_size mod 2) 0,
              is_header_template = None\<rparr>, s1)))"

definition icmp4_send_destination_port_unreachable :: "u16 \<Rightarrow> addr \<Rightarrow> addr \<Rightarrow> packet \<Rightarrow> icmp4 \<Rightarrow> (ip_send \<times> icmp4) res" where
  "icmp4_send_destination_port_unreachable mtu dst_ip src_ip p s = icmp4_send_packet mtu dst_ip src_ip 3 3 p s"

definition icmp4_send_ttl_exceeded :: "u16 \<Rightarrow> packet \<Rightarrow> icmp4 \<Rightarrow> (ip_send \<times> icmp4) res" where
  "icmp4_send_ttl_exceeded mtu pkt s = icmp4_send_packet mtu (pk_src_addr pkt) (pk_dst_addr pkt) 11 0 pkt s"

section \<open>ICMP version 6\<close>

record icmp6 =
  icmp6_my_mac :: addr
  icmp6_my_ip :: addr
  icmp6_interface :: phys_id
  icmp6_indp :: nat
  icmp6_router :: router
  icmp6_requests :: u64
  icmp6_transmit :: u64
  icmp6_error :: u64

definition all_router_multicast_addr :: addr where
  "all_router_multicast_addr = Addr AF_ipv6 ([0xff, 2] @ replicate 13 0 @ [2])"

text \<open>
  \<open>send_packet\<close>.  The buffer has \<open>max_size = mtu - 8\<close> octets, and the message in it is made a
  multiple of eight octets long; the payload is copied behind the eight octets of the header.
\<close>

definition icmp6_message :: "byte \<Rightarrow> byte \<Rightarrow> u16 \<Rightarrow> u32 \<Rightarrow> byte list \<Rightarrow> byte list" where
  "icmp6_message type code checksum reserved payload =
     (let out_size = 8 + length payload; fill = (if out_size mod 8 = 0 then 0 else 8 - out_size mod 8) in
      [type, code] @ bytes16 checksum @ bytes32 reserved @ payload @ replicate fill 0)"

definition icmp6_pseudo_header :: "addr \<Rightarrow> addr \<Rightarrow> nat \<Rightarrow> byte list" where
  "icmp6_pseudo_header src dst out_size = octets src @ octets dst @ bytes32 (of_nat out_size) @ [0, 0, 0, 58]"

definition icmp6_send_packet ::
  "int \<Rightarrow> addr option \<Rightarrow> addr \<Rightarrow> addr \<Rightarrow> byte \<Rightarrow> byte \<Rightarrow> u32 \<Rightarrow> byte list \<Rightarrow> icmp6 \<Rightarrow> (ip_send option \<times> icmp6) res" where
  "icmp6_send_packet mtu dst_mac dst_ip src_ip type code reserved payload s =
     (let s1 = s\<lparr>icmp6_transmit := icmp6_transmit s + 1\<rparr>; max_size = mtu - 8 in
      if max_size < int (length payload) then Inr (None, s1\<lparr>icmp6_error := icmp6_error s1 + 1\<rparr>)
      else
        let msg = icmp6_message type code 0 reserved payload in
        if max_size < int (8 + length payload) \<or> max_size < int (length msg) then Inl Undefined_behaviour
        else
          rbind (rassert (length (octets src_ip) = 16)) (\<lambda>_.
          rbind (rassert (length (octets dst_ip) = 16)) (\<lambda>_.
          rbind (ip_checksum (icmp6_pseudo_header src_ip dst_ip (length msg) @ msg) ((40 + length msg) div 2)) (\<lambda>checksum.
          Inr (Some \<lparr>is_dst_mac = dst_mac, is_dst_ip = dst_ip, is_src_ip = src_ip, is_protocol = 0x3a,
                 is_payload = icmp6_message type code checksum reserved payload, is_header_template = None\<rparr>, s1)))))"

definition send_packet_router_soliciation :: "int \<Rightarrow> icmp6 \<Rightarrow> (ip_send option \<times> icmp6) res" where
  "send_packet_router_soliciation mtu s =
     rbind (rassert (length (octets (icmp6_my_mac s)) = 6)) (\<lambda>_.
     icmp6_send_packet mtu (Some (Addr AF_mac ([0x33, 0x33] @ drop 12 (octets all_router_multicast_addr))))
       all_router_multicast_addr (icmp6_my_ip s) 133 0 0 ([1, 1] @ octets (icmp6_my_mac s)) s)"

definition send_packet_neighbor_advertisement :: "int \<Rightarrow> addr \<Rightarrow> addr \<Rightarrow> icmp6 \<Rightarrow> (ip_send option \<times> icmp6) res" where
  "send_packet_neighbor_advertisement mtu peer_mac peer_ip s =
     rbind (rassert (length (octets (icmp6_my_mac s)) = 6)) (\<lambda>_.
     rbind (rassert (length (octets (icmp6_my_ip s)) = 16)) (\<lambda>_.
     icmp6_send_packet mtu (Some peer_mac) peer_ip (icmp6_my_ip s) 136 0 0x60000000
       (octets (icmp6_my_ip s) @ [2, 1] @ octets (icmp6_my_mac s)) s))"

text \<open>The text of the group address is parsed like a configured one.\<close>

definition solicitation_group :: "addr \<Rightarrow> addr res" where
  "solicitation_group check_ip =
     rbind (addr_at check_ip 12) (\<lambda>a. rbind (addr_at check_ip 13) (\<lambda>b.
     rbind (addr_at check_ip 14) (\<lambda>c. rbind (addr_at check_ip 15) (\<lambda>d.
     rbind (parse_address (''FF02:0000:0000:0000:000:0001:'' @ fmt_02x (unat a) @ fmt_02x (unat b) @ '':'' @
         fmt_02x (unat c) @ fmt_02x (unat d)) 16 '':'' 16) (\<lambda>x. Inr (addr_of x))))))"

definition send_packet_neighbor_solicitation :: "int \<Rightarrow> addr \<Rightarrow> icmp6 \<Rightarrow> (ip_send option \<times> icmp6) res" where
  "send_packet_neighbor_solicitation mtu check_ip s =
     rbind (rassert (length (octets check_ip) = 16)) (\<lambda>_.
     rbind (solicitation_group check_ip) (\<lambda>peer_ip.
     icmp6_send_packet mtu (Some (Addr AF_mac ([0x33, 0x33] @ drop 12 (octets all_router_multicast_addr))))
       peer_ip (icmp6_my_ip s) 135 0 0 (octets check_ip) s))"

text \<open>A request shorter than eight octets gives a negative payload size, which is copied.\<close>

definition send_ping_reply :: "int \<Rightarrow> packet \<Rightarrow> icmp6 \<Rightarrow> (ip_send option \<times> icmp6) res" where
  "send_ping_reply mtu pkt s =
     (let p = pk_data pkt in
      if length p < 8 then Inl Undefined_behaviour
      else icmp6_send_packet mtu (Some (pk_src_mac_addr pkt)) (pk_src_addr pkt) (icmp6_my_ip s) 129 0
             (mk32 (p ! 4) (p ! 5) (p ! 6) (p ! 7)) (drop 8 p) s)"

definition icmp6_send_destination_port_unreachable :: "int \<Rightarrow> packet \<Rightarrow> icmp6 \<Rightarrow> (ip_send option \<times> icmp6) res" where
  "icmp6_send_destination_port_unreachable mtu pkt s =
     icmp6_send_packet mtu (Some (pk_src_mac_addr pkt)) (pk_src_addr pkt) (icmp6_my_ip s) 1 4 0 [] s"

definition icmp6_send_ttl_exceeded :: "int \<Rightarrow> packet \<Rightarrow> icmp6 \<Rightarrow> (ip_send option \<times> icmp6) res" where
  "icmp6_send_ttl_exceeded mtu pkt s =
     icmp6_send_packet mtu (Some (pk_src_mac_addr pkt)) (pk_src_addr pkt) (icmp6_my_ip s) 11 0 0 (pk_data pkt) s"

text \<open>
  The options of a router advertisement: the offset of the prefix option, if there is one.  An
  option with the length zero is looked at forever.
\<close>

function ra_option :: "byte list \<Rightarrow> nat \<Rightarrow> nat option res" where
  "ra_option p off =
     (if length p \<le> off then Inr None
      else if p ! off = 3 then Inr (Some off)
      else if length p \<le> off + 1 then Inl Undefined_behaviour
      else if p ! (off + 1) = 0 then Inl Diverges
      else ra_option p (off + unat (p ! (off + 1))))"
  by auto
termination
proof (relation "measure (\<lambda>(p, off). length p - off)")
  fix p :: "byte list" and off
  assume "\<not> length p \<le> off" "\<not> length p \<le> off + 1" "p ! (off + 1) \<noteq> 0"
  then show "((p, off + unat (p ! (off + 1))), p, off) \<in> measure (\<lambda>(p, off). length p - off)"
    using unat_gt_0 [of "p ! (off + 1)"] by simp
qed simp

declare ra_option.simps [simp del]

definition process_router_advertisement :: "packet \<Rightarrow> icmp6 \<Rightarrow> icmp6 res" where
  "process_router_advertisement pkt s =
     (let p = pk_data pkt in
      if length p \<le> 18 then Inr s
      else
        rbind (ra_option p 16) (\<lambda>found.
        case found of
          None \<Rightarrow> Inr s
        | Some off \<Rightarrow>
            rbind (octets_at p (off + 2) 1) (\<lambda>prefix_length.
            rbind (octets_at p (off + 16) 16) (\<lambda>prefix_bytes.
            rbind (add_router_ipv6 (icmp6_my_ip s) (Addr AF_ipv6 prefix_bytes) (uint (prefix_length ! 0)) 0
                     (icmp6_interface s) (icmp6_indp s) (icmp6_router s)) (\<lambda>r.
            Inr (s\<lparr>icmp6_router := r\<rparr>))))))"

definition icmp6_handle :: "int \<Rightarrow> packet \<Rightarrow> icmp6 \<Rightarrow> (ip_send option \<times> icmp6) res" where
  "icmp6_handle mtu pkt s0 =
     (let s = s0\<lparr>icmp6_requests := icmp6_requests s0 + 1\<rparr>; p = pk_data pkt in
      if p = [] then Inl Undefined_behaviour
      else
        let type = p ! 0 in
        if type = 128 then send_ping_reply mtu pkt s
        else if type = 133 then Inr (None, s)
        else if type = 134 then rbind (process_router_advertisement pkt s) (\<lambda>s'. Inr (None, s'))
        else if type = 135 then send_packet_neighbor_advertisement mtu (pk_src_mac_addr pkt) (pk_src_addr pkt) s
        else Inr (None, s))"

section \<open>Neighbour discovery\<close>

text \<open>\<open>send_request\<close> of the resolver; \<open>None\<close> when no ICMPv6 instance is registered.\<close>

definition ndp_send_request :: "int \<Rightarrow> addr \<Rightarrow> icmp6 option \<Rightarrow> (bool \<times> ip_send option \<times> icmp6 option) res" where
  "ndp_send_request mtu ip registered =
     (case registered of
        None \<Rightarrow> Inr (False, None, None)
      | Some i \<Rightarrow> rbind (send_packet_neighbor_solicitation mtu ip i) (\<lambda>(out, i'). Inr (True, out, Some i')))"

definition ndp_check_special_ip_addresses :: "addr \<Rightarrow> addr_family \<Rightarrow> addr option res" where
  "ndp_check_special_ip_addresses ip family = Inr None"

section \<open>Echo\<close>

text \<open>A message as the receiver sums it up: filled up with a zero octet when its length is odd.\<close>

definition verifies :: "byte list \<Rightarrow> bool" where
  "verifies m \<longleftrightarrow> (let p = (if even (length m) then m else m @ [0]) in ip_checksum p (length p div 2) = Inr 0)"

lemma unat_mk16_zero: "unat (mk16 z 0) = 256 * unat z"
proof -
  have "unat z < 2 ^ 16" by (rule less_le_trans [OF unat_byte_less]) simp
  then have "unat (ucast z :: u16) = unat z" by (simp add: unsigned_ucast_eq take_bit_nat_eq_self del: unat_byte_less)
  then have "unat ((256 :: u16) * ucast z) = 256 * unat z"
    using unat_byte_less [of z] by (simp add: unat_word_ariths)
  then show ?thesis by (simp add: mk16_def push_bit_eq_mult mult.commute)
qed

text \<open>One more word behind a message that verifies.\<close>

lemma checksum_extra:
  assumes "even (length m)" and "length m \<le> 131070" and "ip_checksum m (length m div 2) = Inr 0"
  shows "ip_checksum (m @ [z, 0]) (length m div 2 + 1) = Inr 0 \<longleftrightarrow> z = 0"
proof -
  let ?s = "word_sum m" and ?t = "word_sum (m @ [z, 0])"
  have t: "?t = ?s + 256 * unat z"
    using assms(1) by (simp add: word_sum_def words16_append unat_mk16_zero)
  have b: "?s < 2 ^ 32" "?t < 2 ^ 32" using word_sum_bound [of m] word_sum_bound [of "m @ [z, 0]"] assms(2) by simp_all
  note os = ones_sum_props [OF b(1)] and ot = ones_sum_props [OF b(2)]
  have "ones_sum ?s = 65535"
    using ip_checksum_value [of "length m div 2" m] assms os(1) by auto
  then have s: "?s mod 65535 = 0" "?s \<noteq> 0" using os by auto
  have "2 * (length m div 2 + 1) = length (m @ [z, 0])" using assms(1) by simp
  then obtain c where c: "ip_checksum (m @ [z, 0]) (length m div 2 + 1) = Inr c" "unat c = 65535 - ones_sum ?t"
    using ip_checksum_value [of "length m div 2 + 1" "m @ [z, 0]"] assms(2) by auto
  have "c = 0 \<longleftrightarrow> ones_sum ?t = 65535" using c(2) ot(1) unsigned_eq_0_iff [of c, where 'a = nat] by auto
  also have "\<dots> \<longleftrightarrow> ?t mod 65535 = 0" using ot s(2) t by (auto simp: le_less)
  also have "?t mod 65535 = (256 * unat z) mod 65535" unfolding t using s(1) by (metis add_0 mod_add_left_eq)
  also have "(256 * unat z) mod 65535 = 256 * unat z" by (rule mod_less) (use unat_byte_less [of z] in linarith)
  finally show ?thesis using c(1) by (simp add: unsigned_eq_0_iff)
qed

lemma ip_checksum_whole_words: "even (length p) \<Longrightarrow> ip_checksum (p @ [z]) (length p div 2) = ip_checksum p (length p div 2)"
  by (simp add: ip_checksum_def)

lemma icmp4_fill_checksum_even:
  assumes "even (length rest)" and "length rest \<le> 65535"
  shows "\<exists>c. icmp4_fill_checksum (t # code # x # y # rest) = Inr ([t, code] @ bytes16 c @ rest) \<and>
    icmp4_fill_checksum (t # code # x # y # rest @ [z]) = Inr ([t, code] @ bytes16 c @ rest @ [z]) \<and>
    ip_checksum ([t, code] @ bytes16 c @ rest) (length ([t, code] @ bytes16 c @ rest) div 2) = Inr 0"
proof -
  let ?n = "length (t # code # 0 # 0 # rest) div 2"
  have n: "2 + 2 + length rest = 2 * ?n" "?n \<le> 65536" using assms by auto
  have z: "t # code # 0 # 0 # rest = [t, code] @ bytes16 0 @ rest" by (simp add: bytes16_def)
  obtain c where c: "ip_checksum ([t, code] @ bytes16 0 @ rest) ?n = Inr c"
    using ip_checksum_value [of ?n "[t, code] @ bytes16 0 @ rest"] n by auto
  have v: "ip_checksum ([t, code] @ bytes16 c @ rest) ?n = Inr 0"
    using checksum_fills [OF _ _ _ _ c] assms n by simp
  obtain hi lo where h: "bytes16 c = [hi, lo]" by (rule bytes16_obtain)
  have c1: "ip_checksum (t # code # 0 # 0 # rest @ [z]) ?n = Inr c"
    using c ip_checksum_whole_words [of "t # code # 0 # 0 # rest" z] assms(1) unfolding z [symmetric] by simp
  have l: "length (t # code # 0 # 0 # rest @ [z]) div 2 = ?n" using assms(1) by simp
  have "icmp4_fill_checksum (t # code # x # y # rest) = Inr ([t, code] @ bytes16 c @ rest)"
    using c unfolding z [symmetric] by (simp add: icmp4_fill_checksum_def h Let_def numeral_2_eq_2 numeral_3_eq_3)
  moreover have "icmp4_fill_checksum (t # code # x # y # rest @ [z]) = Inr ([t, code] @ bytes16 c @ rest @ [z])"
    using c1 l by (simp add: icmp4_fill_checksum_def h Let_def numeral_2_eq_2 numeral_3_eq_3)
  ultimately show ?thesis using v by auto
qed

lemma icmp4_fill_checksum_verifies:
  assumes "length rest \<le> 65535"
  shows "\<exists>c. icmp4_fill_checksum (t # code # x # y # rest) = Inr ([t, code] @ bytes16 c @ rest) \<and>
    (verifies ([t, code] @ bytes16 c @ rest) \<longleftrightarrow> even (length rest) \<or> last rest = 0)"
proof (cases "even (length rest)")
  case True
  with icmp4_fill_checksum_even [OF True assms, of t code x y] show ?thesis by (auto simp: verifies_def)
next
  case False
  then obtain rest' z where r: "rest = rest' @ [z]" by (cases rest rule: rev_cases) auto
  with False assms have e: "even (length rest')" "length rest' \<le> 65535" by auto
  from icmp4_fill_checksum_even [OF e, of t code x y z] obtain c where
    c: "icmp4_fill_checksum (t # code # x # y # rest) = Inr ([t, code] @ bytes16 c @ rest)"
    "ip_checksum ([t, code] @ bytes16 c @ rest') (length ([t, code] @ bytes16 c @ rest') div 2) = Inr 0" by (auto simp: r)
  have "verifies ([t, code] @ bytes16 c @ rest) \<longleftrightarrow> z = 0"
    using checksum_extra [OF _ _ c(2), of z] e by (simp add: verifies_def r)
  with c(1) r False show ?thesis by auto
qed

text \<open>
  C35. A ping is answered: for an echo request the handler sends one
  message back, from the address that was asked to the one that asked, of type echo reply, with the
  same code, identifier, sequence number and data.  Its checksum verifies exactly if the number of octets is even
  or the last octet is zero, since the sum leaves out an odd octet at the end.
\<close>

theorem icmp4_echo:
  assumes "pk_data pkt = 8 # code # x # y # rest" and "4 \<le> length rest" and "length rest \<le> 65535"
    and "6 \<le> length (pk_header pkt)"
  shows "\<exists>c h s'. icmp4_handle ts pkt s =
      Inr ([\<lparr>is_dst_mac = None, is_dst_ip = pk_src_addr pkt, is_src_ip = pk_dst_addr pkt, is_protocol = 1,
             is_payload = [0, code] @ bytes16 c @ rest, is_header_template = Some h\<rparr>], s') \<and>
    (verifies ([0, code] @ bytes16 c @ rest) \<longleftrightarrow> even (length rest) \<or> last rest = 0)"
proof -
  obtain c where c: "icmp4_fill_checksum (0 # code # x # y # rest) = Inr ([0, code] @ bytes16 c @ rest)"
    "verifies ([0, code] @ bytes16 c @ rest) \<longleftrightarrow> even (length rest) \<or> last rest = 0"
    using icmp4_fill_checksum_verifies [OF assms(3)] by blast
  obtain h where h: "icmp4_template (pk_header pkt) = Inr h" using assms(4) by (simp add: icmp4_template_def Let_def)
  have "icmp4_handle ts pkt s =
      Inr ([\<lparr>is_dst_mac = None, is_dst_ip = pk_src_addr pkt, is_src_ip = pk_dst_addr pkt, is_protocol = 1,
             is_payload = [0, code] @ bytes16 c @ rest, is_header_template = Some h\<rparr>],
        s\<lparr>icmp_requests := icmp_requests s + 1, icmp_req_ping := icmp_req_ping s + 1\<rparr>)"
    using assms(1,2) c(1) h by (simp add: icmp4_handle_def icmp4_reply_def)
  with c(2) show ?thesis by blast
qed

theorem icmp4_echo_witness:
  "\<exists>c h s'. icmp4_handle 0 (packet_new (Addr AF_mac []) (Addr AF_ipv4 [10, 0, 0, 1]) (Addr AF_ipv4 [10, 0, 0, 2])
        [8, 0, 1, 1, 0, 7, 0, 1, 65, 66] (replicate 20 0) False) \<lparr>icmp_requests = 0, icmp_req_ping = 0, icmp_transmit = 0\<rparr> =
      Inr ([\<lparr>is_dst_mac = None, is_dst_ip = Addr AF_ipv4 [10, 0, 0, 1], is_src_ip = Addr AF_ipv4 [10, 0, 0, 2], is_protocol = 1,
             is_payload = [0, 0] @ bytes16 c @ [0, 7, 0, 1, 65, 66], is_header_template = Some h\<rparr>], s')"
  using icmp4_echo [of "packet_new (Addr AF_mac []) (Addr AF_ipv4 [10, 0, 0, 1]) (Addr AF_ipv4 [10, 0, 0, 2])
        [8, 0, 1, 1, 0, 7, 0, 1, 65, 66] (replicate 20 0) False" 0 1 1 "[0, 7, 0, 1, 65, 66]" 0
      "\<lparr>icmp_requests = 0, icmp_req_ping = 0, icmp_transmit = 0\<rparr>"]
  by (auto simp: packet_new_def)

text \<open>
  The answer to a ping of an odd number of octets has a wrong checksum: the last octet is
  left out of the sum, and the receiver, which pads the message with a zero octet, does not get
  zero.
\<close>

theorem icmp4_odd_echo:
  "case icmp4_handle 0 (packet_new (Addr AF_mac []) (Addr AF_ipv4 [10, 0, 0, 1]) (Addr AF_ipv4 [10, 0, 0, 2])
        [8, 0, 1, 1, 0, 7, 0, 1, 65] (replicate 20 0) False) \<lparr>icmp_requests = 0, icmp_req_ping = 0, icmp_transmit = 0\<rparr> of
     Inr ([reply], s) \<Rightarrow> ip_checksum (is_payload reply @ [0]) 5 \<noteq> Inr 0 | _ \<Rightarrow> False"
  by code_simp

section \<open>ICMP version 6 messages\<close>

lemma round_up_8: "x + (if x mod 8 = 0 then 0 else 8 - x mod 8) = (x + 7) div 8 * 8" for x :: nat
  by presburger

lemma icmp6_message_length: "length (icmp6_message t c k r payload) = (8 + length payload + 7) div 8 * 8"
  using round_up_8 [of "8 + length payload"] by (simp add: icmp6_message_def Let_def)

text \<open>
  Sending an ICMPv6 message, by the size of its payload: with more octets than fit, nothing
  is sent and an error counted; when the message, rounded up to a multiple of eight octets, is
  larger than the buffer of mtu - 8 octets although the payload alone is not, memory outside the
  buffer is accessed; otherwise one message goes out, with the payload at its place and a checksum
  over the pseudo header that verifies.
\<close>

theorem icmp6_send_cases:
  assumes "wf_addr src" and "addr_fam src = AF_ipv6" and "wf_addr dst" and "addr_fam dst = AF_ipv6" and "mtu \<le> 65535"
  shows "if mtu - 8 < int (length payload)
         then \<exists>s'. icmp6_send_packet mtu dst_mac dst src t code r payload s = Inr (None, s') \<and> icmp6_error s' = icmp6_error s + 1
         else if mtu - 8 < int ((8 + length payload + 7) div 8 * 8)
         then icmp6_send_packet mtu dst_mac dst src t code r payload s = Inl Undefined_behaviour
         else \<exists>k out s'. icmp6_send_packet mtu dst_mac dst src t code r payload s = Inr (Some out, s') \<and>
           is_payload out = icmp6_message t code k r payload \<and> is_dst_ip out = dst \<and> is_src_ip out = src \<and>
           ip_checksum (icmp6_pseudo_header src dst (length (is_payload out)) @ is_payload out)
             ((40 + length (is_payload out)) div 2) = Inr 0"
proof -
  define n where "n = (8 + length payload + 7) div 8 * 8"
  define fill where "fill = (if (8 + length payload) mod 8 = 0 then 0 else 8 - (8 + length payload) mod 8)"
  let ?pre = "icmp6_pseudo_header src dst n @ [t, code]" and ?post = "bytes32 r @ payload @ replicate fill 0"
  have len: "length (icmp6_message t code k r payload) = n" for k
    by (simp add: n_def icmp6_message_length)
  have m: "icmp6_message t code k r payload = [t, code] @ bytes16 k @ ?post" for k
    by (simp add: icmp6_message_def fill_def Let_def)
  have l: "length (octets src) = 16" "length (octets dst) = 16" using assms(1-4) by (simp_all add: wf_addr_def)
  have pl: "length ?pre = 42" "length ?post = n - 4" "8 \<le> n" "even n"
    using l len [of 0] by (simp_all add: icmp6_pseudo_header_def m n_def)
  have le: "length payload + 8 \<le> n" unfolding n_def by simp
  show ?thesis
  proof (cases "mtu - 8 < int (length payload) \<or> mtu - 8 < int n")
    case True
    with le show ?thesis
      unfolding n_def [symmetric] by (auto simp: icmp6_send_packet_def len Let_def)
  next
    case False
    then have b: "(40 + n) div 2 \<le> 65536" using assms(5) by linarith
    have total: "length (?pre @ bytes16 0 @ ?post) = 2 * ((40 + n) div 2)"
      using pl by simp
    obtain k where k: "ip_checksum (?pre @ bytes16 0 @ ?post) ((40 + n) div 2) = Inr k"
      using ip_checksum_value [OF eq_refl [OF total [symmetric]] b] by blast
    have v: "ip_checksum (?pre @ bytes16 k @ ?post) ((40 + n) div 2) = Inr 0"
    proof (rule checksum_fills [OF _ _ _ b k])
      show "even (length ?pre)" unfolding pl(1) by simp
      show "even (length ?post)" unfolding pl(2) using pl(3,4) by simp
      show "length ?pre + 2 + length ?post = 2 * ((40 + n) div 2)" unfolding pl(1,2) using pl(3,4) by simp
    qed
    have "icmp6_send_packet mtu dst_mac dst src t code r payload s =
        Inr (Some \<lparr>is_dst_mac = dst_mac, is_dst_ip = dst, is_src_ip = src, is_protocol = 0x3a,
          is_payload = icmp6_message t code k r payload, is_header_template = None\<rparr>, s\<lparr>icmp6_transmit := icmp6_transmit s + 1\<rparr>)"
      using False k l le by (simp add: icmp6_send_packet_def len Let_def) (simp add: m)
    moreover have "ip_checksum (icmp6_pseudo_header src dst n @ icmp6_message t code k r payload) ((40 + n) div 2) = Inr 0"
      using v by (simp add: m)
    ultimately show ?thesis
      using False unfolding n_def [symmetric] by (simp add: len) blast
  qed
qed

theorem icmp6_send_cases_witness:
  "icmp6_send_packet 1446 None (Addr AF_ipv6 (replicate 16 1)) (Addr AF_ipv6 (replicate 16 2)) 129 0 5 (replicate 1438 0)
     \<lparr>icmp6_my_mac = Addr AF_mac [2, 0, 0, 0, 0, 1], icmp6_my_ip = Addr AF_ipv6 (replicate 16 2), icmp6_interface = 1,
      icmp6_indp = 0, icmp6_router = router_new, icmp6_requests = 0, icmp6_transmit = 0, icmp6_error = 0\<rparr>
   = Inl Undefined_behaviour"
  using icmp6_send_cases [of "Addr AF_ipv6 (replicate 16 2)" "Addr AF_ipv6 (replicate 16 1)" 1446 "replicate 1438 0" None 129 0 5
     "\<lparr>icmp6_my_mac = Addr AF_mac [2, 0, 0, 0, 0, 1], icmp6_my_ip = Addr AF_ipv6 (replicate 16 2), icmp6_interface = 1,
      icmp6_indp = 0, icmp6_router = router_new, icmp6_requests = 0, icmp6_transmit = 0, icmp6_error = 0\<rparr>"]
  by (simp add: wf_addr_def)

end
