(* ===== verification/Udp.thy ===== *)
theory Udp
  imports Icmp
begin

text \<open>
  UDP, \<^verbatim>\<open>src/udp.cpp\<close>: the handlers of ports, the dispatch of incoming datagrams to them, the
  sending of datagrams and the allocation of local ports; and the handler of
  \<^verbatim>\<open>src/tcp_udp_fw.cpp\<close>, which drops what it gets.  A registered function is a value of type
  \<open>'cb\<close>; calling it is an event with its arguments.
\<close>

unbundle bit_operations_syntax

record 'cb udp =
  callbacks :: "int \<rightharpoonup> 'cb"
  allocated_ports :: "int \<rightharpoonup> u64"
  udp_requests :: u64
  udp_refused :: u64

definition udp_new :: "'cb udp" where
  "udp_new = \<lparr>callbacks = Map.empty, allocated_ports = Map.empty, udp_requests = 0, udp_refused = 0\<rparr>"

text \<open>\<open>add_handler\<close> uses \<open>insert\<close>, which keeps a handler that is there.\<close>

definition add_handler :: "int \<Rightarrow> 'cb \<Rightarrow> 'cb udp \<Rightarrow> 'cb udp" where
  "add_handler port h s =
     (case callbacks s port of None \<Rightarrow> s\<lparr>callbacks := (callbacks s)(port \<mapsto> h)\<rparr> | Some _ \<Rightarrow> s)"

definition remove_handler :: "int \<Rightarrow> 'cb udp \<Rightarrow> 'cb udp" where
  "remove_handler port s = s\<lparr>callbacks := (callbacks s)(port := None)\<rparr>"

datatype 'cb udp_event =
    Call 'cb addr int addr int packet
  | Port_unreachable addr addr packet

text \<open>A round of \<open>operator()\<close>; \<open>have_icmp\<close> tells whether an ICMP instance is there.\<close>

definition udp_handle :: "bool \<Rightarrow> packet \<Rightarrow> 'cb udp \<Rightarrow> 'cb udp_event list \<times> 'cb udp" where
  "udp_handle have_icmp pkt s0 =
     (let p = pk_data pkt in
      if length p < 8 then ([], s0)
      else
        let src_port = uint (mk16 (p ! 0) (p ! 1)); dst_port = uint (mk16 (p ! 2) (p ! 3));
            s = s0\<lparr>udp_requests := udp_requests s0 + 1\<rparr> in
        case callbacks s dst_port of
          None \<Rightarrow> (if have_icmp then [Port_unreachable (pk_src_addr pkt) (pk_dst_addr pkt) pkt] else [],
                   s\<lparr>udp_refused := udp_refused s + 1\<rparr>)
        | Some cb \<Rightarrow>
            ([Call cb (pk_src_addr pkt) src_port (pk_dst_addr pkt) dst_port
                (packet_new (pk_src_mac_addr pkt) (pk_src_addr pkt) (pk_dst_addr pkt) (drop 8 p) (pk_header pkt) False)], s))"

text \<open>
  \<open>transmit_packet\<close>: the segment with its checksum, for which the two addresses are given in the
  other order than elsewhere.  \<open>Inr None\<close> is the refusal of addresses of different length.
\<close>

definition udp_segment :: "int \<Rightarrow> int \<Rightarrow> u16 \<Rightarrow> byte list \<Rightarrow> byte list" where
  "udp_segment src_port dst_port checksum payload =
     bytes16 (word_of_int src_port) @ bytes16 (word_of_int dst_port) @ bytes16 (of_nat (8 + length payload)) @
     bytes16 checksum @ payload"

definition udp_transmit_packet :: "addr \<Rightarrow> int \<Rightarrow> addr \<Rightarrow> int \<Rightarrow> byte list \<Rightarrow> ip_send option res" where
  "udp_transmit_packet dst_ip dst_port src_ip src_port payload =
     (if length (octets dst_ip) \<noteq> length (octets src_ip) then Inr None
      else
        rbind (tcp_udp_checksum dst_ip src_ip False (udp_segment src_port dst_port 0 payload)) (\<lambda>checksum.
        Inr (Some \<lparr>is_dst_mac = None, is_dst_ip = dst_ip, is_src_ip = src_ip, is_protocol = 0x11,
          is_payload = udp_segment src_port dst_port checksum payload, is_header_template = None\<rparr>)))"

text \<open>\<open>allocate_port\<close> with the random numbers it draws, at most ten; \<open>-1\<close> when all were taken.\<close>

fun allocate_loop :: "u16 list \<Rightarrow> u64 \<Rightarrow> 'cb udp \<Rightarrow> int \<times> 'cb udp" where
  "allocate_loop [] now s = (- 1, s)"
| "allocate_loop (rnd # rnds) now s =
     (let test_port = uint (rnd AND 32767) + 1000 in
      if allocated_ports s test_port = None
      then (test_port, s\<lparr>allocated_ports := (allocated_ports s)(test_port \<mapsto> now)\<rparr>)
      else allocate_loop rnds now s)"

definition allocate_port :: "u16 list \<Rightarrow> u64 \<Rightarrow> 'cb udp \<Rightarrow> int \<times> 'cb udp" where
  "allocate_port rnds now s = allocate_loop (take 10 rnds) now s"

definition unallocate_port :: "int \<Rightarrow> 'cb udp \<Rightarrow> 'cb udp" where
  "unallocate_port port s = s\<lparr>allocated_ports := (allocated_ports s)(port := None)\<rparr>"

definition update_port_ts :: "int \<Rightarrow> u64 \<Rightarrow> 'cb udp \<Rightarrow> 'cb udp" where
  "update_port_ts port now s =
     (case allocated_ports s port of None \<Rightarrow> s | Some _ \<Rightarrow> s\<lparr>allocated_ports := (allocated_ports s)(port \<mapsto> now)\<rparr>)"

text \<open>\<open>tcp_udp_fw::input\<close> counts and drops.\<close>

definition fw_input :: "u64 \<Rightarrow> u64" where
  "fw_input fw_n_dropped = fw_n_dropped + 1"

section \<open>A datagram reaches the handler of its port\<close>

definition udp_port :: "int \<Rightarrow> bool" where
  "udp_port n \<longleftrightarrow> 0 \<le> n \<and> n < 65536"

lemma uint_port: "udp_port n \<Longrightarrow> uint (word_of_int n :: u16) = n"
  by (simp add: udp_port_def uint_word_of_int)

lemma udp_segment_checksum:
  assumes "wf_addr src" and "wf_addr dst" and "addr_fam src = addr_fam dst" and "addr_fam dst = AF_ipv4 \<or> addr_fam dst = AF_ipv6"
    and "8 + length payload \<le> 65535"
  shows "\<exists>c. tcp_udp_checksum dst src False (udp_segment sp dp 0 payload) = Inr c \<and>
    tcp_udp_checksum src dst False (udp_segment sp dp c payload) = Inr 0"
proof -
  let ?pre = "bytes16 (word_of_int sp) @ bytes16 (word_of_int dp) @ bytes16 (of_nat (8 + length payload))"
  have seg: "udp_segment sp dp c payload = ?pre @ bytes16 c @ payload" for c by (simp add: udp_segment_def)
  have sw: "tcp_udp_checksum dst src False x = tcp_udp_checksum src dst False x" for x
    using assms(1-3) by (intro tcp_udp_checksum_swap) auto
  have "\<exists>c. tcp_udp_checksum src dst False x = Inr c" for x
    using assms(1-4) by (auto simp: tcp_udp_checksum_def Let_def wf_addr_def ip_checksum_def pseudo_header_v4_def pseudo_header_v6_def)
  then obtain c where c: "tcp_udp_checksum src dst False (?pre @ bytes16 0 @ payload) = Inr c" by blast
  with tcp_udp_checksum_fills [OF assms(1-3) _ _ c assms(4)] assms(5) show ?thesis
    by (simp add: sw seg)
qed

lemma udp_handle_segment:
  assumes "udp_port sp" and "udp_port dp" and "pk_data pkt = udp_segment sp dp c payload" and "callbacks s dp = Some cb"
  shows "udp_handle icmp pkt s =
    ([Call cb (pk_src_addr pkt) sp (pk_dst_addr pkt) dp
        (packet_new (pk_src_mac_addr pkt) (pk_src_addr pkt) (pk_dst_addr pkt) payload (pk_header pkt) False)],
     s\<lparr>udp_requests := udp_requests s + 1\<rparr>)"
proof -
  obtain s1 s2 where s: "bytes16 (word_of_int sp) = [s1, s2]" "mk16 s1 s2 = word_of_int sp" by (rule bytes16_obtain)
  obtain d1 d2 where d: "bytes16 (word_of_int dp) = [d1, d2]" "mk16 d1 d2 = word_of_int dp" by (rule bytes16_obtain)
  obtain l1 l2 where l: "bytes16 (of_nat (8 + length payload)) = [l1, l2]" by (rule bytes16_obtain)
  obtain c1 c2 where c: "bytes16 c = [c1, c2]" by (rule bytes16_obtain)
  have "pk_data pkt = [s1, s2, d1, d2, l1, l2, c1, c2] @ payload"
    using assms(3) s(1) d(1) l c by (simp only: udp_segment_def) simp
  with s(2) d(2) assms(1,2,4) show ?thesis
    by (simp add: udp_handle_def uint_port del: uint_word_of_int)
qed

context ip_layer
begin

text \<open>What a UDP sender hands to the network layer comes out of it, checksum included.\<close>

lemma udp_arrives:
  assumes "usable src" and "usable dst" and "8 + length payload \<le> 65535"
    and "udp_transmit_packet dst dp src sp payload = Inr (Some out)" and "fits (is_payload out) pad"
  shows "decode (encode src dst 0x11 (is_payload out) @ pad) = Some (src, dst, 0x11, is_payload out) \<and>
    tcp_udp_checksum src dst False (is_payload out) = Inr 0"
proof -
  obtain c where c: "tcp_udp_checksum dst src False (udp_segment sp dp 0 payload) = Inr c"
    "tcp_udp_checksum src dst False (udp_segment sp dp c payload) = Inr 0"
    using udp_segment_checksum [of src dst payload sp dp] usable_wf [OF assms(1)] usable_wf [OF assms(2)]
      usable_same [OF assms(1,2)] assms(3) by auto
  moreover have "is_payload out = udp_segment sp dp c payload"
    using assms(4) c(1) by (auto simp: udp_transmit_packet_def split: if_splits)
  ultimately show ?thesis using decode_encode [OF assms(1,2,5)] by simp
qed

end

text \<open>
  C29. A UDP datagram reaches the handler of its port: the segment that transmit_packet sends,
  put into an IPv4 or IPv6 datagram and taken out of it again (with the padding the link layer may
  add), has a checksum that verifies for source and destination, and the receiver calls exactly
  the handler registered for the destination port, with both addresses and ports and with exactly
  the payload.
\<close>

theorem udp_delivery:
  assumes "udp_transmit_packet dst dp src sp payload = Inr (Some out)" and "udp_port sp" and "udp_port dp"
    and "20 + 8 + length payload \<le> 65535" and "length pad < 8" and "callbacks s dp = Some cb"
    and "ipv4_usable src \<and> ipv4_usable dst \<or> ipv6_usable src \<and> ipv6_usable dst"
  shows "(if ipv4_usable dst
          then ipv4_decode (ipv4_encode tos src dst 0x11 (is_payload out) @ pad)
          else ipv6_decode (ipv6_encode fl src dst 0x11 (is_payload out) @ pad)) = Some (src, dst, 0x11, is_payload out) \<and>
    tcp_udp_checksum src dst False (is_payload out) = Inr 0 \<and>
    udp_handle icmp (packet_new mac src dst (is_payload out) hdr False) s =
      ([Call cb src sp dst dp (packet_new mac src dst payload hdr False)], s\<lparr>udp_requests := udp_requests s + 1\<rparr>)"
proof -
  obtain c where seg: "is_payload out = udp_segment sp dp c payload"
    using assms(1) by (auto simp: udp_transmit_packet_def split: if_splits)
  then have len: "length (is_payload out) = 8 + length payload" by (simp add: udp_segment_def)
  have call: "udp_handle icmp (packet_new mac src dst (is_payload out) hdr False) s =
      ([Call cb src sp dst dp (packet_new mac src dst payload hdr False)], s\<lparr>udp_requests := udp_requests s + 1\<rparr>)"
    using udp_handle_segment [OF assms(2,3) _ assms(6), of "packet_new mac src dst (is_payload out) hdr False" c payload icmp] seg
    by (simp add: packet_new_def)
  show ?thesis
  proof (cases "ipv4_usable dst")
    case True
    then have "ipv4_usable src" using assms(7) by (auto simp: ipv4_usable_def ipv6_usable_def)
    from ip4.udp_arrives [OF this True _ assms(1), of pad tos] assms(4) len True call show ?thesis
      by (simp add: ipv4_fits_def)
  next
    case False
    then have "ipv6_usable src" "ipv6_usable dst" using assms(7) by auto
    from ip6.udp_arrives [OF this _ assms(1), of pad fl] assms(4,5) len False call show ?thesis
      by (simp add: ipv6_fits_def)
  qed
qed

theorem udp_delivery_witness:
  "\<exists>out. udp_transmit_packet (Addr AF_ipv4 [10, 0, 0, 2]) 53 (Addr AF_ipv4 [10, 0, 0, 1]) 4000 [1, 2, 3] = Inr (Some out) \<and>
     ipv4_decode (ipv4_encode 0 (Addr AF_ipv4 [10, 0, 0, 1]) (Addr AF_ipv4 [10, 0, 0, 2]) 0x11 (is_payload out)) =
       Some (Addr AF_ipv4 [10, 0, 0, 1], Addr AF_ipv4 [10, 0, 0, 2], 0x11, is_payload out)"
proof -
  let ?src = "Addr AF_ipv4 [10, 0, 0, 1]" and ?dst = "Addr AF_ipv4 [10, 0, 0, 2]"
  have u: "ipv4_usable ?src" "ipv4_usable ?dst" by (simp_all add: ipv4_usable_def wf_addr_def)
  obtain c where c: "tcp_udp_checksum ?dst ?src False (udp_segment 4000 53 0 [1, 2, 3]) = Inr c"
    using udp_segment_checksum [of ?src ?dst "[1, 2, 3]" 4000 53] by (auto simp: wf_addr_def)
  then obtain out where out: "udp_transmit_packet ?dst 53 ?src 4000 [1, 2, 3] = Inr (Some out)"
    by (simp add: udp_transmit_packet_def)
  have p: "udp_port 4000" "udp_port 53" "callbacks (add_handler 53 True udp_new) 53 = Some True"
    by (simp_all add: udp_port_def add_handler_def udp_new_def)
  from udp_delivery [OF out p(1,2) _ _ p(3), of "[]" 0] u out show ?thesis by auto
qed

text \<open>An allocated port is in its range and was free.\<close>

lemma allocate_port_fresh:
  "allocate_port rnds now s = (port, s') \<Longrightarrow> port \<noteq> - 1 \<Longrightarrow>
   1000 \<le> port \<and> port \<le> 33767 \<and> allocated_ports s port = None \<and> allocated_ports s' = (allocated_ports s)(port \<mapsto> now)"
proof -
  have b: "0 \<le> uint (w AND 32767)" "uint (w AND 32767) \<le> 32767" for w :: u16
  proof -
    have "w AND 32767 \<le> 32767" by (rule word_and_le1)
    then show "uint (w AND 32767) \<le> 32767" by (simp add: word_le_def)
  qed simp
  have "allocate_loop rs now s = (port, s') \<Longrightarrow> port \<noteq> - 1 \<Longrightarrow>
     1000 \<le> port \<and> port \<le> 33767 \<and> allocated_ports s port = None \<and> allocated_ports s' = (allocated_ports s)(port \<mapsto> now)" for rs
    using b by (induction rs now s rule: allocate_loop.induct) (auto simp: Let_def split: if_splits)
  then show "allocate_port rnds now s = (port, s') \<Longrightarrow> port \<noteq> - 1 \<Longrightarrow>
   1000 \<le> port \<and> port \<le> 33767 \<and> allocated_ports s port = None \<and> allocated_ports s' = (allocated_ports s)(port \<mapsto> now)"
    by (simp add: allocate_port_def)
qed

end
