(* ===== verification/Tcp_Segment.thy ===== *)
theory Tcp_Segment
  imports Udp
begin

text \<open>
  The segments of TCP, \<^verbatim>\<open>src/tcp.cpp\<close>: building a segment (\<open>send_segment\<close>, \<open>send_rst_for_port\<close>),
  reading the fields of a received one and walking over its options (the first part of
  \<open>packet_handler\<close>), and the identification of sessions (\<open>hash_address\<close>; \<open>session::get_hash\<close> of
  \<^verbatim>\<open>src/session.cpp\<close>).
\<close>

unbundle bit_operations_syntax

section \<open>Flags\<close>

definition FLAG_CWR :: byte where "FLAG_CWR = 128"
definition FLAG_ECE :: byte where "FLAG_ECE = 64"
definition FLAG_URG :: byte where "FLAG_URG = 32"
definition FLAG_ACK :: byte where "FLAG_ACK = 16"
definition FLAG_PSH :: byte where "FLAG_PSH = 8"
definition FLAG_RST :: byte where "FLAG_RST = 4"
definition FLAG_SYN :: byte where "FLAG_SYN = 2"
definition FLAG_FIN :: byte where "FLAG_FIN = 1"

lemmas flag_defs = FLAG_CWR_def FLAG_ECE_def FLAG_URG_def FLAG_ACK_def FLAG_PSH_def FLAG_RST_def FLAG_SYN_def FLAG_FIN_def

definition has_flag :: "byte \<Rightarrow> byte \<Rightarrow> bool" where
  "has_flag flags f \<longleftrightarrow> flags AND f \<noteq> 0"

definition flag_names :: "(byte \<times> string) list" where
  "flag_names = [(FLAG_CWR, ''CWR,''), (FLAG_ECE, ''ECE,''), (FLAG_URG, ''URG,''), (FLAG_ACK, ''ACK,''),
     (FLAG_PSH, ''PSH,''), (FLAG_RST, ''RST,''), (FLAG_SYN, ''SYN,''), (FLAG_FIN, ''FIN,'')]"

text \<open>The names of the flags that are set; the last comma is erased.\<close>

definition flags_to_str :: "byte \<Rightarrow> string" where
  "flags_to_str flags =
     (let out = concat (map (\<lambda>(f, name). if has_flag flags f then name else []) flag_names) in
      if out = [] then [] else butlast out)"

section \<open>Sending\<close>

text \<open>
  The octets \<open>temp\<close> of \<open>send_segment\<close> with the checksum as given: a header of eight words,
  always with the timestamp option; \<open>us\<close> are the low 32 bits of the clock.
\<close>

definition tcp_octets :: "u16 \<Rightarrow> u16 \<Rightarrow> u32 \<Rightarrow> u32 \<Rightarrow> byte \<Rightarrow> u16 \<Rightarrow> u32 \<Rightarrow> u32 \<Rightarrow> byte list \<Rightarrow> byte list" where
  "tcp_octets my_port peer_port seq ack_to flags checksum us TSecr data =
     (bytes16 my_port @ bytes16 peer_port @ bytes32 seq @ bytes32 ack_to @ [0x80, flags, 255, 255]) @ bytes16 checksum @
     ([0, 0, 8, 10] @ bytes32 us @ bytes32 TSecr @ [1, 0] @ data)"

text \<open>
  \<open>send_segment\<close>: the segment and the sequence number after it; without a sequence number
  (\<open>None\<close>, a null pointer) the segment carries zero.
\<close>

definition send_segment ::
  "addr \<Rightarrow> u16 \<Rightarrow> addr \<Rightarrow> u16 \<Rightarrow> byte \<Rightarrow> u32 \<Rightarrow> u32 option \<Rightarrow> byte list \<Rightarrow> u32 \<Rightarrow> u32 \<Rightarrow> (ip_send \<times> u32 option) res" where
  "send_segment my_addr my_port peer_addr peer_port flags ack_to my_seq_nr data TSecr us =
     (let seq = (case my_seq_nr of None \<Rightarrow> 0 | Some n \<Rightarrow> n) in
      rbind (tcp_udp_checksum peer_addr my_addr True (tcp_octets my_port peer_port seq ack_to flags 0 us TSecr data)) (\<lambda>checksum.
      Inr (\<lparr>is_dst_mac = None, is_dst_ip = peer_addr, is_src_ip = my_addr, is_protocol = 6,
            is_payload = tcp_octets my_port peer_port seq ack_to flags checksum us TSecr data, is_header_template = None\<rparr>,
           map_option (\<lambda>n. n + of_nat (length data) +
             (if has_flag flags FLAG_FIN \<or> has_flag flags FLAG_SYN then 1 else 0)) my_seq_nr)))"

definition rst_octets :: "u16 \<Rightarrow> u16 \<Rightarrow> byte list \<Rightarrow> u16 \<Rightarrow> byte list" where
  "rst_octets dst_port src_port p checksum =
     (bytes16 dst_port @ bytes16 src_port @ take 4 (drop 8 p) @
      bytes32 (mk32 (p ! 4) (p ! 5) (p ! 6) (p ! 7) + 1) @ [0x50, FLAG_RST, 0, 0]) @ bytes16 checksum @ [0, 0]"

definition send_rst_for_port :: "packet \<Rightarrow> u16 \<Rightarrow> u16 \<Rightarrow> ip_send res" where
  "send_rst_for_port pkt dst_port src_port =
     rbind (tcp_udp_checksum (pk_src_addr pkt) (pk_dst_addr pkt) True (rst_octets dst_port src_port (pk_data pkt) 0)) (\<lambda>checksum.
     Inr \<lparr>is_dst_mac = None, is_dst_ip = pk_src_addr pkt, is_src_ip = pk_dst_addr pkt, is_protocol = 6,
       is_payload = rst_octets dst_port src_port (pk_data pkt) checksum, is_header_template = None\<rparr>)"

section \<open>Receiving\<close>

record tcp_fields =
  seg_src_port :: u16
  seg_dst_port :: u16
  seg_seq :: u32
  seg_ack_to :: u32
  seg_flags :: byte
  seg_header_size :: nat
  seg_win_size :: nat

text \<open>The fields of a packet of at least twenty octets.\<close>

definition tcp_parse :: "byte list \<Rightarrow> tcp_fields" where
  "tcp_parse p =
     \<lparr>seg_src_port = mk16 (p ! 0) (p ! 1), seg_dst_port = mk16 (p ! 2) (p ! 3),
      seg_seq = mk32 (p ! 4) (p ! 5) (p ! 6) (p ! 7), seg_ack_to = mk32 (p ! 8) (p ! 9) (p ! 10) (p ! 11),
      seg_flags = p ! 13, seg_header_size = unat (drop_bit 4 (p ! 12)) * 4, seg_win_size = unat (mk16 (p ! 14) (p ! 15))\<rparr>"

text \<open>
  The walk over the options from \<open>cur\<close> to \<open>fin\<close>, the end of the header: the last timestamp
  seen, which an acknowledgement returns.  An option of length zero is looked at forever; an
  octet behind the packet is not the packet's.
\<close>

function opts_walk :: "byte list \<Rightarrow> nat \<Rightarrow> nat \<Rightarrow> bool \<Rightarrow> u32 \<Rightarrow> u32 res" where
  "opts_walk p fin cur flag_ack TSecr =
     (if cur + 2 \<le> fin then
        rbind (octets_at p cur 1) (\<lambda>kind.
        rbind (if kind ! 0 = 8 \<and> flag_ack \<and> 6 \<le> fin - cur
               then rbind (octets_at p (cur + 2) 4) (\<lambda>t. Inr (mk32 (t ! 0) (t ! 1) (t ! 2) (t ! 3)))
               else Inr TSecr) (\<lambda>TSecr'.
        if kind ! 0 = 0 \<or> kind ! 0 = 1 then opts_walk p fin (cur + 1) flag_ack TSecr'
        else
          rbind (octets_at p (cur + 1) 1) (\<lambda>len.
          if len ! 0 = 0 then Inl Diverges else opts_walk p fin (cur + unat (len ! 0)) flag_ack TSecr')))
      else Inr TSecr)"
  by auto
termination
proof (relation "measure (\<lambda>(p, fin, cur, flag_ack, TSecr). fin - cur)")
  fix p :: "byte list" and fin cur :: nat and flag_ack :: bool and TSecr x :: u32 and len :: "byte list"
  assume "cur + 2 \<le> fin" "len ! 0 \<noteq> 0"
  then show "((p, fin, cur + unat (len ! 0), flag_ack, x), p, fin, cur, flag_ack, TSecr)
      \<in> measure (\<lambda>(p, fin, cur, flag_ack, TSecr). fin - cur)"
    using unat_gt_0 [of "len ! 0"] by simp
qed auto

declare opts_walk.simps [simp del]

section \<open>Session identification\<close>

definition addr_hash :: "addr \<Rightarrow> u64" where
  "addr_hash a = MurmurHash64A (octets a) 123"

definition hash_address :: "addr \<Rightarrow> u16 \<Rightarrow> u16 \<Rightarrow> u64" where
  "hash_address a local_port peer_port =
     addr_hash a XOR push_bit 32 (ucast local_port) XOR push_bit 48 (ucast peer_port)"

definition session_hash :: "addr \<Rightarrow> u16 \<Rightarrow> u16 \<Rightarrow> u64" where
  "session_hash their_addr their_port my_port =
     MurmurHash64A (octets their_addr @ bytes16 their_port @ bytes16 my_port) 99194853094755497"

section \<open>A segment arrives as it was sent\<close>

lemma header_octet: "unat (drop_bit 4 (0x80 :: byte)) = 8" "mk16 255 255 = 65535"
  by code_simp+

lemma tcp_octets_fields:
  assumes "p = tcp_octets sp dp seq ack flags c us TSecr data"
  shows "tcp_parse p = \<lparr>seg_src_port = sp, seg_dst_port = dp, seg_seq = seq, seg_ack_to = ack, seg_flags = flags,
      seg_header_size = 32, seg_win_size = 65535\<rparr>" "drop 32 p = data" "length p = 32 + length data"
    "opts_walk p 32 20 flag_ack 0 = Inr (if flag_ack then us else 0)"
proof -
  obtain a1 a2 where a: "bytes16 sp = [a1, a2]" "mk16 a1 a2 = sp" by (rule bytes16_obtain)
  obtain b1 b2 where b: "bytes16 dp = [b1, b2]" "mk16 b1 b2 = dp" by (rule bytes16_obtain)
  obtain s1 s2 s3 s4 where s: "bytes32 seq = [s1, s2, s3, s4]" "mk32 s1 s2 s3 s4 = seq" by (rule bytes32_obtain)
  obtain k1 k2 k3 k4 where k: "bytes32 ack = [k1, k2, k3, k4]" "mk32 k1 k2 k3 k4 = ack" by (rule bytes32_obtain)
  obtain c1 c2 where c: "bytes16 c = [c1, c2]" by (rule bytes16_obtain)
  obtain u1 u2 u3 u4 where u: "bytes32 us = [u1, u2, u3, u4]" "mk32 u1 u2 u3 u4 = us" by (rule bytes32_obtain)
  obtain t1 t2 t3 t4 where t: "bytes32 TSecr = [t1, t2, t3, t4]" by (rule bytes32_obtain)
  have p: "p = [a1, a2, b1, b2, s1, s2, s3, s4, k1, k2, k3, k4, 0x80, flags, 255, 255, c1, c2, 0, 0, 8, 10,
      u1, u2, u3, u4, t1, t2, t3, t4, 1, 0] @ data"
    using assms by (simp add: tcp_octets_def a(1) b(1) s(1) k(1) c u(1) t)
  show "drop 32 p = data" "length p = 32 + length data" by (simp_all add: p)
  have h: "p ! 12 = 0x80" by (simp add: p)
  have "seg_header_size (tcp_parse p) = 32" by (simp only: tcp_parse_def tcp_fields.simps h header_octet)
  moreover have "seg_win_size (tcp_parse p) = 65535" by (simp add: tcp_parse_def p header_octet)
  ultimately show "tcp_parse p = \<lparr>seg_src_port = sp, seg_dst_port = dp, seg_seq = seq, seg_ack_to = ack, seg_flags = flags,
      seg_header_size = 32, seg_win_size = 65535\<rparr>"
    by (simp add: tcp_parse_def p a(2) b(2) s(2) k(2) header_octet)
  have o3: "opts_walk p 32 31 flag_ack x = Inr x" for x by (simp add: opts_walk.simps)
  have o2: "opts_walk p 32 30 flag_ack x = Inr x" for x
    using o3 by (subst opts_walk.simps) (simp add: octets_at_def p)
  have "opts_walk p 32 20 flag_ack 0 = opts_walk p 32 30 flag_ack (if flag_ack then us else 0)"
    by (subst opts_walk.simps) (simp add: octets_at_def p u(2))
  then show "opts_walk p 32 20 flag_ack 0 = Inr (if flag_ack then us else 0)" by (simp add: o2)
qed

lemma send_segment_out:
  assumes "send_segment my_addr my_port peer_addr peer_port flags ack_to (Some seq) data TSecr us = Inr (out, next)"
  shows "\<exists>c. is_payload out = tcp_octets my_port peer_port seq ack_to flags c us TSecr data"
    "next = Some (seq + of_nat (length data) + (if has_flag flags FLAG_FIN \<or> has_flag flags FLAG_SYN then 1 else 0))"
    "is_dst_ip out = peer_addr" "is_src_ip out = my_addr"
  using assms by (auto simp: send_segment_def)

lemma tcp_segment_checksum:
  assumes "wf_addr src" and "wf_addr dst" and "addr_fam src = addr_fam dst" and "addr_fam dst = AF_ipv4 \<or> addr_fam dst = AF_ipv6"
    and "32 + length data \<le> 65535"
    and "tcp_udp_checksum dst src True (tcp_octets sp dp seq ack flags 0 us TSecr data) = Inr c"
  shows "tcp_udp_checksum src dst True (tcp_octets sp dp seq ack flags c us TSecr data) = Inr 0"
proof -
  have "tcp_udp_checksum dst src True x = tcp_udp_checksum src dst True x" for x
    using assms(1-3) by (intro tcp_udp_checksum_swap) auto
  with assms(6) have c: "tcp_udp_checksum src dst True (tcp_octets sp dp seq ack flags 0 us TSecr data) = Inr c" by simp
  show ?thesis
    using assms(5) unfolding tcp_octets_def
    by (intro tcp_udp_checksum_fills [OF assms(1-3) _ _ c [unfolded tcp_octets_def] assms(4)]) simp_all
qed

context ip_layer
begin

lemma tcp_arrives:
  assumes "usable src" and "usable dst" and "32 + length data \<le> 65535"
    and "send_segment src sp dst dp flags ack seq data TSecr us = Inr (out, next)" and "fits (is_payload out) pad"
  shows "decode (encode src dst 6 (is_payload out) @ pad) = Some (src, dst, 6, is_payload out) \<and>
    tcp_udp_checksum src dst True (is_payload out) = Inr 0"
proof -
  obtain c where c: "tcp_udp_checksum dst src True (tcp_octets sp dp (case seq of None \<Rightarrow> 0 | Some n \<Rightarrow> n) ack flags 0 us TSecr data) = Inr c"
    "is_payload out = tcp_octets sp dp (case seq of None \<Rightarrow> 0 | Some n \<Rightarrow> n) ack flags c us TSecr data"
    using assms(4) by (auto simp: send_segment_def Let_def)
  with tcp_segment_checksum [OF _ _ _ _ assms(3) c(1)] usable_wf [OF assms(1)] usable_wf [OF assms(2)]
    usable_same [OF assms(1,2)] decode_encode [OF assms(1,2,5)] show ?thesis by auto
qed

end

text \<open>
  C21. A TCP segment arrives as it was sent: what send_segment hands to the network layer
  comes out of the IPv4 or IPv6 datagram it is put into, with a checksum that verifies, and the
  receiver reads from it the ports, the sequence number, the acknowledged number and the flags of
  the sender, finds the payload behind the header, and, if it acknowledges, the sender's timestamp
  as the one to return.  The sequence number of the sender advances by the octets sent, and by one
  more for SYN or FIN.
\<close>

theorem tcp_segment_roundtrip:
  assumes "send_segment src sp dst dp flags ack (Some seq) data TSecr us = Inr (out, next)"
    and "20 + 32 + length data \<le> 65535" and "length pad < 8"
    and "ipv4_usable src \<and> ipv4_usable dst \<or> ipv6_usable src \<and> ipv6_usable dst"
  shows "(if ipv4_usable dst
          then ipv4_decode (ipv4_encode tos src dst 6 (is_payload out) @ pad)
          else ipv6_decode (ipv6_encode fl src dst 6 (is_payload out) @ pad)) = Some (src, dst, 6, is_payload out) \<and>
    tcp_udp_checksum src dst True (is_payload out) = Inr 0 \<and>
    tcp_parse (is_payload out) = \<lparr>seg_src_port = sp, seg_dst_port = dp, seg_seq = seq, seg_ack_to = ack, seg_flags = flags,
      seg_header_size = 32, seg_win_size = 65535\<rparr> \<and>
    drop 32 (is_payload out) = data \<and>
    opts_walk (is_payload out) 32 20 flag_ack 0 = Inr (if flag_ack then us else 0) \<and>
    next = Some (seq + of_nat (length data) + (if has_flag flags FLAG_FIN \<or> has_flag flags FLAG_SYN then 1 else 0))"
proof -
  obtain c where c: "is_payload out = tcp_octets sp dp seq ack flags c us TSecr data"
    using send_segment_out(1) [OF assms(1)] by blast
  note f = tcp_octets_fields(1-3) [OF c] tcp_octets_fields(4) [OF c, of flag_ack] send_segment_out(2) [OF assms(1)]
  have arr: "(if ipv4_usable dst
          then ipv4_decode (ipv4_encode tos src dst 6 (is_payload out) @ pad)
          else ipv6_decode (ipv6_encode fl src dst 6 (is_payload out) @ pad)) = Some (src, dst, 6, is_payload out) \<and>
    tcp_udp_checksum src dst True (is_payload out) = Inr 0"
  proof (cases "ipv4_usable dst")
    case True
    then have "ipv4_usable src" using assms(4) by (auto simp: ipv4_usable_def ipv6_usable_def)
    from ip4.tcp_arrives [OF this True _ assms(1), of pad tos] assms(2) f(3) True show ?thesis
      by (simp add: ipv4_fits_def)
  next
    case False
    then have "ipv6_usable src" "ipv6_usable dst" using assms(4) by auto
    from ip6.tcp_arrives [OF this _ assms(1), of pad fl] assms(2,3) f(3) False show ?thesis
      by (simp add: ipv6_fits_def)
  qed
  with f show ?thesis by blast
qed

lemma send_segment_defined:
  assumes "wf_addr src" and "wf_addr dst" and "addr_fam src = addr_fam dst"
  shows "\<exists>out next. send_segment src sp dst dp flags ack seq data TSecr us = Inr (out, next)"
proof -
  have "\<exists>c. tcp_udp_checksum dst src True x = Inr c" for x
    using assms by (auto simp: tcp_udp_checksum_def Let_def wf_addr_def ip_checksum_def pseudo_header_v4_def pseudo_header_v6_def)
  then obtain c where "tcp_udp_checksum dst src True
      (tcp_octets sp dp (case seq of None \<Rightarrow> 0 | Some n \<Rightarrow> n) ack flags 0 us TSecr data) = Inr c" by blast
  then show ?thesis by (simp add: send_segment_def Let_def)
qed

theorem tcp_segment_roundtrip_witness:
  "\<exists>out next. send_segment (Addr AF_ipv4 [10, 0, 0, 1]) 80 (Addr AF_ipv4 [10, 0, 0, 2]) 4000 FLAG_ACK 7 (Some 100) [1, 2, 3] 0 5
       = Inr (out, next) \<and> seg_seq (tcp_parse (is_payload out)) = 100 \<and> drop 32 (is_payload out) = [1, 2, 3]"
proof -
  let ?src = "Addr AF_ipv4 [10, 0, 0, 1]" and ?dst = "Addr AF_ipv4 [10, 0, 0, 2]"
  have u: "ipv4_usable ?src \<and> ipv4_usable ?dst \<or> ipv6_usable ?src \<and> ipv6_usable ?dst"
    by (simp add: ipv4_usable_def wf_addr_def)
  obtain out nxt where out: "send_segment ?src 80 ?dst 4000 FLAG_ACK 7 (Some 100) [1, 2, 3] 0 5 = Inr (out, nxt)"
    using send_segment_defined [of ?src ?dst 80 4000 FLAG_ACK 7 "Some 100" "[1, 2, 3]" 0 5] by (auto simp: wf_addr_def)
  from tcp_segment_roundtrip [OF out _ _ u, of "[]" 0 0 True] out show ?thesis by auto
qed

text \<open>The sessions of one peer have different identifications.\<close>

lemma hash_address_ports:
  "hash_address a lp pp = hash_address a lp' pp' \<longleftrightarrow> lp = lp' \<and> pp = pp'"
proof
  assume h: "hash_address a lp pp = hash_address a lp' pp'"
  define f where "f l q = push_bit 32 (ucast (l :: u16)) XOR push_bit 48 (ucast (q :: u16) :: u64)" for l q
  have x: "addr_hash a XOR f lp pp = addr_hash a XOR f lp' pp'"
    using h by (simp add: hash_address_def f_def xor.assoc)
  have "bit (f lp pp) n = bit (f lp' pp') n" for n
    using arg_cong [OF x, of "\<lambda>w. bit w n"] unfolding bit_xor_iff by blast
  then have e: "f lp pp = f lp' pp'" by (rule bit_word_eqI)
  have "bit lp n = bit lp' n" if "n < 16" for n
    using arg_cong [OF e, of "\<lambda>w. bit w (n + 32)"] that by (simp add: f_def bit_simps)
  moreover have "bit pp n = bit pp' n" if "n < 16" for n
    using arg_cong [OF e, of "\<lambda>w. bit w (n + 48)"] that
    by (auto simp: f_def bit_simps dest: bit_imp_le_length)
  ultimately have "lp = lp'" "pp = pp'" by (auto intro: bit_word_eqI)
  then show "lp = lp' \<and> pp = pp'" by simp
qed simp

end
