(* ===== verification/Std_Map.thy ===== *)
theory Std_Map
  imports Prelude "HOL-Library.AList"
begin

text \<open>
  \<open>std::map\<close> where the code iterates over it or asks for its size: the entries in the order of
  their keys.  \<open>insert\<close> leaves an entry that is there, \<open>erase\<close> removes one, and an object behind
  a pointer changes in place.
\<close>

type_synonym ('k, 'v) std_map = "('k \<times> 'v) list"

fun map_insert :: "'k::linorder \<Rightarrow> 'v \<Rightarrow> ('k, 'v) std_map \<Rightarrow> ('k, 'v) std_map" where
  "map_insert k v [] = [(k, v)]"
| "map_insert k v ((k', v') # m) =
     (if k < k' then (k, v) # (k', v') # m else if k = k' then (k', v') # m else (k', v') # map_insert k v m)"

definition map_erase :: "'k \<Rightarrow> ('k, 'v) std_map \<Rightarrow> ('k, 'v) std_map" where
  "map_erase k m = filter (\<lambda>(k', v). k' \<noteq> k) m"

definition map_modify :: "'k \<Rightarrow> 'v \<Rightarrow> ('k, 'v) std_map \<Rightarrow> ('k, 'v) std_map" where
  "map_modify k v m = map (\<lambda>(k', v'). (k', if k' = k then v else v')) m"

definition map_ok :: "('k::linorder, 'v) std_map \<Rightarrow> bool" where
  "map_ok m \<longleftrightarrow> sorted_wrt (<) (map fst m)"

lemma map_ok_Nil [simp]: "map_ok []"
  by (simp add: map_ok_def)

lemma map_ok_distinct: "map_ok m \<Longrightarrow> distinct (map fst m)"
  unfolding map_ok_def by (metis strict_sorted_iff)

lemma set_map_insert: "set (map fst (map_insert k v m)) = insert k (set (map fst m))"
  by (induction k v m rule: map_insert.induct) auto

lemma map_ok_insert [intro]: "map_ok m \<Longrightarrow> map_ok (map_insert k v m)"
proof (induction k v m rule: map_insert.induct)
  case (2 k v k' v' m)
  then show ?case
    using set_map_insert [of k v m] by (fastforce simp: map_ok_def)
qed (simp add: map_ok_def)

lemma map_ok_erase [intro]: "map_ok m \<Longrightarrow> map_ok (map_erase k m)"
  unfolding map_ok_def map_erase_def by (induction m) auto

lemma map_keys_modify [simp]: "map fst (map_modify k v m) = map fst m"
  by (simp add: map_modify_def case_prod_beta comp_def)

lemma length_map_modify [simp]: "length (map_modify k v m) = length m"
  by (simp add: map_modify_def)

lemma map_ok_modify [intro]: "map_ok m \<Longrightarrow> map_ok (map_modify k v m)"
  by (simp add: map_ok_def)

text \<open>What a lookup finds after each operation.\<close>

lemma map_of_none: "map_ok ((k, v) # m) \<Longrightarrow> k' \<le> k \<Longrightarrow> map_of m k' = None"
  by (auto simp: map_ok_def map_of_eq_None_iff)

lemma map_of_insert:
  "map_ok m \<Longrightarrow> map_of (map_insert k v m) k' = (if k' = k \<and> map_of m k = None then Some v else map_of m k')"
proof (induction k v m rule: map_insert.induct)
  case (2 k v j w m)
  then have "map_ok m" by (simp add: map_ok_def)
  with 2 map_of_none [OF "2.prems", of k] show ?case by auto
qed auto

lemma map_of_erase: "map_of (map_erase k m) k' = (if k' = k then None else map_of m k')"
  unfolding map_erase_def by (induction m) auto

lemma map_of_modify: "map_of (map_modify k v m) k' = (if k' = k \<and> map_of m k \<noteq> None then Some v else map_of m k')"
  unfolding map_modify_def by (induction m) auto

lemma length_map_insert:
  "map_ok m \<Longrightarrow> length (map_insert k v m) = (if map_of m k = None then Suc (length m) else length m)"
proof (induction k v m rule: map_insert.induct)
  case (2 k v j w m)
  then have "map_ok m" by (simp add: map_ok_def)
  with 2 map_of_none [OF "2.prems", of k] show ?case by auto
qed auto

lemma length_map_erase: "length (map_erase k m) \<le> length m"
  by (simp add: map_erase_def)

lemma set_map_modifyD: "(k', v') \<in> set (map_modify k v m) \<Longrightarrow> k' = k \<and> v' = v \<or> (k', v') \<in> set m"
  by (auto simp: map_modify_def split: if_splits)

lemma set_map_insertD: "(k', v') \<in> set (map_insert k v m) \<Longrightarrow> k' = k \<and> v' = v \<or> (k', v') \<in> set m"
  by (induction k v m rule: map_insert.induct) (auto split: if_splits)

lemma set_map_eraseD: "(k', v') \<in> set (map_erase k m) \<Longrightarrow> (k', v') \<in> set m"
  by (auto simp: map_erase_def)

text \<open>Counting entries.\<close>

definition map_count :: "('v \<Rightarrow> bool) \<Rightarrow> ('k, 'v) std_map \<Rightarrow> nat" where
  "map_count P m = length (filter (\<lambda>(k, v). P v) m)"

lemma map_count_le: "map_count P m \<le> length m"
  by (simp add: map_count_def)

lemma map_count_insert: "map_count P (map_insert k v m) \<le> map_count P m + (if P v then 1 else 0)"
  unfolding map_count_def by (induction k v m rule: map_insert.induct) auto

lemma map_count_erase: "map_count P (map_erase k m) \<le> map_count P m"
  unfolding map_count_def map_erase_def by (induction m) auto

lemma map_count_modify:
  "map_ok m \<Longrightarrow> map_of m k = Some v \<Longrightarrow> P v' = P v \<Longrightarrow> map_count P (map_modify k v' m) = map_count P m"
proof (induction m)
  case (Cons x m)
  obtain j w where x: "x = (j, w)" by (cases x)
  have ok: "map_ok m" using Cons.prems(1) by (simp add: map_ok_def x)
  show ?case
  proof (cases "j = k")
    case True
    then have "k \<notin> set (map fst m)" using Cons.prems(1) by (auto simp: map_ok_def x)
    then have "map_modify k v' m = m" unfolding map_modify_def by (induction m) auto
    with True Cons.prems show ?thesis by (simp add: map_count_def map_modify_def x)
  next
    case False
    with Cons.IH [OF ok] Cons.prems show ?thesis by (simp add: map_count_def map_modify_def x)
  qed
qed simp

end
