(* ===== verification/Tcp_Session.thy ===== *)
theory Tcp_Session
  imports Tcp_Segment Std_Map
begin

text \<open>
  One TCP session: the class \<open>tcp_session\<close> of \<^verbatim>\<open>src/tcp.h\<close> with its base \<open>session\<close> of
  \<^verbatim>\<open>src/session.h\<close>, and what \<open>packet_handler\<close> of \<^verbatim>\<open>src/tcp.cpp\<close> does with a segment
  once it holds the lock of the session.  The blocks of the handler (RST, SYN, ACK, FIN, the
  delayed answer to a FIN, the payload, the failure) are one definition each, in the order of the
  code.
\<close>

unbundle bit_operations_syntax

section \<open>States\<close>

datatype tcp_state_t = tcp_closed | tcp_listen | tcp_syn_rcvd | tcp_syn_sent | tcp_established
  | tcp_fin_wait_1 | tcp_fin_wait_2 | tcp_close_wait | tcp_last_ack | tcp_closing | tcp_time_wait | tcp_rst_act

text \<open>The code compares states by their position in the enumeration.\<close>

fun state_nr :: "tcp_state_t \<Rightarrow> nat" where
  "state_nr tcp_closed = 0"
| "state_nr tcp_listen = 1"
| "state_nr tcp_syn_rcvd = 2"
| "state_nr tcp_syn_sent = 3"
| "state_nr tcp_established = 4"
| "state_nr tcp_fin_wait_1 = 5"
| "state_nr tcp_fin_wait_2 = 6"
| "state_nr tcp_close_wait = 7"
| "state_nr tcp_last_ack = 8"
| "state_nr tcp_closing = 9"
| "state_nr tcp_time_wait = 10"
| "state_nr tcp_rst_act = 11"

lemma state_nr_inject [simp]: "state_nr a = state_nr b \<longleftrightarrow> a = b"
  by (cases a; cases b) simp_all

instantiation tcp_state_t :: linorder
begin

definition less_eq_tcp_state_t :: "tcp_state_t \<Rightarrow> tcp_state_t \<Rightarrow> bool" where
  "less_eq_tcp_state_t a b \<longleftrightarrow> state_nr a \<le> state_nr b"

definition less_tcp_state_t :: "tcp_state_t \<Rightarrow> tcp_state_t \<Rightarrow> bool" where
  "less_tcp_state_t a b \<longleftrightarrow> state_nr a < state_nr b"

instance
  by standard (auto simp: less_eq_tcp_state_t_def less_tcp_state_t_def)

end

lemmas state_order = less_eq_tcp_state_t_def less_tcp_state_t_def

definition get_state_name :: "tcp_state_t \<Rightarrow> string" where
  "get_state_name st = [''closed'', ''listen'', ''syn_rcvd'', ''syn_sent'', ''established'', ''fin_wait_1'', ''fin_wait_2'',
     ''close_wait'', ''last_ack'', ''closing'', ''time_wait'', ''rst_act''] ! state_nr st"

section \<open>Sessions\<close>

text \<open>
  \<open>unacked\<close> holds the octets of the buffer that are in use; \<open>unacked_size\<close> is the member of that
  name.  They agree until an acknowledgement for more than was sent makes \<open>unacked_size\<close> wrap.
\<close>

record tcp_session =
  my_addr :: addr
  my_port :: u16
  their_addr :: addr
  their_port :: u16
  is_terminating :: bool
  session_timeout :: int
  is_client :: bool
  in_init :: bool
  sess_id :: u64
  window_size :: u16
  state :: tcp_state_t
  state_since :: int
  e_last_pkt_ts :: u64
  r_last_pkt_ts :: u64
  my_seq_nr :: u32
  their_seq_nr :: u32
  initial_my_seq_nr :: u32
  initial_their_seq_nr :: u32
  unacked :: "byte list"
  unacked_start_seq_nr :: u32
  data_since_last_ack :: u64
  unacked_size :: u64
  fin_after_unacked_empty :: bool
  seq_for_fin_when_all_received :: u32
  flag_fin_when_all_received :: bool

definition tcp_session_new :: "addr \<Rightarrow> u16 \<Rightarrow> addr \<Rightarrow> u16 \<Rightarrow> tcp_session" where
  "tcp_session_new ma mp ta tp =
     \<lparr>my_addr = ma, my_port = mp, their_addr = ta, their_port = tp, is_terminating = False, session_timeout = 300,
      is_client = False, in_init = False, sess_id = 0, window_size = 512, state = tcp_closed, state_since = 0,
      e_last_pkt_ts = 0, r_last_pkt_ts = 0, my_seq_nr = 0, their_seq_nr = 0, initial_my_seq_nr = 0, initial_their_seq_nr = 0,
      unacked = [], unacked_start_seq_nr = 0, data_since_last_ack = 0, unacked_size = 0, fin_after_unacked_empty = False,
      seq_for_fin_when_all_received = 0, flag_fin_when_all_received = False\<rparr>"

text \<open>What the handler asks of its surroundings, read once per step: the clocks, random numbers and the device.\<close>

record tcp_env =
  env_idev :: bool
  env_now :: u64
  env_time :: int
  env_mtu :: int

definition set_state :: "tcp_env \<Rightarrow> tcp_state_t \<Rightarrow> tcp_session \<Rightarrow> tcp_session" where
  "set_state env new_state s = s\<lparr>state := new_state, state_since := env_time env\<rparr>"

definition set_is_terminating :: "tcp_session \<Rightarrow> tcp_session" where
  "set_is_terminating s = s\<lparr>is_terminating := True\<rparr>"

text \<open>
  Sending a segment of a session; without a device nothing happens, the sequence number included.
  The sequence number after the segment is the second part of the result.
\<close>

definition send_from :: "tcp_env \<Rightarrow> addr \<Rightarrow> u16 \<Rightarrow> addr \<Rightarrow> u16 \<Rightarrow> byte \<Rightarrow> u32 \<Rightarrow> u32 option \<Rightarrow> byte list \<Rightarrow> u32 \<Rightarrow>
    tcp_session \<Rightarrow> (ip_send list \<times> u32 option \<times> tcp_session) res" where
  "send_from env a p b q flags ack_to seq data TSecr s =
     (if env_idev env then
        rbind (send_segment a p b q flags ack_to seq data TSecr (ucast (env_now env))) (\<lambda>(out, seq').
        Inr ([out], seq', s\<lparr>e_last_pkt_ts := env_now env\<rparr>))
      else Inr ([], seq, s))"

section \<open>The work on one segment\<close>

text \<open>
  Applications register functions per port.  They run while the handler holds the lock of the
  session, which every operation of a session takes, so that their only effect on the handler is
  the answer; the calls are recorded.
\<close>

record port_handler =
  ph_init :: bool
  ph_new_session :: bool
  ph_new_data :: bool
  ph_session_closed_1 :: bool
  ph_session_closed_2 :: bool

datatype app_call =
    Init int
  | New_session u64
  | New_data u64 "byte list"
  | Session_closed_1 u64
  | Session_closed_2 u64

record tcp_work =
  w_session :: tcp_session
  w_fail :: bool
  w_delete_entry :: bool
  w_notify_unacked_cv :: bool
  w_out :: "ip_send list"
  w_calls :: "app_call list"
  w_syn :: nat
  w_succ_estab :: nat
  w_errors :: nat

text \<open>A segment sent by the session itself with its own sequence number.\<close>

definition reply :: "tcp_env \<Rightarrow> byte \<Rightarrow> u32 \<Rightarrow> u32 \<Rightarrow> tcp_work \<Rightarrow> tcp_work res" where
  "reply env flags ack_to TSecr w =
     (let s = w_session w in
      rbind (send_from env (my_addr s) (my_port s) (their_addr s) (their_port s) flags ack_to (Some (my_seq_nr s)) [] TSecr s)
        (\<lambda>(out, seq', s'). Inr (w\<lparr>w_session := s'\<lparr>my_seq_nr := (case seq' of None \<Rightarrow> my_seq_nr s | Some n \<Rightarrow> n)\<rparr>,
           w_out := w_out w @ out\<rparr>)))"

definition on_session :: "(tcp_session \<Rightarrow> tcp_session) \<Rightarrow> tcp_work \<Rightarrow> tcp_work" where
  "on_session f w = w\<lparr>w_session := f (w_session w)\<rparr>"

subsection \<open>RST and SYN\<close>

definition on_rst :: "tcp_env \<Rightarrow> tcp_fields \<Rightarrow> tcp_work \<Rightarrow> tcp_work" where
  "on_rst env f w =
     (if has_flag (seg_flags f) FLAG_RST \<and> tcp_syn_rcvd \<le> state (w_session w)
      then (on_session (set_state env tcp_closing) w)\<lparr>w_delete_entry := True\<rparr>
      else w)"

definition on_syn :: "tcp_env \<Rightarrow> tcp_fields \<Rightarrow> u32 \<Rightarrow> tcp_work \<Rightarrow> tcp_work res" where
  "on_syn env f TSecr w0 =
     (if has_flag (seg_flags f) FLAG_SYN \<and> \<not> w_delete_entry w0 then
        let w = w0\<lparr>w_syn := w_syn w0 + 1\<rparr>; s = w_session w in
        if state s = tcp_listen \<or> state s = tcp_syn_rcvd then
          rbind (reply env (FLAG_SYN OR FLAG_ACK) (their_seq_nr s) TSecr w) (\<lambda>w'.
          Inr (on_session (set_state env tcp_syn_rcvd) w'))
        else Inr w
      else Inr w0)"

subsection \<open>ACK\<close>

text \<open>
  A client gets the answer to its SYN.  The acknowledgement is sent with the addresses and ports
  of the two sides exchanged.
\<close>

definition on_ack_syn_sent :: "tcp_env \<Rightarrow> tcp_fields \<Rightarrow> u32 \<Rightarrow> tcp_work \<Rightarrow> tcp_work res" where
  "on_ack_syn_sent env f TSecr w =
     (let s = (w_session w)\<lparr>initial_their_seq_nr := seg_seq f, their_seq_nr := seg_seq f + 1\<rparr> in
      rbind (send_from env (their_addr s) (their_port s) (my_addr s) (my_port s) FLAG_ACK (their_seq_nr s)
               (Some (my_seq_nr s)) [] TSecr s) (\<lambda>(out, seq', s').
      Inr (w\<lparr>w_session := set_state env tcp_established
               (s'\<lparr>my_seq_nr := (case seq' of None \<Rightarrow> my_seq_nr s | Some n \<Rightarrow> n)\<rparr>), w_out := w_out w @ out\<rparr>)))"

definition on_ack_syn_rcvd :: "tcp_env \<Rightarrow> (app_call \<Rightarrow> bool) \<Rightarrow> port_handler option \<Rightarrow> tcp_work \<Rightarrow> tcp_work" where
  "on_ack_syn_rcvd env answer cb w0 =
     (let w = (on_session (set_state env tcp_established) w0)\<lparr>w_succ_estab := w_succ_estab w0 + 1\<rparr>;
          call = New_session (sess_id (w_session w)) in
      case cb of
        None \<Rightarrow> w\<lparr>w_fail := True\<rparr>
      | Some h \<Rightarrow>
          if ph_new_session h
          then w\<lparr>w_calls := w_calls w @ [call], w_fail := (w_fail w \<or> \<not> answer call)\<rparr>
          else w)"

text \<open>
  The opponent acknowledges data: \<open>ack_n\<close> is a signed difference, \<open>left_n\<close> the signed number of
  octets that stay.
\<close>

definition ack_n :: "tcp_fields \<Rightarrow> tcp_session \<Rightarrow> int" where
  "ack_n f s = sint (seg_ack_to f - unacked_start_seq_nr s)"

definition left_n :: "tcp_fields \<Rightarrow> tcp_session \<Rightarrow> int" where
  "left_n f s = sint (ucast (unacked_size s - of_int (ack_n f s)) :: u32)"

definition delete_acked :: "tcp_fields \<Rightarrow> tcp_session \<Rightarrow> tcp_session" where
  "delete_acked f s = s\<lparr>unacked := (if 0 \<le> left_n f s then drop (nat (ack_n f s)) (unacked s) else unacked s),
     unacked_size := unacked_size s - of_int (ack_n f s),
     unacked_start_seq_nr := unacked_start_seq_nr s + of_int (ack_n f s),
     my_seq_nr := my_seq_nr s + of_int (ack_n f s)\<rparr>"

definition on_ack_established :: "tcp_env \<Rightarrow> tcp_fields \<Rightarrow> u32 \<Rightarrow> tcp_work \<Rightarrow> tcp_work res" where
  "on_ack_established env f TSecr w0 =
     (let s = w_session w0 in
      rbind
        (if 0 < ack_n f s \<and> 0 < unacked_size s then
           let w = (on_session (delete_acked f)
                 (if left_n f s < 0 then w0\<lparr>w_delete_entry := True, w_fail := True\<rparr> else w0));
               s' = w_session w in
           rbind (if unacked_size s' = 0 \<and> fin_after_unacked_empty s'
                  then rbind (reply env (FLAG_ACK OR FLAG_FIN) (their_seq_nr s') TSecr w) (\<lambda>w'.
                       Inr (on_session (set_state env tcp_fin_wait_1) w'))
                  else Inr w) (\<lambda>w'.
           Inr (if 0 < unacked_size (w_session w') then on_session (\<lambda>s. s\<lparr>r_last_pkt_ts := 0\<rparr>) w' else w'))
         else Inr w0)
        (\<lambda>w'. Inr (w'\<lparr>w_notify_unacked_cv := True\<rparr>)))"

definition on_ack :: "tcp_env \<Rightarrow> (app_call \<Rightarrow> bool) \<Rightarrow> port_handler option \<Rightarrow> tcp_fields \<Rightarrow> u32 \<Rightarrow> tcp_work \<Rightarrow> tcp_work res" where
  "on_ack env answer cb f TSecr w =
     (if has_flag (seg_flags f) FLAG_ACK \<and> \<not> w_delete_entry w then
        rbind
          (case state (w_session w) of
             tcp_syn_sent \<Rightarrow> on_ack_syn_sent env f TSecr w
           | tcp_syn_rcvd \<Rightarrow> Inr (on_ack_syn_rcvd env answer cb w)
           | tcp_last_ack \<Rightarrow> Inr ((on_session (set_state env tcp_listen) w)\<lparr>w_delete_entry := True\<rparr>)
           | tcp_established \<Rightarrow> on_ack_established env f TSecr w
           | _ \<Rightarrow> Inr w)
          (\<lambda>w'. Inr (on_session (\<lambda>s. s\<lparr>data_since_last_ack := 0\<rparr>) w'))
      else Inr w)"

subsection \<open>FIN\<close>

definition on_fin :: "tcp_env \<Rightarrow> tcp_fields \<Rightarrow> tcp_work \<Rightarrow> tcp_work" where
  "on_fin env f w =
     (if has_flag (seg_flags f) FLAG_FIN \<and> state (w_session w) = tcp_established
      then on_session (\<lambda>s. set_state env tcp_fin_wait_1
             (set_is_terminating (s\<lparr>seq_for_fin_when_all_received := seg_seq f, flag_fin_when_all_received := True\<rparr>))) w
      else w)"

definition fin_when_all_received :: "tcp_env \<Rightarrow> u32 \<Rightarrow> tcp_work \<Rightarrow> tcp_work res" where
  "fin_when_all_received env TSecr w =
     (let s = w_session w in
      if flag_fin_when_all_received s \<and> seq_for_fin_when_all_received s = their_seq_nr s then
        rbind (reply env (FLAG_ACK OR FLAG_FIN) (their_seq_nr s + 1) TSecr w) (\<lambda>w'.
        Inr ((on_session (set_state env tcp_fin_wait_2) w')\<lparr>w_delete_entry := True\<rparr>))
      else Inr w)"

subsection \<open>Payload\<close>

definition on_payload :: "tcp_env \<Rightarrow> (app_call \<Rightarrow> bool) \<Rightarrow> port_handler option \<Rightarrow> tcp_fields \<Rightarrow> byte list \<Rightarrow> u32 \<Rightarrow>
    tcp_work \<Rightarrow> tcp_work res" where
  "on_payload env answer cb f data TSecr w =
     (let s = w_session w; call = New_data (sess_id s) data in
      if data = [] \<or> w_fail w then Inr w
      else if seg_seq f = their_seq_nr s then
        rbind
          (case cb of
             None \<Rightarrow> Inr (w\<lparr>w_fail := True\<rparr>)
           | Some h \<Rightarrow>
               if ph_new_data h then Inr (w\<lparr>w_calls := w_calls w @ [call], w_fail := \<not> answer call\<rparr>)
               else Inl Bad_function_call)
          (\<lambda>w1.
          if w_fail w1 then Inr w1
          else
            let w2 = on_session (\<lambda>s. s\<lparr>their_seq_nr := their_seq_nr s + of_nat (length data)\<rparr>) w1 in
            if unacked_size (w_session w2) = 0
            then reply env FLAG_ACK (their_seq_nr (w_session w2)) TSecr w2
            else Inr w2)
      else
        reply env FLAG_ACK (if their_seq_nr s < seg_seq f then their_seq_nr s else seg_seq f) TSecr w)"

subsection \<open>Failure\<close>

definition on_fail :: "tcp_env \<Rightarrow> port_handler option \<Rightarrow> tcp_fields \<Rightarrow> u32 \<Rightarrow> tcp_work \<Rightarrow> tcp_work res" where
  "on_fail env cb f TSecr w =
     (if w_fail w then
        rbind
          (case cb of
             None \<Rightarrow> Inr w
           | Some h \<Rightarrow>
               if ph_session_closed_1 h then Inr (w\<lparr>w_calls := w_calls w @ [Session_closed_1 (sess_id (w_session w))]\<rparr>)
               else Inl Bad_function_call)
          (\<lambda>w1.
          let s = w_session w1 in
          rbind (send_from env (my_addr s) (my_port s) (their_addr s) (their_port s) (FLAG_RST OR FLAG_ACK) (seg_seq f + 1)
                   None [] TSecr s) (\<lambda>(out, _, s').
          Inr (w1\<lparr>w_session := s', w_out := w_out w1 @ out, w_delete_entry := True, w_errors := w_errors w1 + 1\<rparr>)))
      else Inr w)"

subsection \<open>The whole segment\<close>

text \<open>
  \<open>p\<close> is the packet and \<open>cb\<close> the handler of its port.
\<close>

definition work_new :: "tcp_session \<Rightarrow> bool \<Rightarrow> tcp_work" where
  "work_new s fail = \<lparr>w_session = s, w_fail = fail, w_delete_entry = False, w_notify_unacked_cv = False, w_out = [], w_calls = [],
     w_syn = 0, w_succ_estab = 0, w_errors = 0\<rparr>"

definition touch :: "tcp_env \<Rightarrow> tcp_fields \<Rightarrow> tcp_session \<Rightarrow> tcp_session" where
  "touch env f s = s\<lparr>e_last_pkt_ts := env_now env, window_size := of_nat (max 1 (seg_win_size f))\<rparr>"

definition on_flags :: "tcp_env \<Rightarrow> (app_call \<Rightarrow> bool) \<Rightarrow> port_handler option \<Rightarrow> tcp_fields \<Rightarrow> u32 \<Rightarrow> tcp_work \<Rightarrow> tcp_work res" where
  "on_flags env answer cb f TSecr w =
     rbind (on_syn env f TSecr (on_rst env f w)) (\<lambda>w1.
     rbind (on_ack env answer cb f TSecr w1) (\<lambda>w2.
     fin_when_all_received env TSecr (on_fin env f w2)))"

definition handle_segment :: "tcp_env \<Rightarrow> (app_call \<Rightarrow> bool) \<Rightarrow> port_handler option \<Rightarrow> byte list \<Rightarrow> tcp_session \<Rightarrow> tcp_work res" where
  "handle_segment env answer cb p s0 =
     (let f = tcp_parse p; fail = length p < seg_header_size f in
      rbind (opts_walk p (seg_header_size f) 20 (has_flag (seg_flags f) FLAG_ACK) 0) (\<lambda>TSecr.
      let w = work_new (touch env f s0) fail in
      rbind (if fail then Inr w else on_flags env answer cb f TSecr w) (\<lambda>w1.
      rbind (on_payload env answer cb f (drop (seg_header_size f) p) TSecr w1) (\<lambda>w2.
      rbind (on_fail env cb f TSecr w2) (\<lambda>w3.
      Inr (if w_delete_entry w3 then on_session set_is_terminating w3 else w3))))))"

section \<open>Operations of the application\<close>

text \<open>
  \<open>send_data\<close>: \<open>None\<close> is waiting for room.  A full buffer of a session that is not terminating ends
  the call without storing anything; the caller is told \<open>true\<close> in every case.
\<close>

definition send_data :: "byte list \<Rightarrow> tcp_session \<Rightarrow> tcp_session option" where
  "send_data data s =
     (if unacked_size s < 1024 * 1024 then
        Some (if state s = tcp_established
          then s\<lparr>unacked_start_seq_nr := (if unacked_size s = 0 then my_seq_nr s else unacked_start_seq_nr s),
                 unacked := unacked s @ data, unacked_size := unacked_size s + of_nat (length data), r_last_pkt_ts := 0\<rparr>
          else s)
      else if state s \<noteq> tcp_established then Some s
      else if \<not> is_terminating s then Some s
      else None)"

definition end_session :: "tcp_env \<Rightarrow> tcp_session \<Rightarrow> (ip_send list \<times> tcp_session) res" where
  "end_session env s =
     (if unacked_size s = 0 then
        rbind (send_from env (my_addr s) (my_port s) (their_addr s) (their_port s) FLAG_FIN (their_seq_nr s)
                 (Some (my_seq_nr s)) [] 0 s) (\<lambda>(out, seq', s').
        Inr (out, set_state env tcp_fin_wait_1 (s'\<lparr>my_seq_nr := (case seq' of None \<Rightarrow> my_seq_nr s | Some n \<Rightarrow> n)\<rparr>)))
      else Inr ([], s\<lparr>fin_after_unacked_empty := True\<rparr>))"

section \<open>Sending what is not acknowledged\<close>

text \<open>
  The loop of \<open>unacked_sender\<close> over one session.  \<open>rc i\<close> is the result of handing over the segment
  that starts at octet \<open>i\<close>; a refusal ends the loop.
\<close>

function unacked_loop :: "tcp_env \<Rightarrow> (nat \<Rightarrow> bool) \<Rightarrow> nat \<Rightarrow> nat \<Rightarrow> nat \<Rightarrow> u32 \<Rightarrow> tcp_session \<Rightarrow> (ip_send list \<times> tcp_session) res" where
  "unacked_loop env rc packet_size to_send i resend_nr s =
     (if i < to_send \<and> 0 < packet_size then
        let send_n = min packet_size (to_send - i) in
        rbind (octets_at (unacked s) i send_n) (\<lambda>d.
        rbind (send_from env (my_addr s) (my_port s) (their_addr s) (their_port s) FLAG_ACK (their_seq_nr s)
                 (Some resend_nr) d 0 s) (\<lambda>(out, seq', s').
        if rc i then
          rbind (unacked_loop env rc packet_size to_send (i + packet_size) (case seq' of None \<Rightarrow> resend_nr | Some n \<Rightarrow> n)
                   (s'\<lparr>data_since_last_ack := data_since_last_ack s' + of_nat send_n\<rparr>)) (\<lambda>(outs, s'').
          Inr (out @ outs, s''))
        else Inr ([], s')))
      else Inr ([], s))"
  by auto
termination
  by (relation "measure (\<lambda>(env, rc, packet_size, to_send, i, resend_nr, s). to_send - i)") auto

declare unacked_loop.simps [simp del]

definition to_send :: "tcp_session \<Rightarrow> int" where
  "to_send s = sint (ucast (min (ucast (window_size s) - data_since_last_ack s) (unacked_size s)) :: u32)"

definition unacked_round :: "tcp_env \<Rightarrow> (nat \<Rightarrow> bool) \<Rightarrow> tcp_session \<Rightarrow> (ip_send list \<times> tcp_session) res" where
  "unacked_round env rc s =
     (if 1000000 \<le> env_now env - r_last_pkt_ts s then
        if \<not> env_idev env then Inl Undefined_behaviour
        else if 0 < to_send s then
          let packet_size = env_mtu env - 32 in
          if packet_size < 0 then Inl Undefined_behaviour
          else if packet_size = 0 then Inl Diverges
          else rbind (unacked_loop env rc (nat packet_size) (nat (to_send s)) 0 (my_seq_nr s) s) (\<lambda>(outs, s').
               Inr (outs, s'\<lparr>r_last_pkt_ts := env_now env\<rparr>))
        else Inr ([], s)
      else Inr ([], s))"

section \<open>What the steps emit\<close>

text \<open>A segment of the session with the given flags, acknowledged number, sequence number and data.\<close>

definition seg_out :: "byte \<Rightarrow> u32 \<Rightarrow> u32 \<Rightarrow> byte list \<Rightarrow> ip_send \<Rightarrow> bool" where
  "seg_out flags ack seq data out \<longleftrightarrow> (\<exists>sp dp c us TSecr. is_payload out = tcp_octets sp dp seq ack flags c us TSecr data)"

lemma seg_out_tcp_octets [simp]:
  "seg_out flags ack seq data \<lparr>is_dst_mac = m, is_dst_ip = b, is_src_ip = a, is_protocol = pr,
     is_payload = tcp_octets sp dp seq ack flags c us T data, is_header_template = h\<rparr>"
  unfolding seg_out_def ip_send.simps by blast

definition syn_fin :: "byte \<Rightarrow> u32" where
  "syn_fin flags = (if has_flag flags FLAG_FIN \<or> has_flag flags FLAG_SYN then 1 else 0)"

lemma send_from_effect:
  assumes "send_from env a p b q flags ack (Some seq) data T s = Inr (out, seq', s')"
  shows "s' = s\<lparr>e_last_pkt_ts := (if env_idev env then env_now env else e_last_pkt_ts s)\<rparr>"
    "seq' = Some (if env_idev env then seq + of_nat (length data) + syn_fin flags else seq)"
    "\<forall>o1\<in>set out. seg_out flags ack seq data o1"
  using assms by (auto simp: send_from_def send_segment_def Let_def syn_fin_def split: if_splits)

lemma send_from_none_effect:
  assumes "send_from env a p b q flags ack None data T s = Inr (out, seq', s')"
  shows "s' = s\<lparr>e_last_pkt_ts := (if env_idev env then env_now env else e_last_pkt_ts s)\<rparr>"
    "\<forall>o1\<in>set out. seg_out flags ack 0 data o1"
  using assms by (auto simp: send_from_def send_segment_def Let_def split: if_splits)

definition session_ok :: "tcp_session \<Rightarrow> bool" where
  "session_ok s \<longleftrightarrow> wf_addr (my_addr s) \<and> wf_addr (their_addr s) \<and> addr_fam (my_addr s) = addr_fam (their_addr s)"

lemma send_from_defined:
  assumes "wf_addr a" and "wf_addr b" and "addr_fam a = addr_fam b"
  shows "\<exists>out seq' s'. send_from env a p b q flags ack seq data T s = Inr (out, seq', s')"
  using send_segment_defined [OF assms, of p q flags ack seq data T "ucast (env_now env)"]
  by (auto simp: send_from_def)

lemma reply_effect:
  assumes "reply env flags ack T w = Inr w'"
  shows "\<exists>outs. w' = w\<lparr>w_session := (w_session w)\<lparr>e_last_pkt_ts := (if env_idev env then env_now env else e_last_pkt_ts (w_session w)),
        my_seq_nr := (if env_idev env then my_seq_nr (w_session w) + syn_fin flags else my_seq_nr (w_session w))\<rparr>,
      w_out := w_out w @ outs\<rparr> \<and> (\<forall>o1\<in>set outs. seg_out flags ack (my_seq_nr (w_session w)) [] o1)"
  using assms send_from_effect [of env "my_addr (w_session w)" "my_port (w_session w)" "their_addr (w_session w)"
      "their_port (w_session w)" flags ack "my_seq_nr (w_session w)" "[]" T "w_session w"]
  by (fastforce simp: reply_def Let_def split: prod.splits)

lemma reply_defined: "session_ok (w_session w) \<Longrightarrow> \<exists>w'. reply env flags ack T w = Inr w'"
  using send_from_defined [of "my_addr (w_session w)" "their_addr (w_session w)"]
  by (fastforce simp: reply_def Let_def session_ok_def split: prod.splits)

section \<open>What no step of a session changes\<close>

definition ident :: "tcp_session \<Rightarrow> addr \<times> u16 \<times> addr \<times> u16 \<times> u64 \<times> bool \<times> bool" where
  "ident s = (my_addr s, my_port s, their_addr s, their_port s, sess_id s, is_client s, in_init s)"

lemma ident_update [simp]:
  "ident (s\<lparr>e_last_pkt_ts := t\<rparr>) = ident s" "ident (s\<lparr>my_seq_nr := q\<rparr>) = ident s" "ident (s\<lparr>data_since_last_ack := n\<rparr>) = ident s"
  "ident (s\<lparr>r_last_pkt_ts := t\<rparr>) = ident s" "ident (s\<lparr>their_seq_nr := q\<rparr>) = ident s" "ident (s\<lparr>window_size := wn\<rparr>) = ident s"
  "ident (s\<lparr>initial_their_seq_nr := q\<rparr>) = ident s" "ident (s\<lparr>seq_for_fin_when_all_received := q\<rparr>) = ident s"
  "ident (s\<lparr>flag_fin_when_all_received := b\<rparr>) = ident s" "ident (s\<lparr>fin_after_unacked_empty := b\<rparr>) = ident s"
  "ident (set_state env st s) = ident s" "ident (set_is_terminating s) = ident s" "ident (delete_acked f s) = ident s"
  "ident (touch env f s) = ident s"
  by (simp_all add: ident_def set_state_def set_is_terminating_def delete_acked_def touch_def)

lemma ident_send_data: "send_data d s = Some s' \<Longrightarrow> ident s' = ident s"
  by (auto simp: send_data_def ident_def split: if_splits)

lemma on_session_frame [simp]:
  "w_session (on_session g w) = g (w_session w)" "w_fail (on_session g w) = w_fail w"
  "w_delete_entry (on_session g w) = w_delete_entry w" "w_out (on_session g w) = w_out w" "w_calls (on_session g w) = w_calls w"
  by (simp_all add: on_session_def)

lemma reply_ident: "reply env flags ack T w = Inr w' \<Longrightarrow> ident (w_session w') = ident (w_session w)"
  by (drule reply_effect) auto

lemma ident_send_from: "send_from env a p b q flags ack seq data T s = Inr (out, seq', s') \<Longrightarrow> ident s' = ident s"
  by (auto simp: send_from_def split: if_splits)

lemma on_rst_ident: "ident (w_session (on_rst env f w)) = ident (w_session w)"
  by (simp add: on_rst_def)

lemma on_syn_ident: "on_syn env f T w = Inr w' \<Longrightarrow> ident (w_session w') = ident (w_session w)"
  by (auto simp: on_syn_def Let_def dest!: reply_ident split: if_splits)

lemma on_ack_syn_sent_ident: "on_ack_syn_sent env f T w = Inr w' \<Longrightarrow> ident (w_session w') = ident (w_session w)"
  by (auto simp: on_ack_syn_sent_def Let_def dest!: ident_send_from)

lemma on_ack_syn_rcvd_ident: "ident (w_session (on_ack_syn_rcvd env answer cb w)) = ident (w_session w)"
  by (simp add: on_ack_syn_rcvd_def Let_def split: option.split)

lemma on_ack_established_ident: "on_ack_established env f T w = Inr w' \<Longrightarrow> ident (w_session w') = ident (w_session w)"
  by (auto simp: on_ack_established_def Let_def dest!: reply_ident split: if_splits)

lemma on_ack_ident: "on_ack env answer cb f T w = Inr w' \<Longrightarrow> ident (w_session w') = ident (w_session w)"
  using on_ack_syn_rcvd_ident [of env answer cb w]
  by (auto simp: on_ack_def dest!: on_ack_syn_sent_ident on_ack_established_ident split: if_splits tcp_state_t.splits)

lemma on_fin_ident: "ident (w_session (on_fin env f w)) = ident (w_session w)"
  by (simp add: on_fin_def)

lemma fin_when_all_received_ident: "fin_when_all_received env T w = Inr w' \<Longrightarrow> ident (w_session w') = ident (w_session w)"
  by (auto simp: fin_when_all_received_def Let_def dest!: reply_ident split: if_splits)

lemma on_payload_ident: "on_payload env answer cb f d T w = Inr w' \<Longrightarrow> ident (w_session w') = ident (w_session w)"
  by (auto simp: on_payload_def Let_def dest!: reply_ident split: if_splits option.splits)

lemma on_fail_ident: "on_fail env cb f T w = Inr w' \<Longrightarrow> ident (w_session w') = ident (w_session w)"
  by (auto simp: on_fail_def Let_def dest!: ident_send_from split: if_splits option.splits)

lemmas block_idents = on_syn_ident on_ack_ident fin_when_all_received_ident on_payload_ident on_fail_ident

lemma on_flags_ident: "on_flags env answer cb f T w = Inr w' \<Longrightarrow> ident (w_session w') = ident (w_session w)"
  by (auto simp: on_flags_def on_rst_ident on_fin_ident dest!: block_idents)

lemma handle_segment_ident:
  "handle_segment env answer cb p s = Inr w \<Longrightarrow> ident (w_session w) = ident s"
  by (auto simp: handle_segment_def Let_def work_new_def dest!: block_idents on_flags_ident split: if_splits)

lemma unacked_loop_ident: "unacked_loop env rc n m i q s = Inr (outs, s') \<Longrightarrow> ident s' = ident s"
proof (induction env rc n m i q s arbitrary: outs s' rule: unacked_loop.induct)
  case (1 env rc n m i q s)
  show ?case
  proof (cases "i < m \<and> 0 < n")
    case True
    with "1.prems" obtain d out seq' s1 where s1: "send_from env (my_addr s) (my_port s) (their_addr s) (their_port s) FLAG_ACK (their_seq_nr s)
        (Some q) d 0 s = Inr (out, seq', s1)"
      and r: "if rc i then (\<exists>outs2. unacked_loop env rc n m (i + n) (case seq' of None \<Rightarrow> q | Some k \<Rightarrow> k)
          (s1\<lparr>data_since_last_ack := data_since_last_ack s1 + of_nat (min n (m - i))\<rparr>) = Inr (outs2, s')) else s' = s1"
      by (subst (asm) unacked_loop.simps) (auto simp: Let_def split: if_splits)
    have i1: "ident s1 = ident s" using ident_send_from [OF s1] .
    show ?thesis
    proof (cases "rc i")
      case rc: True
      then obtain outs2 where r2: "unacked_loop env rc n m (i + n) (case seq' of None \<Rightarrow> q | Some k \<Rightarrow> k)
          (s1\<lparr>data_since_last_ack := data_since_last_ack s1 + of_nat (min n (m - i))\<rparr>) = Inr (outs2, s')" using r by auto
      from "1.IH" [OF True refl rc r2] i1 show ?thesis by simp
    next
      case False
      with r i1 show ?thesis by simp
    qed
  next
    case False
    with "1.prems" show ?thesis by (subst (asm) unacked_loop.simps) auto
  qed
qed

lemma unacked_round_ident: "unacked_round env rc s = Inr (outs, s') \<Longrightarrow> ident s' = ident s"
  by (auto simp: unacked_round_def Let_def dest: unacked_loop_ident split: if_splits)

lemma end_session_ident: "end_session env s = Inr (outs, s') \<Longrightarrow> ident s' = ident s"
  by (auto simp: end_session_def dest!: ident_send_from split: if_splits)

section \<open>Why a session changes its state\<close>

text \<open>
  What a segment must be, and what must have happened to the session before, for the session to
  get into another state.  \<open>opens\<close>: the segment completes the handshake.  \<open>expected\<close> is the sequence
  number up to which everything of the peer has arrived when the flags were looked at; \<open>all_received\<close>:
  the FIN of the peer, in this segment or in an earlier one, comes right after what has arrived.
\<close>

definition opens :: "tcp_fields \<Rightarrow> tcp_session \<Rightarrow> bool" where
  "opens f s \<longleftrightarrow> has_flag (seg_flags f) FLAG_ACK \<and>
     (state s = tcp_syn_sent \<or> state s = tcp_syn_rcvd \<or> state s = tcp_listen \<and> has_flag (seg_flags f) FLAG_SYN)"

definition expected :: "tcp_fields \<Rightarrow> tcp_session \<Rightarrow> u32" where
  "expected f s = (if state s = tcp_syn_sent \<and> has_flag (seg_flags f) FLAG_ACK \<and> \<not> has_flag (seg_flags f) FLAG_RST
     then seg_seq f + 1 else their_seq_nr s)"

definition all_received :: "tcp_fields \<Rightarrow> tcp_session \<Rightarrow> bool" where
  "all_received f s \<longleftrightarrow>
     flag_fin_when_all_received s \<and> seq_for_fin_when_all_received s = expected f s \<or>
     has_flag (seg_flags f) FLAG_FIN \<and> (state s = tcp_established \<or> opens f s) \<and> seg_seq f = expected f s"

text \<open>The segment acknowledges all the data there is, and the application has ended the session.\<close>

definition all_acked :: "tcp_fields \<Rightarrow> tcp_session \<Rightarrow> bool" where
  "all_acked f s \<longleftrightarrow> has_flag (seg_flags f) FLAG_ACK \<and> state s = tcp_established \<and> fin_after_unacked_empty s \<and>
     0 < ack_n f s \<and> unacked_size s = of_int (ack_n f s)"

definition cause :: "tcp_fields \<Rightarrow> tcp_session \<Rightarrow> tcp_state_t \<Rightarrow> bool" where
  "cause f s b \<longleftrightarrow>
     (case b of
        tcp_established \<Rightarrow> opens f s
      | tcp_fin_wait_1 \<Rightarrow> has_flag (seg_flags f) FLAG_FIN \<and> (state s = tcp_established \<or> opens f s) \<or> all_acked f s
      | tcp_fin_wait_2 \<Rightarrow> all_received f s
      | tcp_closing \<Rightarrow> has_flag (seg_flags f) FLAG_RST \<and> tcp_syn_rcvd \<le> state s
      | tcp_syn_rcvd \<Rightarrow> state s = tcp_listen \<and> has_flag (seg_flags f) FLAG_SYN
      | tcp_listen \<Rightarrow> state s = tcp_last_ack \<and> has_flag (seg_flags f) FLAG_ACK
      | _ \<Rightarrow> False)"

lemma set_state_state [simp]: "state (set_state env st s) = st" "state (set_is_terminating s) = state s"
  "state (delete_acked f s) = state s" "state (touch env f s) = state s"
  by (simp_all add: set_state_def set_is_terminating_def delete_acked_def touch_def)

lemma fin_fields_frame [simp]:
  "flag_fin_when_all_received (set_state env st s) = flag_fin_when_all_received s"
  "seq_for_fin_when_all_received (set_state env st s) = seq_for_fin_when_all_received s" "their_seq_nr (set_state env st s) = their_seq_nr s"
  "flag_fin_when_all_received (delete_acked f s) = flag_fin_when_all_received s"
  "seq_for_fin_when_all_received (delete_acked f s) = seq_for_fin_when_all_received s" "their_seq_nr (delete_acked f s) = their_seq_nr s"
  "flag_fin_when_all_received (touch env f s) = flag_fin_when_all_received s"
  "seq_for_fin_when_all_received (touch env f s) = seq_for_fin_when_all_received s" "their_seq_nr (touch env f s) = their_seq_nr s"
  "flag_fin_when_all_received (set_is_terminating s) = flag_fin_when_all_received s"
  "seq_for_fin_when_all_received (set_is_terminating s) = seq_for_fin_when_all_received s" "their_seq_nr (set_is_terminating s) = their_seq_nr s"
  by (simp_all add: set_state_def set_is_terminating_def delete_acked_def touch_def)

lemma ack_fields_frame [simp]:
  "ack_n f (set_state env st s) = ack_n f s" "left_n f (set_state env st s) = left_n f s"
  "unacked_size (set_state env st s) = unacked_size s" "fin_after_unacked_empty (set_state env st s) = fin_after_unacked_empty s"
  "ack_n f (touch env f s) = ack_n f s" "left_n f (touch env f s) = left_n f s"
  "unacked_size (touch env f s) = unacked_size s" "fin_after_unacked_empty (touch env f s) = fin_after_unacked_empty s"
  by (simp_all add: set_state_def touch_def ack_n_def left_n_def)

text \<open>What the answers to a segment leave alone.\<close>

lemma reply_frame:
  assumes "reply env flags ack T w = Inr w'"
  shows "state (w_session w') = state (w_session w)" "their_seq_nr (w_session w') = their_seq_nr (w_session w)"
    "flag_fin_when_all_received (w_session w') = flag_fin_when_all_received (w_session w)"
    "seq_for_fin_when_all_received (w_session w') = seq_for_fin_when_all_received (w_session w)"
    "unacked_size (w_session w') = unacked_size (w_session w)" "ack_n f (w_session w') = ack_n f (w_session w)"
    "left_n f (w_session w') = left_n f (w_session w)" "fin_after_unacked_empty (w_session w') = fin_after_unacked_empty (w_session w)"
    "w_fail w' = w_fail w" "w_calls w' = w_calls w" "w_delete_entry w' = w_delete_entry w"
  using reply_effect [OF assms] by (auto simp: ack_n_def left_n_def)

lemma send_from_state: "send_from env a p b q flags ack seq d T s = Inr (out, seq', s') \<Longrightarrow> state s' = state s"
  by (auto simp: send_from_def split: if_splits)

text \<open>
  The failures of a segment: there is no handler for the port, the application refuses, or the
  segment acknowledges more than there is.
\<close>

definition fails :: "(app_call \<Rightarrow> bool) \<Rightarrow> port_handler option \<Rightarrow> tcp_fields \<Rightarrow> tcp_session \<Rightarrow> app_call list \<Rightarrow> bool" where
  "fails answer cb f s calls \<longleftrightarrow> cb = None \<or> (\<exists>c\<in>set calls. \<not> answer c) \<or>
     has_flag (seg_flags f) FLAG_ACK \<and> state s = tcp_established \<and> left_n f s < 0"

lemma fails_mono: "fails answer cb f s calls \<Longrightarrow> fails answer cb f s (calls @ others)"
  by (auto simp: fails_def)

text \<open>The work on a segment: each change of the state has its cause, each failure and each end too.\<close>

definition work_caused :: "(app_call \<Rightarrow> bool) \<Rightarrow> port_handler option \<Rightarrow> tcp_fields \<Rightarrow> tcp_session \<Rightarrow> tcp_work \<Rightarrow> bool" where
  "work_caused answer cb f s w \<longleftrightarrow>
     (state (w_session w) = state s \<or> cause f s (state (w_session w))) \<and>
     (w_fail w \<longrightarrow> fails answer cb f s (w_calls w)) \<and>
     (w_delete_entry w \<longrightarrow> w_fail w \<or> (\<exists>b\<in>{tcp_closing, tcp_fin_wait_2, tcp_listen}. cause f s b))"

text \<open>After RST and SYN.\<close>

definition syn_done :: "tcp_fields \<Rightarrow> tcp_session \<Rightarrow> tcp_work \<Rightarrow> bool" where
  "syn_done f s w \<longleftrightarrow>
     (if has_flag (seg_flags f) FLAG_RST \<and> tcp_syn_rcvd \<le> state s then state (w_session w) = tcp_closing \<and> w_delete_entry w
      else \<not> w_delete_entry w \<and> state (w_session w) =
        (if state s = tcp_listen \<and> has_flag (seg_flags f) FLAG_SYN then tcp_syn_rcvd else state s)) \<and>
     \<not> w_fail w \<and> their_seq_nr (w_session w) = their_seq_nr s \<and>
     flag_fin_when_all_received (w_session w) = flag_fin_when_all_received s \<and>
     seq_for_fin_when_all_received (w_session w) = seq_for_fin_when_all_received s \<and> unacked_size (w_session w) = unacked_size s \<and>
     ack_n f (w_session w) = ack_n f s \<and> left_n f (w_session w) = left_n f s \<and>
     fin_after_unacked_empty (w_session w) = fin_after_unacked_empty s"

lemma on_syn_done:
  assumes "on_syn env f T (on_rst env f (work_new (touch env f s) False)) = Inr w"
  shows "syn_done f s w"
proof (cases "has_flag (seg_flags f) FLAG_RST \<and> tcp_syn_rcvd \<le> state s")
  case True
  with assms show ?thesis by (auto simp: on_rst_def on_syn_def work_new_def syn_done_def)
next
  case False
  then have r: "on_rst env f (work_new (touch env f s) False) = work_new (touch env f s) False"
    by (auto simp: on_rst_def work_new_def)
  show ?thesis
  proof (cases "has_flag (seg_flags f) FLAG_SYN \<and> (state s = tcp_listen \<or> state s = tcp_syn_rcvd)")
    case True
    with assms obtain w1 where w1: "reply env (FLAG_SYN OR FLAG_ACK) (their_seq_nr s) T
        ((work_new (touch env f s) False)\<lparr>w_syn := 1\<rparr>) = Inr w1" and w: "w = on_session (set_state env tcp_syn_rcvd) w1"
      unfolding r by (auto simp: on_syn_def work_new_def)
    show ?thesis using True False reply_frame [OF w1] by (auto simp: w syn_done_def work_new_def)
  next
    case no: False
    with assms r have "w = work_new (touch env f s) False \<or> w = (work_new (touch env f s) False)\<lparr>w_syn := 1\<rparr>"
      by (auto simp: on_syn_def work_new_def split: if_splits)
    with False no show ?thesis by (auto simp: syn_done_def work_new_def)
  qed
qed

text \<open>After the acknowledgement.\<close>

definition ack_done :: "tcp_fields \<Rightarrow> tcp_session \<Rightarrow> tcp_work \<Rightarrow> bool" where
  "ack_done f s w \<longleftrightarrow> their_seq_nr (w_session w) = expected f s \<and>
     flag_fin_when_all_received (w_session w) = flag_fin_when_all_received s \<and>
     seq_for_fin_when_all_received (w_session w) = seq_for_fin_when_all_received s \<and>
     (state (w_session w) = tcp_established \<longrightarrow> state s = tcp_established \<or> opens f s)"

lemma on_ack_established_done:
  assumes "on_ack_established env f T w = Inr w'" and "syn_done f s w" and "\<not> w_delete_entry w" and "state (w_session w) = tcp_established"
    and "has_flag (seg_flags f) FLAG_ACK"
  shows "work_caused answer cb f s w' \<and> ack_done f s w'"
proof -
  have st: "state s = tcp_established" "their_seq_nr s = expected f s" using assms(2-4)
    by (auto simp: syn_done_def expected_def split: if_splits)
  let ?s = "w_session w"
  let ?w = "on_session (delete_acked f) (if left_n f ?s < 0 then w\<lparr>w_delete_entry := True, w_fail := True\<rparr> else w)"
  have u: "unacked_size (w_session ?w) = unacked_size s - of_int (ack_n f s)" "fin_after_unacked_empty (w_session ?w) = fin_after_unacked_empty s"
    "their_seq_nr (w_session ?w) = expected f s" "state (w_session ?w) = tcp_established"
    "flag_fin_when_all_received (w_session ?w) = flag_fin_when_all_received s"
    "seq_for_fin_when_all_received (w_session ?w) = seq_for_fin_when_all_received s"
    using assms(2,4) st by (auto simp: syn_done_def delete_acked_def)
  have f: "w_fail ?w \<longrightarrow> fails answer cb f s (w_calls ?w)" "w_delete_entry ?w \<longrightarrow> w_fail ?w"
    using assms(2,3,5) st(1) by (auto simp: syn_done_def fails_def)
  let ?fast = "\<lambda>v. if 0 < unacked_size (w_session v) then on_session (\<lambda>s. s\<lparr>r_last_pkt_ts := 0\<rparr>) v else v"
  show ?thesis
  proof (cases "0 < ack_n f ?s \<and> 0 < unacked_size ?s")
    case False
    with assms(1) have "w' = w\<lparr>w_notify_unacked_cv := True\<rparr>" by (auto simp: on_ack_established_def Let_def)
    with assms(2-4) st f show ?thesis by (auto simp: work_caused_def ack_done_def syn_done_def)
  next
    case pos: True
    show ?thesis
    proof (cases "unacked_size (w_session ?w) = 0 \<and> fin_after_unacked_empty (w_session ?w)")
      case True
      with assms(1) pos obtain w1 where w1: "reply env (FLAG_ACK OR FLAG_FIN) (their_seq_nr (w_session ?w)) T ?w = Inr w1"
        and w': "w' = (?fast (on_session (set_state env tcp_fin_wait_1) w1))\<lparr>w_notify_unacked_cv := True\<rparr>"
        unfolding on_ack_established_def Let_def by (auto elim!: rbindE)
      have "all_acked f s" using True pos u(1,2) st(1) assms(2,5) by (simp add: all_acked_def syn_done_def)
      with w' u st f reply_frame [OF w1] show ?thesis by (auto simp: work_caused_def ack_done_def cause_def)
    next
      case False
      with assms(1) pos have "w' = (?fast ?w)\<lparr>w_notify_unacked_cv := True\<rparr>"
        unfolding on_ack_established_def Let_def by (auto elim!: rbindE)
      with u st f show ?thesis by (auto simp: work_caused_def ack_done_def)
    qed
  qed
qed

lemma on_ack_done:
  assumes "on_ack env answer cb f T w = Inr w'" and "syn_done f s w"
  shows "work_caused answer cb f s w' \<and> ack_done f s w'"
proof (cases "has_flag (seg_flags f) FLAG_ACK \<and> \<not> w_delete_entry w")
  case True
  then have ns: "\<not> (has_flag (seg_flags f) FLAG_RST \<and> tcp_syn_rcvd \<le> state s)" using assms(2) by (auto simp: syn_done_def split: if_splits)
  from True assms(1) obtain w1 where w': "w' = on_session (\<lambda>s. s\<lparr>data_since_last_ack := 0\<rparr>) w1"
    and w1: "(case state (w_session w) of tcp_syn_sent \<Rightarrow> on_ack_syn_sent env f T w
       | tcp_syn_rcvd \<Rightarrow> Inr (on_ack_syn_rcvd env answer cb w)
       | tcp_last_ack \<Rightarrow> Inr ((on_session (set_state env tcp_listen) w)\<lparr>w_delete_entry := True\<rparr>)
       | tcp_established \<Rightarrow> on_ack_established env f T w
       | _ \<Rightarrow> Inr w) = Inr w1"
    unfolding on_ack_def by (auto elim!: rbindE)
  have st: "state (w_session w) = (if state s = tcp_listen \<and> has_flag (seg_flags f) FLAG_SYN then tcp_syn_rcvd else state s)"
    using assms(2) ns by (simp add: syn_done_def)
  note d = syn_done_def work_caused_def ack_done_def cause_def opens_def expected_def
  have "work_caused answer cb f s w1 \<and> ack_done f s w1"
  proof (cases "state (w_session w)")
    case tcp_established
    with w1 on_ack_established_done [OF _ assms(2)] True show ?thesis by simp
  next
    case tcp_syn_rcvd
    then have e: "opens f s" "expected f s = their_seq_nr s" using st True by (auto simp: opens_def expected_def split: if_splits)
    from tcp_syn_rcvd w1 have "w1 = on_ack_syn_rcvd env answer cb w" by simp
    with e assms(2) True show ?thesis
      by (cases cb) (auto simp: on_ack_syn_rcvd_def Let_def fails_def work_caused_def ack_done_def cause_def syn_done_def)
  next
    case tcp_syn_sent
    then have e: "state s = tcp_syn_sent" using st by (auto split: if_splits)
    then have "opens f s" "expected f s = seg_seq f + 1" using True ns by (auto simp: opens_def expected_def state_order)
    moreover from tcp_syn_sent w1 have "on_ack_syn_sent env f T w = Inr w1" by simp
    ultimately show ?thesis using assms(2) True
      by (auto simp: on_ack_syn_sent_def Let_def work_caused_def ack_done_def cause_def syn_done_def dest!: send_from_effect(1))
  next
    case tcp_last_ack
    with w1 st True assms(2) ns show ?thesis by (auto simp: d split: if_splits)
  qed (use w1 st True assms(2) ns in \<open>auto simp: d split: if_splits\<close>)
  then show ?thesis by (simp add: w' work_caused_def ack_done_def)
next
  case False
  with assms have "w' = w" by (auto simp: on_ack_def)
  with False assms(2) show ?thesis
    by (auto simp: work_caused_def ack_done_def syn_done_def cause_def expected_def state_order split: if_splits)
qed

lemma on_fin_done:
  assumes "work_caused answer cb f s w" and "ack_done f s w"
  shows "work_caused answer cb f s (on_fin env f w)" "their_seq_nr (w_session (on_fin env f w)) = expected f s"
    "flag_fin_when_all_received (w_session (on_fin env f w)) \<Longrightarrow>
      seq_for_fin_when_all_received (w_session (on_fin env f w)) = expected f s \<Longrightarrow> all_received f s"
proof -
  have "work_caused answer cb f s (on_fin env f w) \<and> their_seq_nr (w_session (on_fin env f w)) = expected f s \<and>
    (flag_fin_when_all_received (w_session (on_fin env f w)) \<longrightarrow>
      seq_for_fin_when_all_received (w_session (on_fin env f w)) = expected f s \<longrightarrow> all_received f s)"
  proof (cases "has_flag (seg_flags f) FLAG_FIN \<and> state (w_session w) = tcp_established")
    case True
    with assms(2) have "state s = tcp_established \<or> opens f s" by (simp add: ack_done_def)
    then have "cause f s tcp_fin_wait_1" "seg_seq f = expected f s \<Longrightarrow> all_received f s"
      using True by (auto simp: cause_def all_received_def)
    with True assms show ?thesis by (simp add: on_fin_def work_caused_def ack_done_def)
  next
    case False
    with assms show ?thesis by (auto simp: on_fin_def ack_done_def all_received_def)
  qed
  then show "work_caused answer cb f s (on_fin env f w)" "their_seq_nr (w_session (on_fin env f w)) = expected f s"
    "flag_fin_when_all_received (w_session (on_fin env f w)) \<Longrightarrow>
      seq_for_fin_when_all_received (w_session (on_fin env f w)) = expected f s \<Longrightarrow> all_received f s" by simp_all
qed

lemma on_flags_caused:
  assumes "on_flags env answer cb f T (work_new (touch env f s) False) = Inr w'"
  shows "work_caused answer cb f s w'"
proof -
  from assms obtain w1 w2 where w1: "on_syn env f T (on_rst env f (work_new (touch env f s) False)) = Inr w1"
    and w2: "on_ack env answer cb f T w1 = Inr w2" and w': "fin_when_all_received env T (on_fin env f w2) = Inr w'"
    by (auto simp: on_flags_def)
  note A = on_ack_done [OF w2 on_syn_done [OF w1]]
  let ?w3 = "on_fin env f w2"
  have B: "work_caused answer cb f s ?w3" "their_seq_nr (w_session ?w3) = expected f s"
    "flag_fin_when_all_received (w_session ?w3) \<Longrightarrow> seq_for_fin_when_all_received (w_session ?w3) = expected f s \<Longrightarrow> all_received f s"
    using on_fin_done [of answer cb f s w2 env] A by simp_all
  show ?thesis
  proof (cases "flag_fin_when_all_received (w_session ?w3) \<and> seq_for_fin_when_all_received (w_session ?w3) = expected f s")
    case True
    with w' B(2) obtain w4 where w4: "reply env (FLAG_ACK OR FLAG_FIN) (expected f s + 1) T ?w3 = Inr w4"
      "w' = (on_session (set_state env tcp_fin_wait_2) w4)\<lparr>w_delete_entry := True\<rparr>"
      by (auto simp: fin_when_all_received_def Let_def)
    have "cause f s tcp_fin_wait_2" using B(3) True by (simp add: cause_def)
    with B(1) w4(2) reply_frame [OF w4(1)] show ?thesis by (auto simp: work_caused_def)
  next
    case False
    with w' B show ?thesis by (auto simp: fin_when_all_received_def Let_def)
  qed
qed

lemma on_payload_caused:
  assumes "on_payload env answer cb f d T w = Inr w'"
  shows "state (w_session w') = state (w_session w)" "w_delete_entry w' = w_delete_entry w" "\<exists>others. w_calls w' = w_calls w @ others"
    "w_fail w' \<Longrightarrow> w_fail w \<or> fails answer cb f s (w_calls w')"
  using assms by (auto simp: on_payload_def Let_def fails_def dest!: reply_effect split: if_splits option.splits)

lemma on_fail_caused:
  assumes "on_fail env cb f T w = Inr w'"
  shows "state (w_session w') = state (w_session w)" "w_delete_entry w' \<longleftrightarrow> w_delete_entry w \<or> w_fail w"
    "\<exists>others. w_calls w' = w_calls w @ others" "w_fail w' = w_fail w"
  using assms by (auto simp: on_fail_def Let_def dest!: send_from_state split: if_splits option.splits)

text \<open>
  The handler of a segment: a change of the state has its cause, and a session is only ended by
  RST, by the FIN of the peer when everything has arrived, by the last acknowledgement, or because of
  a failure.
\<close>

lemma handle_segment_caused:
  assumes "handle_segment env answer cb p s = Inr w"
  shows "state (w_session w) = state s \<or> seg_header_size (tcp_parse p) \<le> length p \<and> cause (tcp_parse p) s (state (w_session w))"
    "w_delete_entry w \<Longrightarrow> length p < seg_header_size (tcp_parse p) \<or> fails answer cb (tcp_parse p) s (w_calls w) \<or>
      (\<exists>b\<in>{tcp_closing, tcp_fin_wait_2, tcp_listen}. cause (tcp_parse p) s b)"
proof -
  let ?f = "tcp_parse p"
  let ?fail = "length p < seg_header_size ?f"
  let ?w = "work_new (touch env ?f s) ?fail"
  obtain T w1 w2 w3 where w1: "(if ?fail then Inr ?w else on_flags env answer cb ?f T ?w) = Inr w1"
    and w2: "on_payload env answer cb ?f (drop (seg_header_size ?f) p) T w1 = Inr w2"
    and w3: "on_fail env cb ?f T w2 = Inr w3"
    and w: "w = (if w_delete_entry w3 then on_session set_is_terminating w3 else w3)"
    using assms unfolding handle_segment_def Let_def by (elim rbindE) simp
  note P = on_payload_caused [OF w2] and F = on_fail_caused [OF w3]
  have ws: "state (w_session w) = state (w_session w1)" "w_delete_entry w \<longleftrightarrow> w_delete_entry w1 \<or> w_fail w2" "w_calls w = w_calls w3"
    using P(1,2) F(1,2) w by (auto split: if_splits)
  have W: "work_caused answer cb ?f s w1" if "\<not> ?fail" using w1 that on_flags_caused [of env answer cb ?f T s w1] by simp
  show "state (w_session w) = state s \<or> seg_header_size ?f \<le> length p \<and> cause ?f s (state (w_session w))"
  proof (cases ?fail)
    case True
    with w1 ws(1) show ?thesis by (auto simp: work_new_def)
  next
    case False
    with W ws(1) show ?thesis by (auto simp: work_caused_def)
  qed
  assume del: "w_delete_entry w"
  obtain o1 o2 where calls: "w_calls w = (w_calls w1 @ o1) @ o2" "w_calls w2 = w_calls w1 @ o1" using P(3) F(3) ws(3) by auto
  have "w_fail w2 \<longrightarrow> w_fail w1 \<or> fails answer cb ?f s (w_calls w)"
    using P(4) [of s] fails_mono calls by fastforce
  moreover have "w_fail w1 \<longrightarrow> fails answer cb ?f s (w_calls w)" if "\<not> ?fail"
    using W [OF that] fails_mono calls(1) by (fastforce simp: work_caused_def)
  ultimately show "?fail \<or> fails answer cb ?f s (w_calls w) \<or> (\<exists>b\<in>{tcp_closing, tcp_fin_wait_2, tcp_listen}. cause ?f s b)"
    using del ws(2) W by (auto simp: work_caused_def)
qed

lemma handle_segment_established:
  assumes "handle_segment env answer cb p s = Inr w"
  shows "state (w_session w) = tcp_established \<Longrightarrow> state s \<noteq> tcp_fin_wait_1"
  using handle_segment_caused(1) [OF assms] by (auto simp: cause_def opens_def)

end
