(* ===== verification/Tcp_Stream.thy ===== *)
theory Tcp_Stream
  imports Tcp_Session
begin

text \<open>
  Two established sessions and the segments between them: which octets arrive, whatever the
  network loses, repeats or reorders.  The steps are those of \<open>Tcp_Session\<close>; what a step keeps is
  shown block by block of the handler.
\<close>

section \<open>What a session and a segment owe to the streams\<close>

text \<open>
  A session that has sent the stream \<open>given\<close> from the sequence number \<open>base\<close> on keeps the part that
  is not acknowledged, and at most \<open>n\<close> octets were acknowledged.
\<close>

definition sender_inv :: "u32 \<Rightarrow> byte list \<Rightarrow> nat \<Rightarrow> tcp_session \<Rightarrow> bool" where
  "sender_inv base given n s \<longleftrightarrow> session_ok s \<and> \<not> in_init s \<and> (state s = tcp_established \<or> state s = tcp_fin_wait_1) \<and>
     unacked_size s = of_nat (length (unacked s)) \<and>
     (\<exists>k. k \<le> n \<and> k \<le> length given \<and> unacked s = drop k given \<and>
       (unacked s \<noteq> [] \<longrightarrow> unacked_start_seq_nr s = base + of_nat k \<and> my_seq_nr s = base + of_nat k) \<and>
       (state s = tcp_established \<longrightarrow> my_seq_nr s = base + of_nat k))"

text \<open>
  A segment carries a part of the stream \<open>given\<close> at its place, acknowledges no more than the
  \<open>n\<close> octets received from the base \<open>base'\<close> on (unless it resets the session or the receiver of the
  acknowledgement, \<open>est'\<close>, no longer looks at it), and a FIN tells that its sender, \<open>est\<close>, is not established any
  more.
\<close>

definition seg_ok :: "u32 \<Rightarrow> byte list \<Rightarrow> u32 \<Rightarrow> nat \<Rightarrow> bool \<Rightarrow> bool \<Rightarrow> ip_send \<Rightarrow> bool" where
  "seg_ok base given base' n est est' out \<longleftrightarrow>
     (\<exists>flags ack seq d. seg_out flags ack seq d out \<and>
       (d \<noteq> [] \<longrightarrow> (\<exists>j. seq = base + of_nat j \<and> j + length d \<le> length given \<and> d = take (length d) (drop j given))) \<and>
       (has_flag flags FLAG_RST \<or> \<not> est' \<or> (\<exists>r\<le>n. ack = base' + of_nat r)) \<and>
       (has_flag flags FLAG_FIN \<longrightarrow> \<not> est))"

lemma seg_ok_mono:
  assumes "seg_ok base given base' n est est' out" and "n \<le> n2" and "est2 \<longrightarrow> est" and "est2' \<longrightarrow> est'"
  shows "seg_ok base (given @ extra) base' n2 est2 est2' out"
proof -
  obtain flags ack seq d where o: "seg_out flags ack seq d out"
    and d: "d \<noteq> [] \<longrightarrow> (\<exists>j. seq = base + of_nat j \<and> j + length d \<le> length given \<and> d = take (length d) (drop j given))"
    and a: "has_flag flags FLAG_RST \<or> \<not> est' \<or> (\<exists>r\<le>n. ack = base' + of_nat r)"
    and f: "has_flag flags FLAG_FIN \<longrightarrow> \<not> est"
    using assms(1) unfolding seg_ok_def by blast
  have "d \<noteq> [] \<longrightarrow> (\<exists>j. seq = base + of_nat j \<and> j + length d \<le> length (given @ extra) \<and>
      d = take (length d) (drop j (given @ extra)))"
  proof
    assume "d \<noteq> []"
    with d obtain j where j: "seq = base + of_nat j" "j + length d \<le> length given" "d = take (length d) (drop j given)" by blast
    moreover from j(2) have "take (length d) (drop j (given @ extra)) = take (length d) (drop j given)" by simp
    ultimately show "\<exists>j. seq = base + of_nat j \<and> j + length d \<le> length (given @ extra) \<and> d = take (length d) (drop j (given @ extra))"
      by (intro exI [of _ j]) simp
  qed
  moreover have "has_flag flags FLAG_RST \<or> \<not> est2' \<or> (\<exists>r\<le>n2. ack = base' + of_nat r)"
    using a assms(2,4) order_trans by blast
  ultimately show ?thesis using o f assms(3) unfolding seg_ok_def by blast
qed

lemma seg_ok_no_data:
  "seg_out flags ack seq [] out \<Longrightarrow> has_flag flags FLAG_RST \<or> \<not> est' \<or> (\<exists>r\<le>n. ack = base' + of_nat r) \<Longrightarrow>
   has_flag flags FLAG_FIN \<longrightarrow> \<not> est \<Longrightarrow> seg_ok base given base' n est est' out"
  unfolding seg_ok_def by blast

section \<open>Flags of the replies\<close>

lemma has_flag_simps [simp]:
  "has_flag FLAG_ACK FLAG_ACK" "\<not> has_flag FLAG_ACK FLAG_FIN" "\<not> has_flag FLAG_ACK FLAG_SYN" "\<not> has_flag FLAG_ACK FLAG_RST"
  "has_flag FLAG_FIN FLAG_FIN" "\<not> has_flag FLAG_FIN FLAG_RST" "\<not> has_flag FLAG_FIN FLAG_SYN" "\<not> has_flag FLAG_FIN FLAG_ACK"
  "has_flag (FLAG_ACK OR FLAG_FIN) FLAG_FIN" "has_flag (FLAG_ACK OR FLAG_FIN) FLAG_ACK" "\<not> has_flag (FLAG_ACK OR FLAG_FIN) FLAG_RST"
  "has_flag (FLAG_RST OR FLAG_ACK) FLAG_RST" "\<not> has_flag (FLAG_RST OR FLAG_ACK) FLAG_FIN"
  "has_flag (FLAG_SYN OR FLAG_ACK) FLAG_SYN" "has_flag (FLAG_SYN OR FLAG_ACK) FLAG_ACK" "\<not> has_flag (FLAG_SYN OR FLAG_ACK) FLAG_FIN"
  "\<not> has_flag (FLAG_SYN OR FLAG_ACK) FLAG_RST" "has_flag FLAG_SYN FLAG_SYN" "\<not> has_flag FLAG_SYN FLAG_RST" "\<not> has_flag FLAG_SYN FLAG_ACK"
  "\<not> has_flag FLAG_SYN FLAG_FIN"
  by code_simp+

lemma syn_fin_simps [simp]:
  "syn_fin FLAG_ACK = 0" "syn_fin FLAG_FIN = 1" "syn_fin (FLAG_ACK OR FLAG_FIN) = 1" "syn_fin (FLAG_SYN OR FLAG_ACK) = 1"
  "syn_fin FLAG_SYN = 1"
  by (simp_all add: syn_fin_def)

section \<open>The blocks of the handler\<close>

text \<open>
  The state of the work on a segment: \<open>bx\<close>, \<open>gx\<close> are the base and the stream of the session, \<open>ny\<close>
  the number of its octets the peer has, \<open>b\<close> the base of the peer and \<open>nx\<close> the number of octets
  received; \<open>est'\<close> tells whether the peer is established.
\<close>

definition work_inv :: "u32 \<Rightarrow> byte list \<Rightarrow> nat \<Rightarrow> u32 \<Rightarrow> nat \<Rightarrow> bool \<Rightarrow> tcp_work \<Rightarrow> bool" where
  "work_inv bx gx ny b nx est' w \<longleftrightarrow>
     (w_delete_entry w \<or> sender_inv bx gx ny (w_session w)) \<and>
     their_seq_nr (w_session w) = b + of_nat nx \<and>
     (flag_fin_when_all_received (w_session w) \<longrightarrow> \<not> est') \<and>
     (\<forall>out\<in>set (w_out w). seg_ok bx gx b nx (\<not> w_delete_entry w \<and> state (w_session w) = tcp_established) est' out)"

lemma set_state_simps [simp]:
  "state (set_state env st s) = st" "their_seq_nr (set_state env st s) = their_seq_nr s" "my_seq_nr (set_state env st s) = my_seq_nr s"
  "unacked (set_state env st s) = unacked s" "unacked_size (set_state env st s) = unacked_size s"
  "unacked_start_seq_nr (set_state env st s) = unacked_start_seq_nr s" "in_init (set_state env st s) = in_init s"
  "flag_fin_when_all_received (set_state env st s) = flag_fin_when_all_received s"
  "session_ok (set_state env st s) = session_ok s" "sess_id (set_state env st s) = sess_id s"
  by (simp_all add: set_state_def session_ok_def)

lemma set_is_terminating_simps [simp]:
  "state (set_is_terminating s) = state s" "their_seq_nr (set_is_terminating s) = their_seq_nr s"
  "my_seq_nr (set_is_terminating s) = my_seq_nr s" "unacked (set_is_terminating s) = unacked s"
  "unacked_size (set_is_terminating s) = unacked_size s" "unacked_start_seq_nr (set_is_terminating s) = unacked_start_seq_nr s"
  "in_init (set_is_terminating s) = in_init s" "session_ok (set_is_terminating s) = session_ok s"
  "flag_fin_when_all_received (set_is_terminating s) = flag_fin_when_all_received s"
  by (simp_all add: set_is_terminating_def session_ok_def)

lemma session_ok_update [simp]:
  "session_ok (s\<lparr>e_last_pkt_ts := t\<rparr>) = session_ok s" "session_ok (s\<lparr>my_seq_nr := q\<rparr>) = session_ok s"
  "session_ok (s\<lparr>data_since_last_ack := n\<rparr>) = session_ok s" "session_ok (s\<lparr>r_last_pkt_ts := t\<rparr>) = session_ok s"
  "session_ok (s\<lparr>their_seq_nr := q\<rparr>) = session_ok s" "session_ok (s\<lparr>window_size := wn\<rparr>) = session_ok s"
  "session_ok (s\<lparr>seq_for_fin_when_all_received := q\<rparr>) = session_ok s"
  "session_ok (s\<lparr>flag_fin_when_all_received := b\<rparr>) = session_ok s" "session_ok (s\<lparr>unacked := d\<rparr>) = session_ok s"
  "session_ok (s\<lparr>unacked_size := m\<rparr>) = session_ok s" "session_ok (s\<lparr>unacked_start_seq_nr := q\<rparr>) = session_ok s"
  "session_ok (s\<lparr>fin_after_unacked_empty := b\<rparr>) = session_ok s"
  by (simp_all add: session_ok_def)

lemma seg_ok_closed: "seg_ok bx gx b n est est' out \<Longrightarrow> seg_ok bx gx b n False est' out"
  using seg_ok_mono [of bx gx b n est est' out n False est' "[]"] by simp

lemma on_rst_inv: "work_inv bx gx ny b nx est' w \<Longrightarrow> work_inv bx gx ny b nx est' (on_rst env f w)"
  by (auto simp: work_inv_def on_rst_def intro: seg_ok_closed)

lemma on_rst_frame [simp]:
  "w_fail (on_rst env f w) = w_fail w" "w_calls (on_rst env f w) = w_calls w"
  by (simp_all add: on_rst_def)

lemma on_syn_inv:
  assumes "work_inv bx gx ny b nx est' w" and "on_syn env f T w = Inr w'"
  shows "work_inv bx gx ny b nx est' w' \<and> w_fail w' = w_fail w \<and> w_calls w' = w_calls w \<and> w_delete_entry w' = w_delete_entry w \<and>
    w_session w' = w_session w"
  using assms by (auto simp: on_syn_def work_inv_def sender_inv_def Let_def split: if_splits)

subsection \<open>Acknowledgements\<close>

lemma sint_u32: "- (2 ^ 31) \<le> i \<Longrightarrow> i < 2 ^ 31 \<Longrightarrow> sint (of_int i :: u32) = i"
  by (subst signed_of_int) (simp add: signed_take_bit_int_eq_self)

lemma ack_n_value:
  assumes "unacked_start_seq_nr s = base + of_nat k" and "seg_ack_to f = base + of_nat r" and "k < 2 ^ 31" and "r < 2 ^ 31"
  shows "ack_n f s = int r - int k"
proof -
  have "seg_ack_to f - unacked_start_seq_nr s = of_int (int r - int k)" using assms(1,2) by simp
  then show ?thesis using assms(3,4) sint_u32 [of "int r - int k"] by (simp add: ack_n_def)
qed

lemma left_n_value:
  assumes "unacked_size s = of_nat n" and "n < 2 ^ 31" and "ack_n f s = int a" and "a \<le> n"
  shows "left_n f s = int (n - a)" "unacked_size s - of_int (ack_n f s) = of_nat (n - a)"
proof -
  show d: "unacked_size s - of_int (ack_n f s) = of_nat (n - a)" using assms by (simp add: of_nat_diff)
  have "ucast (of_nat (n - a) :: u64) = (of_nat (n - a) :: u32)"
    using assms(2) by (simp add: unsigned_of_nat take_bit_nat_eq_self)
  then show "left_n f s = int (n - a)"
    using d assms(2) sint_u32 [of "int (n - a)"] by (simp add: left_n_def)
qed

lemma sender_invI:
  assumes "session_ok s" and "\<not> in_init s" and "state s = tcp_established \<or> state s = tcp_fin_wait_1"
    and "unacked_size s = of_nat (length (unacked s))" and "k \<le> n" and "k \<le> length given" and "unacked s = drop k given"
    and "unacked s \<noteq> [] \<Longrightarrow> unacked_start_seq_nr s = base + of_nat k \<and> my_seq_nr s = base + of_nat k"
    and "state s = tcp_established \<Longrightarrow> my_seq_nr s = base + of_nat k"
  shows "sender_inv base given n s"
  using assms unfolding sender_inv_def by blast

lemma sender_inv_obtain:
  assumes "sender_inv base given n s"
  obtains k where "k \<le> n" "k \<le> length given" "unacked s = drop k given"
    "unacked s \<noteq> [] \<Longrightarrow> unacked_start_seq_nr s = base + of_nat k \<and> my_seq_nr s = base + of_nat k"
    "state s = tcp_established \<Longrightarrow> my_seq_nr s = base + of_nat k" "session_ok s" "\<not> in_init s"
    "state s = tcp_established \<or> state s = tcp_fin_wait_1" "unacked_size s = of_nat (length (unacked s))"
  using assms unfolding sender_inv_def by blast

lemma sender_inv_mono:
  assumes "sender_inv base given n s" and "n \<le> n2"
  shows "sender_inv base given n2 s"
  using assms unfolding sender_inv_def by (meson order_trans)

lemma unacked_size_zero:
  "sender_inv base given n s \<Longrightarrow> length given < 2 ^ 31 \<Longrightarrow> unacked_size s = 0 \<longleftrightarrow> unacked s = []"
proof -
  assume i: "sender_inv base given n s" and l: "length given < 2 ^ 31"
  then have "length (unacked s) < 2 ^ 31" by (auto simp: sender_inv_def)
  then have "(of_nat (length (unacked s)) :: u64) = 0 \<longleftrightarrow> unacked s = []"
    by (auto simp: word_of_nat_eq_0_iff dest: dvd_imp_le)
  with i show ?thesis by (auto simp only: sender_inv_def)
qed

text \<open>An acknowledgement of received octets drops these octets and nothing else.\<close>

lemma delete_acked_inv:
  assumes "sender_inv base given n s" and "length given < 2 ^ 31" and "n \<le> length given" and "state s = tcp_established"
    and "seg_ack_to f = base + of_nat r" and "r \<le> n" and "0 < ack_n f s" and "0 < unacked_size s"
  shows "sender_inv base given n (delete_acked f s)" "0 \<le> left_n f s" "state (delete_acked f s) = tcp_established"
    "their_seq_nr (delete_acked f s) = their_seq_nr s"
    "flag_fin_when_all_received (delete_acked f s) = flag_fin_when_all_received s"
proof -
  obtain k where k: "k \<le> n" "k \<le> length given" "unacked s = drop k given"
    "unacked s \<noteq> [] \<Longrightarrow> unacked_start_seq_nr s = base + of_nat k \<and> my_seq_nr s = base + of_nat k"
    "session_ok s" "\<not> in_init s" "unacked_size s = of_nat (length (unacked s))"
    using assms(1) by (rule sender_inv_obtain) blast
  have ne: "unacked s \<noteq> []" using assms(8) k(7) by auto
  with k(4) have st: "unacked_start_seq_nr s = base + of_nat k" "my_seq_nr s = base + of_nat k" by auto
  have a: "ack_n f s = int r - int k" using ack_n_value [OF st(1) assms(5)] k(1) assms(2,3,6) by simp
  then have kr: "k < r" "ack_n f s = int (r - k)" using assms(7) by auto
  have le: "r - k \<le> length given - k" using assms(3,6) by simp
  note l = left_n_value [of s "length given - k" f "r - k"]
  have l1: "left_n f s = int (length given - k - (r - k))" "unacked_size s - of_int (ack_n f s) = of_nat (length given - k - (r - k))"
    using l k(3,7) assms(2) kr(2) le by simp_all
  show "0 \<le> left_n f s" by (simp add: l1(1))
  have nat_diff: "nat (int r - int k) + k = r" using kr(1) by simp
  have "base + of_nat k + of_int (ack_n f s) = base + of_nat r" using a by simp
  then show "sender_inv base given n (delete_acked f s)"
    using k st assms(3,4,6) l1 kr le nat_diff
    by (intro sender_invI [where k = r]) (simp_all add: delete_acked_def)
qed (simp_all add: delete_acked_def assms(4))

lemma reply_inv:
  assumes "reply env flags ack T w = Inr w'"
    and "work_inv bx gx ny b nx est' w" and "\<not> has_flag flags FLAG_FIN" and "\<not> has_flag flags FLAG_SYN"
    and "\<not> est' \<or> (\<exists>r\<le>nx. ack = b + of_nat r)"
  shows "work_inv bx gx ny b nx est' w'" "w_fail w' = w_fail w" "w_calls w' = w_calls w" "w_delete_entry w' = w_delete_entry w"
    "unacked_size (w_session w') = unacked_size (w_session w)"
proof -
  obtain outs where w': "w' = w\<lparr>w_session := (w_session w)\<lparr>e_last_pkt_ts := (if env_idev env then env_now env else e_last_pkt_ts (w_session w)),
        my_seq_nr := (if env_idev env then my_seq_nr (w_session w) + syn_fin flags else my_seq_nr (w_session w))\<rparr>,
      w_out := w_out w @ outs\<rparr>" and o: "\<forall>o1\<in>set outs. seg_out flags ack (my_seq_nr (w_session w)) [] o1"
    using reply_effect [OF assms(1)] by blast
  have z: "syn_fin flags = 0" using assms(3,4) by (simp add: syn_fin_def)
  have "\<forall>o1\<in>set outs. seg_ok bx gx b nx est est' o1" for est
    using o assms(3,5) by (auto intro: seg_ok_no_data)
  with assms(2) show "work_inv bx gx ny b nx est' w'"
    by (auto simp: work_inv_def w' z sender_inv_def)
  show "w_fail w' = w_fail w" "w_calls w' = w_calls w" "w_delete_entry w' = w_delete_entry w"
    "unacked_size (w_session w') = unacked_size (w_session w)" by (simp_all add: w')
qed

text \<open>A reply with FIN that leaves the established state for good.\<close>

lemma reply_fin_inv:
  assumes "reply env (FLAG_ACK OR FLAG_FIN) ack T w = Inr w'"
    and "their_seq_nr (w_session w) = b + of_nat nx" and "flag_fin_when_all_received (w_session w) \<longrightarrow> \<not> est'"
    and "\<forall>out\<in>set (w_out w). seg_ok bx gx b nx est est' out"
    and "\<not> est' \<or> (\<exists>r\<le>nx. ack = b + of_nat r)" and "st \<noteq> tcp_established"
    and "del \<or> sender_inv bx gx ny (w_session w) \<and> unacked (w_session w) = [] \<and> st = tcp_fin_wait_1"
    and "del = w_delete_entry w2" and "w_session w2 = set_state env st (w_session w')" and "w_out w2 = w_out w'"
  shows "work_inv bx gx ny b nx est' w2 \<and> w_fail w' = w_fail w \<and> w_calls w' = w_calls w"
proof -
  obtain outs where w': "w' = w\<lparr>w_session := (w_session w)\<lparr>e_last_pkt_ts := (if env_idev env then env_now env else e_last_pkt_ts (w_session w)),
        my_seq_nr := (if env_idev env then my_seq_nr (w_session w) + syn_fin (FLAG_ACK OR FLAG_FIN) else my_seq_nr (w_session w))\<rparr>,
      w_out := w_out w @ outs\<rparr>" and o: "\<forall>o1\<in>set outs. seg_out (FLAG_ACK OR FLAG_FIN) ack (my_seq_nr (w_session w)) [] o1"
    using reply_effect [OF assms(1)] by blast
  have "\<forall>o1\<in>set outs. seg_ok bx gx b nx False est' o1"
    using o assms(5) by (auto intro: seg_ok_no_data)
  moreover have "\<forall>out\<in>set (w_out w). seg_ok bx gx b nx False est' out" using assms(4) seg_ok_closed by blast
  moreover have "del \<or> sender_inv bx gx ny (w_session w2)"
    using assms(7) by (auto simp: assms(9) w' sender_inv_def)
  ultimately show ?thesis
    using assms(2,3,6) by (auto simp: work_inv_def assms(8-10) w')
qed

lemma work_inv_minor [simp]:
  "work_inv bx gx ny b nx est' (on_session (\<lambda>s. s\<lparr>r_last_pkt_ts := t\<rparr>) w) = work_inv bx gx ny b nx est' w"
  "work_inv bx gx ny b nx est' (on_session (\<lambda>s. s\<lparr>data_since_last_ack := n\<rparr>) w) = work_inv bx gx ny b nx est' w"
  "work_inv bx gx ny b nx est' (w\<lparr>w_notify_unacked_cv := x\<rparr>) = work_inv bx gx ny b nx est' w"
  by (simp_all add: work_inv_def sender_inv_def)

lemma on_ack_established_inv:
  assumes "on_ack_established env f T w = Inr w'" and "work_inv bx gx ny b nx est' w"
    and "length gx < 2 ^ 31" and "ny \<le> length gx" and "\<not> w_delete_entry w" and "state (w_session w) = tcp_established"
    and "seg_ack_to f = bx + of_nat r" and "r \<le> ny"
  shows "work_inv bx gx ny b nx est' w' \<and> w_fail w' = w_fail w \<and> w_calls w' = w_calls w"
proof (cases "0 < ack_n f (w_session w) \<and> 0 < unacked_size (w_session w)")
  case True
  let ?w = "on_session (delete_acked f) w"
  have s: "sender_inv bx gx ny (w_session w)" using assms(2,5) by (simp add: work_inv_def)
  note d = delete_acked_inv [OF s assms(3,4,6,7,8)]
  have i: "work_inv bx gx ny b nx est' ?w"
    using assms(2,5,6) d True by (simp add: work_inv_def)
  have ln: "\<not> left_n f (w_session w) < 0" using d(2) True by simp
  have e: "on_ack_established env f T w = rbind (if unacked_size (w_session ?w) = 0 \<and> fin_after_unacked_empty (w_session ?w)
      then rbind (reply env (FLAG_ACK OR FLAG_FIN) (their_seq_nr (w_session ?w)) T ?w) (\<lambda>w'. Inr (on_session (set_state env tcp_fin_wait_1) w'))
      else Inr ?w) (\<lambda>w1. Inr ((if 0 < unacked_size (w_session w1) then on_session (\<lambda>s. s\<lparr>r_last_pkt_ts := 0\<rparr>) w1 else w1)
        \<lparr>w_notify_unacked_cv := True\<rparr>))"
    using True ln by (simp add: on_ack_established_def Let_def rbind_assoc)
  obtain w1 where w1: "(if unacked_size (w_session ?w) = 0 \<and> fin_after_unacked_empty (w_session ?w)
      then rbind (reply env (FLAG_ACK OR FLAG_FIN) (their_seq_nr (w_session ?w)) T ?w) (\<lambda>w'. Inr (on_session (set_state env tcp_fin_wait_1) w'))
      else Inr ?w) = Inr w1"
    and w': "w' = (if 0 < unacked_size (w_session w1) then on_session (\<lambda>s. s\<lparr>r_last_pkt_ts := 0\<rparr>) w1 else w1)\<lparr>w_notify_unacked_cv := True\<rparr>"
    by (rule rbindE [OF assms(1) [unfolded e]]) simp
  have "work_inv bx gx ny b nx est' w1 \<and> w_fail w1 = w_fail w \<and> w_calls w1 = w_calls w"
  proof (cases "unacked_size (w_session ?w) = 0 \<and> fin_after_unacked_empty (w_session ?w)")
    case fin: True
    then obtain w2 where w2: "reply env (FLAG_ACK OR FLAG_FIN) (their_seq_nr (w_session ?w)) T ?w = Inr w2"
      "w1 = on_session (set_state env tcp_fin_wait_1) w2" using w1 by auto
    have "unacked (w_session ?w) = []"
      using unacked_size_zero [of bx gx ny "w_session ?w"] d(1) True fin assms(3) by simp
    moreover have "w_delete_entry w2 = w_delete_entry w" using reply_effect [OF w2(1)] by auto
    ultimately show ?thesis
      using reply_fin_inv [OF w2(1), of b nx est' bx gx "w_session ?w = w_session ?w" tcp_fin_wait_1 False ny w1] i d(1) True assms(5,6) d(3)
      by (auto simp: work_inv_def w2(2))
  next
    case False
    with w1 i show ?thesis by auto
  qed
  then show ?thesis by (simp add: w')
next
  case False
  with assms(1,2) show ?thesis by (auto simp: on_ack_established_def work_inv_def Let_def)
qed

lemma on_ack_inv:
  assumes "on_ack env answer cb f T w = Inr w'" and "work_inv bx gx ny b nx est' w"
    and "length gx < 2 ^ 31" and "ny \<le> length gx"
    and "w_delete_entry w \<or> state (w_session w) \<noteq> tcp_established \<or> (\<exists>r\<le>ny. seg_ack_to f = bx + of_nat r)"
  shows "work_inv bx gx ny b nx est' w' \<and> w_fail w' = w_fail w \<and> w_calls w' = w_calls w"
proof (cases "has_flag (seg_flags f) FLAG_ACK \<and> \<not> w_delete_entry w")
  case True
  then have "state (w_session w) = tcp_established \<or> state (w_session w) = tcp_fin_wait_1"
    using assms(2) by (simp add: work_inv_def sender_inv_def)
  then show ?thesis
  proof
    assume st: "state (w_session w) = tcp_established"
    with True assms(5) obtain r where "r \<le> ny" "seg_ack_to f = bx + of_nat r" by blast
    moreover from assms(1) True st obtain w1 where "on_ack_established env f T w = Inr w1"
      "w' = on_session (\<lambda>s. s\<lparr>data_since_last_ack := 0\<rparr>) w1" by (auto simp: on_ack_def)
    ultimately show ?thesis
      using on_ack_established_inv [OF _ assms(2-4) _ st, of env f T w1 r] True by simp
  next
    assume "state (w_session w) = tcp_fin_wait_1"
    with assms(1,2) True show ?thesis by (auto simp: on_ack_def)
  qed
next
  case False
  with assms(1,2) show ?thesis by (auto simp: on_ack_def)
qed

subsection \<open>FIN\<close>

lemma on_fin_inv:
  assumes "work_inv bx gx ny b nx est' w" and "has_flag (seg_flags f) FLAG_FIN \<Longrightarrow> \<not> est'"
  shows "work_inv bx gx ny b nx est' (on_fin env f w)" "w_fail (on_fin env f w) = w_fail w" "w_calls (on_fin env f w) = w_calls w"
proof -
  have "\<forall>out\<in>set (w_out w). seg_ok bx gx b nx False est' out"
    using assms(1) seg_ok_closed unfolding work_inv_def by blast
  with assms show "work_inv bx gx ny b nx est' (on_fin env f w)"
    by (auto simp: work_inv_def on_fin_def sender_inv_def)
qed (simp_all add: on_fin_def)

lemma fin_when_all_received_inv:
  assumes "fin_when_all_received env T w = Inr w'" and "work_inv bx gx ny b nx est' w"
  shows "work_inv bx gx ny b nx est' w' \<and> w_fail w' = w_fail w \<and> w_calls w' = w_calls w"
proof (cases "flag_fin_when_all_received (w_session w) \<and> seq_for_fin_when_all_received (w_session w) = their_seq_nr (w_session w)")
  case True
  then obtain w1 where w1: "reply env (FLAG_ACK OR FLAG_FIN) (their_seq_nr (w_session w) + 1) T w = Inr w1"
    "w' = on_session (set_state env tcp_fin_wait_2) w1\<lparr>w_delete_entry := True\<rparr>"
    using assms(1) by (auto simp: fin_when_all_received_def Let_def)
  from True assms(2) have "\<not> est'" by (simp add: work_inv_def)
  with reply_fin_inv [OF w1(1), of b nx est' bx gx _ tcp_fin_wait_2 True ny w'] assms(2) show ?thesis
    by (auto simp: work_inv_def w1(2))
next
  case False
  with assms show ?thesis by (auto simp: fin_when_all_received_def Let_def)
qed

lemma on_flags_inv:
  assumes "on_flags env answer cb f T w = Inr w'" and "work_inv bx gx ny b nx est' w"
    and "length gx < 2 ^ 31" and "ny \<le> length gx" and "\<not> w_delete_entry w"
    and "has_flag (seg_flags f) FLAG_RST \<or> state (w_session w) \<noteq> tcp_established \<or> (\<exists>r\<le>ny. seg_ack_to f = bx + of_nat r)"
    and "has_flag (seg_flags f) FLAG_FIN \<longrightarrow> \<not> est'"
  shows "work_inv bx gx ny b nx est' w' \<and> w_fail w' = w_fail w \<and> w_calls w' = w_calls w"
proof -
  from assms(1) obtain w1 w2 where w1: "on_syn env f T (on_rst env f w) = Inr w1"
    and w2: "on_ack env answer cb f T w1 = Inr w2" and w': "fin_when_all_received env T (on_fin env f w2) = Inr w'"
    by (auto simp: on_flags_def)
  from on_syn_inv [OF on_rst_inv [OF assms(2)] w1] have i1: "work_inv bx gx ny b nx est' w1"
    and f1: "w_fail w1 = w_fail w" "w_calls w1 = w_calls w" "w_delete_entry w1 = w_delete_entry (on_rst env f w)"
      "w_session w1 = w_session (on_rst env f w)" by auto
  have "state (w_session w) = tcp_established \<or> state (w_session w) = tcp_fin_wait_1"
    using assms(2,5) by (simp add: work_inv_def sender_inv_def)
  then have "tcp_syn_rcvd \<le> state (w_session w)" by (auto simp: state_order)
  then have "w_delete_entry w1 \<or> state (w_session w1) \<noteq> tcp_established \<or> (\<exists>r\<le>ny. seg_ack_to f = bx + of_nat r)"
    using assms(6) f1 by (auto simp: on_rst_def)
  from on_ack_inv [OF w2 i1 assms(3,4) this] have i2: "work_inv bx gx ny b nx est' w2" "w_fail w2 = w_fail w" "w_calls w2 = w_calls w"
    using f1 by auto
  have "work_inv bx gx ny b nx est' (on_fin env f w2)" using on_fin_inv(1) [OF i2(1)] assms(7) by blast
  from fin_when_all_received_inv [OF w' this] i2 show ?thesis
    using on_fin_inv(2,3) [OF i2(1)] assms(7) by (auto simp: on_fin_def)
qed

subsection \<open>Payload\<close>

definition delivered :: "app_call list \<Rightarrow> byte list" where
  "delivered calls = concat (map (\<lambda>c. case c of New_data _ d \<Rightarrow> d | _ \<Rightarrow> []) calls)"

lemma delivered_simps [simp]:
  "delivered [] = []" "delivered (cs @ [New_data i d]) = delivered cs @ d" "delivered (cs @ [Session_closed_1 i]) = delivered cs"
  "delivered [New_data i d] = d"
  by (simp_all add: delivered_def)

definition stream_limit :: "u32 \<Rightarrow> byte list \<Rightarrow> bool" where
  "stream_limit base given \<longleftrightarrow> length given < 2 ^ 31 \<and> unat base + length given < 2 ^ 32"

lemma unat_base: "unat base + n < 2 ^ 32 \<Longrightarrow> unat ((base :: u32) + of_nat n) = unat base + n"
  by (simp add: unat_word_ariths unsigned_of_nat take_bit_nat_eq_self)

definition result_inv :: "u32 \<Rightarrow> byte list \<Rightarrow> nat \<Rightarrow> u32 \<Rightarrow> nat \<Rightarrow> bool \<Rightarrow> tcp_work \<Rightarrow> bool" where
  "result_inv bx gx ny b nx est' w \<longleftrightarrow>
     (w_delete_entry w \<or> sender_inv bx gx ny (w_session w) \<and> their_seq_nr (w_session w) = b + of_nat nx \<and>
        (flag_fin_when_all_received (w_session w) \<longrightarrow> \<not> est')) \<and>
     (\<forall>out\<in>set (w_out w). seg_ok bx gx b nx (\<not> w_delete_entry w \<and> state (w_session w) = tcp_established) est' out)"

lemma work_result: "work_inv bx gx ny b nx est' w \<Longrightarrow> result_inv bx gx ny b nx est' w"
  by (simp add: work_inv_def result_inv_def)

text \<open>
  Data at the expected place is handed over; other data is answered by an acknowledgement of what
  was received, or of an earlier part of it.
\<close>

lemma on_payload_inv:
  assumes "on_payload env answer cb f data T w = Inr w'" and "work_inv bx gx ny b nx est' w"
    and "w_calls w = []" and "\<not> w_fail w" and "stream_limit b gy" and "nx \<le> length gy"
    and "data \<noteq> [] \<longrightarrow> (\<exists>j. seg_seq f = b + of_nat j \<and> j + length data \<le> length gy \<and> data = take (length data) (drop j gy))"
  shows "(w_fail w' \<and> (\<forall>out\<in>set (w_out w'). seg_ok bx gx b nx False est' out) \<or> work_inv bx gx ny b (nx + length (delivered (w_calls w'))) est' w') \<and>
    nx + length (delivered (w_calls w')) \<le> length gy \<and>
    delivered (w_calls w') = take (length (delivered (w_calls w'))) (drop nx gy)"
proof (cases "data = []")
  case True
  with assms show ?thesis by (simp add: on_payload_def Let_def)
next
  case ne: False
  then obtain j where j: "seg_seq f = b + of_nat j" "j + length data \<le> length gy" "data = take (length data) (drop j gy)"
    using assms(7) by blast
  have lim: "length gy < 2 ^ 31" "unat b + length gy < 2 ^ 32" using assms(5) by (auto simp: stream_limit_def)
  have uj: "unat (seg_seq f) = unat b + j" using j lim by (simp only: j(1)) (rule unat_base, simp)
  have t: "their_seq_nr (w_session w) = b + of_nat nx" using assms(2) by (simp add: work_inv_def)
  have un: "unat (their_seq_nr (w_session w)) = unat b + nx" using lim assms(6) by (simp only: t) (rule unat_base, simp)
  show ?thesis
  proof (cases "seg_seq f = their_seq_nr (w_session w)")
    case True
    with uj un have jn: "j = nx" by simp
    let ?call = "New_data (sess_id (w_session w)) data"
    show ?thesis
    proof (cases cb)
      case None
      with assms ne True show ?thesis by (auto simp: on_payload_def Let_def work_inv_def intro: seg_ok_closed)
    next
      case (Some h)
      with assms(1,4) ne True have h: "ph_new_data h" by (auto simp: on_payload_def Let_def split: if_splits)
      let ?w1 = "w\<lparr>w_calls := w_calls w @ [?call], w_fail := \<not> answer ?call\<rparr>"
      show ?thesis
      proof (cases "answer ?call")
        case False
        with assms h Some ne True have "w' = ?w1" by (simp add: on_payload_def Let_def)
        with assms(2,3) False j jn show ?thesis by (auto simp: work_inv_def intro: seg_ok_closed)
      next
        case ans: True
        let ?w2 = "on_session (\<lambda>s. s\<lparr>their_seq_nr := their_seq_nr s + of_nat (length data)\<rparr>) ?w1"
        let ?nx = "nx + length data"
        have i2: "work_inv bx gx ny b ?nx est' ?w2"
          using assms(2) seg_ok_mono [where n = nx and ?n2.0 = ?nx and extra = "[]"]
          by (auto simp: work_inv_def sender_inv_def)
        have c2: "w_calls ?w2 = [?call]" using assms(3) by simp
        have w': "(if unacked_size (w_session ?w2) = 0 then reply env FLAG_ACK (their_seq_nr (w_session ?w2)) T ?w2 else Inr ?w2) = Inr w'"
          using assms(1,4) h Some ne True ans by (auto simp: on_payload_def Let_def split: if_splits)
        have "\<exists>r\<le>?nx. their_seq_nr (w_session ?w2) = b + of_nat r" by (rule exI [of _ ?nx]) (simp add: t)
        then have "work_inv bx gx ny b ?nx est' w' \<and> w_calls w' = [?call]"
          using w' i2 c2 reply_inv(1,3) [of env FLAG_ACK "their_seq_nr (w_session ?w2)" T ?w2 w' bx gx ny b ?nx est']
          by (auto split: if_splits)
        then show ?thesis using j jn by (simp add: delivered_def)
      qed
    qed
  next
    case False
    let ?ack = "if their_seq_nr (w_session w) < seg_seq f then their_seq_nr (w_session w) else seg_seq f"
    from False assms(1,4) ne have w': "reply env FLAG_ACK ?ack T w = Inr w'" by (simp add: on_payload_def Let_def)
    have "\<exists>r\<le>nx. ?ack = b + of_nat r"
    proof (cases "their_seq_nr (w_session w) < seg_seq f")
      case True
      then show ?thesis using t by (intro exI [of _ nx]) simp
    next
      case nl: False
      then have "j \<le> nx" using uj un by (simp add: word_less_nat_alt)
      with nl show ?thesis using j(1) by (intro exI [of _ j]) simp
    qed
    with reply_inv [OF w' assms(2)] assms(3,6) show ?thesis by simp
  qed
qed

lemma on_fail_inv:
  assumes "on_fail env cb f T w = Inr w'"
    and "w_fail w \<and> (\<forall>out\<in>set (w_out w). seg_ok bx gx b nx False est' out) \<or> work_inv bx gx ny b nx est' w"
  shows "result_inv bx gx ny b nx est' w' \<and> delivered (w_calls w') = delivered (w_calls w)"
proof (cases "w_fail w")
  case True
  define w1 where "w1 = (if cb = None then w else w\<lparr>w_calls := w_calls w @ [Session_closed_1 (sess_id (w_session w))]\<rparr>)"
  obtain out seq' s' where out: "send_from env (my_addr (w_session w)) (my_port (w_session w)) (their_addr (w_session w)) (their_port (w_session w))
      (FLAG_RST OR FLAG_ACK) (seg_seq f + 1) None [] T (w_session w) = Inr (out, seq', s')"
    and w': "w' = w1\<lparr>w_session := s', w_out := w_out w1 @ out, w_delete_entry := True, w_errors := w_errors w1 + 1\<rparr>"
    using assms(1) True by (cases cb) (auto simp: on_fail_def Let_def w1_def split: if_splits)
  have "\<forall>o1\<in>set out. seg_ok bx gx b nx False est' o1"
    using send_from_none_effect(2) [OF out] by (auto intro: seg_ok_no_data)
  moreover have "\<forall>o1\<in>set (w_out w1). seg_ok bx gx b nx False est' o1"
    using assms(2) by (auto simp: work_inv_def w1_def intro: seg_ok_closed)
  ultimately show ?thesis by (auto simp: result_inv_def w' w1_def)
next
  case False
  with assms show ?thesis by (auto simp: on_fail_def intro: work_result)
qed

text \<open>The whole handler, for a segment the peer has sent.\<close>

lemma handle_segment_inv:
  assumes "handle_segment env answer cb (is_payload out) s = Inr w"
    and "sender_inv bx gx ny s" and "their_seq_nr s = b + of_nat nx" and "flag_fin_when_all_received s \<longrightarrow> \<not> est'"
    and "seg_ok b gy bx ny est' (state s = tcp_established) out"
    and "stream_limit bx gx" and "stream_limit b gy" and "ny \<le> length gx" and "nx \<le> length gy"
  shows "result_inv bx gx ny b (nx + length (delivered (w_calls w))) est' w \<and>
    nx + length (delivered (w_calls w)) \<le> length gy \<and>
    delivered (w_calls w) = take (length (delivered (w_calls w))) (drop nx gy)"
proof -
  let ?p = "is_payload out"
  obtain flags ack seq d where o: "seg_out flags ack seq d out"
    and d: "d \<noteq> [] \<longrightarrow> (\<exists>j. seq = b + of_nat j \<and> j + length d \<le> length gy \<and> d = take (length d) (drop j gy))"
    and a: "has_flag flags FLAG_RST \<or> state s \<noteq> tcp_established \<or> (\<exists>r\<le>ny. ack = bx + of_nat r)"
    and fin: "has_flag flags FLAG_FIN \<longrightarrow> \<not> est'"
    using assms(5) unfolding seg_ok_def by blast
  obtain sp dp c us T0 where p: "?p = tcp_octets sp dp seq ack flags c us T0 d" using o unfolding seg_out_def by blast
  note f = tcp_octets_fields [OF p]
  let ?f = "tcp_parse ?p"
  have hs: "seg_header_size ?f = 32" "seg_seq ?f = seq" "seg_ack_to ?f = ack" "seg_flags ?f = flags" by (simp_all add: f(1))
  define T where "T = (if has_flag flags FLAG_ACK then us else 0)"
  let ?w = "work_new (touch env ?f s) False"
  obtain w1 w2 w3 where w1: "on_flags env answer cb ?f T ?w = Inr w1"
    and w2: "on_payload env answer cb ?f d T w1 = Inr w2" and w3: "on_fail env cb ?f T w2 = Inr w3"
    and w: "w = (if w_delete_entry w3 then on_session set_is_terminating w3 else w3)"
    using assms(1) by (auto simp: handle_segment_def Let_def hs f(2,3) f(4) [of "has_flag flags FLAG_ACK"] T_def)
  have i: "work_inv bx gx ny b nx est' ?w"
    using assms(2-4) by (simp add: work_inv_def work_new_def touch_def sender_inv_def)
  have lx: "length gx < 2 ^ 31" using assms(6) by (simp add: stream_limit_def)
  have i1: "work_inv bx gx ny b nx est' w1 \<and> \<not> w_fail w1 \<and> w_calls w1 = []"
    using on_flags_inv [OF w1 i lx assms(8)] a fin hs by (auto simp: work_new_def touch_def)
  note i2 = on_payload_inv [OF w2 conjunct1 [OF i1] _ _ assms(7,9), unfolded hs(2), OF _ _ d]
  from i1 i2 have i2': "w_fail w2 \<and> (\<forall>out\<in>set (w_out w2). seg_ok bx gx b (nx + length (delivered (w_calls w2))) False est' out) \<or>
      work_inv bx gx ny b (nx + length (delivered (w_calls w2))) est' w2"
    using seg_ok_mono [where n = nx and ?n2.0 = "nx + length (delivered (w_calls w2))" and extra = "[]" and given = gx and base = bx]
    by auto
  from on_fail_inv [OF w3 i2'] have i3: "result_inv bx gx ny b (nx + length (delivered (w_calls w2))) est' w3"
    "delivered (w_calls w3) = delivered (w_calls w2)" by auto
  have "w_calls w = w_calls w3" "result_inv bx gx ny b n est' w = result_inv bx gx ny b n est' w3" for n
    by (simp_all add: w result_inv_def)
  with i1 i2 i3 show ?thesis by simp
qed

section \<open>The other operations\<close>

definition accepts :: "tcp_session \<Rightarrow> bool" where
  "accepts s \<longleftrightarrow> unacked_size s < 1024 * 1024 \<and> state s = tcp_established"

lemma send_data_inv:
  assumes "send_data d s = Some s'" and "sender_inv bx gx ny s" and "length gx < 2 ^ 31"
  shows "sender_inv bx (gx @ (if accepts s then d else [])) ny s'" "their_seq_nr s' = their_seq_nr s" "state s' = state s"
    "flag_fin_when_all_received s' = flag_fin_when_all_received s"
proof -
  obtain k where k: "k \<le> ny" "k \<le> length gx" "unacked s = drop k gx"
    "unacked s \<noteq> [] \<Longrightarrow> unacked_start_seq_nr s = bx + of_nat k \<and> my_seq_nr s = bx + of_nat k"
    "state s = tcp_established \<Longrightarrow> my_seq_nr s = bx + of_nat k" "session_ok s" "\<not> in_init s"
    "state s = tcp_established \<or> state s = tcp_fin_wait_1" "unacked_size s = of_nat (length (unacked s))"
    using assms(2) by (rule sender_inv_obtain) blast
  note z = unacked_size_zero [OF assms(2,3)]
  show "sender_inv bx (gx @ (if accepts s then d else [])) ny s'"
  proof (cases "accepts s")
    case True
    with assms(1) have s': "s' = s\<lparr>unacked_start_seq_nr := (if unacked_size s = 0 then my_seq_nr s else unacked_start_seq_nr s),
        unacked := unacked s @ d, unacked_size := unacked_size s + of_nat (length d), r_last_pkt_ts := 0\<rparr>"
      by (simp add: send_data_def accepts_def)
    show ?thesis
      using k z True by (intro sender_invI [where k = k]) (auto simp: s' accepts_def)
  next
    case False
    with assms(1) have "s' = s" by (auto simp: send_data_def accepts_def split: if_splits)
    with assms(2) False show ?thesis by simp
  qed
qed (use assms(1) in \<open>auto simp: send_data_def split: if_splits\<close>)

lemma end_session_inv:
  assumes "end_session env s = Inr (outs, s')" and "sender_inv bx gx ny s" and "length gx < 2 ^ 31" and "their_seq_nr s = b + of_nat nx"
  shows "sender_inv bx gx ny s'" "their_seq_nr s' = their_seq_nr s" "flag_fin_when_all_received s' = flag_fin_when_all_received s"
    "state s' = tcp_established \<longrightarrow> state s = tcp_established"
    "\<forall>out\<in>set outs. seg_ok bx gx b nx (state s' = tcp_established) est' out"
proof -
  have "sender_inv bx gx ny s' \<and> their_seq_nr s' = their_seq_nr s \<and> flag_fin_when_all_received s' = flag_fin_when_all_received s \<and>
    (state s' = tcp_established \<longrightarrow> state s = tcp_established) \<and>
    (\<forall>out\<in>set outs. seg_ok bx gx b nx (state s' = tcp_established) est' out)"
  proof (cases "unacked_size s = 0")
    case True
    then obtain seq' s1 where s1: "send_from env (my_addr s) (my_port s) (their_addr s) (their_port s) FLAG_FIN (their_seq_nr s)
        (Some (my_seq_nr s)) [] 0 s = Inr (outs, seq', s1)"
      and s': "s' = set_state env tcp_fin_wait_1 (s1\<lparr>my_seq_nr := (case seq' of None \<Rightarrow> my_seq_nr s | Some n \<Rightarrow> n)\<rparr>)"
      using assms(1) by (auto simp: end_session_def)
    note e = send_from_effect [OF s1]
    have u: "unacked s = []" using True unacked_size_zero [OF assms(2,3)] by simp
    have "\<forall>out\<in>set outs. seg_ok bx gx b nx False est' out"
      using e(3) assms(4) by (auto intro: seg_ok_no_data)
    with assms(2) u show ?thesis by (auto simp: s' e(1,2) sender_inv_def)
  next
    case False
    with assms(1,2) show ?thesis by (auto simp: end_session_def sender_inv_def)
  qed
  then show "sender_inv bx gx ny s'" "their_seq_nr s' = their_seq_nr s" "flag_fin_when_all_received s' = flag_fin_when_all_received s"
    "state s' = tcp_established \<longrightarrow> state s = tcp_established"
    "\<forall>out\<in>set outs. seg_ok bx gx b nx (state s' = tcp_established) est' out" by auto
qed

lemma same_session: "\<exists>t n. s = s\<lparr>e_last_pkt_ts := t, data_since_last_ack := n\<rparr>"
  by (intro exI [of _ "e_last_pkt_ts s"] exI [of _ "data_since_last_ack s"]) simp

text \<open>The loop sends consecutive parts of the buffer.\<close>

lemma unacked_loop_inv:
  assumes "unacked_loop env rc packet_size m i q s = Inr (outs, s')" and "env_idev env" and "unacked s = drop k gx"
    and "their_seq_nr s = b + of_nat nx" and "q = bx + of_nat (k + i)"
  shows "(\<forall>out\<in>set outs. seg_ok bx gx b nx est est' out) \<and> (\<exists>t n. s' = s\<lparr>e_last_pkt_ts := t, data_since_last_ack := n\<rparr>) \<and>
    (i < m \<and> 0 < packet_size \<longrightarrow> unacked s \<noteq> [])"
  using assms
proof (induction env rc packet_size m i q s arbitrary: outs s' rule: unacked_loop.induct)
  case (1 env rc packet_size m i q s)
  show ?case
  proof (cases "i < m \<and> 0 < packet_size")
    case False
    with "1.prems"(1) show ?thesis using same_session [of s] by (auto simp: unacked_loop.simps)
  next
    case True
    let ?n = "min packet_size (m - i)"
    obtain d out seq' s1 where d: "octets_at (unacked s) i ?n = Inr d"
      and s1: "send_from env (my_addr s) (my_port s) (their_addr s) (their_port s) FLAG_ACK (their_seq_nr s) (Some q) d 0 s = Inr (out, seq', s1)"
      using "1.prems"(1) True by (subst (asm) unacked_loop.simps) (auto simp: Let_def)
    note e = send_from_effect [OF s1]
    have d': "i + ?n \<le> length (unacked s)" "d = take ?n (drop i (unacked s))" "length d = ?n"
      using d by (auto simp: octets_at_def split: if_splits)
    have ne: "unacked s \<noteq> []" using d'(1) True by auto
    have bound: "k + i + length d \<le> length gx" "d = take (length d) (drop (k + i) gx)"
      using d' "1.prems"(3) ne by (auto simp: add.commute)
    have "\<exists>j. q = bx + of_nat j \<and> j + length d \<le> length gx \<and> d = take (length d) (drop j gx)"
      using bound "1.prems"(5) by blast
    then have ok: "\<forall>o1\<in>set out. seg_ok bx gx b nx est est' o1"
      using e(3) "1.prems"(4) unfolding seg_ok_def by fastforce
    let ?s2 = "s1\<lparr>data_since_last_ack := data_since_last_ack s1 + of_nat ?n\<rparr>"
    show ?thesis
    proof (cases "rc i")
      case False
      with "1.prems"(1) True d s1 have "outs = []" "s' = s1" by (auto simp: unacked_loop.simps [of env rc packet_size m i] Let_def)
      with e(1) ne same_session [of s] same_session [of "s\<lparr>e_last_pkt_ts := env_now env\<rparr>"] show ?thesis by auto
    next
      case rc: True
      obtain outs2 where r: "unacked_loop env rc packet_size m (i + packet_size) (case seq' of None \<Rightarrow> q | Some n \<Rightarrow> n) ?s2 = Inr (outs2, s')"
        and outs: "outs = out @ outs2"
        using "1.prems"(1) True d s1 rc by (subst (asm) unacked_loop.simps) (auto simp: Let_def)
      show ?thesis
      proof (cases "i + packet_size < m")
        case more: True
        then have "?n = packet_size" by simp
        with e(2) "1.prems"(2,5) d'(3) have "(case seq' of None \<Rightarrow> q | Some n \<Rightarrow> n) = bx + of_nat (k + (i + packet_size))"
          by simp
        with "1.IH" [OF True refl rc r] "1.prems"(2-4) e(1) ok ne show ?thesis by (auto simp: outs)
      next
        case False
        with r have "outs2 = []" "s' = ?s2" by (auto simp: unacked_loop.simps)
        with e(1) ok ne "1.prems"(2) show ?thesis by (auto simp: outs)
      qed
    qed
  qed
qed

lemma unacked_round_inv:
  assumes "unacked_round env rc s = Inr (outs, s')" and "sender_inv bx gx ny s" and "their_seq_nr s = b + of_nat nx"
  shows "sender_inv bx gx ny s'" "their_seq_nr s' = their_seq_nr s" "state s' = state s"
    "flag_fin_when_all_received s' = flag_fin_when_all_received s" "\<forall>out\<in>set outs. seg_ok bx gx b nx est est' out"
proof -
  have "outs = [] \<and> s' = s \<or> (\<exists>t n. s' = s\<lparr>e_last_pkt_ts := t, data_since_last_ack := n, r_last_pkt_ts := env_now env\<rparr>) \<and>
      (\<forall>out\<in>set outs. seg_ok bx gx b nx est est' out)"
  proof (cases "1000000 \<le> env_now env - r_last_pkt_ts s \<and> 0 < to_send s")
    case True
    then obtain s1 where l: "unacked_loop env rc (nat (env_mtu env - 32)) (nat (to_send s)) 0 (my_seq_nr s) s = Inr (outs, s1)"
      and s': "s' = s1\<lparr>r_last_pkt_ts := env_now env\<rparr>" and e: "env_idev env" "0 < env_mtu env - 32"
      using assms(1) by (auto simp: unacked_round_def Let_def split: if_splits)
    obtain k where k: "unacked s = drop k gx" "unacked s \<noteq> [] \<Longrightarrow> my_seq_nr s = bx + of_nat k"
      using assms(2) by (rule sender_inv_obtain) blast
    have "unacked s \<noteq> []"
      using l True e by (subst (asm) unacked_loop.simps) (auto simp: octets_at_def Let_def split: if_splits)
    with k(2) unacked_loop_inv [OF l e(1) k(1) assms(3), of bx] s' show ?thesis by auto
  next
    case False
    with assms(1) show ?thesis by (auto simp: unacked_round_def split: if_splits)
  qed
  with assms(2) show "sender_inv bx gx ny s'" "their_seq_nr s' = their_seq_nr s" "state s' = state s"
    "flag_fin_when_all_received s' = flag_fin_when_all_received s" "\<forall>out\<in>set outs. seg_ok bx gx b nx est est' out"
    by (auto simp: sender_inv_def)
qed

section \<open>Two sessions and a network\<close>

text \<open>
  The two ends are \<open>False\<close> and \<open>True\<close>.  \<open>l_calls x\<close> are the calls of \<open>send_data\<close> of the application
  of \<open>x\<close> that returned (always with true), each with its octets and whether they were stored: the code drops the
  octets of a call that finds 1 MB waiting or the session not established.  \<open>l_stored x\<close> are the
  octets stored, \<open>l_got x\<close> those handed to the application of \<open>x\<close>, and \<open>l_net x\<close> the segments \<open>x\<close> has
  sent.  A segment can be delivered whenever it has been sent: never, once or many times and in
  any order.

  The handler of a segment works on the session under its lock, releases it and only then takes the
  lock of the table to remove a session the segment has ended: \<open>l_ending x\<close> holds between the two,
  and \<open>l_late\<close> tells that a thread has worked in between on a session that was about to be removed.
  A session that was removed, or that the cleaner has taken, is gone (\<open>None\<close>).
\<close>

record link =
  l_session :: "bool \<Rightarrow> tcp_session option"
  l_ending :: "bool \<Rightarrow> bool"
  l_late :: bool
  l_calls :: "bool \<Rightarrow> (byte list \<times> bool) list"
  l_stored :: "bool \<Rightarrow> byte list"
  l_got :: "bool \<Rightarrow> byte list"
  l_net :: "bool \<Rightarrow> ip_send list"

inductive link_step :: "link \<Rightarrow> link \<Rightarrow> bool" where
  link_send: "l_session l x = Some s \<Longrightarrow> send_data d s = Some s' \<Longrightarrow>
     link_step l (l\<lparr>l_session := (l_session l)(x := Some s'), l_calls := (l_calls l)(x := l_calls l x @ [(d, accepts s)]),
       l_stored := (l_stored l)(x := l_stored l x @ (if accepts s then d else []))\<rparr>)"
| link_send_gone: "l_session l x = None \<Longrightarrow>
     link_step l (l\<lparr>l_calls := (l_calls l)(x := l_calls l x @ [(d, False)])\<rparr>)"
| link_end: "l_session l x = Some s \<Longrightarrow> end_session env s = Inr (outs, s') \<Longrightarrow>
     link_step l (l\<lparr>l_session := (l_session l)(x := Some s'), l_late := (l_late l \<or> l_ending l x),
       l_net := (l_net l)(x := l_net l x @ outs)\<rparr>)"
| link_unacked: "l_session l x = Some s \<Longrightarrow> unacked_round env rc s = Inr (outs, s') \<Longrightarrow>
     link_step l (l\<lparr>l_session := (l_session l)(x := Some s'), l_late := (l_late l \<or> l_ending l x),
       l_net := (l_net l)(x := l_net l x @ outs)\<rparr>)"
| link_deliver: "l_session l x = Some s \<Longrightarrow> out \<in> set (l_net l (\<not> x)) \<Longrightarrow>
     handle_segment env answer cb (is_payload out) s = Inr w \<Longrightarrow>
     link_step l (l\<lparr>l_session := (l_session l)(x := Some (w_session w)), l_ending := (l_ending l)(x := l_ending l x \<or> w_delete_entry w),
       l_late := (l_late l \<or> l_ending l x), l_got := (l_got l)(x := l_got l x @ delivered (w_calls w)),
       l_net := (l_net l)(x := l_net l x @ w_out w)\<rparr>)"
| link_remove: "l_session l x = Some s \<Longrightarrow> l_ending l x \<Longrightarrow>
     link_step l (l\<lparr>l_session := (l_session l)(x := if in_init s then Some s else None), l_ending := (l_ending l)(x := False)\<rparr>)"
| link_clean: "link_step l (l\<lparr>l_session := (l_session l)(x := None)\<rparr>)"

text \<open>The session an end still works with.\<close>

definition live :: "link \<Rightarrow> bool \<Rightarrow> tcp_session option" where
  "live l x = (if l_ending l x then None else l_session l x)"

definition fresh_session :: "tcp_session \<Rightarrow> bool" where
  "fresh_session s \<longleftrightarrow> session_ok s \<and> \<not> in_init s \<and> state s = tcp_established \<and> unacked s = [] \<and> unacked_size s = 0 \<and>
     \<not> flag_fin_when_all_received s"

text \<open>Two sessions that were just established with each other.\<close>

definition link_new :: "tcp_session \<Rightarrow> tcp_session \<Rightarrow> link" where
  "link_new s t = \<lparr>l_session = (\<lambda>x. Some (if x then t else s)), l_ending = (\<lambda>_. False), l_late = False,
     l_calls = (\<lambda>_. []), l_stored = (\<lambda>_. []), l_got = (\<lambda>_. []), l_net = (\<lambda>_. [])\<rparr>"

definition is_est :: "tcp_session option \<Rightarrow> bool" where
  "is_est so \<longleftrightarrow> (\<exists>s. so = Some s \<and> state s = tcp_established)"

definition end_inv :: "(bool \<Rightarrow> u32) \<Rightarrow> link \<Rightarrow> bool \<Rightarrow> bool" where
  "end_inv base l x \<longleftrightarrow>
     length (l_got l x) \<le> length (l_stored l (\<not> x)) \<and> l_got l x = take (length (l_got l x)) (l_stored l (\<not> x)) \<and>
     (\<forall>s. live l x = Some s \<longrightarrow>
        sender_inv (base x) (l_stored l x) (length (l_got l (\<not> x))) s \<and>
        their_seq_nr s = base (\<not> x) + of_nat (length (l_got l x)) \<and>
        (flag_fin_when_all_received s \<longrightarrow> \<not> is_est (live l (\<not> x)))) \<and>
     (\<forall>out\<in>set (l_net l x). seg_ok (base x) (l_stored l x) (base (\<not> x)) (length (l_got l x))
        (is_est (live l x)) (is_est (live l (\<not> x))) out)"

text \<open>
  A step of one end: what has to be shown of it, when the peer stays as it is.
\<close>

lemma link_step_inv:
  assumes i: "end_inv base l x" "end_inv base l (\<not> x)"
    and so: "\<And>s. so = Some s \<Longrightarrow> sender_inv (base x) (l_stored l x @ g) (length (l_got l (\<not> x))) s \<and>
        their_seq_nr s = base (\<not> x) + of_nat (length (l_got l x @ d)) \<and>
        (flag_fin_when_all_received s \<longrightarrow> \<not> is_est (live l (\<not> x)))"
    and est: "is_est so \<Longrightarrow> is_est (live l x)"
    and d: "length (l_got l x @ d) \<le> length (l_stored l (\<not> x))" "l_got l x @ d = take (length (l_got l x @ d)) (l_stored l (\<not> x))"
    and outs: "\<forall>out\<in>set outs. seg_ok (base x) (l_stored l x @ g) (base (\<not> x)) (length (l_got l x @ d)) (is_est so) (is_est (live l (\<not> x))) out"
    and l': "live l' = (live l)(x := so)" "l_stored l' = (l_stored l)(x := l_stored l x @ g)"
      "l_got l' = (l_got l)(x := l_got l x @ d)" "l_net l' = (l_net l)(x := l_net l x @ outs)"
  shows "end_inv base l' x \<and> end_inv base l' (\<not> x)"
proof
  have "seg_ok (base x) (l_stored l x @ g) (base (\<not> x)) (length (l_got l x @ d)) (is_est so) (is_est (live l (\<not> x))) out"
    if "out \<in> set (l_net l x)" for out
  proof (rule seg_ok_mono)
    show "seg_ok (base x) (l_stored l x) (base (\<not> x)) (length (l_got l x)) (is_est (live l x)) (is_est (live l (\<not> x))) out"
      using i(1) that by (simp add: end_inv_def)
  qed (use est in auto)
  with so d outs show "end_inv base l' x" by (auto simp: end_inv_def l')
next
  have "seg_ok (base (\<not> x)) (l_stored l (\<not> x)) (base x) (length (l_got l (\<not> x))) (is_est (live l (\<not> x))) (is_est so) out"
    if "out \<in> set (l_net l (\<not> x))" for out
  proof -
    have "seg_ok (base (\<not> x)) (l_stored l (\<not> x)) (base x) (length (l_got l (\<not> x))) (is_est (live l (\<not> x))) (is_est (live l x)) out"
      using i(2) that by (simp add: end_inv_def)
    from seg_ok_mono [OF this, of "length (l_got l (\<not> x))" _ "is_est so" "[]"] est show ?thesis by simp
  qed
  moreover have "sender_inv (base (\<not> x)) (l_stored l (\<not> x)) (length (l_got l x @ d)) s" if "live l (\<not> x) = Some s" for s
    using i(2) that by (auto simp: end_inv_def intro: sender_inv_mono)
  moreover have "\<not> is_est so" if "live l (\<not> x) = Some s" "flag_fin_when_all_received s" for s
    using i(2) that est by (auto simp: end_inv_def)
  ultimately show "end_inv base l' (\<not> x)"
    using i(2) by (auto simp: end_inv_def l')
qed

definition link_ok :: "(bool \<Rightarrow> u32) \<Rightarrow> link \<Rightarrow> bool" where
  "link_ok base l \<longleftrightarrow> end_inv base l False \<and> end_inv base l True"

lemma link_ok_ends: "link_ok base l \<longleftrightarrow> end_inv base l x \<and> end_inv base l (\<not> x)"
  by (cases x) (auto simp: link_ok_def)

definition link_limit :: "(bool \<Rightarrow> u32) \<Rightarrow> link \<Rightarrow> bool" where
  "link_limit base l \<longleftrightarrow> stream_limit (base False) (l_stored l False) \<and> stream_limit (base True) (l_stored l True)"

lemma link_limitD: "link_limit base l \<Longrightarrow> stream_limit (base x) (l_stored l x)"
  by (cases x) (auto simp: link_limit_def)

lemma link_step_given: "link_step l l' \<Longrightarrow> \<exists>g. l_stored l' x = l_stored l x @ g"
  by (induction rule: link_step.induct) auto

lemma link_step_limit:
  assumes "link_step l l'" and "link_limit base l'"
  shows "link_limit base l"
proof -
  have "stream_limit (base x) (l_stored l x)" for x
    using link_step_given [OF assms(1), of x] link_limitD [OF assms(2), of x] by (auto simp: stream_limit_def)
  then show ?thesis by (simp add: link_limit_def)
qed

lemma end_inv_session:
  assumes "end_inv base l x" and "live l x = Some s"
  shows "sender_inv (base x) (l_stored l x) (length (l_got l (\<not> x))) s" "their_seq_nr s = base (\<not> x) + of_nat (length (l_got l x))"
    "flag_fin_when_all_received s \<longrightarrow> \<not> is_est (live l (\<not> x))" "is_est (live l x) = (state s = tcp_established)"
  using assms by (auto simp: end_inv_def is_est_def)

lemma is_est_Some [simp]: "is_est (Some s) = (state s = tcp_established)" "\<not> is_est None"
  by (auto simp: is_est_def)

lemma live_simps [simp]:
  "live (l\<lparr>l_late := b, l_net := n\<rparr>) = live l" "live (l\<lparr>l_calls := c\<rparr>) = live l"
  by (simp_all add: live_def fun_eq_iff)

lemma live_session: "l_session l x = Some s \<Longrightarrow> \<not> l_ending l x \<Longrightarrow> live l x = Some s"
  by (simp add: live_def)

text \<open>A session is not in its initialisation once it is established.\<close>

definition link_init :: "link \<Rightarrow> bool" where
  "link_init l \<longleftrightarrow> (\<forall>x s. l_session l x = Some s \<longrightarrow> \<not> in_init s)"

lemma link_step_init:
  assumes "link_step l l'" and "link_init l"
  shows "link_init l'"
  using assms(1)
proof cases
  case (link_send x s d s')
  then have "in_init s' = in_init s" by (auto simp: send_data_def split: if_splits)
  with link_send assms(2) show ?thesis by (auto simp: link_init_def)
next
  case (link_end x s env outs s')
  then have "in_init s' = in_init s" using end_session_ident [of env s outs s'] by (simp add: ident_def)
  with link_end assms(2) show ?thesis by (auto simp: link_init_def)
next
  case (link_unacked x s env rc outs s')
  then have "in_init s' = in_init s" using unacked_round_ident [of env rc s outs s'] by (simp add: ident_def)
  with link_unacked assms(2) show ?thesis by (auto simp: link_init_def)
next
  case (link_deliver x s out env answer cb w)
  then have "in_init (w_session w) = in_init s" using handle_segment_ident [of env answer cb "is_payload out" s w] by (simp add: ident_def)
  with link_deliver assms(2) show ?thesis by (auto simp: link_init_def)
qed (use assms(2) in \<open>auto simp: link_init_def\<close>)

text \<open>Each kind of step keeps the invariant.\<close>

lemma link_deliver_ok:
  assumes ok: "link_ok base l" and s: "live l x = Some s" and out: "out \<in> set (l_net l (\<not> x))"
    and w: "handle_segment env answer cb (is_payload out) s = Inr w" and lim: "link_limit base l"
    and l': "live l' = (live l)(x := if w_delete_entry w then None else Some (w_session w))" "l_stored l' = l_stored l"
      "l_got l' = (l_got l)(x := l_got l x @ delivered (w_calls w))" "l_net l' = (l_net l)(x := l_net l x @ w_out w)"
  shows "link_ok base l'"
proof -
  have e: "end_inv base l x" "end_inv base l (\<not> x)" using ok link_ok_ends by auto
  note S = end_inv_session [OF e(1) s]
  let ?n = "length (l_got l x)" and ?d = "delivered (w_calls w)"
  let ?peer = "is_est (live l (\<not> x))" and ?so = "if w_delete_entry w then None else Some (w_session w)"
  have lens: "length (l_got l (\<not> x)) \<le> length (l_stored l x)" "?n \<le> length (l_stored l (\<not> x))"
    "l_got l x = take ?n (l_stored l (\<not> x))"
    using e by (auto simp: end_inv_def)
  have "seg_ok (base (\<not> x)) (l_stored l (\<not> x)) (base x) (length (l_got l (\<not> x))) ?peer (state s = tcp_established) out"
    using e(2) out S(4) by (simp add: end_inv_def)
  from handle_segment_inv [OF w S(1-3) this link_limitD [OF lim] link_limitD [OF lim] lens(1,2)]
  have r: "result_inv (base x) (l_stored l x) (length (l_got l (\<not> x))) (base (\<not> x)) (?n + length ?d) ?peer w"
    and d: "?n + length ?d \<le> length (l_stored l (\<not> x))" "?d = take (length ?d) (drop ?n (l_stored l (\<not> x)))" by auto
  have g: "l_got l x @ ?d = take (?n + length ?d) (l_stored l (\<not> x))"
    using lens(3) d(2) by (metis take_add)
  have st: "state (w_session w) = tcp_established \<Longrightarrow> \<not> w_delete_entry w \<Longrightarrow> state s = tcp_established"
    using handle_segment_established [OF w] S(1) by (auto simp: sender_inv_def)
  have "end_inv base l' x \<and> end_inv base l' (\<not> x)"
    by (rule link_step_inv [OF e, where so = ?so and g = "[]" and d = ?d and outs = "w_out w"])
      (use r d g st S(4) l' in \<open>auto simp: result_inv_def split: if_splits\<close>)
  then show ?thesis using link_ok_ends by blast
qed

lemma link_step_ok:
  assumes "link_step l l'" and "link_ok base l" and "link_limit base l'" and "\<not> l_late l'" and "link_init l"
  shows "link_ok base l'"
proof -
  have lim: "link_limit base l" using link_step_limit [OF assms(1,3)] .
  have len: "length (l_stored l x) < 2 ^ 31" for x using link_limitD [OF lim, of x] by (simp add: stream_limit_def)
  have e: "end_inv base l x" "end_inv base l (\<not> x)" for x using assms(2) link_ok_ends by auto
  have got: "length (l_got l x) \<le> length (l_stored l (\<not> x))" "l_got l x = take (length (l_got l x)) (l_stored l (\<not> x))" for x
    using e(1) [of x] by (auto simp: end_inv_def)
  have gone: "link_ok base l'" if "live l' = (live l)(x := None)" "l_stored l' = (l_stored l)(x := l_stored l x @ g)"
    "l_got l' = l_got l" "l_net l' = l_net l" for x g
  proof -
    have "end_inv base l' x \<and> end_inv base l' (\<not> x)"
      by (rule link_step_inv [OF e, where so = None and g = g and d = "[]" and outs = "[]"]) (use got [of x] that in auto)
    then show ?thesis using link_ok_ends by blast
  qed
  from assms(1) show ?thesis
  proof cases
    case (link_send x s d s')
    show ?thesis
    proof (cases "l_ending l x")
      case True
      with link_send show ?thesis by (intro gone [of x "if accepts s then d else []"]) (auto simp: live_def fun_eq_iff)
    next
      case False
      note S = end_inv_session [OF e(1) live_session [OF link_send(2) False]] and D = send_data_inv [OF link_send(3)]
      have "end_inv base l' x \<and> end_inv base l' (\<not> x)"
        by (rule link_step_inv [OF e, where so = "Some s'" and g = "if accepts s then d else []" and d = "[]" and outs = "[]"])
          (use D [OF S(1) len] S got [of x] link_send False in \<open>auto simp: live_def fun_eq_iff\<close>)
      then show ?thesis using link_ok_ends by blast
    qed
  next
    case (link_send_gone x d)
    with assms(2) show ?thesis by (simp add: link_ok_def end_inv_def)
  next
    case (link_end x s env outs s')
    then have live: "\<not> l_ending l x" using assms(4) by simp
    note S = end_inv_session [OF e(1) live_session [OF link_end(2) live]]
    note D = end_session_inv [OF link_end(3) S(1) len S(2)]
    have "end_inv base l' x \<and> end_inv base l' (\<not> x)"
      by (rule link_step_inv [OF e, where so = "Some s'" and g = "[]" and d = "[]" and outs = outs])
        (use D S got [of x] link_end live in \<open>auto simp: live_def fun_eq_iff\<close>)
    then show ?thesis using link_ok_ends by blast
  next
    case (link_unacked x s env rc outs s')
    then have live: "\<not> l_ending l x" using assms(4) by simp
    note S = end_inv_session [OF e(1) live_session [OF link_unacked(2) live]]
    note D = unacked_round_inv [OF link_unacked(3) S(1) S(2)]
    have "end_inv base l' x \<and> end_inv base l' (\<not> x)"
      by (rule link_step_inv [OF e, where so = "Some s'" and g = "[]" and d = "[]" and outs = outs])
        (use D S got [of x] link_unacked live in \<open>auto simp: live_def fun_eq_iff\<close>)
    then show ?thesis using link_ok_ends by blast
  next
    case (link_deliver x s out env answer cb w)
    then have live: "\<not> l_ending l x" using assms(4) by simp
    show ?thesis
      by (rule link_deliver_ok [OF assms(2) live_session [OF link_deliver(2) live] link_deliver(3,4) lim])
        (use link_deliver live in \<open>auto simp: live_def fun_eq_iff\<close>)
  next
    case (link_remove x s)
    with assms(5) show ?thesis by (intro gone [of x "[]"]) (auto simp: live_def fun_eq_iff link_init_def)
  next
    case (link_clean x)
    then show ?thesis by (intro gone [of x "[]"]) (auto simp: live_def fun_eq_iff)
  qed
qed

lemma link_new_ok:
  assumes "fresh_session s" and "fresh_session t" and "my_seq_nr s = their_seq_nr t" and "my_seq_nr t = their_seq_nr s"
  shows "link_ok (\<lambda>x. my_seq_nr (if x then t else s)) (link_new s t)"
proof -
  have "sender_inv (my_seq_nr u) [] 0 u" if "fresh_session u" for u
    using that by (intro sender_invI [where k = 0]) (auto simp: fresh_session_def)
  from this [OF assms(1)] this [OF assms(2)] assms show ?thesis
    by (simp add: link_ok_def end_inv_def link_new_def fresh_session_def live_def)
qed

text \<open>The next segment of the stream is handed over and acknowledged.\<close>

lemma handle_segment_in_order:
  assumes "fresh_session s" and "seg_out FLAG_ACK ack (their_seq_nr s) d out" and "d \<noteq> []"
    and "ph_new_data h" and "\<And>c. answer c"
  shows "\<exists>w. handle_segment env answer (Some h) (is_payload out) s = Inr w \<and> delivered (w_calls w) = d \<and> \<not> w_delete_entry w \<and>
    their_seq_nr (w_session w) = their_seq_nr s + of_nat (length d) \<and> \<not> w_fail w"
proof -
  let ?p = "is_payload out" and ?f = "tcp_parse (is_payload out)"
  obtain sp dp c us T0 where p: "?p = tcp_octets sp dp (their_seq_nr s) ack FLAG_ACK c us T0 d" using assms(2) unfolding seg_out_def by blast
  note f = tcp_octets_fields [OF p]
  let ?w = "work_new (touch env ?f s) False"
  have hs: "seg_header_size ?f = 32" "seg_seq ?f = their_seq_nr s" "seg_flags ?f = FLAG_ACK" by (simp_all add: f(1))
  let ?w1 = "on_session (\<lambda>s. s\<lparr>data_since_last_ack := 0\<rparr>) (?w\<lparr>w_notify_unacked_cv := True\<rparr>)"
  have fr: "state (touch env ?f s) = tcp_established" "unacked_size (touch env ?f s) = 0" "\<not> flag_fin_when_all_received (touch env ?f s)"
    "their_seq_nr (touch env ?f s) = their_seq_nr s" "session_ok (touch env ?f s)"
    using assms(1) by (simp_all add: fresh_session_def touch_def)
  have w1: "on_flags env answer (Some h) ?f T ?w = Inr ?w1" for T
    using fr by (simp add: on_flags_def on_rst_def on_syn_def on_ack_def on_ack_established_def on_fin_def fin_when_all_received_def
      hs work_new_def Let_def)
  let ?call = "New_data (sess_id (w_session ?w1)) d"
  let ?w2 = "on_session (\<lambda>s. s\<lparr>their_seq_nr := their_seq_nr s + of_nat (length d)\<rparr>)
     (?w1\<lparr>w_calls := [?call], w_fail := False\<rparr>)"
  have ok: "session_ok (w_session ?w2)" using fr(5) by (simp add: work_new_def)
  obtain w3 where w3: "reply env FLAG_ACK (their_seq_nr (w_session ?w2)) us ?w2 = Inr w3" using reply_defined [OF ok] by blast
  note e = reply_effect [OF w3]
  have "on_payload env answer (Some h) ?f d us ?w1 = Inr w3"
    using w3 fr assms(3-5) by (simp add: on_payload_def work_new_def hs Let_def)
  moreover have "w_fail w3 = False" "w_delete_entry w3 = False" "delivered (w_calls w3) = d"
    "their_seq_nr (w_session w3) = their_seq_nr s + of_nat (length d)"
    using e fr(4) by (auto simp: work_new_def)
  ultimately have "handle_segment env answer (Some h) ?p s = Inr w3"
    using f(2,3) f(4) [of True] w1 by (simp add: handle_segment_def hs Let_def on_fail_def)
  with \<open>w_fail w3 = False\<close> \<open>w_delete_entry w3 = False\<close> \<open>delivered (w_calls w3) = d\<close>
    \<open>their_seq_nr (w_session w3) = their_seq_nr s + of_nat (length d)\<close> show ?thesis by blast
qed

lemma link_steps_limit: "link_step\<^sup>*\<^sup>* l l' \<Longrightarrow> link_limit base l' \<Longrightarrow> link_limit base l"
  by (induction rule: rtranclp_induct) (auto intro: link_step_limit)

lemma link_step_late: "link_step l l' \<Longrightarrow> l_late l \<Longrightarrow> l_late l'"
  by (induction rule: link_step.induct) auto

lemma link_steps_ok:
  assumes "link_step\<^sup>*\<^sup>* l l'" and "link_ok base l" and "link_init l" and "link_limit base l'" and "\<not> l_late l'"
  shows "link_ok base l' \<and> link_init l'"
  using assms
  by (induction rule: rtranclp_induct) (auto intro: link_step_ok link_step_limit link_step_init dest: link_step_late)

text \<open>
  The octets stored are those of the calls that were not dropped.
\<close>

definition given :: "(byte list \<times> bool) list \<Rightarrow> byte list" where
  "given cs = concat (map fst cs)"

definition kept :: "(byte list \<times> bool) list \<Rightarrow> byte list" where
  "kept cs = given (filter snd cs)"

lemma kept_all: "\<forall>c\<in>set cs. snd c \<Longrightarrow> kept cs = given cs"
  by (simp add: kept_def)

lemma link_step_kept: "link_step l l' \<Longrightarrow> \<forall>x. l_stored l x = kept (l_calls l x) \<Longrightarrow> \<forall>x. l_stored l' x = kept (l_calls l' x)"
  by (induction rule: link_step.induct) (auto simp: kept_def given_def)

lemma link_steps_kept: "link_step\<^sup>*\<^sup>* (link_new s t) l \<Longrightarrow> \<forall>x. l_stored l x = kept (l_calls l x)"
  by (induction rule: rtranclp_induct) (simp add: link_new_def kept_def given_def, blast dest: link_step_kept)

text \<open>What an application has been handed is what the other session has stored, up to some point.\<close>

lemma link_prefix:
  assumes "fresh_session s" "fresh_session t" "my_seq_nr s = their_seq_nr t" "my_seq_nr t = their_seq_nr s"
    and "link_step\<^sup>*\<^sup>* (link_new s t) l" "link_limit (\<lambda>x. my_seq_nr (if x then t else s)) l" "\<not> l_late l"
  shows "end_inv (\<lambda>x. my_seq_nr (if x then t else s)) l x" "prefix (l_got l x) (kept (l_calls l (\<not> x)))"
proof -
  have "link_init (link_new s t)" using assms(1,2) by (simp add: link_init_def link_new_def fresh_session_def)
  with link_steps_ok [OF assms(5) link_new_ok [OF assms(1-4)] _ assms(6,7)]
  show e: "end_inv (\<lambda>x. my_seq_nr (if x then t else s)) l x" using link_ok_ends by blast
  have "l_stored l (\<not> x) = kept (l_calls l (\<not> x))" using link_steps_kept [OF assms(5)] by simp
  then show "prefix (l_got l x) (kept (l_calls l (\<not> x)))"
    using e unfolding end_inv_def by (metis take_is_prefix)
qed

text \<open>
  C1. TCP delivers the stream: whatever the network does with the segments between two established
  sessions (drop, repeat, reorder, delay), whenever the applications send, the sender thread runs,
  the sessions are ended or cleaned up, what an application has been handed is a prefix of the
  octets of the calls of send_data of the other one that were stored, in the order of the calls; when no call found 1 MB
  waiting or the session not established (such a call returns true too, and its octets are
  dropped) it is a prefix of everything given to send_data.  What a session has dropped from its
  buffer as acknowledged has been handed to the other application.  The streams are shorter than
  2 GB and their sequence numbers do not wrap, and no thread works on a session between the
  handling of the segment that ends it and its removal from the table, which are two lock regions
  of the handler.
\<close>

theorem tcp_stream:
  assumes "fresh_session s" and "fresh_session t" and "my_seq_nr s = their_seq_nr t" and "my_seq_nr t = their_seq_nr s"
    and "link_step\<^sup>*\<^sup>* (link_new s t) l" and "link_limit (\<lambda>x. my_seq_nr (if x then t else s)) l" and "\<not> l_late l"
  shows "prefix (l_got l x) (kept (l_calls l (\<not> x))) \<and>
    ((\<forall>c\<in>set (l_calls l (\<not> x)). snd c) \<longrightarrow> prefix (l_got l x) (given (l_calls l (\<not> x)))) \<and>
    (\<forall>u. l_session l x = Some u \<longrightarrow> \<not> l_ending l x \<longrightarrow>
       (\<exists>k. k \<le> length (l_got l (\<not> x)) \<and> unacked u = drop k (kept (l_calls l x))))"
proof -
  note e = link_prefix(1) [OF assms, of x]
  have st: "l_stored l x = kept (l_calls l x)" using link_steps_kept [OF assms(5)] by simp
  have "\<exists>k. k \<le> length (l_got l (\<not> x)) \<and> unacked u = drop k (kept (l_calls l x))" if "l_session l x = Some u" "\<not> l_ending l x" for u
    using end_inv_session(1) [OF e live_session [OF that]] unfolding sender_inv_def st by blast
  then show ?thesis using link_prefix(2) [OF assms, of x] kept_all by metis
qed

definition example_session :: "nat \<Rightarrow> tcp_session" where
  "example_session n =
     (let a = Addr AF_ipv4 [10, 0, 0, 1]; b = Addr AF_ipv4 [10, 0, 0, 2] in
      (if n = 0 then tcp_session_new a 80 b 4000 else tcp_session_new b 4000 a 80)
        \<lparr>state := tcp_established, my_seq_nr := (if n = 0 then 100 else 900), their_seq_nr := (if n = 0 then 900 else 100)\<rparr>)"

definition example_env :: tcp_env where
  "example_env = \<lparr>env_idev = True, env_now = 5000000, env_time = 7, env_mtu = 100\<rparr>"

definition example_handler :: port_handler where
  "example_handler = \<lparr>ph_init = False, ph_new_session = True, ph_new_data = True, ph_session_closed_1 = True, ph_session_closed_2 = True\<rparr>"

lemma example_fresh:
  "fresh_session (example_session 0)" "fresh_session (example_session 1)"
  "my_seq_nr (example_session 0) = their_seq_nr (example_session 1)" "my_seq_nr (example_session 1) = their_seq_nr (example_session 0)"
  by (simp_all add: fresh_session_def session_ok_def wf_addr_def example_session_def Let_def tcp_session_new_def)

text \<open>The sender thread sends three octets in one segment.\<close>

lemma example_round:
  assumes "send_data [a, b, c] (example_session 0) = Some s"
  shows "\<exists>out s'. unacked_round example_env (\<lambda>_. True) s = Inr ([out], s') \<and> seg_out FLAG_ACK 900 100 [a, b, c] out"
proof -
  have s: "s = (example_session 0)\<lparr>unacked_start_seq_nr := 100, unacked := [a, b, c], unacked_size := 3, r_last_pkt_ts := 0\<rparr>"
    using assms by (auto simp: send_data_def example_session_def Let_def tcp_session_new_def)
  have n: "to_send s = 3"
    unfolding s by code_simp
  obtain out seq' s1 where o: "send_from example_env (my_addr s) (my_port s) (their_addr s) (their_port s) FLAG_ACK (their_seq_nr s)
      (Some (my_seq_nr s)) [a, b, c] 0 s = Inr (out, seq', s1)"
    using send_from_defined [of "my_addr s" "their_addr s" example_env "my_port s" "their_port s" FLAG_ACK "their_seq_nr s"
      "Some (my_seq_nr s)" "[a, b, c]" 0 s] example_fresh(1) by (auto simp: s fresh_session_def session_ok_def)
  have one: "length out = 1" using o by (auto simp: send_from_def example_env_def)
  have l: "unacked_loop example_env (\<lambda>_. True) 68 3 0 (my_seq_nr s) s = Inr (out, s1\<lparr>data_since_last_ack := data_since_last_ack s1 + 3\<rparr>)"
    using o by (subst unacked_loop.simps) (simp add: octets_at_def s Let_def unacked_loop.simps [of _ _ _ 3 68])
  have "unacked_round example_env (\<lambda>_. True) s = Inr (out, s1\<lparr>data_since_last_ack := data_since_last_ack s1 + 3, r_last_pkt_ts := 5000000\<rparr>)"
    using n l by (simp add: unacked_round_def example_env_def s Let_def)
  moreover from one obtain x where "out = [x]" by (cases out) auto
  moreover have "\<forall>x\<in>set out. seg_out FLAG_ACK 900 100 [a, b, c] x"
    using send_from_effect(3) [OF o] by (simp add: s example_session_def Let_def tcp_session_new_def)
  ultimately show ?thesis by auto
qed

lemma example_link:
  "\<exists>l. link_step\<^sup>*\<^sup>* (link_new (example_session 0) (example_session 1)) l \<and> l_got l True = [a, b, c] \<and> l_calls l False = [([a, b, c], True)] \<and> \<not> l_late l \<and>
     link_limit (\<lambda>x. my_seq_nr (if x then example_session 1 else example_session 0)) l"
proof -
  let ?l0 = "link_new (example_session 0) (example_session 1)"
  have acc: "accepts (example_session 0)" by (simp add: accepts_def example_session_def Let_def tcp_session_new_def)
  then obtain s1 where s1: "send_data [a, b, c] (example_session 0) = Some s1" by (auto simp: send_data_def accepts_def)
  obtain out s2 where r: "unacked_round example_env (\<lambda>_. True) s1 = Inr ([out], s2)" and o: "seg_out FLAG_ACK 900 100 [a, b, c] out"
    using example_round [OF s1] by blast
  have "their_seq_nr (example_session 1) = 100" by (simp add: example_session_def Let_def)
  with handle_segment_in_order [OF example_fresh(2), of 900 "[a, b, c]" out example_handler "\<lambda>_. True" example_env] o
  obtain w where w: "handle_segment example_env (\<lambda>_. True) (Some example_handler) (is_payload out) (example_session 1) = Inr w"
    and d: "delivered (w_calls w) = [a, b, c]" by (auto simp: example_handler_def)
  define l1 where "l1 = ?l0\<lparr>l_session := (l_session ?l0)(False := Some s1), l_calls := (l_calls ?l0)(False := [([a, b, c], True)]), l_stored := (l_stored ?l0)(False := [a, b, c])\<rparr>"
  define l2 where "l2 = l1\<lparr>l_session := (l_session l1)(False := Some s2), l_late := False, l_net := (l_net l1)(False := [out])\<rparr>"
  define l3 where "l3 = l2\<lparr>l_session := (l_session l2)(True := Some (w_session w)), l_ending := (l_ending l2)(True := w_delete_entry w), l_late := False,
    l_got := (l_got l2)(True := l_got l2 True @ delivered (w_calls w)), l_net := (l_net l2)(True := l_net l2 True @ w_out w)\<rparr>"
  have "link_step ?l0 l1" using link_send [of ?l0 False "example_session 0" "[a, b, c]" s1] s1 acc by (simp add: link_new_def l1_def)
  moreover have "link_step l1 l2"
    using link_unacked [of l1 False s1 example_env "\<lambda>_. True" "[out]" s2] r by (simp add: l2_def l1_def link_new_def)
  moreover have "link_step l2 l3"
    using link_deliver [of l2 True "example_session 1" out] w by (simp add: l3_def l2_def l1_def link_new_def)
  ultimately have run: "link_step\<^sup>*\<^sup>* ?l0 l3" by (meson r_into_rtranclp rtranclp.rtrancl_into_rtrancl)
  moreover have "link_limit (\<lambda>x. my_seq_nr (if x then example_session 1 else example_session 0)) l3"
    by (simp add: link_limit_def stream_limit_def l3_def l2_def l1_def link_new_def example_session_def Let_def tcp_session_new_def)
  moreover have "l_got l3 True = [a, b, c]" "l_calls l3 False = [([a, b, c], True)]" "\<not> l_late l3" by (simp_all add: l3_def l2_def l1_def link_new_def d)
  ultimately show ?thesis by blast
qed

theorem tcp_stream_witness:
  "\<exists>l. link_step\<^sup>*\<^sup>* (link_new (example_session 0) (example_session 1)) l \<and> l_got l True = [1, 2, 3] \<and>
     prefix (l_got l True) (given (l_calls l False))"
proof -
  obtain l where l: "link_step\<^sup>*\<^sup>* (link_new (example_session 0) (example_session 1)) l" "l_got l True = [1, 2, 3]"
    "link_limit (\<lambda>x. my_seq_nr (if x then example_session 1 else example_session 0)) l"
    "l_calls l False = [([1, 2, 3], True)]" "\<not> l_late l"
    using example_link [of 1 2 3] by blast
  from tcp_stream [OF example_fresh l(1,3,5), of True] l(1,2,4) show ?thesis by auto
qed

end
