(* ===== verification/Tcp.thy ===== *)
theory Tcp
  imports Tcp_Stream
begin

text \<open>
  The class \<open>tcp\<close> of \<^verbatim>\<open>src/tcp.cpp\<close>: the table of sessions, the listeners, the client ports and
  the queue of ending sessions.  A method that takes the locks several times is a sequence of
  steps, one for each time it holds them; \<open>packet_handler\<close> composes its steps.  Calls of the
  applications are recorded, \<open>answer\<close> are their results.
\<close>

unbundle bit_operations_syntax

section \<open>Steps that can block\<close>

definition obind :: "('a, 'f) outcome res \<Rightarrow> ('a \<Rightarrow> 'f \<Rightarrow> ('b, 'f) outcome res) \<Rightarrow> ('b, 'f) outcome res" where
  "obind m k = rbind m (\<lambda>r. case r of Blocks f \<Rightarrow> Inr (Blocks f) | Done a f \<Rightarrow> k a f)"

lemma obind_simps [simp]:
  "obind (Inl e) k = Inl e" "obind (Inr (Blocks f)) k = Inr (Blocks f)" "obind (Inr (Done a f)) k = k a f"
  by (simp_all add: obind_def)

lemma obind_eq_Inr [simp]:
  "obind m k = Inr r \<longleftrightarrow> (\<exists>f. m = Inr (Blocks f) \<and> r = Blocks f) \<or> (\<exists>a f. m = Inr (Done a f) \<and> k a f = Inr r)"
  by (cases m; cases "projr m") (auto simp: obind_def)

text \<open>The state an outcome leaves.\<close>

fun outcome_state :: "('r, 'f) outcome \<Rightarrow> 'f" where
  "outcome_state (Blocks f) = f"
| "outcome_state (Done r f) = f"

section \<open>State\<close>

record tcp =
  sessions :: "(u64, tcp_session) std_map"
  listeners :: "int \<rightharpoonup> port_handler"
  tcp_clients :: "int \<rightharpoonup> u64"
  ending_sessions :: "tcp_session fifo"
  tcp_packets :: u64
  tcp_errors :: u64
  tcp_succ_estab :: u64
  tcp_syn :: u64
  tcp_new_sessions :: u64
  tcp_sessions_rem :: u64
  tcp_sessions_to :: u64
  tcp_cur_n_sessions :: u64

definition tcp_new :: tcp where
  "tcp_new = \<lparr>sessions = [], listeners = Map.empty, tcp_clients = Map.empty,
     ending_sessions = fifo_new (tcp_session_new (Addr AF_mac []) 0 (Addr AF_mac []) 0) 256,
     tcp_packets = 0, tcp_errors = 0, tcp_succ_estab = 0, tcp_syn = 0, tcp_new_sessions = 0, tcp_sessions_rem = 0,
     tcp_sessions_to = 0, tcp_cur_n_sessions = 0\<rparr>"

definition set_cur_n :: "tcp \<Rightarrow> tcp" where
  "set_cur_n t = t\<lparr>tcp_cur_n_sessions := of_nat (length (sessions t))\<rparr>"

text \<open>\<open>insert\<close> keeps a handler that is there.\<close>

definition tcp_add_handler :: "int \<Rightarrow> port_handler \<Rightarrow> tcp \<Rightarrow> app_call list \<times> tcp" where
  "tcp_add_handler port tph t =
     (if ph_init tph then [Init port] else [],
      case listeners t port of None \<Rightarrow> t\<lparr>listeners := (listeners t)(port \<mapsto> tph)\<rparr> | Some _ \<Rightarrow> t)"

section \<open>Incoming packets\<close>

definition rst_for_port :: "tcp_env \<Rightarrow> packet \<Rightarrow> u16 \<Rightarrow> u16 \<Rightarrow> ip_send list res" where
  "rst_for_port env pkt dst_port src_port =
     (if env_idev env then rbind (send_rst_for_port pkt dst_port src_port) (\<lambda>out. Inr [out]) else Inr [])"

definition pkt_id :: "packet \<Rightarrow> u64" where
  "pkt_id pkt = (let f = tcp_parse (pk_data pkt) in hash_address (pk_src_addr pkt) (seg_dst_port f) (seg_src_port f))"

text \<open>The session of a peer that asks for one.\<close>

definition new_session :: "u32 \<Rightarrow> packet \<Rightarrow> tcp_session" where
  "new_session rnd pkt =
     (let f = tcp_parse (pk_data pkt) in
      (tcp_session_new (pk_dst_addr pkt) (seg_dst_port f) (pk_src_addr pkt) (seg_src_port f))
        \<lparr>state := tcp_listen, my_seq_nr := rnd, initial_my_seq_nr := rnd, initial_their_seq_nr := seg_seq f,
         their_seq_nr := seg_seq f + 1, sess_id := pkt_id pkt, window_size := of_nat (seg_win_size f)\<rparr>)"

text \<open>
  The first part of \<open>packet_handler\<close>, under the lock of the sessions: a SYN needs a listener and
  a free place, and makes a session if there is none.  The second part of the result tells
  whether the handler goes on.
\<close>

definition syn_phase :: "tcp_env \<Rightarrow> u32 \<Rightarrow> packet \<Rightarrow> tcp \<Rightarrow> (ip_send list \<times> bool \<times> tcp) res" where
  "syn_phase env rnd pkt t =
     (let f = tcp_parse (pk_data pkt); key = pkt_id pkt in
      if has_flag (seg_flags f) FLAG_SYN then
        if listeners t (uint (seg_dst_port f)) = None then
          rbind (rst_for_port env pkt (seg_dst_port f) (seg_src_port f)) (\<lambda>outs. Inr (outs, False, t))
        else if 128 \<le> length (sessions t) then Inr ([], False, t)
        else if map_of (sessions t) key = None then
          Inr ([], True, set_cur_n (t\<lparr>sessions := map_insert key (new_session rnd pkt) (sessions t),
            tcp_new_sessions := tcp_new_sessions t + 1\<rparr>))
        else Inr ([], True, t)
      else Inr ([], True, t))"

text \<open>
  The second part, under the lock of the session: the segment is handled, or refused when there is no
  session.  \<open>None\<close> ends the handler; otherwise the flags \<open>delete_entry\<close> and \<open>notify_unacked_cv\<close>.
\<close>

definition main_phase :: "tcp_env \<Rightarrow> (app_call \<Rightarrow> bool) \<Rightarrow> packet \<Rightarrow> tcp \<Rightarrow>
    (ip_send list \<times> app_call list \<times> (bool \<times> bool) option \<times> tcp) res" where
  "main_phase env answer pkt t =
     (let f = tcp_parse (pk_data pkt); key = pkt_id pkt in
      case map_of (sessions t) key of
        None \<Rightarrow>
          rbind (rst_for_port env pkt (seg_dst_port f) (seg_src_port f)) (\<lambda>outs.
          Inr (outs, [], None, t\<lparr>tcp_errors := tcp_errors t + 1\<rparr>))
      | Some s \<Rightarrow>
          rbind (handle_segment env answer (listeners t (uint (seg_dst_port f))) (pk_data pkt) s) (\<lambda>w.
          Inr (w_out w, w_calls w, Some (w_delete_entry w, w_notify_unacked_cv w),
            t\<lparr>sessions := map_modify key (w_session w) (sessions t), tcp_syn := tcp_syn t + of_nat (w_syn w),
              tcp_succ_estab := tcp_succ_estab t + of_nat (w_succ_estab w), tcp_errors := tcp_errors t + of_nat (w_errors w)\<rparr>)))"

definition put_ending :: "tcp_session \<Rightarrow> tcp \<Rightarrow> (unit, tcp) outcome res" where
  "put_ending s t = rbind (put s (ending_sessions t)) (\<lambda>r.
     case r of Blocks q \<Rightarrow> Inr (Blocks (t\<lparr>ending_sessions := q\<rparr>)) | Done u q \<Rightarrow> Inr (Done () (t\<lparr>ending_sessions := q\<rparr>)))"

text \<open>The third part, under the lock of the sessions: the session goes to the queue of ending sessions.\<close>

definition delete_phase :: "u64 \<Rightarrow> tcp \<Rightarrow> (unit, tcp) outcome res" where
  "delete_phase key t0 =
     (let t = t0\<lparr>tcp_sessions_rem := tcp_sessions_rem t0 + 1\<rparr> in
      case map_of (sessions t) key of
        None \<Rightarrow> Inr (Done () t)
      | Some s \<Rightarrow>
          if in_init s then Inr (Done () t)
          else obind (put_ending s t) (\<lambda>u t'. Inr (Done () (set_cur_n (t'\<lparr>sessions := map_erase key (sessions t')\<rparr>)))))"

definition packet_handler :: "tcp_env \<Rightarrow> (app_call \<Rightarrow> bool) \<Rightarrow> u32 \<Rightarrow> packet \<Rightarrow> tcp \<Rightarrow>
    (ip_send list \<times> app_call list, tcp) outcome res" where
  "packet_handler env answer rnd pkt t =
     (if length (pk_data pkt) < 20 then Inr (Done ([], []) (t\<lparr>tcp_errors := tcp_errors t + 1\<rparr>))
      else
        rbind (syn_phase env rnd pkt t) (\<lambda>(outs, go_on, t1).
        if \<not> go_on then Inr (Done (outs, []) t1)
        else
          rbind (main_phase env answer pkt t1) (\<lambda>(outs', calls, r, t2).
          case r of
            None \<Rightarrow> Inr (Done (outs @ outs', calls) t2)
          | Some (delete_entry, notify) \<Rightarrow>
              if delete_entry
              then obind (delete_phase (pkt_id pkt) t2) (\<lambda>u t3. Inr (Done (outs @ outs', calls) t3))
              else Inr (Done (outs @ outs', calls) t2))))"

text \<open>A round of \<open>operator()\<close>.\<close>

definition tcp_round :: "tcp_env \<Rightarrow> (app_call \<Rightarrow> bool) \<Rightarrow> u32 \<Rightarrow> packet \<Rightarrow> tcp \<Rightarrow>
    (ip_send list \<times> app_call list, tcp) outcome res" where
  "tcp_round env answer rnd pkt t = packet_handler env answer rnd pkt (t\<lparr>tcp_packets := tcp_packets t + 1\<rparr>)"

section \<open>The threads\<close>

text \<open>
  \<open>session_cleaner\<close>: the loop over the sessions.  A session in its initialisation is looked at
  forever: the code continues without advancing the iterator.
\<close>

definition session_over :: "u64 \<Rightarrow> tcp_session \<Rightarrow> bool" where
  "session_over now s \<longleftrightarrow>
     (let age = (now - e_last_pkt_ts s) div 1000000 in
      of_int (session_timeout s) \<le> age \<or> tcp_established < state s \<or> state s = tcp_syn_rcvd \<and> 5 \<le> age)"

fun cleaner_loop :: "u64 \<Rightarrow> (u64 \<times> tcp_session) list \<Rightarrow> tcp \<Rightarrow> (unit, tcp) outcome res" where
  "cleaner_loop now [] t = Inr (Done () t)"
| "cleaner_loop now ((k, s) # it) t =
     (if in_init s then Inl Diverges
      else if session_over now s then
        obind (put_ending s (t\<lparr>tcp_sessions_to := tcp_sessions_to t + 1,
             tcp_clients := (if is_client s then (tcp_clients t)(uint (my_port s) := None) else tcp_clients t)\<rparr>)) (\<lambda>u t'. cleaner_loop now it (t'\<lparr>sessions := map_erase k (sessions t')\<rparr>))
      else cleaner_loop now it t)"

definition session_cleaner :: "u64 \<Rightarrow> tcp \<Rightarrow> (unit, tcp) outcome res" where
  "session_cleaner now t =
     obind (cleaner_loop now (sessions t) t) (\<lambda>u t'. Inr (Done () (set_cur_n t')))"

text \<open>\<open>unacked_sender\<close>: a round over all sessions after it was notified; a wait that timed out sends nothing.\<close>

fun unacked_all :: "tcp_env \<Rightarrow> (u64 \<Rightarrow> nat \<Rightarrow> bool) \<Rightarrow> (u64 \<times> tcp_session) list \<Rightarrow> (ip_send list \<times> (u64 \<times> tcp_session) list) res" where
  "unacked_all env rc [] = Inr ([], [])"
| "unacked_all env rc ((k, s) # it) =
     rbind (unacked_round env (rc k) s) (\<lambda>(outs, s').
     rbind (unacked_all env rc it) (\<lambda>(outs', it').
     Inr (outs @ outs', (k, s') # it')))"

definition unacked_sender :: "bool \<Rightarrow> tcp_env \<Rightarrow> (u64 \<Rightarrow> nat \<Rightarrow> bool) \<Rightarrow> tcp \<Rightarrow> (ip_send list \<times> tcp) res" where
  "unacked_sender timed_out env rc t =
     (if timed_out then Inr ([], t)
      else rbind (unacked_all env rc (sessions t)) (\<lambda>(outs, ss). Inr (outs, t\<lparr>sessions := ss\<rparr>)))"

text \<open>\<open>free_tcp_session\<close> and a round of \<open>session_ender\<close>.\<close>

definition free_tcp_session :: "tcp_session \<Rightarrow> tcp \<Rightarrow> app_call list" where
  "free_tcp_session p t =
     (case listeners t (uint (my_port p)) of
        None \<Rightarrow> []
      | Some h \<Rightarrow> (if ph_session_closed_1 h then [Session_closed_1 (sess_id p)] else []) @
                  (if ph_session_closed_2 h then [Session_closed_2 (sess_id p)] else []))"

definition session_ender :: "tcp \<Rightarrow> (app_call list option, tcp) outcome res" where
  "session_ender t =
     rbind (get (ending_sessions t)) (\<lambda>r.
     case r of
       Blocks q \<Rightarrow> Inr (Blocks (t\<lparr>ending_sessions := q\<rparr>))
     | Done None q \<Rightarrow> Inr (Done None (t\<lparr>ending_sessions := q\<rparr>))
     | Done (Some s) q \<Rightarrow>
         rbind (case listeners t (uint (my_port s)) of
                  None \<Rightarrow> Inr []
                | Some h \<Rightarrow> if ph_session_closed_2 h then Inr [Session_closed_2 (sess_id s)] else Inl Bad_function_call) (\<lambda>calls.
         Inr (Done (Some (calls @ free_tcp_session s t)) (t\<lparr>ending_sessions := q\<rparr>))))"

section \<open>Client sessions\<close>

text \<open>
  \<open>allocate_client_session\<close>: \<open>ports\<close> are the random numbers drawn for the local port; when none of them
  is free the code goes on drawing.  \<open>seq\<close> is the random number of the sequence.
\<close>

definition port_free :: "tcp \<Rightarrow> u16 \<Rightarrow> bool" where
  "port_free t port \<longleftrightarrow> 1023 < port \<and> port < 65535 \<and> tcp_clients t (uint port) = None"

definition client_session :: "tcp_env \<Rightarrow> addr \<Rightarrow> u16 \<Rightarrow> addr \<Rightarrow> u16 \<Rightarrow> u32 \<Rightarrow> tcp_session" where
  "client_session env src local_port dst_addr dst_port seq =
     (tcp_session_new src local_port dst_addr dst_port)
       \<lparr>state := tcp_syn_sent, state_since := env_time env, is_client := True, in_init := True,
        my_seq_nr := seq AND 0x7fffffff, initial_my_seq_nr := seq AND 0x7fffffff,
        sess_id := hash_address dst_addr local_port dst_port, window_size := of_int (env_mtu env)\<rparr>"

definition allocate_client_session :: "tcp_env \<Rightarrow> u16 list \<Rightarrow> u32 \<Rightarrow> port_handler \<Rightarrow> addr \<Rightarrow> addr \<Rightarrow> u16 \<Rightarrow> tcp \<Rightarrow>
    (u16 \<times> ip_send list \<times> tcp) res" where
  "allocate_client_session env ports seq handler src dst_addr dst_port t0 =
     (case find (port_free t0) ports of
        None \<Rightarrow> Inl Diverges
      | Some local_port \<Rightarrow>
          let s = client_session env src local_port dst_addr dst_port seq; key = sess_id s;
              t1 = t0\<lparr>tcp_clients := (tcp_clients t0)(uint local_port \<mapsto> key), tcp_new_sessions := tcp_new_sessions t0 + 1,
                      sessions := map_insert key s (sessions t0)\<rparr>;
              t2 = snd (tcp_add_handler (uint local_port) handler (set_cur_n t1)) in
          rbind (send_from env (my_addr s) (my_port s) (their_addr s) (their_port s) FLAG_SYN (their_seq_nr s)
                   (Some (my_seq_nr s)) [] 0 s) (\<lambda>(outs, seq', s').
          Inr (local_port, outs,
            if map_of (sessions t0) key = None
            then t2\<lparr>sessions := map_modify key (s'\<lparr>my_seq_nr := (case seq' of None \<Rightarrow> my_seq_nr s | Some n \<Rightarrow> n)\<rparr>) (sessions t2)\<rparr>
            else t2)))"

text \<open>The session of a client port, if both tables know it.\<close>

definition find_client :: "int \<Rightarrow> tcp \<Rightarrow> (u64 \<times> tcp_session) option" where
  "find_client port t =
     (case tcp_clients t port of None \<Rightarrow> None
      | Some key \<Rightarrow> map_option (\<lambda>s. (key, s)) (map_of (sessions t) key))"

definition close_client_session :: "tcp_env \<Rightarrow> int \<Rightarrow> tcp \<Rightarrow> (ip_send list \<times> tcp) res" where
  "close_client_session env port t =
     (case find_client port t of
        None \<Rightarrow> Inr ([], t)
      | Some (key, s) \<Rightarrow> rbind (end_session env s) (\<lambda>(outs, s'). Inr (outs, t\<lparr>sessions := map_modify key s' (sessions t)\<rparr>)))"

text \<open>\<open>None\<close> is waiting for room in the buffer.\<close>

definition client_session_send_data :: "int \<Rightarrow> byte list \<Rightarrow> tcp \<Rightarrow> (bool \<times> tcp) option" where
  "client_session_send_data port data t =
     (case find_client port t of
        None \<Rightarrow> Some (False, t)
      | Some (key, s) \<Rightarrow> map_option (\<lambda>s'. (True, t\<lparr>sessions := map_modify key s' (sessions t)\<rparr>)) (send_data data s))"

text \<open>
  A round of the loop of \<open>wait_for_client_connected_state\<close>: it ends with an answer, or counts and
  after every third round repeats the SYN, again with exchanged sides and with the number that follows
  that of the first SYN.
\<close>

definition wait_round :: "tcp_env \<Rightarrow> nat \<Rightarrow> tcp_session \<Rightarrow> (bool option \<times> nat \<times> ip_send list \<times> tcp_session) res" where
  "wait_round env counter s =
     (if tcp_established \<le> state s then Inr (Some True, counter, [], s)
      else if 30 \<le> env_time env - state_since s then Inr (Some False, counter, [], s)
      else if counter + 1 = 3 then
        rbind (send_from env (their_addr s) (their_port s) (my_addr s) (my_port s) FLAG_SYN (their_seq_nr s)
                 (Some (my_seq_nr s)) [] 0 s) (\<lambda>(outs, seq', s'). Inr (None, 0, outs, s'))
      else Inr (None, counter + 1, [], s))"

definition wait_finish :: "tcp_session \<Rightarrow> tcp_session" where
  "wait_finish s = s\<lparr>in_init := False\<rparr>"

section \<open>The table of sessions\<close>

text \<open>
  Every session is in the table under the hash of its peer and ports, and at most 128 sessions
  were opened by peers.
\<close>

definition entry_ok :: "u64 \<Rightarrow> tcp_session \<Rightarrow> bool" where
  "entry_ok k s \<longleftrightarrow> session_ok s \<and> sess_id s = k \<and> k = hash_address (their_addr s) (my_port s) (their_port s)"

definition tcp_ok :: "tcp \<Rightarrow> bool" where
  "tcp_ok t \<longleftrightarrow> map_ok (sessions t) \<and> (\<forall>(k, s)\<in>set (sessions t). entry_ok k s) \<and> map_count (\<lambda>s. \<not> is_client s) (sessions t) \<le> 128"

definition pkt_ok :: "packet \<Rightarrow> bool" where
  "pkt_ok pkt \<longleftrightarrow> wf_addr (pk_src_addr pkt) \<and> wf_addr (pk_dst_addr pkt) \<and> addr_fam (pk_src_addr pkt) = addr_fam (pk_dst_addr pkt)"

definition same_peer :: "tcp_session \<Rightarrow> tcp_session \<Rightarrow> bool" where
  "same_peer s s' \<longleftrightarrow> my_addr s' = my_addr s \<and> my_port s' = my_port s \<and> their_addr s' = their_addr s \<and> their_port s' = their_port s \<and>
     sess_id s' = sess_id s \<and> is_client s' = is_client s"

lemma same_peer_ident: "ident s' = ident s \<Longrightarrow> same_peer s s'"
  by (simp add: ident_def same_peer_def)

lemma entry_ok_same: "same_peer s s' \<Longrightarrow> entry_ok k s \<Longrightarrow> entry_ok k s'"
  by (simp add: same_peer_def entry_ok_def session_ok_def)

lemma tcp_ok_modify:
  assumes "tcp_ok t" and "map_of (sessions t) k = Some s" and "same_peer s s'" and "sessions t' = map_modify k s' (sessions t)"
  shows "tcp_ok t'"
proof -
  have "entry_ok k s" using assms(1,2) by (auto simp: tcp_ok_def dest: map_of_SomeD)
  then have "entry_ok k s'" using entry_ok_same assms(3) by blast
  moreover have "map_count (\<lambda>s. \<not> is_client s) (sessions t') = map_count (\<lambda>s. \<not> is_client s) (sessions t)"
    using assms map_count_modify [of "sessions t" k s "\<lambda>s. \<not> is_client s" s'] by (simp add: tcp_ok_def same_peer_def)
  ultimately show ?thesis
    using assms(1,4) by (auto simp: tcp_ok_def dest!: set_map_modifyD)
qed

lemma tcp_ok_erase: "tcp_ok t \<Longrightarrow> sessions t' = map_erase k (sessions t) \<Longrightarrow> tcp_ok t'"
  using map_count_erase [of "\<lambda>s. \<not> is_client s" k "sessions t"]
  by (auto simp: tcp_ok_def dest!: set_map_eraseD intro: order_trans)

lemma tcp_ok_insert:
  assumes "tcp_ok t" and "entry_ok k s" and "is_client s \<or> map_count (\<lambda>s. \<not> is_client s) (sessions t) < 128"
    and "sessions t' = map_insert k s (sessions t)"
  shows "tcp_ok t'"
proof -
  have "map_count (\<lambda>s. \<not> is_client s) (map_insert k s (sessions t)) \<le> 128"
    using assms(1,3) map_count_insert [of "\<lambda>s. \<not> is_client s" k s "sessions t"] by (auto simp: tcp_ok_def split: if_splits)
  with assms(1,2,4) show ?thesis by (auto simp: tcp_ok_def dest!: set_map_insertD)
qed

lemma sessions_set_cur_n [simp]: "sessions (set_cur_n t) = sessions t" "listeners (set_cur_n t) = listeners t"
  by (simp_all add: set_cur_n_def)

lemma tcp_ok_set_cur_n [simp]: "tcp_ok (set_cur_n t) = tcp_ok t"
  by (simp add: tcp_ok_def)

subsection \<open>Every step keeps the table in order\<close>

lemma new_session_entry: "pkt_ok pkt \<Longrightarrow> entry_ok (pkt_id pkt) (new_session rnd pkt)"
  by (simp add: pkt_ok_def entry_ok_def new_session_def session_ok_def tcp_session_new_def pkt_id_def Let_def)

lemma syn_phase_ok:
  assumes "syn_phase env rnd pkt t = Inr (outs, go_on, t')" and "tcp_ok t" and "pkt_ok pkt"
  shows "tcp_ok t'"
proof -
  have "tcp_ok (t\<lparr>sessions := map_insert (pkt_id pkt) (new_session rnd pkt) (sessions t), tcp_new_sessions := n\<rparr>)"
    if "length (sessions t) < 128" for n
    using tcp_ok_insert [OF assms(2) new_session_entry [OF assms(3)]] that map_count_le [of "\<lambda>s. \<not> is_client s" "sessions t"]
    by simp
  with assms show ?thesis by (auto simp: syn_phase_def Let_def split: if_splits)
qed

lemma main_phase_ok:
  assumes "main_phase env answer pkt t = Inr (outs, calls, r, t')" and "tcp_ok t"
  shows "tcp_ok t'"
proof (cases "map_of (sessions t) (pkt_id pkt)")
  case None
  with assms show ?thesis by (auto simp: main_phase_def Let_def tcp_ok_def)
next
  case (Some s)
  with assms(1) obtain w where w: "handle_segment env answer (listeners t (uint (seg_dst_port (tcp_parse (pk_data pkt))))) (pk_data pkt) s = Inr w"
    "sessions t' = map_modify (pkt_id pkt) (w_session w) (sessions t)"
    by (auto simp: main_phase_def Let_def)
  from tcp_ok_modify [OF assms(2) Some same_peer_ident [OF handle_segment_ident [OF w(1)]] w(2)] show ?thesis .
qed

lemma put_ending_sessions:
  assumes "put_ending s t = Inr r"
  shows "sessions (outcome_state r) = sessions t"
proof -
  obtain q where q: "put s (ending_sessions t) = Inr q" using assms unfolding put_ending_def by (rule rbindE)
  with assms show ?thesis by (cases q) (auto simp: put_ending_def)
qed

lemma put_ending_cases:
  "put_ending s t = Inr (Blocks t') \<Longrightarrow> sessions t' = sessions t" "put_ending s t = Inr (Done u t') \<Longrightarrow> sessions t' = sessions t"
  using put_ending_sessions by fastforce+

lemma delete_phase_ok:
  assumes "delete_phase k t = Inr r" and "tcp_ok t"
  shows "tcp_ok (outcome_state r)"
proof -
  let ?t = "t\<lparr>tcp_sessions_rem := tcp_sessions_rem t + 1\<rparr>"
  have t: "tcp_ok ?t" using assms(2) by (simp add: tcp_ok_def)
  show ?thesis
  proof (cases "map_of (sessions t) k")
    case None
    with assms(1) t show ?thesis by (auto simp: delete_phase_def Let_def)
  next
    case (Some s)
    with assms(1) consider "r = Done () ?t" | t1 where "put_ending s ?t = Inr (Blocks t1)" "r = Blocks t1"
      | t1 u where "put_ending s ?t = Inr (Done u t1)" "r = Done () (set_cur_n (t1\<lparr>sessions := map_erase k (sessions t1)\<rparr>))"
      by (auto simp: delete_phase_def Let_def split: if_splits)
    then show ?thesis
    proof cases
      case 2
      with put_ending_cases(1) [OF 2(1)] assms(2) show ?thesis by (simp add: tcp_ok_def)
    next
      case 3
      from tcp_ok_erase [OF assms(2), of _ k] put_ending_cases(2) [OF 3(1)] 3(2) show ?thesis by simp
    qed (simp add: t)
  qed
qed

lemma cleaner_loop_ok: "cleaner_loop now it t = Inr r \<Longrightarrow> tcp_ok t \<Longrightarrow> tcp_ok (outcome_state r)"
proof (induction now it t rule: cleaner_loop.induct)
  case (2 now k s it t)
  let ?t = "t\<lparr>tcp_sessions_to := tcp_sessions_to t + 1,
      tcp_clients := (if is_client s then (tcp_clients t)(uint (my_port s) := None) else tcp_clients t)\<rparr>"
  have ni: "\<not> in_init s" using "2.prems"(1) by (auto split: if_splits)
  show ?case
  proof (cases "session_over now s")
    case True
    with ni "2.prems"(1) consider t1 where "put_ending s ?t = Inr (Blocks t1)" "r = Blocks t1"
      | u t1 where "put_ending s ?t = Inr (Done u t1)" "cleaner_loop now it (t1\<lparr>sessions := map_erase k (sessions t1)\<rparr>) = Inr r"
      by auto
    then show ?thesis
    proof cases
      case 1
      with put_ending_cases(1) [OF 1(1)] "2.prems"(2) show ?thesis by (simp add: tcp_ok_def)
    next
      case 2
      then have "tcp_ok (t1\<lparr>sessions := map_erase k (sessions t1)\<rparr>)"
        using tcp_ok_erase [OF "2.prems"(2), of _ k] put_ending_cases(2) [OF 2(1)] by simp
      with "2.IH"(1) [OF ni True 2(2)] show ?thesis by simp
    qed
  next
    case False
    with ni "2.IH"(2) [OF ni False] "2.prems" show ?thesis by simp
  qed
qed auto

lemma session_cleaner_ok: "session_cleaner now t = Inr r \<Longrightarrow> tcp_ok t \<Longrightarrow> tcp_ok (outcome_state r)"
  by (fastforce simp: session_cleaner_def dest: cleaner_loop_ok)

lemma unacked_all_same:
  "unacked_all env rc it = Inr (outs, it') \<Longrightarrow> list_all2 (\<lambda>(k, s) (k', s'). k' = k \<and> same_peer s s') it it'"
  by (induction it arbitrary: outs it') (fastforce dest: unacked_round_ident same_peer_ident)+

lemma tcp_ok_all2:
  assumes "tcp_ok t" and "list_all2 (\<lambda>(k, s) (k', s'). k' = k \<and> same_peer s s') (sessions t) ss"
  shows "tcp_ok (t\<lparr>sessions := ss\<rparr>)"
proof -
  have "map fst ss = map fst (sessions t)" "map_count (\<lambda>s. \<not> is_client s) ss = map_count (\<lambda>s. \<not> is_client s) (sessions t)"
    "(\<forall>(k, s)\<in>set (sessions t). entry_ok k s) \<longrightarrow> (\<forall>(k, s)\<in>set ss. entry_ok k s)"
    using assms(2) by (induction rule: list_all2_induct) (auto simp: map_count_def same_peer_def entry_ok_def session_ok_def)
  with assms(1) show ?thesis by (auto simp: tcp_ok_def map_ok_def)
qed

lemma unacked_sender_ok: "unacked_sender to env rc t = Inr (outs, t') \<Longrightarrow> tcp_ok t \<Longrightarrow> tcp_ok t'"
  by (auto simp: unacked_sender_def dest!: unacked_all_same intro: tcp_ok_all2 split: if_splits)

lemma session_ender_sessions:
  assumes "session_ender t = Inr r"
  shows "sessions (outcome_state r) = sessions t"
proof -
  obtain q where q: "get (ending_sessions t) = Inr q" using assms unfolding session_ender_def by (rule rbindE)
  show ?thesis
  proof (cases q)
    case (Done x f)
    with q assms show ?thesis by (cases x) (auto simp: session_ender_def)
  qed (use q assms in \<open>auto simp: session_ender_def\<close>)
qed

lemma client_entry:
  "wf_addr src \<Longrightarrow> wf_addr dst \<Longrightarrow> addr_fam src = addr_fam dst \<Longrightarrow>
   entry_ok (sess_id (client_session env src lp dst dp seq)) (client_session env src lp dst dp seq)"
  by (simp add: entry_ok_def client_session_def session_ok_def tcp_session_new_def)

lemma sessions_add_handler [simp]: "sessions (snd (tcp_add_handler port h t)) = sessions t"
  by (simp add: tcp_add_handler_def split: option.split)

lemma allocate_client_session_ok:
  assumes "allocate_client_session env ports seq handler src dst dp t = Inr (lp, outs, t')" and "tcp_ok t"
    and "wf_addr src" and "wf_addr dst" and "addr_fam src = addr_fam dst"
  shows "tcp_ok t'"
proof -
  let ?s = "client_session env src lp dst dp seq"
  let ?k = "sess_id ?s"
  let ?t1 = "t\<lparr>tcp_clients := (tcp_clients t)(uint lp \<mapsto> ?k), tcp_new_sessions := tcp_new_sessions t + 1, sessions := map_insert ?k ?s (sessions t)\<rparr>"
  let ?t2 = "snd (tcp_add_handler (uint lp) handler (set_cur_n ?t1))"
  have f: "find (port_free t) ports = Some lp"
    using assms(1) by (auto simp: allocate_client_session_def Let_def split: option.splits)
  with assms(1) obtain seq' s' where snd: "send_from env (my_addr ?s) (my_port ?s) (their_addr ?s) (their_port ?s) FLAG_SYN (their_seq_nr ?s)
        (Some (my_seq_nr ?s)) [] 0 ?s = Inr (outs, seq', s')"
    and t': "t' = (if map_of (sessions t) ?k = None
      then ?t2\<lparr>sessions := map_modify ?k (s'\<lparr>my_seq_nr := (case seq' of None \<Rightarrow> my_seq_nr ?s | Some n \<Rightarrow> n)\<rparr>) (sessions ?t2)\<rparr> else ?t2)"
    by (auto simp: allocate_client_session_def Let_def)
  have ok1: "tcp_ok ?t2"
    using tcp_ok_insert [OF assms(2) client_entry [OF assms(3-5)]] by (simp add: client_session_def)
  show ?thesis
  proof (cases "map_of (sessions t) ?k = None")
    case True
    then have m: "map_of (sessions ?t2) ?k = Some ?s"
      using assms(2) by (simp add: map_of_insert tcp_ok_def)
    have "same_peer ?s (s'\<lparr>my_seq_nr := (case seq' of None \<Rightarrow> my_seq_nr ?s | Some n \<Rightarrow> n)\<rparr>)"
      using ident_send_from [OF snd] by (intro same_peer_ident) simp
    then show ?thesis by (rule tcp_ok_modify [OF ok1 m]) (simp add: t' True)
  next
    case False
    with ok1 show ?thesis by (simp only: t' if_False)
  qed
qed

lemma wait_round_ident: "wait_round env n s = Inr (r, n', outs, s') \<Longrightarrow> ident s' = ident s"
  by (auto simp: wait_round_def dest!: ident_send_from split: if_splits)

lemma same_peer_wait_finish: "same_peer s (wait_finish s)"
  by (simp add: same_peer_def wait_finish_def)

text \<open>
  The steps of all threads and applications, in any order; the parts of \<open>packet_handler\<close> are
  separate steps, since other threads run between them.
\<close>

inductive tcp_step :: "tcp \<Rightarrow> tcp \<Rightarrow> bool" where
  step_add: "tcp_step t (snd (tcp_add_handler port h t))"
| step_syn: "pkt_ok pkt \<Longrightarrow> syn_phase env rnd pkt t = Inr (outs, go_on, t') \<Longrightarrow> tcp_step t t'"
| step_main: "main_phase env answer pkt t = Inr (outs, calls, r, t') \<Longrightarrow> tcp_step t t'"
| step_delete: "delete_phase k t = Inr r \<Longrightarrow> tcp_step t (outcome_state r)"
| step_clean: "session_cleaner now t = Inr r \<Longrightarrow> tcp_step t (outcome_state r)"
| step_unacked: "unacked_sender timed_out env rc t = Inr (outs, t') \<Longrightarrow> tcp_step t t'"
| step_ender: "session_ender t = Inr r \<Longrightarrow> tcp_step t (outcome_state r)"
| step_allocate: "wf_addr src \<Longrightarrow> wf_addr dst \<Longrightarrow> addr_fam src = addr_fam dst \<Longrightarrow>
     allocate_client_session env ports seq handler src dst dp t = Inr (lp, outs, t') \<Longrightarrow> tcp_step t t'"
| step_wait: "map_of (sessions t) k = Some s \<Longrightarrow> wait_round env n s = Inr (r, n', outs, s') \<Longrightarrow>
     tcp_step t (t\<lparr>sessions := map_modify k s' (sessions t)\<rparr>)"
| step_wait_finish: "map_of (sessions t) k = Some s \<Longrightarrow> tcp_step t (t\<lparr>sessions := map_modify k (wait_finish s) (sessions t)\<rparr>)"
| step_send: "map_of (sessions t) k = Some s \<Longrightarrow> send_data d s = Some s' \<Longrightarrow>
     tcp_step t (t\<lparr>sessions := map_modify k s' (sessions t)\<rparr>)"
| step_end: "map_of (sessions t) k = Some s \<Longrightarrow> end_session env s = Inr (outs, s') \<Longrightarrow>
     tcp_step t (t\<lparr>sessions := map_modify k s' (sessions t)\<rparr>)"

lemma tcp_step_ok: "tcp_step t t' \<Longrightarrow> tcp_ok t \<Longrightarrow> tcp_ok t'"
proof (induction rule: tcp_step.induct)
  case (step_ender t r)
  then show ?case using session_ender_sessions [OF step_ender(1)] by (simp add: tcp_ok_def)
next
  case (step_add t port h)
  then show ?case by (simp add: tcp_ok_def)
next
  case (step_wait t k s env n r n' outs s')
  from tcp_ok_modify [OF step_wait(3,1) same_peer_ident [OF wait_round_ident [OF step_wait(2)]]] show ?case by simp
next
  case (step_wait_finish t k s)
  from tcp_ok_modify [OF step_wait_finish(2,1) same_peer_wait_finish] show ?case by simp
next
  case (step_send t k s d s')
  from tcp_ok_modify [OF step_send(3,1) same_peer_ident [OF ident_send_data [OF step_send(2)]]] show ?case by simp
next
  case (step_end t k s env outs s')
  from tcp_ok_modify [OF step_end(3,1) same_peer_ident [OF end_session_ident [OF step_end(2)]]] show ?case by simp
next
  case (step_syn pkt env rnd t outs go_on t')
  then show ?case using syn_phase_ok by simp
next
  case (step_main env answer pkt t outs calls r t')
  then show ?case using main_phase_ok by simp
next
  case (step_allocate src dst env ports seq handler dp t lp outs t')
  then show ?case using allocate_client_session_ok by simp
qed (simp_all add: delete_phase_ok session_cleaner_ok unacked_sender_ok)

lemma tcp_steps_ok: "tcp_step\<^sup>*\<^sup>* t t' \<Longrightarrow> tcp_ok t \<Longrightarrow> tcp_ok t'"
  by (induction rule: rtranclp_induct) (auto intro: tcp_step_ok)

lemma tcp_ok_new: "tcp_ok tcp_new"
  by (simp add: tcp_ok_def tcp_new_def map_count_def)

text \<open>
  C4. The table of sessions: after any sequence of steps of the packet handler, the sender, the
  cleaner, the enders and the applications, no two sessions share a key, every session is filed
  under the hash of the address and the port of its peer and its own port, a lookup that finds a
  session of the address of the packet finds the one with the ports of the packet, and peers have
  opened at most 128 of the sessions.
\<close>

theorem tcp_sessions_invariant:
  assumes "tcp_step\<^sup>*\<^sup>* tcp_new t"
  shows "distinct (map fst (sessions t)) \<and>
    (\<forall>(k, s)\<in>set (sessions t). k = hash_address (their_addr s) (my_port s) (their_port s) \<and> sess_id s = k) \<and>
    (\<forall>a lp pp s. map_of (sessions t) (hash_address a lp pp) = Some s \<and> their_addr s = a \<longrightarrow> my_port s = lp \<and> their_port s = pp) \<and>
    length (filter (\<lambda>(k, s). \<not> is_client s) (sessions t)) \<le> 128"
proof -
  have ok: "tcp_ok t" using tcp_steps_ok [OF assms tcp_ok_new] .
  then have e: "\<forall>(k, s)\<in>set (sessions t). k = hash_address (their_addr s) (my_port s) (their_port s) \<and> sess_id s = k"
    by (auto simp: tcp_ok_def entry_ok_def)
  have "my_port s = lp \<and> their_port s = pp" if "map_of (sessions t) (hash_address a lp pp) = Some s" "their_addr s = a" for a lp pp s
  proof -
    have "hash_address a lp pp = hash_address (their_addr s) (my_port s) (their_port s)"
      using e map_of_SomeD [OF that(1)] by auto
    then show ?thesis using that(2) hash_address_ports by simp
  qed
  with ok e map_ok_distinct [of "sessions t"] show ?thesis by (auto simp: tcp_ok_def map_count_def)
qed

definition example_syn :: packet where
  "example_syn = packet_new_link (Addr AF_ipv4 [10, 0, 0, 2]) (Addr AF_ipv4 [10, 0, 0, 1])
     (tcp_octets 4000 80 99 0 FLAG_SYN 0 0 0 []) [] False"

definition example_tcp :: tcp where
  "example_tcp = snd (tcp_add_handler 80 example_handler tcp_new)"

lemma example_syn_phase:
  "syn_phase example_env 7 example_syn example_tcp =
     Inr ([], True, set_cur_n (example_tcp\<lparr>sessions := [(pkt_id example_syn, new_session 7 example_syn)], tcp_new_sessions := 1\<rparr>))"
proof -
  have f: "tcp_parse (pk_data example_syn) = \<lparr>seg_src_port = 4000, seg_dst_port = 80, seg_seq = 99, seg_ack_to = 0, seg_flags = FLAG_SYN,
      seg_header_size = 32, seg_win_size = 65535\<rparr>"
    by (rule tcp_octets_fields(1)) (simp add: example_syn_def packet_new_link_def packet_new_def)
  show ?thesis by (simp add: syn_phase_def f Let_def example_tcp_def tcp_add_handler_def tcp_new_def)
qed

theorem tcp_sessions_invariant_witness:
  "\<exists>t. tcp_step\<^sup>*\<^sup>* tcp_new t \<and> length (sessions t) = 1 \<and> length (filter (\<lambda>(k, s). \<not> is_client s) (sessions t)) \<le> 128"
proof -
  let ?t = "set_cur_n (example_tcp\<lparr>sessions := [(pkt_id example_syn, new_session 7 example_syn)], tcp_new_sessions := 1\<rparr>)"
  have "tcp_step tcp_new example_tcp" unfolding example_tcp_def by (rule step_add)
  moreover have "pkt_ok example_syn" by (simp add: pkt_ok_def example_syn_def packet_new_link_def packet_new_def wf_addr_def)
  then have "tcp_step example_tcp ?t" by (rule step_syn) (rule example_syn_phase)
  ultimately have run: "tcp_step\<^sup>*\<^sup>* tcp_new ?t" by (meson r_into_rtranclp rtranclp.rtrancl_into_rtrancl)
  moreover have "length (sessions ?t) = 1" by simp
  ultimately show ?thesis using tcp_sessions_invariant [OF run] by blast
qed

section \<open>A packet and the sessions\<close>

definition pkt_flags :: "packet \<Rightarrow> byte" where
  "pkt_flags pkt = seg_flags (tcp_parse (pk_data pkt))"

text \<open>
  The session of a packet before and after the handler.  A session that was not there begins with a
  SYN, as a listening one; a session keeps its identity and changes its state for a cause; it is
  removed when it was ended or has failed.
\<close>

definition session_follows :: "(app_call \<Rightarrow> bool) \<Rightarrow> port_handler option \<Rightarrow> u32 \<Rightarrow> packet \<Rightarrow> app_call list \<Rightarrow>
    tcp_session option \<Rightarrow> tcp_session option \<Rightarrow> bool" where
  "session_follows answer cb rnd pkt calls a b \<longleftrightarrow>
     (let f = tcp_parse (pk_data pkt); fits = seg_header_size f \<le> length (pk_data pkt);
          s = (case a of None \<Rightarrow> new_session rnd pkt | Some s \<Rightarrow> s) in
      case b of
        Some s' \<Rightarrow> (a = None \<longrightarrow> has_flag (seg_flags f) FLAG_SYN) \<and> ident s' = ident s \<and>
          (state s' = state s \<or> fits \<and> cause f s (state s'))
      | None \<Rightarrow> a = None \<or> \<not> fits \<or> fails answer cb f s calls \<or> cause f s tcp_closing \<or> cause f s tcp_fin_wait_2 \<or> cause f s tcp_listen)"

lemma syn_phase_sessions:
  assumes "syn_phase env rnd pkt t = Inr (outs, go_on, t')" and "map_ok (sessions t)"
  shows "(\<forall>k. k \<noteq> pkt_id pkt \<longrightarrow> map_of (sessions t') k = map_of (sessions t) k) \<and> map_ok (sessions t') \<and>
    (map_of (sessions t') (pkt_id pkt) = map_of (sessions t) (pkt_id pkt) \<or>
     map_of (sessions t) (pkt_id pkt) = None \<and> has_flag (pkt_flags pkt) FLAG_SYN \<and>
       map_of (sessions t') (pkt_id pkt) = Some (new_session rnd pkt)) \<and> listeners t' = listeners t"
proof -
  have "t' = t \<or> map_of (sessions t) (pkt_id pkt) = None \<and> has_flag (pkt_flags pkt) FLAG_SYN \<and>
      sessions t' = map_insert (pkt_id pkt) (new_session rnd pkt) (sessions t) \<and> listeners t' = listeners t"
    using assms(1) by (auto simp: syn_phase_def Let_def pkt_flags_def set_cur_n_def split: if_splits)
  with assms(2) map_ok_insert [OF assms(2)] show ?thesis by (elim disjE) (simp_all add: map_of_insert)
qed

definition pkt_listener :: "packet \<Rightarrow> tcp \<Rightarrow> port_handler option" where
  "pkt_listener pkt t = listeners t (uint (seg_dst_port (tcp_parse (pk_data pkt))))"

lemma main_phase_sessions:
  assumes "main_phase env answer pkt t = Inr (outs, calls, r, t')" and "map_ok (sessions t)"
  shows "(\<forall>k. k \<noteq> pkt_id pkt \<longrightarrow> map_of (sessions t') k = map_of (sessions t) k) \<and> map_ok (sessions t') \<and>
    (case map_of (sessions t) (pkt_id pkt) of None \<Rightarrow> map_of (sessions t') (pkt_id pkt) = None
     | Some s \<Rightarrow> (\<exists>w. handle_segment env answer (pkt_listener pkt t) (pk_data pkt) s = Inr w \<and>
         map_of (sessions t') (pkt_id pkt) = Some (w_session w) \<and> calls = w_calls w \<and> r = Some (w_delete_entry w, w_notify_unacked_cv w)))"
proof (cases "map_of (sessions t) (pkt_id pkt)")
  case None
  with assms show ?thesis by (auto simp: main_phase_def Let_def)
next
  case (Some s)
  with assms(1) obtain w where w: "handle_segment env answer (pkt_listener pkt t) (pk_data pkt) s = Inr w"
    "sessions t' = map_modify (pkt_id pkt) (w_session w) (sessions t)" "calls = w_calls w" "r = Some (w_delete_entry w, w_notify_unacked_cv w)"
    by (auto simp: main_phase_def Let_def pkt_listener_def)
  from Some w assms(2) show ?thesis by (auto simp: map_of_modify)
qed

lemma delete_phase_sessions:
  assumes "delete_phase k t = Inr r"
  shows "(\<forall>j. j \<noteq> k \<longrightarrow> map_of (sessions (outcome_state r)) j = map_of (sessions t) j) \<and>
    (map_of (sessions (outcome_state r)) k = None \<and> (\<exists>u t'. r = Done u t') \<or> map_of (sessions (outcome_state r)) k = map_of (sessions t) k)"
proof (cases "map_of (sessions t) k")
  case None
  with assms show ?thesis by (auto simp: delete_phase_def Let_def)
next
  case (Some s)
  let ?t = "t\<lparr>tcp_sessions_rem := tcp_sessions_rem t + 1\<rparr>"
  from Some assms consider "r = Done () ?t" | t1 where "put_ending s ?t = Inr (Blocks t1)" "r = Blocks t1"
    | t1 u where "put_ending s ?t = Inr (Done u t1)" "r = Done () (set_cur_n (t1\<lparr>sessions := map_erase k (sessions t1)\<rparr>))"
    by (auto simp: delete_phase_def Let_def split: if_splits)
  then show ?thesis
    by cases (auto simp: map_of_erase dest!: put_ending_cases)
qed

definition outcome_calls :: "(ip_send list \<times> app_call list, tcp) outcome \<Rightarrow> app_call list" where
  "outcome_calls r = (case r of Done (outs, calls) t \<Rightarrow> calls | Blocks t \<Rightarrow> [])"

lemma session_follows_handled:
  assumes "handle_segment env answer cb (pk_data pkt) s = Inr w"
    and "a = Some s \<or> a = None \<and> s = new_session rnd pkt \<and> has_flag (pkt_flags pkt) FLAG_SYN"
  shows "session_follows answer cb rnd pkt calls a (Some (w_session w))"
    "w_delete_entry w \<Longrightarrow> calls = w_calls w \<Longrightarrow> session_follows answer cb rnd pkt calls a None"
  using assms(2) handle_segment_caused [OF assms(1)] handle_segment_ident [OF assms(1)]
  by (auto simp: session_follows_def Let_def pkt_flags_def)

text \<open>The part of the handler after the look-up of the session.\<close>

lemma main_phase_follows:
  assumes "main_phase env answer pkt t1 = Inr (outs', calls, q, t2)" and "map_ok (sessions t1)" and "map_of (sessions t1) (pkt_id pkt) = Some s"
    and "(case q of None \<Rightarrow> Inr (Done (outs, calls) t2) | Some (delete_entry, notify) \<Rightarrow>
          if delete_entry then obind (delete_phase (pkt_id pkt) t2) (\<lambda>u t3. Inr (Done (outs, calls) t3)) else Inr (Done (outs, calls) t2)) = Inr r"
    and "a = Some s \<or> a = None \<and> s = new_session rnd pkt \<and> has_flag (pkt_flags pkt) FLAG_SYN"
  shows "(\<forall>k. k \<noteq> pkt_id pkt \<longrightarrow> map_of (sessions (outcome_state r)) k = map_of (sessions t1) k) \<and>
    session_follows answer (pkt_listener pkt t1) rnd pkt (outcome_calls r) a (map_of (sessions (outcome_state r)) (pkt_id pkt))"
proof -
  from main_phase_sessions [OF assms(1,2)] assms(3) obtain w
    where w: "handle_segment env answer (pkt_listener pkt t1) (pk_data pkt) s = Inr w" "calls = w_calls w"
      "map_of (sessions t2) (pkt_id pkt) = Some (w_session w)" "q = Some (w_delete_entry w, w_notify_unacked_cv w)"
      and others: "\<forall>k. k \<noteq> pkt_id pkt \<longrightarrow> map_of (sessions t2) k = map_of (sessions t1) k" by auto
  note H = session_follows_handled [OF w(1) assms(5)]
  show ?thesis
  proof (cases "w_delete_entry w")
    case False
    with assms(4) w(4) have "r = Done (outs, calls) t2" by simp
    with others w(3) H(1) show ?thesis by simp
  next
    case True
    with assms(4) w(4) consider (blocks) t3 where "delete_phase (pkt_id pkt) t2 = Inr (Blocks t3)" "r = Blocks t3"
      | (gone) u t3 where "delete_phase (pkt_id pkt) t2 = Inr (Done u t3)" "r = Done (outs, calls) t3" by auto
    then show ?thesis
    proof cases
      case blocks
      with delete_phase_sessions [OF blocks(1)] others w(3) H(1) show ?thesis by auto
    next
      case gone
      with delete_phase_sessions [OF gone(1)] others w(3) H(1) H(2) [OF True w(2)] show ?thesis by (auto simp: outcome_calls_def)
    qed
  qed
qed

text \<open>
  C5. A packet concerns its own session only, and changes it for a cause: whatever a packet
  contains, a run of packet_handler leaves every session with another key as it was.  A session of the
  packet that was not there before begins with a SYN.  The session keeps its identity; it becomes
  established only by an ACK in the states syn_sent and syn_rcvd (or by SYN and ACK in one segment
  that makes the session); it goes to fin_wait_1 only from established, by a FIN of the peer or when an ACK
  covers all that was sent and the application has ended the session; it goes to fin_wait_2 only when the FIN of the peer has come and
  everything before it has arrived; to closing only by an RST.  It is removed only in these last
  two cases, by the last ACK in the state last_ack, or because the segment is cut, acknowledges more than was sent,
  has no handler for its port or was refused by the application.
\<close>

theorem packet_handler_own_session:
  assumes "packet_handler env answer rnd pkt t = Inr r" and "map_ok (sessions t)"
  shows "(\<forall>k. k \<noteq> pkt_id pkt \<longrightarrow> map_of (sessions (outcome_state r)) k = map_of (sessions t) k) \<and>
    session_follows answer (pkt_listener pkt t) rnd pkt (outcome_calls r)
      (map_of (sessions t) (pkt_id pkt)) (map_of (sessions (outcome_state r)) (pkt_id pkt))"
proof (cases "length (pk_data pkt) < 20")
  case True
  with assms show ?thesis by (auto simp: packet_handler_def session_follows_def Let_def split: option.split)
next
  case False
  let ?id = "pkt_id pkt" and ?cb = "pkt_listener pkt t"
  let ?F = "session_follows answer ?cb rnd pkt"
  from assms(1) False obtain outs go_on t1 where t1: "syn_phase env rnd pkt t = Inr (outs, go_on, t1)"
    unfolding packet_handler_def by (auto elim!: rbindE)
  note S = syn_phase_sessions [OF t1 assms(2)]
  have f1: "?F calls (map_of (sessions t) ?id) (map_of (sessions t1) ?id)" for calls
    using S by (auto simp: session_follows_def Let_def pkt_flags_def split: option.split)
  have cb: "pkt_listener pkt t1 = ?cb" using S by (simp add: pkt_listener_def)
  show ?thesis
  proof (cases go_on)
    case no: False
    with assms(1) False t1 have "r = Done (outs, []) t1" by (simp add: packet_handler_def)
    with S f1 show ?thesis by simp
  next
    case go: True
    from assms(1) False t1 go obtain outs' calls q t2 where t2: "main_phase env answer pkt t1 = Inr (outs', calls, q, t2)"
      unfolding packet_handler_def by (auto elim!: rbindE)
    show ?thesis
    proof (cases "map_of (sessions t1) ?id")
      case None
      with t2 have "q = None" by (auto simp: main_phase_def Let_def)
      with assms(1) False t1 go t2 have "outcome_state r = t2" by (auto simp: packet_handler_def)
      with main_phase_sessions [OF t2] S f1 None show ?thesis by auto
    next
      case (Some s)
      have "(case q of None \<Rightarrow> Inr (Done (outs @ outs', calls) t2) | Some (delete_entry, notify) \<Rightarrow>
          if delete_entry then obind (delete_phase ?id t2) (\<lambda>u t3. Inr (Done (outs @ outs', calls) t3))
          else Inr (Done (outs @ outs', calls) t2)) = Inr r" using assms(1) False t1 go t2 by (simp add: packet_handler_def)
      from main_phase_follows [OF t2 _ Some this, of "map_of (sessions t) ?id" rnd] S Some cb show ?thesis by auto
    qed
  qed
qed

section \<open>Opening a session\<close>

lemma send_from_one:
  assumes "env_idev env" and "wf_addr a" and "wf_addr b" and "addr_fam a = addr_fam b"
  shows "\<exists>out. send_from env a p b q flags ack (Some seq) d T s =
      Inr ([out], Some (seq + of_nat (length d) + syn_fin flags), s\<lparr>e_last_pkt_ts := env_now env\<rparr>) \<and>
    (\<exists>c. is_payload out = tcp_octets p q seq ack flags c (ucast (env_now env)) T d) \<and> is_dst_ip out = b \<and> is_src_ip out = a"
proof -
  obtain out nxt where o: "send_segment a p b q flags ack (Some seq) d T (ucast (env_now env)) = Inr (out, nxt)"
    using send_segment_defined [OF assms(2-4), of p q flags ack "Some seq" d T "ucast (env_now env)"] by blast
  from send_segment_out [OF o] show ?thesis using o assms(1) by (simp add: send_from_def syn_fin_def)
qed

text \<open>A SYN to a listening session.\<close>

lemma handle_syn:
  assumes "state s = tcp_listen" and "session_ok s" and "env_idev env" and "\<not> flag_fin_when_all_received s"
    and p: "p = tcp_octets sp dp seq ack FLAG_SYN c us T []"
  shows "\<exists>w out c'. handle_segment env answer cb p s = Inr w \<and> w_out w = [out] \<and>
    is_payload out = tcp_octets (my_port s) (their_port s) (my_seq_nr s) (their_seq_nr s) (FLAG_SYN OR FLAG_ACK) c' (ucast (env_now env)) 0 [] \<and>
    is_dst_ip out = their_addr s \<and> w_calls w = [] \<and> \<not> w_delete_entry w \<and> state (w_session w) = tcp_syn_rcvd \<and>
    my_seq_nr (w_session w) = my_seq_nr s + 1 \<and> their_seq_nr (w_session w) = their_seq_nr s"
proof -
  note f = tcp_octets_fields [OF p]
  let ?f = "tcp_parse p"
  have hs: "seg_header_size ?f = 32" "seg_flags ?f = FLAG_SYN" by (simp_all add: f(1))
  let ?s = "touch env ?f s"
  let ?w = "(work_new ?s False)\<lparr>w_syn := 1\<rparr>"
  have t: "my_addr ?s = my_addr s" "their_addr ?s = their_addr s" "my_port ?s = my_port s" "their_port ?s = their_port s"
    "my_seq_nr ?s = my_seq_nr s" "their_seq_nr ?s = their_seq_nr s" "\<not> flag_fin_when_all_received ?s"
    using assms(4) by (simp_all add: touch_def)
  obtain out c' where out: "send_from env (my_addr s) (my_port s) (their_addr s) (their_port s) (FLAG_SYN OR FLAG_ACK) (their_seq_nr s)
      (Some (my_seq_nr s)) [] 0 ?s = Inr ([out], Some (my_seq_nr s + 1), ?s\<lparr>e_last_pkt_ts := env_now env\<rparr>)"
    "is_payload out = tcp_octets (my_port s) (their_port s) (my_seq_nr s) (their_seq_nr s) (FLAG_SYN OR FLAG_ACK) c' (ucast (env_now env)) 0 []"
    "is_dst_ip out = their_addr s"
    using send_from_one [OF assms(3), of "my_addr s" "their_addr s" "my_port s" "their_port s" "FLAG_SYN OR FLAG_ACK" "their_seq_nr s" "my_seq_nr s" "[]" 0 ?s]
      assms(2) by (auto simp: session_ok_def)
  let ?w1 = "on_session (set_state env tcp_syn_rcvd)
      (?w\<lparr>w_session := ?s\<lparr>e_last_pkt_ts := env_now env, my_seq_nr := my_seq_nr s + 1\<rparr>, w_out := [out]\<rparr>)"
  have fl: "on_flags env answer cb ?f 0 (work_new ?s False) = Inr ?w1"
    using assms(1) out(1) t
    by (simp add: on_flags_def on_rst_def on_syn_def on_ack_def on_fin_def fin_when_all_received_def reply_def hs work_new_def Let_def)
  have "handle_segment env answer cb p s = Inr ?w1"
    using fl f(2,3) f(4) [of False] by (simp add: handle_segment_def hs Let_def on_payload_def on_fail_def work_new_def)
  then show ?thesis using out(2,3) t by (intro exI [of _ ?w1] exI [of _ out] exI [of _ c']) (simp add: work_new_def)
qed

text \<open>The answer to the SYN of a client: it acknowledges to itself.\<close>

lemma handle_syn_ack:
  assumes "state s = tcp_syn_sent" and "session_ok s" and "env_idev env" and "\<not> flag_fin_when_all_received s"
    and p: "p = tcp_octets sp dp seq ack (FLAG_SYN OR FLAG_ACK) c us T []"
  shows "\<exists>w out. handle_segment env answer cb p s = Inr w \<and> w_out w = [out] \<and> is_dst_ip out = my_addr s \<and> is_src_ip out = their_addr s \<and>
    w_calls w = [] \<and> \<not> w_delete_entry w \<and> state (w_session w) = tcp_established \<and>
    my_seq_nr (w_session w) = my_seq_nr s \<and> their_seq_nr (w_session w) = seq + 1"
proof -
  note f = tcp_octets_fields [OF p]
  let ?f = "tcp_parse p"
  have hs: "seg_header_size ?f = 32" "seg_flags ?f = FLAG_SYN OR FLAG_ACK" "seg_seq ?f = seq" by (simp_all add: f(1))
  let ?s = "(touch env ?f s)\<lparr>initial_their_seq_nr := seq, their_seq_nr := seq + 1\<rparr>"
  let ?w = "(work_new (touch env ?f s) False)\<lparr>w_syn := 1\<rparr>"
  have t: "my_addr (touch env ?f s) = my_addr s" "their_addr (touch env ?f s) = their_addr s" "my_port (touch env ?f s) = my_port s"
    "their_port (touch env ?f s) = their_port s" "my_seq_nr (touch env ?f s) = my_seq_nr s" "\<not> flag_fin_when_all_received (touch env ?f s)"
    using assms(4) by (simp_all add: touch_def)
  obtain out where out: "send_from env (their_addr s) (their_port s) (my_addr s) (my_port s) FLAG_ACK (seq + 1)
      (Some (my_seq_nr s)) [] us ?s = Inr ([out], Some (my_seq_nr s), ?s\<lparr>e_last_pkt_ts := env_now env\<rparr>)"
    "is_dst_ip out = my_addr s" "is_src_ip out = their_addr s"
    using send_from_one [OF assms(3), of "their_addr s" "my_addr s" "their_port s" "my_port s" FLAG_ACK "seq + 1" "my_seq_nr s" "[]" us ?s]
      assms(2) by (auto simp: session_ok_def)
  let ?w1 = "on_session (\<lambda>s. s\<lparr>data_since_last_ack := 0\<rparr>)
      (?w\<lparr>w_session := set_state env tcp_established (?s\<lparr>e_last_pkt_ts := env_now env, my_seq_nr := my_seq_nr s\<rparr>), w_out := [out]\<rparr>)"
  have "on_ack_syn_sent env ?f us ?w = Inr (?w\<lparr>w_session := set_state env tcp_established (?s\<lparr>e_last_pkt_ts := env_now env, my_seq_nr := my_seq_nr s\<rparr>), w_out := [out]\<rparr>)"
    using out(1) t by (simp add: on_ack_syn_sent_def hs(3) work_new_def Let_def)
  then have fl: "on_flags env answer cb ?f us (work_new (touch env ?f s) False) = Inr ?w1"
    using assms(1) t(6)
    by (simp add: on_flags_def on_rst_def on_syn_def on_ack_def on_fin_def fin_when_all_received_def hs(2) work_new_def Let_def)
  have "handle_segment env answer cb p s = Inr ?w1"
    using fl f(2,3) f(4) [of True] by (simp add: handle_segment_def hs Let_def on_payload_def on_fail_def work_new_def)
  then show ?thesis using out(2,3) by (intro exI [of _ ?w1] exI [of _ out]) (simp add: work_new_def)
qed

lemma packet_handler_known:
  assumes "20 \<le> length (pk_data pkt)" and "syn_phase env rnd pkt t = Inr ([], True, t1)"
    and "map_of (sessions t1) (pkt_id pkt) = Some s"
    and "handle_segment env answer (listeners t1 (uint (seg_dst_port (tcp_parse (pk_data pkt))))) (pk_data pkt) s = Inr w" and "\<not> w_delete_entry w"
  shows "\<exists>t2. packet_handler env answer rnd pkt t = Inr (Done (w_out w, w_calls w) t2) \<and> map_of (sessions t2) (pkt_id pkt) = Some (w_session w)"
  using assms by (simp add: packet_handler_def main_phase_def Let_def map_of_modify)

lemma allocate_client_session_result:
  assumes "allocate_client_session env ports seq handler src dst dp t = Inr (lp, [syn], t')"
    and "map_ok (sessions t)" and "map_of (sessions t) (hash_address dst lp dp) = None" and "env_idev env"
    and "wf_addr src" and "wf_addr dst" and "addr_fam src = addr_fam dst"
  defines "c \<equiv> (client_session env src lp dst dp seq)\<lparr>e_last_pkt_ts := env_now env, my_seq_nr := (seq AND 0x7fffffff) + 1\<rparr>"
  shows "map_of (sessions t') (hash_address dst lp dp) = Some c" "length (sessions t') = Suc (length (sessions t))"
    "listeners t' (uint lp) \<noteq> None"
    "\<exists>ck. is_payload syn = tcp_octets lp dp (seq AND 0x7fffffff) 0 FLAG_SYN ck (ucast (env_now env)) 0 []" "is_dst_ip syn = dst"
proof -
  let ?s = "client_session env src lp dst dp seq"
  have k: "sess_id ?s = hash_address dst lp dp" by (simp add: client_session_def)
  have fields: "my_addr ?s = src" "my_port ?s = lp" "their_addr ?s = dst" "their_port ?s = dp" "their_seq_nr ?s = 0"
    "my_seq_nr ?s = seq AND 0x7fffffff" by (simp_all add: client_session_def tcp_session_new_def)
  obtain out ck where out: "send_from env src lp dst dp FLAG_SYN 0 (Some (seq AND 0x7fffffff)) [] 0 ?s =
      Inr ([out], Some ((seq AND 0x7fffffff) + 1), ?s\<lparr>e_last_pkt_ts := env_now env\<rparr>)"
    "is_payload out = tcp_octets lp dp (seq AND 0x7fffffff) 0 FLAG_SYN ck (ucast (env_now env)) 0 []" "is_dst_ip out = dst"
    using send_from_one [OF assms(4-7), of lp dp FLAG_SYN 0 "seq AND 0x7fffffff" "[]" 0 ?s] by auto
  have "find (port_free t) ports = Some lp"
    using assms(1) by (auto simp: allocate_client_session_def Let_def split: option.splits)
  then have r: "syn = out" and ss: "sessions t' = map_modify (hash_address dst lp dp) c (map_insert (hash_address dst lp dp) ?s (sessions t))"
    and ls: "listeners t' = listeners (snd (tcp_add_handler (uint lp) handler t))"
    using assms(1) out(1) assms(3) by (auto simp: allocate_client_session_def Let_def k fields c_def tcp_add_handler_def set_cur_n_def split: option.split)
  show "map_of (sessions t') (hash_address dst lp dp) = Some c" "length (sessions t') = Suc (length (sessions t))"
    using ss assms(2,3) by (simp_all add: map_of_modify map_of_insert length_map_insert)
  show "listeners t' (uint lp) \<noteq> None" by (auto simp: ls tcp_add_handler_def split: option.splits)
  show "\<exists>ck. is_payload syn = tcp_octets lp dp (seq AND 0x7fffffff) 0 FLAG_SYN ck (ucast (env_now env)) 0 []" "is_dst_ip syn = dst"
    using r out(2,3) by auto
qed

text \<open>A listening host answers the SYN of a new peer with a session of its own.\<close>

lemma listener_answers:
  assumes "env_idev env" and "wf_addr ca" and "wf_addr sa" and "addr_fam ca = addr_fam sa"
    and "listeners ts (uint sp) \<noteq> None" and "length (sessions ts) < 128" and "map_ok (sessions ts)"
    and "map_of (sessions ts) (hash_address ca sp cp) = None" and syn: "is_payload syn = tcp_octets cp sp seq 0 FLAG_SYN ck us 0 []"
  obtains synack ts1 s c1 where
    "packet_handler env answer rnd (packet_new_link ca sa (is_payload syn) [] False) ts = Inr (Done ([synack], []) ts1)"
    "is_payload synack = tcp_octets sp cp rnd (seq + 1) (FLAG_SYN OR FLAG_ACK) c1 (ucast (env_now env)) 0 []" "is_dst_ip synack = ca"
    "map_of (sessions ts1) (hash_address ca sp cp) = Some s" "state s = tcp_syn_rcvd" "my_seq_nr s = rnd + 1" "their_seq_nr s = seq + 1"
proof -
  let ?p1 = "packet_new_link ca sa (is_payload syn) [] False"
  note f1 = tcp_octets_fields [OF syn]
  have d1: "pk_data ?p1 = is_payload syn" "pk_src_addr ?p1 = ca" "pk_dst_addr ?p1 = sa"
    by (simp_all add: packet_new_link_def packet_new_def)
  have id1: "pkt_id ?p1 = hash_address ca sp cp" by (simp add: pkt_id_def d1 f1(1))
  let ?s0 = "new_session rnd ?p1"
  have s0: "state ?s0 = tcp_listen" "\<not> flag_fin_when_all_received ?s0" "their_addr ?s0 = ca" "my_seq_nr ?s0 = rnd"
    "their_seq_nr ?s0 = seq + 1" "session_ok ?s0" "my_port ?s0 = sp" "their_port ?s0 = cp"
    using assms(2-4) by (simp_all add: new_session_def tcp_session_new_def session_ok_def Let_def d1 f1(1))
  obtain w1 synack c1 where w1: "handle_segment env answer (listeners ts (uint sp)) (is_payload syn) ?s0 = Inr w1" "w_out w1 = [synack]"
    "is_payload synack = tcp_octets sp cp rnd (seq + 1) (FLAG_SYN OR FLAG_ACK) c1 (ucast (env_now env)) 0 []"
    "is_dst_ip synack = ca" "w_calls w1 = []" "\<not> w_delete_entry w1" "state (w_session w1) = tcp_syn_rcvd"
    "my_seq_nr (w_session w1) = rnd + 1" "their_seq_nr (w_session w1) = seq + 1"
    using handle_syn [OF s0(1,6) assms(1) s0(2) syn, of answer "listeners ts (uint sp)"] s0 by auto
  obtain ts0 where "syn_phase env rnd ?p1 ts = Inr ([], True, ts0)" "map_of (sessions ts0) (pkt_id ?p1) = Some ?s0" "listeners ts0 = listeners ts"
    using assms(5-8) by (simp add: syn_phase_def Let_def d1 f1(1) id1 map_of_insert)
  with packet_handler_known [of ?p1 env rnd ts ts0 ?s0 answer w1] w1 f1(1,3)
  obtain ts1 where "packet_handler env answer rnd ?p1 ts = Inr (Done ([synack], []) ts1)"
    "map_of (sessions ts1) (hash_address ca sp cp) = Some (w_session w1)"
    by (auto simp: d1 id1)
  with that w1 show thesis by blast
qed

text \<open>
  C3. The opening of a session between two hosts: the SYN of allocate_client_session makes the
  listening host answer with SYN and ACK to the client and wait in syn_rcvd; this answer makes the client
  established, with the sequence numbers of the two sides matching as the exchange of data
  needs it.  The acknowledgement of the client, however, has the sides exchanged: it is addressed
  to the client itself.
\<close>

theorem tcp_handshake:
  assumes "allocate_client_session env ports cseq handler ca sa sp tc = Inr (cp, [syn], tc1)"
    and "map_ok (sessions tc)" and "map_of (sessions tc) (hash_address sa cp sp) = None" and "length (sessions tc) < 127"
    and "env_idev env" and "wf_addr ca" and "wf_addr sa" and "addr_fam ca = addr_fam sa"
    and "listeners ts (uint sp) \<noteq> None" and "length (sessions ts) < 128" and "map_ok (sessions ts)"
    and "map_of (sessions ts) (hash_address ca sp cp) = None"
  shows "\<exists>synack ts1 s ack tc2 c.
    packet_handler env answer rnd (packet_new_link ca sa (is_payload syn) [] False) ts = Inr (Done ([synack], []) ts1) \<and>
    packet_handler env answer' rnd' (packet_new_link sa ca (is_payload synack) [] False) tc1 = Inr (Done ([ack], []) tc2) \<and>
    map_of (sessions ts1) (hash_address ca sp cp) = Some s \<and> state s = tcp_syn_rcvd \<and>
    map_of (sessions tc2) (hash_address sa cp sp) = Some c \<and> state c = tcp_established \<and>
    my_seq_nr s = their_seq_nr c \<and> my_seq_nr c = their_seq_nr s \<and>
    is_dst_ip syn = sa \<and> is_dst_ip synack = ca \<and> is_dst_ip ack = ca"
proof -
  let ?c = "(client_session env ca cp sa sp cseq)\<lparr>e_last_pkt_ts := env_now env, my_seq_nr := (cseq AND 0x7fffffff) + 1\<rparr>"
  note A = allocate_client_session_result [OF assms(1-3,5-8)]
  obtain ck where syn: "is_payload syn = tcp_octets cp sp (cseq AND 0x7fffffff) 0 FLAG_SYN ck (ucast (env_now env)) 0 []" using A(4) by blast
  obtain synack ts1 s c1 where ts1: "packet_handler env answer rnd (packet_new_link ca sa (is_payload syn) [] False) ts = Inr (Done ([synack], []) ts1)"
    and synack: "is_payload synack = tcp_octets sp cp rnd ((cseq AND 0x7fffffff) + 1) (FLAG_SYN OR FLAG_ACK) c1 (ucast (env_now env)) 0 []" "is_dst_ip synack = ca"
    and s: "map_of (sessions ts1) (hash_address ca sp cp) = Some s" "state s = tcp_syn_rcvd" "my_seq_nr s = rnd + 1" "their_seq_nr s = (cseq AND 0x7fffffff) + 1"
    by (rule listener_answers [OF assms(5-12) syn])
  let ?p2 = "packet_new_link sa ca (is_payload synack) [] False"
  note f2 = tcp_octets_fields [OF synack(1)]
  have d2: "pk_data ?p2 = is_payload synack" "pk_src_addr ?p2 = sa" "pk_dst_addr ?p2 = ca"
    by (simp_all add: packet_new_link_def packet_new_def)
  have id2: "pkt_id ?p2 = hash_address sa cp sp" by (simp add: pkt_id_def d2 f2(1))
  have c0: "state ?c = tcp_syn_sent" "\<not> flag_fin_when_all_received ?c" "my_addr ?c = ca" "session_ok ?c"
    using assms(6-8) by (simp_all add: client_session_def tcp_session_new_def session_ok_def)
  obtain w2 ack where w2: "handle_segment env answer' (listeners tc1 (uint cp)) (is_payload synack) ?c = Inr w2" "w_out w2 = [ack]"
    "is_dst_ip ack = ca" "w_calls w2 = []" "\<not> w_delete_entry w2" "state (w_session w2) = tcp_established"
    "my_seq_nr (w_session w2) = (cseq AND 0x7fffffff) + 1" "their_seq_nr (w_session w2) = rnd + 1"
    using handle_syn_ack [OF c0(1,4) assms(5) c0(2) synack(1), of answer' "listeners tc1 (uint cp)"] c0 by auto
  have "syn_phase env rnd' ?p2 tc1 = Inr ([], True, tc1)"
    using A(1-3) assms(4) by (simp add: syn_phase_def Let_def d2 f2(1) id2)
  with packet_handler_known [of ?p2 env rnd' tc1 tc1 ?c answer' w2] w2 A(1) f2(1,3)
  obtain tc2 where tc2: "packet_handler env answer' rnd' ?p2 tc1 = Inr (Done ([ack], []) tc2)"
    "map_of (sessions tc2) (hash_address sa cp sp) = Some (w_session w2)"
    by (auto simp: d2 id2)
  show ?thesis
    using ts1 tc2 synack(2) s w2 A(5)
    by (intro exI [of _ synack] exI [of _ ts1] exI [of _ s] exI [of _ ack] exI [of _ tc2] exI [of _ "w_session w2"]) simp
qed

theorem tcp_handshake_witness:
  "\<exists>cp syn tc1 synack ts1. allocate_client_session example_env [80, 4000] 5 example_handler (Addr AF_ipv4 [10, 0, 0, 2])
       (Addr AF_ipv4 [10, 0, 0, 1]) 80 tcp_new = Inr (cp, [syn], tc1) \<and> cp = 4000 \<and>
     packet_handler example_env (\<lambda>_. True) 7 (packet_new_link (Addr AF_ipv4 [10, 0, 0, 2]) (Addr AF_ipv4 [10, 0, 0, 1]) (is_payload syn) [] False)
       example_tcp = Inr (Done ([synack], []) ts1)"
proof -
  let ?ca = "Addr AF_ipv4 [10, 0, 0, 2]" and ?sa = "Addr AF_ipv4 [10, 0, 0, 1]"
  have f: "find (port_free tcp_new) [80, 4000] = Some 4000"
    by (simp add: port_free_def tcp_new_def)
  obtain syn where "send_from example_env ?ca 4000 ?sa 80 FLAG_SYN 0 (Some (5 AND 0x7fffffff)) [] 0 (client_session example_env ?ca 4000 ?sa 80 5) =
      Inr ([syn], Some ((5 AND 0x7fffffff) + 1), (client_session example_env ?ca 4000 ?sa 80 5)\<lparr>e_last_pkt_ts := env_now example_env\<rparr>)"
    using send_from_one [of example_env ?ca ?sa 4000 80 FLAG_SYN 0 "5 AND 0x7fffffff" "[]" 0 "client_session example_env ?ca 4000 ?sa 80 5"]
    by (auto simp: example_env_def wf_addr_def)
  then obtain tc1 where tc1: "allocate_client_session example_env [80, 4000] 5 example_handler ?ca ?sa 80 tcp_new = Inr (4000, [syn], tc1)"
    unfolding allocate_client_session_def f by (simp add: Let_def client_session_def tcp_session_new_def)
  have ts: "listeners example_tcp (uint (80 :: u16)) \<noteq> None" "sessions example_tcp = []" "sessions tcp_new = []"
    by (simp_all add: example_tcp_def tcp_add_handler_def tcp_new_def)
  have env: "env_idev example_env" "wf_addr ?ca" "wf_addr ?sa" "addr_fam ?ca = addr_fam ?sa"
    by (simp_all add: example_env_def wf_addr_def)
  from tcp_handshake [OF tc1 _ _ _ env ts(1), of "\<lambda>_. True" 7 "\<lambda>_. True" 0] tc1 ts show ?thesis by auto
qed

theorem packet_handler_own_session_witness:
  "\<exists>r. packet_handler example_env (\<lambda>_. True) 7 example_syn example_tcp = Inr r \<and>
     (\<forall>k. k \<noteq> pkt_id example_syn \<longrightarrow> map_of (sessions (outcome_state r)) k = None) \<and>
     session_follows (\<lambda>_. True) (pkt_listener example_syn example_tcp) 7 example_syn (outcome_calls r) None
       (map_of (sessions (outcome_state r)) (pkt_id example_syn)) \<and>
     map_of (sessions (outcome_state r)) (pkt_id example_syn) \<noteq> None"
proof -
  let ?t = "set_cur_n (example_tcp\<lparr>sessions := [(pkt_id example_syn, new_session 7 example_syn)], tcp_new_sessions := 1\<rparr>)"
  have d: "pk_data example_syn = tcp_octets 4000 80 99 0 FLAG_SYN 0 0 0 []" "length (pk_data example_syn) = 32"
    using tcp_octets_fields(3) [OF refl, of 4000 80 99 0 FLAG_SYN 0 0 0 "[]"]
    by (simp_all add: example_syn_def packet_new_link_def packet_new_def)
  have "state (new_session 7 example_syn) = tcp_listen" "session_ok (new_session 7 example_syn)" "env_idev example_env"
    "\<not> flag_fin_when_all_received (new_session 7 example_syn)"
    by (simp_all add: new_session_def tcp_session_new_def session_ok_def wf_addr_def Let_def example_syn_def packet_new_link_def packet_new_def example_env_def)
  from handle_syn [OF this d(1), of "\<lambda>_. True" "listeners ?t (uint (seg_dst_port (tcp_parse (pk_data example_syn))))"]
  obtain w where w: "handle_segment example_env (\<lambda>_. True) (listeners ?t (uint (seg_dst_port (tcp_parse (pk_data example_syn))))) (pk_data example_syn)
      (new_session 7 example_syn) = Inr w" "\<not> w_delete_entry w" by blast
  have k: "map_of (sessions ?t) (pkt_id example_syn) = Some (new_session 7 example_syn)" by simp
  from packet_handler_known [OF _ example_syn_phase k w] d(2) obtain t2
    where r: "packet_handler example_env (\<lambda>_. True) 7 example_syn example_tcp = Inr (Done (w_out w, w_calls w) t2)"
      "map_of (sessions t2) (pkt_id example_syn) = Some (w_session w)" by auto
  have "sessions example_tcp = []" by (simp add: example_tcp_def tcp_add_handler_def tcp_new_def)
  with packet_handler_own_session [OF r(1)] r show ?thesis by auto
qed

section \<open>The threads\<close>

lemma put_room:
  assumes "fifo_inv q" and "length (contents q) < stats_limit q" and "length (contents q) < n_elements q"
  shows "\<exists>q'. put x q = Inr (Done () q') \<and> fifo_inv q' \<and> contents q' = contents q @ [x] \<and> stats_limit q' = stats_limit q \<and>
    n_elements q' = n_elements q"
proof -
  have wf: "wf_fifo q" "0 \<le> divider (fs q)" using assms(1) by (auto simp: fifo_inv_def)
  have nf: "\<not> full q" using full_contents [OF wf(1)] assms(3) by simp
  obtain q' where q': "store x q = Inr q'" using store_defined [OF wf(1) nf wf(2)] assms(2) by auto
  have "n_elements q' = n_elements q" using q' by (auto simp: store_def Let_def split: if_splits)
  with store_conserves [OF assms(1) nf q'] nf q' show ?thesis
    by (auto simp: put_def put_retry_def conserves_def)
qed

definition room :: "nat \<Rightarrow> tcp \<Rightarrow> bool" where
  "room n t \<longleftrightarrow> fifo_inv (ending_sessions t) \<and> length (contents (ending_sessions t)) + n \<le> stats_limit (ending_sessions t) \<and>
     length (contents (ending_sessions t)) + n \<le> n_elements (ending_sessions t)"

lemma put_ending_room:
  assumes "room (Suc n) t"
  shows "\<exists>t'. put_ending s t = Inr (Done () t') \<and> sessions t' = sessions t \<and> room n t' \<and>
    contents (ending_sessions t') = contents (ending_sessions t) @ [s]"
  using put_room [of "ending_sessions t" s] assms by (fastforce simp: put_ending_def room_def)

lemma map_erase_here:
  assumes "map_ok (pre @ (k, s) # it)"
  shows "map_erase k (pre @ (k, s) # it) = pre @ it"
proof -
  have "k \<notin> set (map fst pre)" "k \<notin> set (map fst it)" using map_ok_distinct [OF assms] by auto
  then have "filter (\<lambda>(k', v). k' \<noteq> k) pre = pre" "filter (\<lambda>(k', v). k' \<noteq> k) it = it"
    by (force simp: filter_id_conv)+
  then show ?thesis by (simp add: map_erase_def)
qed

lemma cleaner_loop_outcome:
  assumes "map_ok (sessions t)" and "sessions t = pre @ it" and "room (length (filter (\<lambda>(k, s). session_over now s) it)) t"
  shows "if \<exists>(k, s)\<in>set it. in_init s then cleaner_loop now it t = Inl Diverges
    else \<exists>t'. cleaner_loop now it t = Inr (Done () t') \<and> sessions t' = pre @ filter (\<lambda>(k, s). \<not> session_over now s) it \<and>
      contents (ending_sessions t') = contents (ending_sessions t) @ map snd (filter (\<lambda>(k, s). session_over now s) it)"
  using assms
proof (induction it arbitrary: t pre)
  case (Cons x it)
  obtain k s where x: "x = (k, s)" by (cases x)
  show ?case
  proof (cases "in_init s")
    case False
    show ?thesis
    proof (cases "session_over now s")
      case True
      let ?t = "t\<lparr>tcp_sessions_to := tcp_sessions_to t + 1,
        tcp_clients := (if is_client s then (tcp_clients t)(uint (my_port s) := None) else tcp_clients t)\<rparr>"
      have "room (Suc (length (filter (\<lambda>(k, s). session_over now s) it))) ?t"
        using Cons.prems(3) True by (simp add: room_def x)
      from put_ending_room [OF this, of s] obtain t1 where t1: "put_ending s ?t = Inr (Done () t1)" "sessions t1 = sessions t"
        "room (length (filter (\<lambda>(k, s). session_over now s) it)) t1"
        "contents (ending_sessions t1) = contents (ending_sessions t) @ [s]" by auto
      let ?t2 = "t1\<lparr>sessions := map_erase k (sessions t1)\<rparr>"
      have e: "map_erase k (sessions t1) = pre @ it" using t1(2) Cons.prems(1,2) map_erase_here x by metis
      have "map_ok (sessions ?t2)" using Cons.prems(1) t1(2) by auto
      moreover have "sessions ?t2 = pre @ it" using e by simp
      moreover have "room (length (filter (\<lambda>(k, s). session_over now s) it)) ?t2" using t1(3) by (simp add: room_def)
      ultimately have "if \<exists>(k, s)\<in>set it. in_init s then cleaner_loop now it ?t2 = Inl Diverges
        else \<exists>t'. cleaner_loop now it ?t2 = Inr (Done () t') \<and> sessions t' = pre @ filter (\<lambda>(k, s). \<not> session_over now s) it \<and>
          contents (ending_sessions t') = contents (ending_sessions ?t2) @ map snd (filter (\<lambda>(k, s). session_over now s) it)"
        by (rule Cons.IH)
      then show ?thesis using t1 False True by (auto simp: x split: if_splits)
    next
      case over: False
      have "if \<exists>(k, s)\<in>set it. in_init s then cleaner_loop now it t = Inl Diverges
        else \<exists>t'. cleaner_loop now it t = Inr (Done () t') \<and> sessions t' = (pre @ [x]) @ filter (\<lambda>(k, s). \<not> session_over now s) it \<and>
          contents (ending_sessions t') = contents (ending_sessions t) @ map snd (filter (\<lambda>(k, s). session_over now s) it)"
        by (rule Cons.IH) (use Cons.prems over x in auto)
      then show ?thesis using False over by (auto simp: x split: if_splits)
    qed
  qed (auto simp: x)
qed simp

text \<open>
  C6. The session cleaner: with room in the queue of ending sessions a round of it returns exactly if no
  session is in its initialisation; it then takes the sessions out of the table that are over (closed, timed
  out, or five seconds in syn_rcvd), in order, and only these, and hands each to the session
  enders.  A single client session that is being set up makes it loop forever, holding the lock of
  the sessions.
\<close>

theorem session_cleaner_outcome:
  assumes "map_ok (sessions t)" and "room (length (filter (\<lambda>(k, s). session_over now s) (sessions t))) t"
  shows "if \<exists>(k, s)\<in>set (sessions t). in_init s then session_cleaner now t = Inl Diverges
    else \<exists>t'. session_cleaner now t = Inr (Done () t') \<and> sessions t' = filter (\<lambda>(k, s). \<not> session_over now s) (sessions t) \<and>
      contents (ending_sessions t') = contents (ending_sessions t) @ map snd (filter (\<lambda>(k, s). session_over now s) (sessions t))"
  using cleaner_loop_outcome [OF assms(1) _ assms(2), of "[]"]
  by (auto simp: session_cleaner_def set_cur_n_def split: if_splits)

theorem session_cleaner_outcome_witness:
  "\<exists>t'. session_cleaner 1000000000 (tcp_new\<lparr>sessions := [(1, tcp_session_new (Addr AF_mac []) 0 (Addr AF_mac []) 0)]\<rparr>) = Inr (Done () t') \<and>
     sessions t' = []"
proof -
  let ?s = "tcp_session_new (Addr AF_mac []) 0 (Addr AF_mac []) 0"
  let ?t = "tcp_new\<lparr>sessions := [(1, ?s)]\<rparr>"
  have over: "session_over 1000000000 ?s" by code_simp
  have r: "room (length (filter (\<lambda>(k, s). session_over 1000000000 s) (sessions ?t))) ?t"
    using fifo_new_inv [of 256 ?s] over wf_fifo_new [of 256 ?s]
    by (simp add: room_def tcp_new_def stats_limit_new) (simp add: fifo_new_def)
  have "map_ok (sessions ?t)" by (simp add: map_ok_def)
  from session_cleaner_outcome [OF this r] over show ?thesis by (auto simp: tcp_session_new_def)
qed

section \<open>Flow control\<close>

text \<open>The number of octets of data of a segment of \<open>send_segment\<close>, whose header has 32 octets.\<close>

definition seg_data_len :: "ip_send \<Rightarrow> nat" where
  "seg_data_len out = length (is_payload out) - 32"

lemma unacked_loop_window:
  "unacked_loop env rc n m i q s = Inr (outs, s') \<Longrightarrow>
   sum_list (map seg_data_len outs) \<le> m - i \<and> (\<forall>out\<in>set outs. length (is_payload out) \<le> 32 + n)"
proof (induction env rc n m i q s arbitrary: outs s' rule: unacked_loop.induct)
  case (1 env rc n m i q s)
  show ?case
  proof (cases "i < m \<and> 0 < n")
    case True
    with "1.prems" obtain d out seq' s1 where d: "octets_at (unacked s) i (min n (m - i)) = Inr d"
      and s1: "send_from env (my_addr s) (my_port s) (their_addr s) (their_port s) FLAG_ACK (their_seq_nr s) (Some q) d 0 s = Inr (out, seq', s1)"
      and r: "if rc i then (\<exists>outs2. unacked_loop env rc n m (i + n) (case seq' of None \<Rightarrow> q | Some k \<Rightarrow> k)
          (s1\<lparr>data_since_last_ack := data_since_last_ack s1 + of_nat (min n (m - i))\<rparr>) = Inr (outs2, s') \<and> outs = out @ outs2) else outs = []"
      by (subst (asm) unacked_loop.simps) (auto simp: Let_def split: if_splits)
    have l: "length d = min n (m - i)" using d by (auto simp: octets_at_def split: if_splits)
    have o: "length (is_payload o1) = 32 + length d" if "o1 \<in> set out" for o1
      using send_from_effect(3) [OF s1] that tcp_octets_fields(3) by (fastforce simp: seg_out_def)
    have "length out \<le> 1" using s1 by (auto simp: send_from_def split: if_splits)
    then have so: "sum_list (map seg_data_len out) \<le> length d"
      using o by (cases out) (auto simp: seg_data_len_def)
    show ?thesis
    proof (cases "rc i")
      case rc: True
      then obtain outs2 where r2: "unacked_loop env rc n m (i + n) (case seq' of None \<Rightarrow> q | Some k \<Rightarrow> k)
          (s1\<lparr>data_since_last_ack := data_since_last_ack s1 + of_nat (min n (m - i))\<rparr>) = Inr (outs2, s')" "outs = out @ outs2" using r by auto
      have b: "sum_list (map seg_data_len outs2) \<le> m - (i + n)" "\<forall>out\<in>set outs2. length (is_payload out) \<le> 32 + n"
        using "1.IH" [OF True refl rc r2(1)] by auto
      have "min n (m - i) + (m - (i + n)) = m - i" by linarith
      then have "sum_list (map seg_data_len outs) \<le> m - i"
        using so b(1) l unfolding r2(2) map_append sum_list_append by linarith
      with b(2) o l r2(2) show ?thesis by auto
    next
      case False
      with r show ?thesis by simp
    qed
  next
    case False
    with "1.prems" show ?thesis by (subst (asm) unacked_loop.simps) auto
  qed
qed

lemma unat_window_less: "unat (window_size s) < 65536"
  using unsigned_less [of "window_size s"] by simp

lemma unat_window: "unat (ucast (window_size s) :: u64) = unat (window_size s)"
  using unat_window_less [of s] by (simp add: unsigned_ucast_eq take_bit_nat_eq_self)

lemma to_send_value:
  assumes "data_since_last_ack s \<le> ucast (window_size s)"
  shows "to_send s = min (int (unat (window_size s)) - int (unat (data_since_last_ack s))) (int (unat (unacked_size s)))"
proof -
  let ?w = "ucast (window_size s) :: u64"
  have w: "unat ?w = unat (window_size s)" "unat ?w < 65536"
    using unat_window [of s] unat_window_less [of s] by simp_all
  have d: "unat (?w - data_since_last_ack s) = unat (window_size s) - unat (data_since_last_ack s)"
    using assms w by (simp add: unat_sub word_le_nat_alt)
  let ?m = "min (?w - data_since_last_ack s) (unacked_size s)"
  have m: "unat ?m = min (unat (window_size s) - unat (data_since_last_ack s)) (unat (unacked_size s))"
    by (simp add: min_def d word_le_nat_alt)
  then have "unat ?m < 2 ^ 31" using w by simp
  then have "sint (ucast ?m :: u32) = int (unat ?m)"
    using sint_small [of "unat ?m"] by simp
  moreover have "unat (data_since_last_ack s) \<le> unat (window_size s)" using assms w by (simp add: word_le_nat_alt)
  ultimately show ?thesis unfolding to_send_def m by (simp only: of_nat_min of_nat_diff)
qed

text \<open>
  When the window got smaller than what was sent since the last acknowledgement the subtraction wraps,
  and the limit is the size of the buffer.
\<close>

lemma to_send_shrunk:
  assumes "ucast (window_size s) < data_since_last_ack s" and "data_since_last_ack s < 2 ^ 63" and "unacked_size s < 2 ^ 31"
  shows "to_send s = int (unat (unacked_size s))"
proof -
  let ?w = "ucast (window_size s) :: u64" and ?d = "data_since_last_ack s"
  have n: "unat ?w < unat ?d" "unat ?d < 2 ^ 63" "unat (unacked_size s) < 2 ^ 31"
    using assms by (simp_all add: word_less_nat_alt)
  have "unat (?w - ?d) = unat ?w + 2 ^ 64 - unat ?d" using n(1) by (simp add: unat_sub_if' word_le_nat_alt)
  then have "unat (unacked_size s) \<le> unat (?w - ?d)" using n by simp
  then have "unacked_size s \<le> ?w - ?d" by (simp add: word_le_nat_alt)
  then have m: "min (?w - ?d) (unacked_size s) = unacked_size s" by (rule min_absorb2)
  show ?thesis unfolding to_send_def m using sint_small [of "unat (unacked_size s)"] n(3) by simp
qed

text \<open>
  C7. Flow control: no segment of a round of the sender thread is larger than what the device takes. As long as a
  session has not sent more than the window of its peer since the last acknowledgement, a round
  hands over at most the rest of the window.  When the peer has made its window smaller than that
  the difference wraps, and the round tries to send the whole buffer, whatever the window is.
\<close>

theorem unacked_round_window:
  assumes "unacked_round env rc s = Inr (outs, s')"
  shows "(\<forall>out\<in>set outs. int (length (is_payload out)) \<le> env_mtu env) \<and>
    (data_since_last_ack s \<le> ucast (window_size s) \<longrightarrow>
       sum_list (map seg_data_len outs) + unat (data_since_last_ack s) \<le> unat (window_size s)) \<and>
    (ucast (window_size s) < data_since_last_ack s \<and> data_since_last_ack s < 2 ^ 63 \<and> unacked_size s < 2 ^ 31 \<longrightarrow>
       to_send s = int (unat (unacked_size s)))"
proof (cases "1000000 \<le> env_now env - r_last_pkt_ts s \<and> 0 < to_send s")
  case True
  with assms(1) obtain s1 where "unacked_loop env rc (nat (env_mtu env - 32)) (nat (to_send s)) 0 (my_seq_nr s) s = Inr (outs, s1)"
    "0 < env_mtu env - 32" by (auto simp: unacked_round_def Let_def split: if_splits)
  note l = this
  have "int (sum_list (map seg_data_len outs)) \<le> to_send s" using unacked_loop_window [OF l(1)] True by linarith
  then have "sum_list (map seg_data_len outs) + unat (data_since_last_ack s) \<le> unat (window_size s)"
    if "data_since_last_ack s \<le> ucast (window_size s)" using to_send_value [OF that] by linarith
  moreover have "int (length (is_payload out)) \<le> env_mtu env" if "out \<in> set outs" for out
    using unacked_loop_window [OF l(1)] l(2) that by fastforce
  ultimately show ?thesis using to_send_shrunk by blast
next
  case False
  have "unat (data_since_last_ack s) \<le> unat (window_size s)" if "data_since_last_ack s \<le> ucast (window_size s)"
    using that unat_window [of s] by (simp add: word_le_nat_alt)
  moreover have "outs = []" using False assms(1) by (auto simp: unacked_round_def split: if_splits)
  ultimately show ?thesis using to_send_shrunk by simp
qed

theorem unacked_round_window_witness:
  "\<exists>outs s'. unacked_round example_env (\<lambda>_. True) (the (send_data [1, 2, 3] (example_session 0))) = Inr (outs, s') \<and>
     outs \<noteq> [] \<and> sum_list (map seg_data_len outs) \<le> 512"
proof -
  obtain s where s: "send_data [1, 2, 3] (example_session 0) = Some s"
    by (simp add: send_data_def example_session_def Let_def tcp_session_new_def)
  then have f: "data_since_last_ack s = 0" "window_size s = 512"
    by (auto simp: send_data_def example_session_def Let_def tcp_session_new_def)
  obtain out s' where r: "unacked_round example_env (\<lambda>_. True) s = Inr ([out], s')" using example_round [OF s] by blast
  from unacked_round_window [OF r] f r s show ?thesis by auto
qed

text \<open>
  The end of a session: the session ender takes the oldest ending session and tells its application, once that
  the session ends (session_closed_1) and twice that it is gone (session_closed_2): before and in
  free_tcp_session.
\<close>

theorem session_ender_calls:
  assumes "fifo_inv (ending_sessions t)" and "contents (ending_sessions t) = s # rest" and "\<not> interrupted (ending_sessions t)"
    and "listeners t (uint (my_port s)) = Some h" and "ph_session_closed_1 h" and "ph_session_closed_2 h"
  shows "\<exists>t'. session_ender t =
      Inr (Done (Some [Session_closed_2 (sess_id s), Session_closed_1 (sess_id s), Session_closed_2 (sess_id s)]) t') \<and>
    contents (ending_sessions t') = rest"
proof -
  have wf: "wf_fifo (ending_sessions t)" using assms(1) by (simp add: fifo_inv_def)
  have ne: "\<not> is_empty (ending_sessions t)" using is_empty_contents [OF wf] assms(2) by simp
  obtain q where "remove (ending_sessions t) = Inr (Some s, q)" "contents q = rest"
    using remove_ok [OF wf assms(2)] by blast
  with ne assms(3-6) show ?thesis by (simp add: session_ender_def get_def free_tcp_session_def)
qed

theorem session_ender_calls_witness:
  "\<exists>t t'. session_ender t = Inr (Done (Some [Session_closed_2 5, Session_closed_1 5, Session_closed_2 5]) t')"
proof -
  let ?s = "(example_session 0)\<lparr>sess_id := 5\<rparr>" and ?d = "tcp_session_new (Addr AF_mac []) 0 (Addr AF_mac []) 0"
  have n: "fifo_inv (ending_sessions example_tcp)" "contents (ending_sessions example_tcp) = []"
    "stats_limit (ending_sessions example_tcp) = 199" "n_elements (ending_sessions example_tcp) = 256"
    using fifo_new_inv [of 256 ?d] wf_fifo_new [of 256 ?d] stats_limit_new [of ?d 256]
    by (simp_all add: example_tcp_def tcp_add_handler_def tcp_new_def) (simp add: fifo_new_def)
  obtain q where q: "put ?s (ending_sessions example_tcp) = Inr (Done () q)" "fifo_inv q" "contents q = [?s]"
    using put_room [OF n(1), of ?s] n by auto
  have i: "\<not> interrupted q" using q(1)
    by (auto simp: put_def put_retry_def store_def Let_def example_tcp_def tcp_add_handler_def tcp_new_def fifo_new_def split: if_splits)
  let ?t = "example_tcp\<lparr>ending_sessions := q\<rparr>"
  have "listeners ?t (uint (my_port ?s)) = Some example_handler"
    by (simp add: example_tcp_def tcp_add_handler_def tcp_new_def example_session_def Let_def tcp_session_new_def)
  from session_ender_calls [of ?t, OF _ _ _ this] q(2,3) i show ?thesis by (auto simp: example_handler_def)
qed

end
