(* ===== verification/Phys.thy ===== *)
theory Phys
  imports Network_Layer
begin

text \<open>
  What the physical interfaces share (\<^verbatim>\<open>src/phys.cpp\<close>, \<^verbatim>\<open>src/phys.h\<close>): the counters, the
  registered protocols and the own link address of a device, the results of a read of one octet
  from a serial line, and the contract of a line that carries frames in a stream of octets.
\<close>

section \<open>The state of a device\<close>

text \<open>The layers are numbers; \<open>prot_map\<close> is the \<open>std::map\<close> from ether types to layers.\<close>

record phys =
  phys_recv_frame :: u64
  phys_invl_frame :: u64
  phys_ign_frame :: u64
  phys_ifInOctets :: u64
  phys_ifHCInOctets :: u64
  phys_ifInUcastPkts :: u64
  phys_ifOutOctets :: u64
  phys_ifHCOutOctets :: u64
  phys_ifOutUcastPkts :: u64
  mtu_size :: int
  phys_prot_map :: "u16 \<rightharpoonup> nat"
  my_mac :: addr

definition phys_new :: "addr \<Rightarrow> phys" where
  "phys_new mac = \<lparr>phys_recv_frame = 0, phys_invl_frame = 0, phys_ign_frame = 0, phys_ifInOctets = 0,
     phys_ifHCInOctets = 0, phys_ifInUcastPkts = 0, phys_ifOutOctets = 0, phys_ifHCOutOctets = 0,
     phys_ifOutUcastPkts = 0, mtu_size = 1500, phys_prot_map = Map.empty, my_mac = mac\<rparr>"

text \<open>\<open>std::map::insert\<close> keeps an older entry.\<close>

definition phys_register_protocol :: "u16 \<Rightarrow> nat \<Rightarrow> 'a phys_scheme \<Rightarrow> 'a phys_scheme" where
  "phys_register_protocol ether_type p d =
     (case phys_prot_map d ether_type of
        None \<Rightarrow> d\<lparr>phys_prot_map := (phys_prot_map d)(ether_type \<mapsto> p)\<rparr>
      | Some _ \<Rightarrow> d)"

definition get_protocol :: "u16 \<Rightarrow> 'a phys_scheme \<Rightarrow> nat option" where
  "get_protocol protocol d = phys_prot_map d protocol"

definition get_max_packet_size :: "'a phys_scheme \<Rightarrow> int" where
  "get_max_packet_size d = mtu_size d - 14"

section \<open>Reading a line octet by octet\<close>

text \<open>
  The result of \<^verbatim>\<open>read(fd, &buffer, 1)\<close> into a variable that holds 0 before: an octet, the end of the
  input or an error.
\<close>

datatype read_result = Octet byte | Eof | Read_error

definition read_octet :: "read_result \<Rightarrow> byte" where
  "read_octet r = (case r of Octet b \<Rightarrow> b | _ \<Rightarrow> 0)"

definition read_size :: "read_result \<Rightarrow> u64" where
  "read_size r = (case r of Octet b \<Rightarrow> 1 | Eof \<Rightarrow> 0 | Read_error \<Rightarrow> -1)"

lemma read_octet_Octet [simp]: "read_octet (Octet b) = b"
  by (simp add: read_octet_def)

text \<open>A receiver that looks at one item after the other and hands on what it completes.\<close>

fun rx_run :: "('s \<Rightarrow> 'i \<Rightarrow> 's \<times> 'p list) \<Rightarrow> 's \<Rightarrow> 'i list \<Rightarrow> 's \<times> 'p list" where
  "rx_run rx s [] = (s, [])"
| "rx_run rx s (i # is) = (let (s1, ps) = rx s i; (s2, qs) = rx_run rx s1 is in (s2, ps @ qs))"

lemma rx_run_append:
  "rx_run rx s (xs @ ys) = (let (s1, ps) = rx_run rx s xs; (s2, qs) = rx_run rx s1 ys in (s2, ps @ qs))"
  by (induction xs arbitrary: s) (auto simp: split_beta Let_def)

text \<open>
  The contract of a line that carries frames: an idle receiver hands on exactly the message of a
  frame and is idle again.
\<close>

locale framed_line =
  fixes rx :: "'s \<Rightarrow> 'i \<Rightarrow> 's \<times> 'p list"
    and frame :: "'m \<Rightarrow> 'i list"
    and sendable :: "'m \<Rightarrow> bool"
    and deliver :: "'m \<Rightarrow> 'p list"
    and idle :: "'s \<Rightarrow> bool"
  assumes rx_idle: "idle s \<Longrightarrow> sendable m \<Longrightarrow> \<exists>s'. rx_run rx s (frame m) = (s', deliver m) \<and> idle s'"
begin

lemma line_stream:
  "idle s \<Longrightarrow> list_all sendable ms \<Longrightarrow>
   \<exists>s'. rx_run rx s (concat (map frame ms)) = (s', concat (map deliver ms)) \<and> idle s'"
proof (induction ms arbitrary: s)
  case (Cons m ms)
  then obtain s1 where s1: "rx_run rx s (frame m) = (s1, deliver m)" "idle s1" using rx_idle by fastforce
  moreover from Cons.IH [OF s1(2)] Cons.prems(2)
  obtain s2 where "rx_run rx s1 (concat (map frame ms)) = (s2, concat (map deliver ms))" "idle s2" by auto
  ultimately show ?case by (simp add: rx_run_append)
qed simp

end

text \<open>
  A line that finds back into step: a receiver in the middle of something may hand on what it had
  collected, and then the message.
\<close>

locale resync_line = framed_line rx frame sendable deliver idle
  for rx :: "'s \<Rightarrow> 'i \<Rightarrow> 's \<times> 'p list" and frame :: "'m \<Rightarrow> 'i list" and sendable deliver idle +
  fixes ready :: "'s \<Rightarrow> bool"
    and rest :: "'s \<Rightarrow> 'p list"
  assumes rx_ready: "ready s \<Longrightarrow> sendable m \<Longrightarrow> \<exists>s'. rx_run rx s (frame m) = (s', rest s @ deliver m) \<and> idle s'"
begin

lemma line_resync:
  assumes "ready s" and "list_all sendable (m # ms)"
  shows "\<exists>s'. rx_run rx s (concat (map frame (m # ms))) = (s', rest s @ concat (map deliver (m # ms))) \<and> idle s'"
proof -
  obtain s1 where s1: "rx_run rx s (frame m) = (s1, rest s @ deliver m)" "idle s1" using rx_ready assms by fastforce
  with line_stream [OF s1(2), of ms] assms(2) show ?thesis by (auto simp: rx_run_append)
qed

end

text \<open>
  A thread that ends with an exception takes the program down: it hands on nothing any more.
\<close>

definition failing_rx :: "('i \<Rightarrow> 's \<Rightarrow> ('p list \<times> 's) res) \<Rightarrow> 's res \<Rightarrow> 'i \<Rightarrow> 's res \<times> 'p list" where
  "failing_rx step r i =
     (case rbind r (step i) of Inl e \<Rightarrow> (Inl e, []) | Inr (ps, s') \<Rightarrow> (Inr s', ps))"

lemma failing_rx_Inr:
  "failing_rx step (Inr s) i = (case step i s of Inl e \<Rightarrow> (Inl e, []) | Inr (ps, s') \<Rightarrow> (Inr s', ps))"
  by (simp add: failing_rx_def)

end
