(* ===== verification/Slip.thy ===== *)
theory Slip
  imports Phys
begin

text \<open>
  The SLIP interface (\<^verbatim>\<open>src/phys_slip.cpp\<close>): \<open>transmit_packet\<close> and the loop of the receiving
  thread.  One iteration of the loop is a step; after an escape octet the thread waits in a second
  \<open>read\<close>, which is the flag \<open>sl_escape\<close>.  Time stamps of packets are not modelled.
\<close>

section \<open>The interface\<close>

record slip = phys +
  sl_packet_buffer :: "byte list"
  sl_escape :: bool

definition slip_new :: "addr \<Rightarrow> slip res" where
  "slip_new mac = rbind (rassert (length (octets mac) = 6)) (\<lambda>_.
     Inr (phys.extend (phys_new mac) (slip.fields [] False)))"

definition slip_escape :: "byte \<Rightarrow> byte list" where
  "slip_escape b = (if b = 0xc0 then [0xdb, 0xdc] else if b = 0xdb then [0xdb, 0xdd] else [b])"

definition slip_frame :: "byte list \<Rightarrow> byte list" where
  "slip_frame payload = 0xc0 # concat (map slip_escape payload) @ [0xc0]"

text \<open>
  \<open>rc\<close> is the result of \<open>write\<close>.  The octets are stored in an array of \<^verbatim>\<open>pl_size * 2 + 2\<close> octets;
  the octets on the line are part of the result.
\<close>

definition slip_transmit_packet :: "int \<Rightarrow> byte list \<Rightarrow> slip \<Rightarrow> (bool \<times> byte list \<times> slip) res" where
  "slip_transmit_packet rc payload s =
     (let out_size = length payload * 2 + 2; out = slip_frame payload; out_o = length out in
      if out_size < out_o then Inl Undefined_behaviour
      else Inr (rc = int out_o, out,
             s\<lparr>phys_ifOutOctets := phys_ifOutOctets s + of_nat out_o, phys_ifHCOutOctets := phys_ifHCOutOctets s + of_nat out_o,
               phys_ifOutUcastPkts := phys_ifOutUcastPkts s + 1\<rparr>))"

text \<open>The end of a frame: what was collected goes to the IPv4 layer, if there is one.\<close>

definition slip_src_mac :: addr where
  "slip_src_mac = Addr AF_mac [0, 0, 0, 0, 0, 1]"

definition slip_packet :: "addr \<Rightarrow> byte list \<Rightarrow> packet" where
  "slip_packet mac data = packet_new_link slip_src_mac mac data [] False"

definition slip_end :: "u64 \<Rightarrow> slip \<Rightarrow> slip \<times> (nat \<times> packet) list" where
  "slip_end sz s0 =
     (let s = s0\<lparr>phys_recv_frame := phys_recv_frame s0 + 1\<rparr> in
      if length (sl_packet_buffer s) < 20 then
        (s\<lparr>phys_invl_frame := (if sz \<noteq> 0 then phys_invl_frame s + 1 else phys_invl_frame s), sl_packet_buffer := []\<rparr>, [])
      else
        (s\<lparr>sl_packet_buffer := []\<rparr>,
         case phys_prot_map s 0x800 of
           None \<Rightarrow> []
         | Some layer \<Rightarrow> [(layer, slip_packet (my_mac s) (sl_packet_buffer s))]))"

definition slip_step :: "slip \<Rightarrow> read_result \<Rightarrow> slip \<times> (nat \<times> packet) list" where
  "slip_step s0 r =
     (if sl_escape s0 then
        let buffer2 = read_octet r; s = s0\<lparr>sl_escape := False\<rparr> in
        (if buffer2 = 0xdc then s\<lparr>sl_packet_buffer := sl_packet_buffer s @ [0xc0]\<rparr>
         else if buffer2 = 0xdd then s\<lparr>sl_packet_buffer := sl_packet_buffer s @ [0xdb]\<rparr>
         else s, [])
      else if r = Read_error then (s0, [])
      else
        let buffer = read_octet r; sz = read_size r;
            s = s0\<lparr>phys_ifInOctets := phys_ifInOctets s0 + sz, phys_ifHCInOctets := phys_ifHCInOctets s0 + sz,
                   phys_ifInUcastPkts := phys_ifInUcastPkts s0 + 1\<rparr> in
        if buffer = 0xdb then (s\<lparr>sl_escape := True\<rparr>, [])
        else if buffer = 0xc0 then slip_end sz s
        else (s\<lparr>sl_packet_buffer := sl_packet_buffer s @ [buffer]\<rparr>, []))"

section \<open>The line\<close>

text \<open>What the configuration of a device is: the layers it hands packets to and its address.\<close>

definition phys_cfg :: "'a phys_scheme \<Rightarrow> (u16 \<rightharpoonup> nat) \<times> addr" where
  "phys_cfg d = (phys_prot_map d, my_mac d)"

definition slip_deliver :: "(u16 \<rightharpoonup> nat) \<times> addr \<Rightarrow> byte list \<Rightarrow> (nat \<times> packet) list" where
  "slip_deliver c data =
     (case fst c 0x800 of
        None \<Rightarrow> []
      | Some layer \<Rightarrow> if 20 \<le> length data then [(layer, slip_packet (snd c) data)] else [])"

definition slip_ready :: "(u16 \<rightharpoonup> nat) \<times> addr \<Rightarrow> slip \<Rightarrow> bool" where
  "slip_ready c s \<longleftrightarrow> \<not> sl_escape s \<and> phys_cfg s = c"

definition slip_idle :: "(u16 \<rightharpoonup> nat) \<times> addr \<Rightarrow> slip \<Rightarrow> bool" where
  "slip_idle c s \<longleftrightarrow> slip_ready c s \<and> sl_packet_buffer s = []"

lemma slip_end_deliver:
  "slip_ready c s \<Longrightarrow> snd (slip_end sz s) = slip_deliver c (sl_packet_buffer s) \<and> slip_idle c (fst (slip_end sz s))"
  by (auto simp: slip_end_def slip_deliver_def slip_idle_def slip_ready_def phys_cfg_def Let_def split: option.split)

lemma slip_step_end:
  "slip_ready c s \<Longrightarrow> \<exists>s'. slip_step s (Octet 0xc0) = (s', slip_deliver c (sl_packet_buffer s)) \<and> slip_idle c s'"
  using slip_end_deliver [of c "s\<lparr>phys_ifInOctets := phys_ifInOctets s + 1, phys_ifHCInOctets := phys_ifHCInOctets s + 1,
                   phys_ifInUcastPkts := phys_ifInUcastPkts s + 1\<rparr>" 1]
  by (cases "slip_step s (Octet 0xc0)") (simp add: slip_step_def read_size_def Let_def slip_ready_def phys_cfg_def)

lemma slip_step_escape:
  "slip_ready c s \<Longrightarrow>
   \<exists>s'. rx_run slip_step s (map Octet (slip_escape b)) = (s', []) \<and> slip_ready c s' \<and> sl_packet_buffer s' = sl_packet_buffer s @ [b]"
  by (auto simp: slip_escape_def slip_step_def slip_ready_def phys_cfg_def Let_def)

lemma slip_run_payload:
  "slip_ready c s \<Longrightarrow>
   \<exists>s'. rx_run slip_step s (map Octet (concat (map slip_escape data))) = (s', []) \<and> slip_ready c s' \<and>
     sl_packet_buffer s' = sl_packet_buffer s @ data"
proof (induction data arbitrary: s)
  case (Cons b data)
  from slip_step_escape [OF Cons.prems, of b]
  obtain s1 where s1: "rx_run slip_step s (map Octet (slip_escape b)) = (s1, [])" "slip_ready c s1"
    "sl_packet_buffer s1 = sl_packet_buffer s @ [b]" by blast
  with Cons.IH [OF s1(2)] show ?case by (auto simp: rx_run_append)
qed simp

lemma slip_run_frame:
  assumes "slip_ready c s"
  shows "\<exists>s'. rx_run slip_step s (map Octet (slip_frame data)) = (s', slip_deliver c (sl_packet_buffer s) @ slip_deliver c data) \<and>
    slip_idle c s'"
proof -
  obtain s1 where s1: "slip_step s (Octet 0xc0) = (s1, slip_deliver c (sl_packet_buffer s))" "slip_idle c s1"
    using slip_step_end [OF assms] by blast
  then have r1: "slip_ready c s1" "sl_packet_buffer s1 = []" by (simp_all add: slip_idle_def)
  from slip_run_payload [OF r1(1), of data] r1(2)
  obtain s2 where s2: "rx_run slip_step s1 (map Octet (concat (map slip_escape data))) = (s2, [])"
    "slip_ready c s2" "sl_packet_buffer s2 = data" by auto
  from slip_step_end [OF s2(2)] s2 s1 show ?thesis by (auto simp: slip_frame_def rx_run_append)
qed

lemma slip_deliver_Nil [simp]: "slip_deliver c [] = []"
  by (simp add: slip_deliver_def split: option.split)

interpretation slip_line: resync_line slip_step "\<lambda>data. map Octet (slip_frame data)" "\<lambda>data. True"
  "slip_deliver c" "slip_idle c" "slip_ready c" "\<lambda>s. slip_deliver c (sl_packet_buffer s)" for c
proof
  fix s and data :: "byte list"
  show "slip_idle c s \<Longrightarrow> \<exists>s'. rx_run slip_step s (map Octet (slip_frame data)) = (s', slip_deliver c data) \<and> slip_idle c s'"
    using slip_run_frame [of c s data] by (simp add: slip_idle_def)
  show "slip_ready c s \<Longrightarrow> \<exists>s'. rx_run slip_step s (map Octet (slip_frame data)) =
      (s', slip_deliver c (sl_packet_buffer s) @ slip_deliver c data) \<and> slip_idle c s'"
    by (rule slip_run_frame)
qed

lemma slip_frame_fits: "length (slip_frame payload) \<le> length payload * 2 + 2"
  by (induction payload) (auto simp: slip_frame_def slip_escape_def)

section \<open>Properties\<close>

lemma slip_deliver_concat:
  "fst c 0x800 = Some layer \<Longrightarrow>
   concat (map (slip_deliver c) ps) = map (\<lambda>d. (layer, slip_packet (snd c) d)) (filter (\<lambda>d. 20 \<le> length d) ps)"
  by (induction ps) (auto simp: slip_deliver_def)

text \<open>
  C25. A sequence of packets over a SLIP line: \<open>transmit_packet\<close> never stores behind the end of its
  array, and a receiver in whatever state, except between the two octets of an escape, hands the
  packets of at least 20 octets to its IPv4 layer, unchanged, in order and once each, after at most
  one packet made of what it had collected before; a receiver between packets hands on exactly
  those packets.
\<close>

theorem slip_transfer:
  assumes "\<not> sl_escape r" and "phys_prot_map r 0x800 = Some layer"
  shows "(\<forall>d\<in>set (p # ps). \<exists>s'. slip_transmit_packet (int (length (slip_frame d))) d s = Inr (True, slip_frame d, s')) \<and>
    (\<exists>r' gs. rx_run slip_step r (map Octet (concat (map slip_frame (p # ps)))) =
        (r', gs @ map (\<lambda>d. (layer, slip_packet (my_mac r) d)) (filter (\<lambda>d. 20 \<le> length d) (p # ps))) \<and>
      sl_packet_buffer r' = [] \<and> \<not> sl_escape r' \<and> length gs \<le> 1 \<and> (sl_packet_buffer r = [] \<longrightarrow> gs = []))"
proof
  show "\<forall>d\<in>set (p # ps). \<exists>s'. slip_transmit_packet (int (length (slip_frame d))) d s = Inr (True, slip_frame d, s')"
    using slip_frame_fits by (simp add: slip_transmit_packet_def Let_def not_less)
  let ?c = "phys_cfg r" and ?gs = "slip_deliver (phys_cfg r) (sl_packet_buffer r)"
  have "slip_ready ?c r" using assms(1) by (simp add: slip_ready_def)
  from slip_line.line_resync [OF this, of p ps]
  obtain r2 where r2: "rx_run slip_step r (concat (map (\<lambda>data. map Octet (slip_frame data)) (p # ps))) =
      (r2, ?gs @ concat (map (slip_deliver ?c) (p # ps)))" "slip_idle ?c r2"
    by (auto simp: list_all_def)
  have "rx_run slip_step r (map Octet (concat (map slip_frame (p # ps)))) = (r2, ?gs @ concat (map (slip_deliver ?c) (p # ps)))"
    using r2(1) by (simp add: map_concat comp_def)
  moreover have "concat (map (slip_deliver ?c) (p # ps)) = map (\<lambda>d. (layer, slip_packet (my_mac r) d)) (filter (\<lambda>d. 20 \<le> length d) (p # ps))"
    using slip_deliver_concat [of ?c layer "p # ps"] assms(2) by (simp add: phys_cfg_def)
  moreover have "length ?gs \<le> 1" "sl_packet_buffer r = [] \<longrightarrow> ?gs = []"
    by (auto simp: slip_deliver_def split: option.split)
  ultimately show "\<exists>r' gs. rx_run slip_step r (map Octet (concat (map slip_frame (p # ps)))) =
        (r', gs @ map (\<lambda>d. (layer, slip_packet (my_mac r) d)) (filter (\<lambda>d. 20 \<le> length d) (p # ps))) \<and>
      sl_packet_buffer r' = [] \<and> \<not> sl_escape r' \<and> length gs \<le> 1 \<and> (sl_packet_buffer r = [] \<longrightarrow> gs = [])"
    using r2(2) by (auto simp: slip_idle_def slip_ready_def)
qed

definition example_slip :: slip where
  "example_slip = phys_register_protocol 0x800 7 (phys.extend (phys_new (Addr AF_mac [2, 0, 0, 0, 0, 2])) (slip.fields [1, 2, 3] False))"

theorem slip_transfer_witness:
  "\<exists>r' gs. rx_run slip_step example_slip (map Octet (concat (map slip_frame [replicate 20 0xc0, [1, 2], replicate 21 0xdb]))) =
     (r', gs @ [(7, slip_packet (Addr AF_mac [2, 0, 0, 0, 0, 2]) (replicate 20 0xc0)),
                (7, slip_packet (Addr AF_mac [2, 0, 0, 0, 0, 2]) (replicate 21 0xdb))]) \<and> sl_packet_buffer r' = []"
proof -
  have e: "\<not> sl_escape example_slip" "phys_prot_map example_slip 0x800 = Some 7" "my_mac example_slip = Addr AF_mac [2, 0, 0, 0, 0, 2]"
    by (simp_all add: example_slip_def phys_register_protocol_def phys_new_def phys.extend_def slip.fields_def)
  show ?thesis
    using slip_transfer [OF e(1,2), of "replicate 20 0xc0" "[[1, 2], replicate 21 0xdb]" example_slip] e(3) by simp blast
qed

end
