(* ===== verification/Ppp_Frame.thy ===== *)
theory Ppp_Frame
  imports Phys Hash
begin

text \<open>
  The frames of PPP (\<^verbatim>\<open>src/phys_gen_ppp.cpp\<close>): the state of the interface, the frame check
  sequence with its table, \<open>wrap_in_ppp_frame\<close> and \<open>unwrap_ppp_frame\<close>.
\<close>

section \<open>The interface\<close>

record gen_ppp = phys +
  protocol_compression :: bool
  ac_field_compression :: bool
  lcp_options_acked :: bool
  ipcp_options_acked :: bool
  ipv6cp_options_acked :: bool
  magic :: u32
  ACCM_tx :: "byte list"
  ACCM_rx :: "byte list"
  opponent_address :: addr

definition ACCM_init :: "byte list" where
  "ACCM_init = [0xff, 0xff, 0xff, 0xff] @ replicate 28 0"

definition gen_ppp_new :: "addr \<Rightarrow> addr \<Rightarrow> gen_ppp" where
  "gen_ppp_new mac opponent = phys.extend (phys_new mac)
     (gen_ppp.fields False False False False False 0x1234abcd ACCM_init ACCM_init opponent)"

section \<open>The frame check sequence\<close>

text \<open>The loop of the constructor that fills an entry of \<open>fcstab\<close>.\<close>

fun fcs_loop :: "nat \<Rightarrow> u16 \<Rightarrow> byte \<Rightarrow> u16" where
  "fcs_loop 0 v temp = v"
| "fcs_loop (Suc j) v temp =
     fcs_loop j (if (v XOR ucast temp) AND 1 \<noteq> 0 then drop_bit 1 v XOR 0x8408 else drop_bit 1 v) (drop_bit 1 temp)"

definition fcstab :: "byte \<Rightarrow> u16" where
  "fcstab i = fcs_loop 8 0 i"

definition fcs_update :: "u16 \<Rightarrow> byte \<Rightarrow> u16" where
  "fcs_update fcs b = drop_bit 8 fcs XOR fcstab (ucast ((fcs XOR ucast b) AND 0xff))"

definition ppp_fcs :: "byte list \<Rightarrow> u16" where
  "ppp_fcs temp = foldl fcs_update 0xffff temp XOR 0xffff"

section \<open>Framing\<close>

text \<open>What is framed, without its check sequence; \<open>not_meta\<close> is \<open>not_ppp_meta\<close>.\<close>

definition ppp_content :: "'a gen_ppp_scheme \<Rightarrow> byte list \<Rightarrow> u16 \<Rightarrow> bool \<Rightarrow> byte list" where
  "ppp_content s payload protocol not_meta =
     (if \<not> ac_field_compression s \<or> \<not> not_meta then [0xff, 0x03] else []) @
     (if protocol_compression s \<and> protocol < 0x0100 \<and> not_meta then [ucast protocol]
      else [ucast (drop_bit 8 protocol), ucast protocol]) @ payload"

definition must_escape :: "byte list \<Rightarrow> bool \<Rightarrow> byte \<Rightarrow> bool res" where
  "must_escape ACCM not_meta b =
     (if b = 0x7d \<or> b = 0x7e then Inr True
      else rbind (vec_at ACCM (unat (drop_bit 3 b))) (\<lambda>m.
           Inr (m AND push_bit (unat (b AND 7)) 1 \<noteq> 0 \<or> b < 0x20 \<and> \<not> not_meta)))"

fun ppp_escape :: "byte list \<Rightarrow> bool \<Rightarrow> byte list \<Rightarrow> byte list res" where
  "ppp_escape ACCM not_meta [] = Inr []"
| "ppp_escape ACCM not_meta (b # bs) =
     rbind (must_escape ACCM not_meta b) (\<lambda>e.
     rbind (ppp_escape ACCM not_meta bs) (\<lambda>out.
     Inr ((if e then [0x7d, b XOR 0x20] else [b]) @ out)))"

definition wrap_in_ppp_frame :: "'a gen_ppp_scheme \<Rightarrow> byte list \<Rightarrow> u16 \<Rightarrow> byte list \<Rightarrow> bool \<Rightarrow> byte list res" where
  "wrap_in_ppp_frame s payload protocol ACCM not_meta =
     (let temp = ppp_content s payload protocol not_meta; fcs = ppp_fcs temp in
      rbind (ppp_escape ACCM not_meta (temp @ [ucast fcs, ucast (drop_bit 8 fcs)])) (\<lambda>out.
      Inr (0x7e # out @ [0x7e])))"

fun unwrap_ppp_frame :: "byte list \<Rightarrow> byte list res" where
  "unwrap_ppp_frame [] = Inr []"
| "unwrap_ppp_frame (c # cs) =
     (if c = 0x7d then
        case cs of
          [] \<Rightarrow> Inl (Out_of_range ''vector::at'')
        | d # ds \<Rightarrow> rbind (unwrap_ppp_frame ds) (\<lambda>out. Inr ((d XOR 0x20) # out))
      else rbind (unwrap_ppp_frame cs) (\<lambda>out. Inr (c # out)))"

section \<open>Transparency\<close>

text \<open>
  A control character map with an entry for every octet, in which the octet 0x5e is not marked: its
  escape would be a flag.
\<close>

definition accm_ok :: "byte list \<Rightarrow> bool" where
  "accm_ok ACCM \<longleftrightarrow> length ACCM = 32 \<and> \<not> bit (ACCM ! 11) 6"

lemma accm_ok_init: "accm_ok ACCM_init"
  by (simp add: accm_ok_def ACCM_init_def)

lemma high_bits_less: "unat (drop_bit 3 (b :: byte)) < 32"
proof -
  have "unat (drop_bit 3 b) = unat b div 8" by (simp only: unsigned_drop_bit_eq) (simp add: drop_bit_eq_div take_bit_nat_eq_self)
  also have "\<dots> < 32" using unat_byte_less [of b] by (simp del: unat_byte_less)
  finally show ?thesis .
qed

lemma xor_is_flag: "(b :: byte) XOR 0x20 = 0x7e \<longleftrightarrow> b = 0x5e"
proof
  assume "b XOR 0x20 = 0x7e"
  then have "(b XOR 0x20) XOR 0x20 = 0x7e XOR 0x20" by simp
  then show "b = 0x5e" by (simp add: xor.assoc)
qed simp

lemma must_escape_total: "accm_ok ACCM \<Longrightarrow> \<exists>e. must_escape ACCM not_meta b = Inr e"
  using high_bits_less [of b] by (auto simp: must_escape_def accm_ok_def)

lemma must_escape_flags:
  assumes "must_escape ACCM not_meta b = Inr e"
  shows "(b = 0x7d \<or> b = 0x7e \<longrightarrow> e) \<and> (accm_ok ACCM \<and> b = 0x5e \<longrightarrow> \<not> e)"
proof -
  have "(ACCM ! 11) AND push_bit 6 1 = 0" if "\<not> bit (ACCM ! 11) 6"
    using that by (simp only: bit_iff_and_push_bit_not_eq_0 not_not)
  then have "\<not> e" if "accm_ok ACCM" "b = 0x5e" using assms that by (simp add: must_escape_def accm_ok_def)
  then show ?thesis using assms by (auto simp: must_escape_def)
qed

lemma ppp_escape_transparent:
  assumes "accm_ok ACCM"
  shows "\<exists>out. ppp_escape ACCM not_meta bs = Inr out \<and> 0x7e \<notin> set out \<and> unwrap_ppp_frame out = Inr bs \<and> length bs \<le> length out"
proof (induction bs)
  case (Cons b bs)
  then obtain out where out: "ppp_escape ACCM not_meta bs = Inr out" "0x7e \<notin> set out" "unwrap_ppp_frame out = Inr bs"
    "length bs \<le> length out" by blast
  obtain e where e: "must_escape ACCM not_meta b = Inr e" using must_escape_total [OF assms] by blast
  with must_escape_flags [OF e] out assms show ?case
    by (auto simp: xor_is_flag xor.assoc)
qed simp

section \<open>The check sequence\<close>

text \<open>The table holds the register after the eight bits of an octet.\<close>

lemma fcs_loop_bits: "fcs_loop n v temp = crc_bits n 0x8408 v temp"
proof (induction n arbitrary: v temp)
  case (Suc n)
  have "(v XOR ucast temp) AND 1 \<noteq> 0 \<longleftrightarrow> bit v 0 \<noteq> bit temp 0"
    using bit_iff_and_push_bit_not_eq_0 [of "v XOR ucast temp" 0] by (simp add: bit_simps del: bit_0)
  with Suc.IH show ?case by (auto simp del: bit_0)
qed simp

lemma fcstab_steps: "fcstab i = (crc_step 0x8408 ^^ 8) (ucast i)"
  by (simp add: fcstab_def fcs_loop_bits crc_bits_8)

lemma fcs_update_bits: "fcs_update fcs b = crc_bits 8 0x8408 fcs b"
proof -
  have "(fcs XOR ucast b) AND 0xff = take_bit 8 (fcs XOR ucast b)"
    by (simp add: take_bit_eq_mask mask_eq_exp_minus_1)
  moreover have "ucast (ucast (take_bit 8 w :: u16) :: byte) = (take_bit 8 w :: u16)" for w
    by (rule bit_word_eqI) (auto simp: bit_simps)
  ultimately show ?thesis by (simp add: fcs_update_def fcstab_steps crc_bits_table del: take_bit_xor)
qed

definition steps8 :: "u16 \<Rightarrow> u16" where
  "steps8 x = (let f = crc_step 0x8408; a = f x; b = f a; c = f b; d = f c; e = f d; g = f e; h = f g in f h)"

lemma steps8_funpow: "steps8 x = (crc_step 0x8408 ^^ 8) x"
  by (simp add: steps8_def numeral_eq_Suc Let_def)

lemma steps8_values:
  "(crc_step 0x8408 ^^ 8) (0xff :: u16) = 0x0f78" "(crc_step 0x8408 ^^ 8) (0x87 :: u16) = 0xf0b7"
  unfolding steps8_funpow [symmetric] by code_simp+

text \<open>Over a message with its complemented register appended the register always ends in the same value.\<close>

lemma fcs_good:
  "foldl (crc_bits 8 (0x8408 :: u16)) 0xffff (temp @ [ucast (ppp_fcs temp), ucast (drop_bit 8 (ppp_fcs temp))]) = 0xf0b8"
proof -
  let ?S = "crc_step (0x8408 :: u16) ^^ 8"
  define r where "r = foldl fcs_update 0xffff temp"
  have upd: "fcs_update = crc_bits 8 0x8408" by (intro ext fcs_update_bits)
  have fcs: "ppp_fcs temp = r XOR 0xffff" by (simp add: ppp_fcs_def r_def)
  have T: "crc_bits 8 0x8408 c ch = drop_bit 8 c XOR ?S (take_bit 8 (c XOR ucast ch))" for c :: u16 and ch
    by (rule crc_bits_table) simp
  have m: "(0xff :: u16) = mask 8" "(0xffff :: u16) = mask 16" by (simp_all add: mask_eq_exp_minus_1)
  have 1: "take_bit 8 (r XOR ucast (ucast (r XOR 0xffff) :: byte)) = 0xff"
    unfolding m by (rule bit_word_eqI) (auto simp: bit_simps)
  have 2: "take_bit 8 ((drop_bit 8 r XOR x) XOR ucast (ucast (drop_bit 8 (r XOR 0xffff)) :: byte)) = take_bit 8 (x XOR 0xff)" for x
    unfolding m by (rule bit_word_eqI) (auto simp: bit_simps)
  have "foldl (crc_bits 8 0x8408) 0xffff (temp @ [ucast (ppp_fcs temp), ucast (drop_bit 8 (ppp_fcs temp))])
      = crc_bits 8 0x8408 (crc_bits 8 0x8408 r (ucast (r XOR 0xffff))) (ucast (drop_bit 8 (r XOR 0xffff)))"
    by (simp add: fcs r_def upd)
  also have "\<dots> = drop_bit 8 (drop_bit 8 r XOR ?S 0xff) XOR ?S (take_bit 8 (?S 0xff XOR 0xff))"
    by (simp only: T 1 2)
  also have "drop_bit 8 (drop_bit 8 r XOR ?S 0xff) = drop_bit 8 (?S 0xff)"
    by (rule bit_word_eqI) (auto simp: bit_simps dest: bit_imp_le_length)
  also have "drop_bit 8 (?S 0xff) XOR ?S (take_bit 8 (?S 0xff XOR 0xff)) = 0xf0b8"
    by (simp add: steps8_values)
  finally show ?thesis .
qed

text \<open>
  C36. Every PPP frame, of data or control packets and with or without header compression, is
  transparent and carries a frame check sequence a peer accepts: between its two flags there is no
  flag; undoing the escapes gives the framed content and two more octets; and the bit by bit CRC of
  RFC 1662 over all of them ends in the value of a good frame.
\<close>

theorem ppp_frame_check:
  assumes "accm_ok ACCM"
  shows "\<exists>out a b. wrap_in_ppp_frame s payload protocol ACCM not_meta = Inr (0x7e # out @ [0x7e]) \<and> 0x7e \<notin> set out \<and>
    unwrap_ppp_frame out = Inr (ppp_content s payload protocol not_meta @ [a, b]) \<and>
    foldl (crc_bits 8 (0x8408 :: u16)) 0xffff (ppp_content s payload protocol not_meta @ [a, b]) = 0xf0b8"
proof -
  let ?temp = "ppp_content s payload protocol not_meta"
  let ?a = "ucast (ppp_fcs ?temp) :: byte" and ?b = "ucast (drop_bit 8 (ppp_fcs ?temp)) :: byte"
  obtain out where "ppp_escape ACCM not_meta (?temp @ [?a, ?b]) = Inr out" "0x7e \<notin> set out" "unwrap_ppp_frame out = Inr (?temp @ [?a, ?b])"
    using ppp_escape_transparent [OF assms] by blast
  then show ?thesis
    using fcs_good [of ?temp]
    by (intro exI [of _ out] exI [of _ ?a] exI [of _ ?b]) (simp add: wrap_in_ppp_frame_def Let_def)
qed

theorem ppp_frame_check_witness:
  "\<exists>out a b. wrap_in_ppp_frame (gen_ppp_new (Addr AF_mac []) (Addr AF_ipv4 [10, 0, 0, 2])) [0x7e, 0x7d, 0x5e] 0x0021 ACCM_init False = Inr (0x7e # out @ [0x7e]) \<and>
    0x7e \<notin> set out \<and> foldl (crc_bits 8 (0x8408 :: u16)) 0xffff ([0xff, 0x03, 0x00, 0x21, 0x7e, 0x7d, 0x5e] @ [a, b]) = 0xf0b8"
  using ppp_frame_check [OF accm_ok_init, of "gen_ppp_new (Addr AF_mac []) (Addr AF_ipv4 [10, 0, 0, 2])" "[0x7e, 0x7d, 0x5e]" "0x0021" False]
  by (auto simp: ppp_content_def)

end
