(* ===== verification/Ppp.thy ===== *)
theory Ppp
  imports Ppp_Frame Arp
begin

text \<open>
  PPP: the negotiation of the link (LCP), of the addresses (IPCP, IPV6CP) and of compression (CCP),
  the dispatch of received frames, \<open>transmit_packet\<close> (\<^verbatim>\<open>src/phys_gen_ppp.cpp\<close>) and the receiving
  thread with its emulation of a modem (\<^verbatim>\<open>src/phys_ppp.cpp\<close>).
\<close>

section \<open>Sending control packets\<close>

text \<open>What a step does: octets written to the line, packets for the layers.\<close>

datatype ppp_event = Line "byte list" | To_layer nat packet

definition transmit_low :: "byte list \<Rightarrow> u16 \<Rightarrow> bool \<Rightarrow> 'a gen_ppp_scheme \<Rightarrow> ppp_event list res" where
  "transmit_low payload protocol not_meta s =
     rbind (wrap_in_ppp_frame s payload protocol (ACCM_tx s) not_meta) (\<lambda>out. Inr [Line out])"

text \<open>The two octets of a length are stored after the packet was put together.\<close>

definition xcp_packet :: "byte \<Rightarrow> byte \<Rightarrow> byte list \<Rightarrow> byte list" where
  "xcp_packet code identifier data =
     (let n = length data + 4 in [code, identifier, of_nat (n div 256), of_nat n] @ data)"

definition send_Xcp :: "byte \<Rightarrow> byte \<Rightarrow> u16 \<Rightarrow> byte list \<Rightarrow> 'a gen_ppp_scheme \<Rightarrow> ppp_event list res" where
  "send_Xcp code identifier protocol data s = transmit_low (xcp_packet code identifier data) protocol False s"

definition send_rej :: "u16 \<Rightarrow> byte \<Rightarrow> byte list \<Rightarrow> 'a gen_ppp_scheme \<Rightarrow> ppp_event list res" where
  "send_rej protocol identifier options s = send_Xcp 4 identifier protocol options s"

definition send_ack :: "u16 \<Rightarrow> byte \<Rightarrow> byte list \<Rightarrow> 'a gen_ppp_scheme \<Rightarrow> ppp_event list res" where
  "send_ack protocol identifier options s = send_Xcp 2 identifier protocol options s"

definition send_nak :: "u16 \<Rightarrow> byte \<Rightarrow> byte list \<Rightarrow> 'a gen_ppp_scheme \<Rightarrow> ppp_event list res" where
  "send_nak protocol identifier options s = send_Xcp 3 identifier protocol options s"

section \<open>Options\<close>

text \<open>
  The loop over the options of a control packet, which is the same in all four protocols:
  \<open>act type len next_offset\<close> looks at one option, the two last octets are the check sequence.  An option
  of length 0 leaves the offset where it is: the loop then looks at the same option again, and the
  actions of an option of length 0 change nothing the second time.
\<close>

function options_loop :: "(byte \<Rightarrow> byte \<Rightarrow> nat \<Rightarrow> 's \<Rightarrow> 's res) \<Rightarrow> byte list \<Rightarrow> nat \<Rightarrow> 's \<Rightarrow> 's res" where
  "options_loop act data options_offset st =
     (if options_offset < length data - 2 then
        rbind (vec_at data options_offset) (\<lambda>ty.
        rbind (vec_at data (options_offset + 1)) (\<lambda>len.
        if length data - options_offset < unat len then Inr st
        else
          rbind (act ty len options_offset st) (\<lambda>st'.
          if len = 0 then Inl Diverges
          else options_loop act data (options_offset + unat len) st')))
      else Inr st)"
  by auto
termination
proof (relation "measure (\<lambda>(act, data, off, st). length data - off)", goal_cases)
  case (2 act data off st ty len st')
  then have "0 < unat len" by (simp add: unat_gt_0)
  with 2 show ?case by auto
qed simp

declare options_loop.simps [simp del]

definition option_octets :: "byte list \<Rightarrow> nat \<Rightarrow> byte \<Rightarrow> byte list" where
  "option_octets data next_offset len = take (unat len) (drop next_offset data)"

text \<open>The code, the identifier and the length of a control packet, behind the four octets of PPP.\<close>

definition xcp_header :: "byte list \<Rightarrow> (byte \<times> byte \<times> u16) res" where
  "xcp_header data =
     rbind (vec_at data 4) (\<lambda>code.
     rbind (vec_at data 5) (\<lambda>identifier.
     rbind (vec_at data 6) (\<lambda>hi.
     rbind (vec_at data 7) (\<lambda>lo. Inr (code, identifier, mk16 hi lo)))))"

definition size_invalid :: "byte list \<Rightarrow> u16 \<Rightarrow> bool" where
  "size_invalid data len \<longleftrightarrow> length data < 4 + unat len"

section \<open>CCP\<close>

definition ccp_option :: "byte list \<Rightarrow> byte \<Rightarrow> byte \<Rightarrow> nat \<Rightarrow> byte list \<Rightarrow> byte list res" where
  "ccp_option data ty len next_offset rej = Inr (rej @ option_octets data next_offset len)"

definition handle_ccp :: "byte list \<Rightarrow> 'a gen_ppp_scheme \<Rightarrow> (ppp_event list \<times> 'a gen_ppp_scheme) res" where
  "handle_ccp data s =
     rbind (xcp_header data) (\<lambda>(code, identifier, len).
     if size_invalid data len then Inr ([], s)
     else if code = 0x01 then
       rbind (options_loop (ccp_option data) data 8 []) (\<lambda>rej.
       rbind (if rej \<noteq> [] then send_rej 0x80fd identifier rej s else send_ack 0x80fd identifier [] s) (\<lambda>evs.
       Inr (evs, s)))
     else Inr ([], s))"

section \<open>IPCP\<close>

record ipcp_work =
  ipcp_ack :: "byte list"
  ipcp_rej :: "byte list"
  send_nak_with_new_address :: bool

definition ipcp_option :: "byte list \<Rightarrow> addr \<Rightarrow> byte \<Rightarrow> byte \<Rightarrow> nat \<Rightarrow> ipcp_work \<Rightarrow> ipcp_work res" where
  "ipcp_option data opponent ty len next_offset w =
     (if ty = 0x03 then
        rbind (octets_at data (next_offset + 2) 4) (\<lambda>theirs.
        if Addr AF_ipv4 theirs = opponent then Inr (w\<lparr>ipcp_ack := ipcp_ack w @ option_octets data next_offset len\<rparr>)
        else Inr (w\<lparr>send_nak_with_new_address := True\<rparr>))
      else Inr (w\<lparr>ipcp_rej := ipcp_rej w @ option_octets data next_offset len\<rparr>))"

text \<open>The answer to a request, and the own request; \<open>layer_addr\<close> is \<open>get_addr\<close> of a network layer.\<close>

definition ipcp_answer :: "byte \<Rightarrow> ipcp_work \<Rightarrow> 'a gen_ppp_scheme \<Rightarrow> ppp_event list res" where
  "ipcp_answer identifier w s =
     (if send_nak_with_new_address w then
        rbind (rassert (length (octets (opponent_address s)) = 4)) (\<lambda>_.
        send_nak 0x8021 identifier ([3, 6] @ octets (opponent_address s)) s)
      else if ipcp_rej w \<noteq> [] then send_rej 0x8021 identifier (ipcp_rej w) s
      else if ipcp_ack w \<noteq> [] then send_ack 0x8021 identifier (ipcp_ack w) s
      else Inr [])"

definition ipcp_request :: "(nat \<Rightarrow> addr) \<Rightarrow> 'a gen_ppp_scheme \<Rightarrow> ppp_event list res" where
  "ipcp_request layer_addr s =
     (if ipcp_options_acked s then Inr []
      else case phys_prot_map s 0x800 of
        None \<Rightarrow> Inr []
      | Some layer \<Rightarrow>
          rbind (rassert (length (octets (layer_addr layer)) = 4)) (\<lambda>_.
          transmit_low (xcp_packet 1 1 ([3, 6] @ octets (layer_addr layer))) 0x8021 False s))"

definition handle_ipcp :: "(nat \<Rightarrow> addr) \<Rightarrow> byte list \<Rightarrow> 'a gen_ppp_scheme \<Rightarrow> (ppp_event list \<times> 'a gen_ppp_scheme) res" where
  "handle_ipcp layer_addr data s =
     rbind (xcp_header data) (\<lambda>(code, identifier, len).
     if size_invalid data len then Inr ([], s)
     else if code = 0x01 then
       rbind (options_loop (ipcp_option data (opponent_address s)) data 8
                \<lparr>ipcp_ack = [], ipcp_rej = [], send_nak_with_new_address = False\<rparr>) (\<lambda>w.
       rbind (ipcp_answer identifier w s) (\<lambda>answer.
       rbind (ipcp_request layer_addr s) (\<lambda>request.
       Inr (answer @ request, s))))
     else if code = 0x02 then Inr ([], s\<lparr>ipcp_options_acked := True\<rparr>)
     else if code = 0x04 then
       rbind (options_loop (\<lambda>ty len next_offset u. Inr u) data 8 ()) (\<lambda>_. Inr ([], s))
     else Inr ([], s))"

section \<open>IPV6CP\<close>

definition ipv6cp_option :: "byte list \<Rightarrow> byte \<Rightarrow> byte \<Rightarrow> nat \<Rightarrow> byte list \<Rightarrow> byte list res" where
  "ipv6cp_option data ty len next_offset rej =
     (if ty = 0xff then Inr rej else Inr (rej @ option_octets data next_offset len))"

definition handle_ipv6cp :: "byte list \<Rightarrow> 'a gen_ppp_scheme \<Rightarrow> (ppp_event list \<times> 'a gen_ppp_scheme) res" where
  "handle_ipv6cp data s =
     rbind (xcp_header data) (\<lambda>(code, identifier, len).
     if size_invalid data len then Inr ([], s)
     else if code = 0x01 then
       rbind (options_loop (ipv6cp_option data) data 8 []) (\<lambda>rej.
       rbind (if rej \<noteq> [] then send_rej 0x8057 identifier rej s else send_ack 0x8057 identifier [] s) (\<lambda>evs.
       Inr (evs, s)))
     else if code = 0x02 then Inr ([], s\<lparr>ipv6cp_options_acked := True\<rparr>)
     else Inr ([], s))"

section \<open>LCP\<close>

record 'a lcp_work =
  lcp_ack :: "byte list"
  lcp_rej :: "byte list"
  lcp_state :: 'a

text \<open>The map of control characters: \<open>len\<close> octets are taken from behind the head of the option.\<close>

fun accm_loop :: "byte list \<Rightarrow> nat \<Rightarrow> nat \<Rightarrow> nat \<Rightarrow> 'a gen_ppp_scheme \<Rightarrow> 'a gen_ppp_scheme res" where
  "accm_loop data options_offset i 0 s = Inr s"
| "accm_loop data options_offset i (Suc n) s =
     rbind (vec_at data (options_offset + i)) (\<lambda>v.
     rbind (vec_at (ACCM_tx s) i) (\<lambda>_.
     rbind (vec_at (ACCM_rx s) i) (\<lambda>_.
     accm_loop data options_offset (i + 1) n (s\<lparr>ACCM_tx := (ACCM_tx s)[i := v], ACCM_rx := (ACCM_rx s)[i := v]\<rparr>))))"

definition lcp_option :: "byte list \<Rightarrow> byte \<Rightarrow> byte \<Rightarrow> nat \<Rightarrow> 'a gen_ppp_scheme lcp_work \<Rightarrow> 'a gen_ppp_scheme lcp_work res" where
  "lcp_option data ty len next_offset w =
     (let o_octets = option_octets data next_offset len;
          acked = w\<lparr>lcp_ack := lcp_ack w @ o_octets\<rparr>; s = lcp_state w in
      if ty = 1 then Inr acked
      else if ty = 2 then
        rbind (accm_loop data (next_offset + 2) 0 (unat len) s) (\<lambda>s'. Inr (acked\<lparr>lcp_state := s'\<rparr>))
      else if ty = 5 then Inr acked
      else if ty = 7 then Inr (acked\<lparr>lcp_state := s\<lparr>protocol_compression := True\<rparr>\<rparr>)
      else if ty = 8 then Inr (acked\<lparr>lcp_state := s\<lparr>ac_field_compression := True\<rparr>\<rparr>)
      else Inr (w\<lparr>lcp_rej := lcp_rej w @ o_octets\<rparr>))"

definition lcp_request :: "'a gen_ppp_scheme \<Rightarrow> ppp_event list res" where
  "lcp_request s =
     (if lcp_options_acked s then Inr []
      else
        rbind (vec_at (ACCM_rx s) 0) (\<lambda>a.
        rbind (vec_at (ACCM_rx s) 1) (\<lambda>b.
        rbind (vec_at (ACCM_rx s) 2) (\<lambda>c.
        rbind (vec_at (ACCM_rx s) 3) (\<lambda>d.
        transmit_low (xcp_packet 1 1 ([2, 6, a, b, c, d] @ [5, 6] @ bytes32 (magic s) @ [7, 2, 8, 2])) 0xC021 False s)))))"

definition handle_lcp :: "byte list \<Rightarrow> 'a gen_ppp_scheme \<Rightarrow> (ppp_event list \<times> 'a gen_ppp_scheme) res" where
  "handle_lcp data s =
     rbind (xcp_header data) (\<lambda>(code, identifier, len).
     if size_invalid data len then Inr ([], s)
     else if code = 0x01 then
       rbind (options_loop (lcp_option data) data 8
                \<lparr>lcp_ack = [], lcp_rej = [],
                 lcp_state = s\<lparr>protocol_compression := False, ac_field_compression := False, lcp_options_acked := False\<rparr>\<rparr>) (\<lambda>w.
       let s' = lcp_state w in
       rbind (if lcp_rej w \<noteq> [] then send_rej 0xc021 identifier (lcp_rej w) s'
              else if lcp_ack w \<noteq> [] then send_ack 0xc021 identifier (lcp_ack w) s'
              else Inr []) (\<lambda>answer.
       rbind (lcp_request s') (\<lambda>request.
       Inr (answer @ request, s'))))
     else if code = 0x02 then Inr ([], s\<lparr>lcp_options_acked := True\<rparr>)
     else if code = 0x09 then
       rbind (transmit_low ([10, identifier, 0, 8] @ bytes32 (magic s)) 0xC021 False s) (\<lambda>evs. Inr (evs, s))
     else if code = 0x0c then
       rbind (transmit_low ([0x0c, identifier, 0, 12] @ bytes32 (magic s) @ [0x4d, 0x79, 0x49, 0x50]) 0xC021 False s) (\<lambda>evs. Inr (evs, s))
     else Inr ([], s))"

section \<open>Frames\<close>

text \<open>The address, control and protocol octets that the peer may leave out are put back.\<close>

definition ppp_decompress :: "'a gen_ppp_scheme \<Rightarrow> byte list \<Rightarrow> byte list res" where
  "ppp_decompress s p0 =
     rbind (vec_at p0 0) (\<lambda>b0.
     let p1 = (if b0 \<noteq> 0xff \<and> ac_field_compression s then [0xff, 0x03] @ p0 else p0) in
     rbind (vec_at p1 2) (\<lambda>b2.
     Inr (if b2 AND 1 = 1 \<and> protocol_compression s then take 2 p1 @ [0x00] @ drop 2 p1 else p1)))"

text \<open>An IPv4 packet; the size of the data is an \<open>int\<close> that is negative for the shortest frames.\<close>

definition ppp_deliver :: "byte list \<Rightarrow> 'a gen_ppp_scheme \<Rightarrow> (ppp_event list \<times> 'a gen_ppp_scheme) res" where
  "ppp_deliver p s0 =
     (let s = s0\<lparr>phys_recv_frame := phys_recv_frame s0 + 1\<rparr> in
      rbind (gen_opponent_mac (my_mac s)) (\<lambda>src_mac.
      case phys_prot_map s 0x800 of
        None \<Rightarrow> Inr ([], s)
      | Some layer \<Rightarrow>
          if length p < 6 then Inl Bad_alloc
          else Inr ([To_layer layer (packet_new_link src_mac (my_mac s) (take (length p - 6) (drop 4 p)) [] False)], s)))"

definition process_incoming_packet :: "(nat \<Rightarrow> addr) \<Rightarrow> byte list \<Rightarrow> 'a gen_ppp_scheme \<Rightarrow> (ppp_event list \<times> 'a gen_ppp_scheme) res" where
  "process_incoming_packet layer_addr packet_buffer s =
     (if length packet_buffer < 4 then Inr ([], s)
      else
        rbind (ppp_decompress s packet_buffer) (\<lambda>p.
        rbind (vec_at p 2) (\<lambda>hi.
        rbind (vec_at p 3) (\<lambda>lo.
        let protocol = mk16 hi lo in
        if protocol = 0x0021 then ppp_deliver p s
        else if protocol = 0xc021 then handle_lcp p s
        else if protocol = 0x8021 then handle_ipcp layer_addr p s
        else if protocol = 0x8057 then handle_ipv6cp p s
        else if protocol = 0x80fd then handle_ccp p s
        else Inr ([], s)))))"

text \<open>\<open>ok\<close>: whether \<open>WRITE\<close> took all octets.\<close>

definition ppp_transmit_packet :: "bool \<Rightarrow> byte list \<Rightarrow> 'a gen_ppp_scheme \<Rightarrow> (bool \<times> ppp_event list \<times> 'a gen_ppp_scheme) res" where
  "ppp_transmit_packet ok payload s0 =
     (let n = of_nat (length payload);
          s = s0\<lparr>phys_ifOutOctets := phys_ifOutOctets s0 + n, phys_ifHCOutOctets := phys_ifHCOutOctets s0 + n,
                 phys_ifOutUcastPkts := phys_ifOutUcastPkts s0 + 1\<rparr> in
      rbind (transmit_low payload 0x0021 True s) (\<lambda>evs. Inr (ok, evs, s)))"

section \<open>The receiving thread\<close>

record ppp = gen_ppp +
  emulate_modem_xp :: bool
  pp_packet_buffer :: "byte list"
  pp_modem :: "byte list"
  modem_7e_flag :: bool

definition ppp_new :: "addr \<Rightarrow> addr \<Rightarrow> bool \<Rightarrow> ppp" where
  "ppp_new mac opponent emulate = gen_ppp.extend (gen_ppp_new mac opponent) (ppp.fields emulate [] [] False)"

definition contains_text :: "byte list \<Rightarrow> byte list \<Rightarrow> bool" where
  "contains_text needle s \<longleftrightarrow> list_ex (\<lambda>i. take (length needle) (drop i s) = needle) [0..<Suc (length s)]"

text \<open>
  The modem: "ATDT" is answered by "CONNECT", "AT" by "OK" and "CLIENT" by the first seven octets of
  the answer.
\<close>

definition modem_answer :: "byte list \<Rightarrow> byte list option" where
  "modem_answer modem =
     (if contains_text [0x41, 0x54, 0x44, 0x54] modem then Some [0x43, 0x4f, 0x4e, 0x4e, 0x45, 0x43, 0x54, 13, 10]
      else if contains_text [0x41, 0x54] modem then Some [0x4f, 0x4b, 13, 10]
      else if contains_text [0x43, 0x4c, 0x49, 0x45, 0x4e, 0x54] modem then Some [0x53, 0x45, 0x52, 0x56, 0x45, 0x52, 13]
      else None)"

definition modem_step :: "byte \<Rightarrow> ppp \<Rightarrow> ppp_event list \<times> ppp" where
  "modem_step buffer s =
     (if emulate_modem_xp s \<and> \<not> modem_7e_flag s \<and> (32 \<le> buffer \<and> buffer < 127 \<or> buffer = 10 \<or> buffer = 13) then
        let modem = pp_modem s @ [buffer] in
        case modem_answer modem of
          None \<Rightarrow> ([], s\<lparr>pp_modem := modem\<rparr>)
        | Some a \<Rightarrow> ([Line a], s\<lparr>pp_modem := []\<rparr>)
      else ([], s))"

definition ppp_step :: "(nat \<Rightarrow> addr) \<Rightarrow> read_result \<Rightarrow> ppp \<Rightarrow> (ppp_event list \<times> ppp) res" where
  "ppp_step layer_addr r s =
     (if r = Read_error then Inr ([], s)
      else
        let buffer = read_octet r in
        if buffer = 0x7e then
          if pp_packet_buffer s \<noteq> [] then
            rbind (unwrap_ppp_frame (pp_packet_buffer s)) (\<lambda>unwrapped.
            let n = of_nat (length unwrapped) in
            rbind (process_incoming_packet layer_addr unwrapped
                     (s\<lparr>phys_ifInOctets := phys_ifInOctets s + n, phys_ifHCInOctets := phys_ifHCInOctets s + n,
                        phys_ifInUcastPkts := phys_ifInUcastPkts s + 1\<rparr>)) (\<lambda>(evs, s').
            Inr (evs, s'\<lparr>pp_packet_buffer := [], modem_7e_flag := False, pp_modem := []\<rparr>)))
          else Inr ([], s)
        else
          let s1 = s\<lparr>pp_packet_buffer := pp_packet_buffer s @ [buffer],
                     modem_7e_flag := (if buffer = 0x7e then True else modem_7e_flag s)\<rparr> in
          Inr (modem_step buffer s1))"

section \<open>Packets over the line\<close>

text \<open>What a received frame depends on: the layers, the address and the negotiated compression.\<close>

definition ppp_cfg :: "'a gen_ppp_scheme \<Rightarrow> (u16 \<rightharpoonup> nat) \<times> addr \<times> bool \<times> bool" where
  "ppp_cfg s = (phys_prot_map s, my_mac s, ac_field_compression s, protocol_compression s)"

text \<open>A receiver that understands what the sender leaves out.\<close>

definition understands :: "'a gen_ppp_scheme \<Rightarrow> 'b gen_ppp_scheme \<Rightarrow> bool" where
  "understands r s \<longleftrightarrow> (ac_field_compression s \<longrightarrow> ac_field_compression r) \<and> (protocol_compression s \<longrightarrow> protocol_compression r)"

definition ppp_out :: "'a gen_ppp_scheme \<Rightarrow> byte list \<Rightarrow> byte list" where
  "ppp_out s payload = (case wrap_in_ppp_frame s payload 0x0021 (ACCM_tx s) True of Inr out \<Rightarrow> out | Inl e \<Rightarrow> [])"

lemma ppp_out_frame:
  assumes "accm_ok (ACCM_tx s)"
  shows "\<exists>out a b. wrap_in_ppp_frame s payload 0x0021 (ACCM_tx s) True = Inr (0x7e # out @ [0x7e]) \<and>
    ppp_out s payload = 0x7e # out @ [0x7e] \<and> 0x7e \<notin> set out \<and> out \<noteq> [] \<and>
    unwrap_ppp_frame out = Inr (ppp_content s payload 0x0021 True @ [a, b])"
proof -
  let ?temp = "ppp_content s payload 0x0021 True"
  let ?all = "?temp @ [ucast (ppp_fcs ?temp), ucast (drop_bit 8 (ppp_fcs ?temp))]"
  obtain out where out: "ppp_escape (ACCM_tx s) True ?all = Inr out" "0x7e \<notin> set out" "unwrap_ppp_frame out = Inr ?all" "length ?all \<le> length out"
    using ppp_escape_transparent [OF assms, of True ?all] by blast
  then have "wrap_in_ppp_frame s payload 0x0021 (ACCM_tx s) True = Inr (0x7e # out @ [0x7e])"
    by (simp add: wrap_in_ppp_frame_def Let_def)
  moreover from out(4) have "out \<noteq> []" by auto
  ultimately show ?thesis using out(2,3) by (auto simp: ppp_out_def)
qed

lemma ppp_decompress_content:
  assumes "understands r s" and "payload \<noteq> []"
  shows "ppp_decompress r (ppp_content s payload 0x0021 True @ [a, b]) = Inr ([0xff, 0x03, 0x00, 0x21] @ payload @ [a, b])"
  using assms by (auto simp: ppp_decompress_def ppp_content_def understands_def Let_def)

lemma mk16_ip: "mk16 0x00 0x21 = 0x0021"
  by code_simp

lemma process_ip_frame:
  assumes "understands r s" and "payload \<noteq> []" and "phys_prot_map r 0x800 = Some layer" and "gen_opponent_mac (my_mac r) = Inr peer"
  shows "process_incoming_packet la (ppp_content s payload 0x0021 True @ [a, b]) r =
    Inr ([To_layer layer (packet_new_link peer (my_mac r) payload [] False)], r\<lparr>phys_recv_frame := phys_recv_frame r + 1\<rparr>)"
proof -
  have "\<not> length (ppp_content s payload 0x0021 True @ [a, b]) < 4"
    using assms(2) by (cases payload) (auto simp: ppp_content_def)
  then show ?thesis
    using assms by (simp add: process_incoming_packet_def ppp_decompress_content mk16_ip ppp_deliver_def)
qed

lemma rx_plain_octets:
  "\<not> emulate_modem_xp r \<Longrightarrow> 0x7e \<notin> set out \<Longrightarrow>
   rx_run (failing_rx (ppp_step la)) (Inr r) (map Octet out) = (Inr (r\<lparr>pp_packet_buffer := pp_packet_buffer r @ out\<rparr>), [])"
proof (induction out arbitrary: r)
  case (Cons b out)
  then show ?case by (auto simp: failing_rx_Inr ppp_step_def modem_step_def Let_def)
qed simp

definition ppp_idle :: "(u16 \<rightharpoonup> nat) \<times> addr \<times> bool \<times> bool \<Rightarrow> ppp res \<Rightarrow> bool" where
  "ppp_idle c r \<longleftrightarrow> (\<exists>s. r = Inr s \<and> pp_packet_buffer s = [] \<and> \<not> emulate_modem_xp s \<and> ppp_cfg s = c)"

definition ppp_sendable :: "'a gen_ppp_scheme \<Rightarrow> (u16 \<rightharpoonup> nat) \<times> addr \<times> bool \<times> bool \<Rightarrow> nat \<Rightarrow> addr \<Rightarrow> byte list \<Rightarrow> bool" where
  "ppp_sendable s c layer peer payload \<longleftrightarrow>
     payload \<noteq> [] \<and> accm_ok (ACCM_tx s) \<and>
     (case c of (pm, mac, ac, pc) \<Rightarrow>
        (ac_field_compression s \<longrightarrow> ac) \<and> (protocol_compression s \<longrightarrow> pc) \<and> pm 0x800 = Some layer \<and> gen_opponent_mac mac = Inr peer)"

lemma ppp_rx_frame:
  assumes "ppp_idle c r" and "ppp_sendable s c layer peer payload"
  shows "\<exists>r'. rx_run (failing_rx (ppp_step la)) r (map Octet (ppp_out s payload)) =
    (r', [To_layer layer (packet_new_link peer (fst (snd c)) payload [] False)]) \<and> ppp_idle c r'"
proof -
  from assms(1) obtain q where q: "r = Inr q" "pp_packet_buffer q = []" "\<not> emulate_modem_xp q" "ppp_cfg q = c"
    by (auto simp: ppp_idle_def)
  from assms(2) q(4) have s: "payload \<noteq> []" "accm_ok (ACCM_tx s)" "understands q s" "phys_prot_map q 0x800 = Some layer"
    "gen_opponent_mac (my_mac q) = Inr peer"
    by (auto simp: ppp_sendable_def ppp_cfg_def understands_def)
  obtain out a b where out: "ppp_out s payload = 0x7e # out @ [0x7e]" "0x7e \<notin> set out" "out \<noteq> []"
    "unwrap_ppp_frame out = Inr (ppp_content s payload 0x0021 True @ [a, b])"
    using ppp_out_frame [OF s(2), of payload] by blast
  let ?n = "of_nat (length (ppp_content s payload 0x0021 True @ [a, b]))"
  let ?q = "q\<lparr>pp_packet_buffer := out\<rparr>"
  let ?q1 = "?q\<lparr>phys_ifInOctets := phys_ifInOctets q + ?n, phys_ifHCInOctets := phys_ifHCInOctets q + ?n, phys_ifInUcastPkts := phys_ifInUcastPkts q + 1\<rparr>"
  have p: "process_incoming_packet la (ppp_content s payload 0x0021 True @ [a, b]) ?q1 =
    Inr ([To_layer layer (packet_new_link peer (my_mac q) payload [] False)], ?q1\<lparr>phys_recv_frame := phys_recv_frame q + 1\<rparr>)"
    using process_ip_frame [of ?q1 s payload layer peer la a b] s by (simp add: understands_def)
  have first: "failing_rx (ppp_step la) (Inr q) (Octet 0x7e) = (Inr q, [])"
    using q(2) by (simp add: failing_rx_Inr ppp_step_def)
  have last: "failing_rx (ppp_step la) (Inr ?q) (Octet 0x7e) =
    (Inr (?q1\<lparr>phys_recv_frame := phys_recv_frame q + 1, pp_packet_buffer := [], modem_7e_flag := False, pp_modem := []\<rparr>),
     [To_layer layer (packet_new_link peer (my_mac q) payload [] False)])"
    using out(3) p by (simp add: failing_rx_Inr ppp_step_def out(4) Let_def)
  have "rx_run (failing_rx (ppp_step la)) (Inr q) (map Octet out) = (Inr ?q, [])"
    using rx_plain_octets [OF q(3) out(2), of la] q(2) by simp
  with first last q show ?thesis
    by (auto simp: out(1) rx_run_append ppp_idle_def ppp_cfg_def)
qed

interpretation ppp_line: framed_line "failing_rx (ppp_step la)" "\<lambda>d. map Octet (ppp_out s d)" "ppp_sendable s c layer peer"
  "\<lambda>d. [To_layer layer (packet_new_link peer (fst (snd c)) d [] False)]" "ppp_idle c" for la s c layer peer
  by unfold_locales (rule ppp_rx_frame)

lemma wrap_counters [frame_simps]:
  "wrap_in_ppp_frame (s\<lparr>phys_ifOutOctets := x, phys_ifHCOutOctets := y, phys_ifOutUcastPkts := z\<rparr>) = wrap_in_ppp_frame s"
  by (intro ext) (simp add: wrap_in_ppp_frame_def ppp_content_def)

text \<open>
  C23. A sequence of IPv4 packets over a PPP line, with and without the two kinds of header
  compression: whatever octets the packets consist of, the receiver hands exactly them to its IPv4
  layer, in order, if it has agreed to the compression the sender uses.
\<close>

theorem ppp_transfer:
  assumes "accm_ok (ACCM_tx s)" and "understands r s" and "pp_packet_buffer r = []" and "\<not> emulate_modem_xp r"
    and "phys_prot_map r 0x800 = Some layer" and "gen_opponent_mac (my_mac r) = Inr peer" and "[] \<notin> set ds"
  shows "\<exists>outs r'. list_all2 (\<lambda>d out. \<exists>s'. ppp_transmit_packet True d s = Inr (True, [Line out], s')) ds outs \<and>
    rx_run (failing_rx (ppp_step la)) (Inr r) (map Octet (concat outs)) =
      (Inr r', map (\<lambda>d. To_layer layer (packet_new_link peer (my_mac r) d [] False)) ds)"
proof -
  have "\<exists>s'. ppp_transmit_packet True d s = Inr (True, [Line (ppp_out s d)], s')" for d
    using ppp_out_frame [OF assms(1), of d] by (auto simp: ppp_transmit_packet_def transmit_low_def Let_def wrap_counters)
  then have tx: "list_all2 (\<lambda>d out. \<exists>s'. ppp_transmit_packet True d s = Inr (True, [Line out], s')) ds (map (ppp_out s) ds)"
    by (simp add: list_all2_conv_all_nth)
  have "ppp_idle (ppp_cfg r) (Inr r)" using assms by (simp add: ppp_idle_def)
  moreover have "list_all (ppp_sendable s (ppp_cfg r) layer peer) ds"
    using assms by (auto simp: ppp_sendable_def ppp_cfg_def understands_def list_all_iff)
  ultimately obtain r' where r': "rx_run (failing_rx (ppp_step la)) (Inr r) (concat (map (\<lambda>d. map Octet (ppp_out s d)) ds)) =
      (r', concat (map (\<lambda>d. [To_layer layer (packet_new_link peer (my_mac r) d [] False)]) ds))" "ppp_idle (ppp_cfg r) r'"
    using ppp_line.line_stream [of "ppp_cfg r" "Inr r" s layer peer ds la] by (auto simp: ppp_cfg_def)
  then obtain q where "r' = Inr q" by (auto simp: ppp_idle_def)
  with r'(1) have "rx_run (failing_rx (ppp_step la)) (Inr r) (map Octet (concat (map (ppp_out s) ds))) =
      (Inr q, map (\<lambda>d. To_layer layer (packet_new_link peer (my_mac r) d [] False)) ds)"
    by (simp add: map_concat comp_def)
  with tx show ?thesis by blast
qed

definition example_ppp :: ppp where
  "example_ppp = (phys_register_protocol 0x800 7 (ppp_new (Addr AF_mac [2, 0, 0, 0, 0, 2]) (Addr AF_ipv4 [10, 0, 0, 2]) False))
     \<lparr>ac_field_compression := True, protocol_compression := True\<rparr>"

lemma example_ppp_fields:
  "ACCM_tx example_ppp = ACCM_init" "pp_packet_buffer example_ppp = []" "\<not> emulate_modem_xp example_ppp"
  "phys_prot_map example_ppp 0x800 = Some 7" "my_mac example_ppp = Addr AF_mac [2, 0, 0, 0, 0, 2]"
  by (simp_all add: example_ppp_def ppp_new_def gen_ppp_new_def phys_register_protocol_def phys_new_def gen_ppp.extend_def
      phys.extend_def ppp.fields_def gen_ppp.fields_def)

theorem ppp_transfer_witness:
  "\<exists>outs r'. length outs = 2 \<and> rx_run (failing_rx (ppp_step (\<lambda>_. Addr AF_ipv4 [10, 0, 0, 1]))) (Inr example_ppp) (map Octet (concat outs)) =
     (Inr r', [To_layer 7 (packet_new_link (Addr AF_mac [0xa8, 0x55, 0xaa, 0x55, 0xaa, 0x57]) (Addr AF_mac [2, 0, 0, 0, 0, 2]) [0x7e, 0x7d] [] False),
               To_layer 7 (packet_new_link (Addr AF_mac [0xa8, 0x55, 0xaa, 0x55, 0xaa, 0x57]) (Addr AF_mac [2, 0, 0, 0, 0, 2]) [0] [] False)])"
proof -
  have u: "understands example_ppp example_ppp" by (simp add: understands_def)
  have a: "accm_ok (ACCM_tx example_ppp)" by (simp add: example_ppp_fields accm_ok_init)
  have o: "gen_opponent_mac (my_mac example_ppp) = Inr (Addr AF_mac [0xa8, 0x55, 0xaa, 0x55, 0xaa, 0x57])"
    unfolding example_ppp_fields by code_simp
  obtain outs r' where r: "list_all2 (\<lambda>d out. \<exists>s'. ppp_transmit_packet True d example_ppp = Inr (True, [Line out], s')) [[0x7e, 0x7d], [0]] outs"
    "rx_run (failing_rx (ppp_step (\<lambda>_. Addr AF_ipv4 [10, 0, 0, 1]))) (Inr example_ppp) (map Octet (concat outs)) =
      (Inr r', map (\<lambda>d. To_layer 7 (packet_new_link (Addr AF_mac [0xa8, 0x55, 0xaa, 0x55, 0xaa, 0x57]) (my_mac example_ppp) d [] False)) [[0x7e, 0x7d], [0]])"
    using ppp_transfer [OF a u example_ppp_fields(2-4) o, of "[[0x7e, 0x7d], [0]]" "\<lambda>_. Addr AF_ipv4 [10, 0, 0, 1]"] by auto
  from list_all2_lengthD [OF r(1)] have "length outs = 2" by simp
  with r(2) show ?thesis by (auto simp: example_ppp_fields)
qed

section \<open>Negotiation\<close>

text \<open>An option as its type and value, and its octets.\<close>

definition opt_len :: "byte list \<Rightarrow> byte" where
  "opt_len v = of_nat (length v + 2)"

definition opt_octets :: "byte \<times> byte list \<Rightarrow> byte list" where
  "opt_octets tv = (case tv of (t, v) \<Rightarrow> [t, opt_len v] @ v)"

definition opts_octets :: "(byte \<times> byte list) list \<Rightarrow> byte list" where
  "opts_octets opts = concat (map opt_octets opts)"

definition opt_ok :: "byte \<times> byte list \<Rightarrow> bool" where
  "opt_ok tv \<longleftrightarrow> length (snd tv) \<le> 253"

lemma opts_octets_simps [simp]:
  "opts_octets [] = []" "opts_octets (tv # opts) = opt_octets tv @ opts_octets opts"
  by (simp_all add: opts_octets_def)

lemma opt_octets_eq_Nil [simp]: "opt_octets tv \<noteq> []"
  by (simp add: opt_octets_def split: prod.split)

lemma opts_octets_eq_Nil [simp]: "opts_octets opts = [] \<longleftrightarrow> opts = []"
  by (cases opts) auto

lemma unat_opt_len: "length v \<le> 253 \<Longrightarrow> unat (opt_len v) = length v + 2"
  unfolding opt_len_def by (subst unsigned_of_nat) (simp add: take_bit_nat_eq_self)

lemma options_loop_Cons:
  assumes "data = pre @ opt_octets (t, v) @ post" and "2 \<le> length post" and "length v \<le> 253"
  shows "options_loop act data (length pre) st =
    rbind (act t (opt_len v) (length pre) st) (options_loop act data (length (pre @ opt_octets (t, v)))) \<and>
    option_octets data (length pre) (opt_len v) = opt_octets (t, v)"
proof -
  note l = unat_opt_len [OF assms(3)]
  have d: "data ! length pre = t" "data ! (length pre + 1) = opt_len v" "length pre + length v + 2 + 2 \<le> length data"
    using assms by (simp_all add: opt_octets_def nth_append)
  have "opt_len v \<noteq> 0" using l by (metis add_2_eq_Suc' nat.distinct(1) unat_0)
  moreover have "length pre < length data - 2" "\<not> length data - length pre < length v + 2" using d(3) by linarith+
  ultimately have "options_loop act data (length pre) st =
    rbind (act t (opt_len v) (length pre) st) (options_loop act data (length pre + (length v + 2)))"
    using d l by (subst options_loop.simps) simp
  moreover have "length (pre @ opt_octets (t, v)) = length pre + (length v + 2)" by (simp add: opt_octets_def)
  moreover have "option_octets data (length pre) (opt_len v) = opt_octets (t, v)"
    using assms(1) l by (simp add: option_octets_def opt_octets_def)
  ultimately show ?thesis by simp
qed

lemma options_loop_end: "length data - 2 \<le> off \<Longrightarrow> options_loop act data off st = Inr st"
  by (simp add: options_loop.simps)

lemma options_loop_zero:
  assumes "data = pre @ [ty, 0] @ post" and "2 \<le> length post" and "act ty 0 (length pre) st = Inr st'"
  shows "options_loop act data (length pre) st = Inl Diverges"
proof -
  have "data ! length pre = ty" "data ! (length pre + 1) = 0" "length pre < length data - 2"
    using assms(1,2) by (auto simp: nth_append)
  with assms(3) show ?thesis by (subst options_loop.simps) simp
qed

text \<open>The head of a control packet of the three protocols without addresses.\<close>

definition xcp_frame :: "u16 \<Rightarrow> byte \<Rightarrow> byte \<Rightarrow> u16 \<Rightarrow> byte list \<Rightarrow> byte list" where
  "xcp_frame protocol code identifier len rest =
     [0xff, 0x03] @ bytes16 protocol @ [code, identifier] @ bytes16 len @ rest"

lemma xcp_frame_header:
  "xcp_header (xcp_frame protocol code identifier len rest) = Inr (code, identifier, len)"
  "length (xcp_frame protocol code identifier len rest) = length rest + 8"
proof -
  obtain a b where a: "bytes16 protocol = [a, b]" by (rule bytes16_obtain)
  obtain c d where c: "bytes16 len = [c, d]" "mk16 c d = len" by (rule bytes16_obtain)
  show "xcp_header (xcp_frame protocol code identifier len rest) = Inr (code, identifier, len)"
    "length (xcp_frame protocol code identifier len rest) = length rest + 8"
    using c(2) by (simp_all add: xcp_header_def xcp_frame_def a c(1) vec_at_def nth_append)
qed

lemma process_control_frame:
  assumes "protocol \<in> {0xc021, 0x8057, 0x80fd, 0x8021}"
  shows "process_incoming_packet la (xcp_frame protocol code identifier len rest) s =
    (if protocol = 0xc021 then handle_lcp (xcp_frame protocol code identifier len rest) s
     else if protocol = 0x8021 then handle_ipcp la (xcp_frame protocol code identifier len rest) s
     else if protocol = 0x8057 then handle_ipv6cp (xcp_frame protocol code identifier len rest) s
     else handle_ccp (xcp_frame protocol code identifier len rest) s)"
proof -
  obtain a b where a: "bytes16 protocol = [a, b]" "mk16 a b = protocol" by (rule bytes16_obtain)
  have "even (ucast (drop_bit 8 protocol) :: byte)" using assms by auto
  then have "a AND 1 \<noteq> 1" using a(1) by (simp add: bytes16_def and_one_eq flip: even_iff_mod_2_eq_zero)
  with a assms show ?thesis
    by (auto simp: process_incoming_packet_def ppp_decompress_def xcp_frame_def)
qed

text \<open>
  A peer can hang the receiving thread: any LCP, IPV6CP or CCP request whose first option has
  length 0 is looked at forever.
\<close>

theorem ppp_option_of_length_zero:
  fixes s :: "'a gen_ppp_scheme"
  assumes "protocol \<in> {0xc021, 0x8057, 0x80fd}" and "2 \<le> length post" and "unat len \<le> length post + 6"
  shows "process_incoming_packet la (xcp_frame protocol 1 identifier len ([ty, 0] @ post)) s = Inl Diverges"
proof -
  let ?d = "xcp_frame protocol 1 identifier len ([ty, 0] @ post)"
  have h: "xcp_header ?d = Inr (1, identifier, len)" "length ?d = length post + 10" by (simp_all add: xcp_frame_header)
  have sz: "\<not> size_invalid ?d len" using assms(3) h(2) by (simp add: size_invalid_def)
  have pre: "?d = ([0xff, 0x03] @ bytes16 protocol @ [1, identifier] @ bytes16 len) @ [ty, 0] @ post"
    by (simp add: xcp_frame_def)
  have l: "length ([0xff, 0x03] @ bytes16 protocol @ [1, identifier] @ bytes16 len) = 8" by simp
  note Z = options_loop_zero [OF pre assms(2), unfolded l]
  have "options_loop (lcp_option ?d) ?d 8 w = Inl Diverges" for w :: "'a gen_ppp_scheme lcp_work"
  proof -
    obtain w' where "lcp_option ?d ty 0 8 w = Inr w'" by (fastforce simp: lcp_option_def Let_def)
    then show ?thesis by (rule Z)
  qed
  moreover have "options_loop (ipv6cp_option ?d) ?d 8 w = Inl Diverges" for w
    by (rule Z [where st' = "w @ (if ty = 0xff then [] else option_octets ?d 8 0)"]) (simp add: ipv6cp_option_def)
  moreover have "options_loop (ccp_option ?d) ?d 8 w = Inl Diverges" for w
    by (rule Z [where st' = "w @ option_octets ?d 8 0"]) (simp add: ccp_option_def)
  ultimately show ?thesis
    using assms(1) sz h(1) process_control_frame [of protocol la "1" "identifier" len "[ty, 0] @ post" s]
    by (auto simp: handle_lcp_def handle_ipv6cp_def handle_ccp_def)
qed

theorem ppp_option_of_length_zero_witness:
  "process_incoming_packet (\<lambda>_. Addr AF_ipv4 [10, 0, 0, 1]) (xcp_frame 0xc021 1 7 6 [1, 0, 0xab, 0xcd]) example_ppp = Inl Diverges"
  by (rule ppp_option_of_length_zero [of "0xc021" "[0xab, 0xcd]" 6, simplified])

section \<open>The negotiation of the link\<close>

lemma accm_loop_result:
  "off + i + n \<le> length data \<Longrightarrow> i + n \<le> length (ACCM_tx s) \<Longrightarrow> i + n \<le> length (ACCM_rx s) \<Longrightarrow>
   \<exists>s'. accm_loop data off i n s = Inr s' \<and>
     ACCM_tx s' = take i (ACCM_tx s) @ take n (drop (off + i) data) @ drop (i + n) (ACCM_tx s) \<and>
     ACCM_rx s' = take i (ACCM_rx s) @ take n (drop (off + i) data) @ drop (i + n) (ACCM_rx s) \<and>
     s' = s\<lparr>ACCM_tx := ACCM_tx s', ACCM_rx := ACCM_rx s'\<rparr>"
proof (induction n arbitrary: i s)
  case (Suc n)
  let ?v = "data ! (off + i)"
  let ?s = "s\<lparr>ACCM_tx := (ACCM_tx s)[i := ?v], ACCM_rx := (ACCM_rx s)[i := ?v]\<rparr>"
  have step: "accm_loop data off i (Suc n) s = accm_loop data off (i + 1) n ?s" using Suc.prems by simp
  obtain s' where s': "accm_loop data off (i + 1) n ?s = Inr s'"
    "ACCM_tx s' = take (i + 1) (ACCM_tx ?s) @ take n (drop (off + (i + 1)) data) @ drop (i + 1 + n) (ACCM_tx ?s)"
    "ACCM_rx s' = take (i + 1) (ACCM_rx ?s) @ take n (drop (off + (i + 1)) data) @ drop (i + 1 + n) (ACCM_rx ?s)"
    "s' = ?s\<lparr>ACCM_tx := ACCM_tx s', ACCM_rx := ACCM_rx s'\<rparr>"
    using Suc.IH [of "i + 1" ?s] Suc.prems by auto
  have "take (Suc n) (drop (off + i) data) = ?v # take n (drop (off + (i + 1)) data)"
    using Suc.prems(1) by (simp add: Cons_nth_drop_Suc [symmetric])
  moreover have "take (i + 1) (xs[i := ?v]) = take i xs @ [?v]" if "i < length xs" for xs
    using that by (simp add: take_Suc_conv_app_nth take_update_cancel)
  ultimately show ?case
    using s' step Suc.prems by (intro exI [of _ s']) simp
qed simp

text \<open>The options the code knows.\<close>

definition lcp_known :: "byte \<times> byte list \<Rightarrow> bool" where
  "lcp_known tv \<longleftrightarrow> fst tv \<in> {1, 2, 5, 7, 8}"

definition lcp_opt_ok :: "byte \<times> byte list \<Rightarrow> bool" where
  "lcp_opt_ok tv \<longleftrightarrow> length (snd tv) \<le> 253 \<and> (fst tv = 2 \<longrightarrow> length (snd tv) = 4)"

text \<open>The control characters of the last map among the options.\<close>

definition lcp_accm :: "(byte \<times> byte list) list \<Rightarrow> byte list \<Rightarrow> byte list" where
  "lcp_accm opts a = foldl (\<lambda>a (t, v). if t = 2 then v else a) a opts"

definition accms_ok :: "'a gen_ppp_scheme \<Rightarrow> bool" where
  "accms_ok s \<longleftrightarrow> accm_ok (ACCM_tx s) \<and> accm_ok (ACCM_rx s) \<and> take 4 (ACCM_tx s) = take 4 (ACCM_rx s)"

text \<open>What a walk over the options does to the state.\<close>

definition lcp_after :: "(byte \<times> byte list) list \<Rightarrow> 'a gen_ppp_scheme \<Rightarrow> 'a gen_ppp_scheme \<Rightarrow> bool" where
  "lcp_after opts s s' \<longleftrightarrow>
     (protocol_compression s' \<longleftrightarrow> protocol_compression s \<or> 7 \<in> fst ` set opts) \<and>
     (ac_field_compression s' \<longleftrightarrow> ac_field_compression s \<or> 8 \<in> fst ` set opts) \<and>
     accms_ok s' \<and> take 4 (ACCM_rx s') = lcp_accm opts (take 4 (ACCM_rx s)) \<and>
     s' = s\<lparr>protocol_compression := protocol_compression s', ac_field_compression := ac_field_compression s',
            ACCM_tx := ACCM_tx s', ACCM_rx := ACCM_rx s'\<rparr>"

lemma lcp_accm_option:
  assumes "accms_ok s" and "data = pre @ opt_octets (2, v) @ post" and "2 \<le> length post" and "length v = 4"
  shows "\<exists>s'. accm_loop data (length pre + 2) 0 6 s = Inr s' \<and> lcp_after [(2, v)] s s'"
proof -
  have "length pre + 2 + 0 + 6 \<le> length data" using assms(2-4) by (simp add: opt_octets_def)
  with assms(1) obtain s' where s': "accm_loop data (length pre + 2) 0 6 s = Inr s'"
    "ACCM_tx s' = take 6 (drop (length pre + 2) data) @ drop 6 (ACCM_tx s)"
    "ACCM_rx s' = take 6 (drop (length pre + 2) data) @ drop 6 (ACCM_rx s)"
    "s' = s\<lparr>ACCM_tx := ACCM_tx s', ACCM_rx := ACCM_rx s'\<rparr>"
    using accm_loop_result [of "length pre + 2" 0 6 data s] by (auto simp: accms_ok_def accm_ok_def)
  have d: "take 6 (drop (length pre + 2) data) = v @ take 2 post"
    using assms(2,4) by (simp add: opt_octets_def)
  from s'(4) have c: "protocol_compression s' = protocol_compression s" "ac_field_compression s' = ac_field_compression s"
    by (metis gen_ppp.select_convs(1,2) gen_ppp.surjective gen_ppp.update_convs(7,8))+
  have "length (v @ take 2 post) = 6" using assms(3,4) by simp
  with s'(2,3) d assms(1,4) have "accms_ok s'" "take 4 (ACCM_rx s') = v"
    by (auto simp: accms_ok_def accm_ok_def nth_append)
  with s' c show ?thesis by (auto simp: lcp_after_def lcp_accm_def)
qed

lemma lcp_after_refl: "accms_ok s \<Longrightarrow> lcp_after [] s s"
  by (simp add: lcp_after_def lcp_accm_def)

lemma lcp_after_append: "lcp_after as s s1 \<Longrightarrow> lcp_after bs s1 s2 \<Longrightarrow> lcp_after (as @ bs) s s2"
  by (cases s; cases s1; cases s2) (auto simp: lcp_after_def lcp_accm_def)

lemma lcp_option_step:
  assumes "lcp_opt_ok (t, v)" and "accms_ok (lcp_state w)" and "data = pre @ opt_octets (t, v) @ post" and "2 \<le> length post"
  shows "\<exists>w'. lcp_option data t (opt_len v) (length pre) w = Inr w' \<and>
    lcp_ack w' = lcp_ack w @ (if lcp_known (t, v) then opt_octets (t, v) else []) \<and>
    lcp_rej w' = lcp_rej w @ (if lcp_known (t, v) then [] else opt_octets (t, v)) \<and>
    lcp_after [(t, v)] (lcp_state w) (lcp_state w')"
proof -
  have v: "length v \<le> 253" using assms(1) by (simp add: lcp_opt_ok_def)
  have oo: "option_octets data (length pre) (opt_len v) = opt_octets (t, v)"
    using options_loop_Cons [OF assms(3,4) v, of "\<lambda>_ _ _ u. Inr u" "()"] by blast
  show ?thesis
  proof (cases "t = 2")
    case True
    then have l: "length v = 4" using assms(1) by (simp add: lcp_opt_ok_def)
    with v have "unat (opt_len v) = 6" by (simp add: unat_opt_len)
    moreover obtain s' where "accm_loop data (length pre + 2) 0 6 (lcp_state w) = Inr s'" "lcp_after [(2, v)] (lcp_state w) s'"
      using lcp_accm_option [OF assms(2) _ assms(4) l] assms(3) True by blast
    ultimately show ?thesis using True oo by (simp add: lcp_option_def lcp_known_def Let_def)
  next
    case False
    then show ?thesis
      using assms(2) oo by (auto simp: lcp_option_def lcp_known_def lcp_after_def lcp_accm_def accms_ok_def Let_def)
  qed
qed

lemma lcp_options_walk:
  "list_all lcp_opt_ok opts \<Longrightarrow> accms_ok (lcp_state w) \<Longrightarrow> data = pre @ opts_octets opts @ [f1, f2] \<Longrightarrow>
   \<exists>w'. options_loop (lcp_option data) data (length pre) w = Inr w' \<and>
     lcp_ack w' = lcp_ack w @ opts_octets (filter lcp_known opts) \<and>
     lcp_rej w' = lcp_rej w @ opts_octets (filter (\<lambda>tv. \<not> lcp_known tv) opts) \<and>
     lcp_after opts (lcp_state w) (lcp_state w')"
proof (induction opts arbitrary: pre w)
  case Nil
  then show ?case using lcp_after_refl by (auto simp: options_loop_end)
next
  case (Cons tv opts)
  obtain t v where tv: "tv = (t, v)" by (cases tv)
  let ?pre = "pre @ opt_octets (t, v)" and ?post = "opts_octets opts @ [f1, f2]"
  have d: "data = pre @ opt_octets (t, v) @ ?post" using Cons.prems(3) tv by simp
  have ok: "lcp_opt_ok (t, v)" "length v \<le> 253" using Cons.prems(1) tv by (simp_all add: lcp_opt_ok_def)
  obtain w1 where w1: "lcp_option data t (opt_len v) (length pre) w = Inr w1"
    "lcp_ack w1 = lcp_ack w @ (if lcp_known (t, v) then opt_octets (t, v) else [])"
    "lcp_rej w1 = lcp_rej w @ (if lcp_known (t, v) then [] else opt_octets (t, v))"
    "lcp_after [(t, v)] (lcp_state w) (lcp_state w1)"
    using lcp_option_step [OF ok(1) Cons.prems(2) d] by auto
  have "accms_ok (lcp_state w1)" using w1(4) by (simp add: lcp_after_def)
  then obtain w2 where w2: "options_loop (lcp_option data) data (length ?pre) w1 = Inr w2"
    "lcp_ack w2 = lcp_ack w1 @ opts_octets (filter lcp_known opts)"
    "lcp_rej w2 = lcp_rej w1 @ opts_octets (filter (\<lambda>tv. \<not> lcp_known tv) opts)"
    "lcp_after opts (lcp_state w1) (lcp_state w2)"
    using Cons.IH [of w1 ?pre] Cons.prems(1) d by auto
  have "options_loop (lcp_option data) data (length pre) w = Inr w2"
    using options_loop_Cons [OF d _ ok(2), of "lcp_option data" w] w1(1) w2(1) by simp
  with w1 w2 lcp_after_append [OF w1(4) w2(4)] show ?case by (auto simp: tv)
qed

lemma transmit_low_ok:
  "accm_ok (ACCM_tx s) \<Longrightarrow> \<exists>out. transmit_low payload protocol not_meta s = Inr [Line out] \<and>
     wrap_in_ppp_frame s payload protocol (ACCM_tx s) not_meta = Inr out"
  using ppp_escape_transparent [of "ACCM_tx s"]
  by (fastforce simp: transmit_low_def wrap_in_ppp_frame_def Let_def)

lemma lcp_request_sends:
  assumes "accms_ok s" "\<not> lcp_options_acked s"
  obtains request where "lcp_request s = Inr [Line request]"
    "wrap_in_ppp_frame s (xcp_packet 1 1 ([2, 6] @ take 4 (ACCM_rx s) @ [5, 6] @ bytes32 (magic s) @ [7, 2, 8, 2])) 0xc021 (ACCM_tx s) False = Inr request"
proof -
  from assms(1) have tx: "accm_ok (ACCM_tx s)" and rx: "4 \<le> length (ACCM_rx s)" by (auto simp: accms_ok_def accm_ok_def)
  have t4: "take 4 (ACCM_rx s) = [ACCM_rx s ! 0, ACCM_rx s ! 1, ACCM_rx s ! 2, ACCM_rx s ! 3]"
    using rx by (auto simp: list_eq_iff_nth_eq less_Suc_eq numeral_eq_Suc)
  let ?rq = "xcp_packet 1 1 ([2, 6] @ take 4 (ACCM_rx s) @ [5, 6] @ bytes32 (magic s) @ [7, 2, 8, 2])"
  have "lcp_request s = transmit_low ?rq 0xc021 False s" using assms(2) rx by (auto simp: lcp_request_def t4 vec_at_def)
  with transmit_low_ok [OF tx, of ?rq "0xc021" False] that show thesis by auto
qed

text \<open>The options that are not known are rejected; if there are none, all are acknowledged.\<close>

lemma lcp_answer_sends:
  assumes "accms_ok s" and ack: "ack = opts_octets (filter lcp_known opts)" and rej: "rej = opts_octets (filter (\<lambda>tv. \<not> lcp_known tv) opts)"
  obtains out where
    "(if rej \<noteq> [] then send_rej 0xc021 key rej s else if ack \<noteq> [] then send_ack 0xc021 key ack s else Inr []) =
       Inr (if opts = [] then [] else [Line out])"
    "wrap_in_ppp_frame s (if list_all lcp_known opts then xcp_packet 2 key (opts_octets opts)
       else xcp_packet 4 key (opts_octets (filter (\<lambda>tv. \<not> lcp_known tv) opts))) 0xc021 (ACCM_tx s) False = Inr out"
proof -
  let ?body = "if list_all lcp_known opts then xcp_packet 2 key (opts_octets opts)
       else xcp_packet 4 key (opts_octets (filter (\<lambda>tv. \<not> lcp_known tv) opts))"
  from assms(1) have tx: "accm_ok (ACCM_tx s)" by (auto simp: accms_ok_def)
  obtain out where out: "transmit_low ?body 0xc021 False s = Inr [Line out]" "wrap_in_ppp_frame s ?body 0xc021 (ACCM_tx s) False = Inr out"
    using transmit_low_ok [OF tx] by blast
  have "(if rej \<noteq> [] then send_rej 0xc021 key rej s else if ack \<noteq> [] then send_ack 0xc021 key ack s else Inr []) =
      Inr (if opts = [] then [] else [Line out])"
  proof (cases "list_all lcp_known opts")
    case True
    then have "filter lcp_known opts = opts" "filter (\<lambda>tv. \<not> lcp_known tv) opts = []"
      by (auto simp: list_all_iff filter_id_conv filter_empty_conv)
    with True out(1) ack rej show ?thesis by (simp add: send_ack_def send_Xcp_def)
  next
    case False
    then have "filter (\<lambda>tv. \<not> lcp_known tv) opts \<noteq> []" by (auto simp: list_all_iff filter_empty_conv)
    with False out(1) ack rej show ?thesis by (auto simp: send_rej_def send_Xcp_def)
  qed
  with out(2) that show thesis by blast
qed

text \<open>
  C24. The answer to an LCP configure request: a configure reject of exactly the unknown options, in
  their order, if there are any, otherwise a configure ack of all options, under the
  identifier of the request; a request without options is not answered, though the protocol asks for an ack.  Then an own
  request is sent, whatever was agreed before.  Header compression is on afterwards exactly if the
  peer asked for it.  The first four octets of both maps of control characters are those of the last map of the peer, in the
  order in which they came: the escaping reads them in the opposite order, so that they do not select the
  characters the peer meant.  Escaping stays transparent.
\<close>

theorem lcp_request_answer:
  assumes "list_all lcp_opt_ok opts" and "accms_ok s" and "length (opts_octets opts) < 65532"
    and "data = xcp_frame 0xc021 1 key (of_nat (length (opts_octets opts) + 4)) (opts_octets opts @ [f1, f2])"
  shows "\<exists>s' answer request out. process_incoming_packet la data s = Inr (answer @ [Line request], s') \<and>
    (if opts = [] then answer = [] else answer = [Line out] \<and>
      wrap_in_ppp_frame s'
        (if list_all lcp_known opts then xcp_packet 2 key (opts_octets opts)
         else xcp_packet 4 key (opts_octets (filter (\<lambda>tv. \<not> lcp_known tv) opts))) 0xc021 (ACCM_tx s') False = Inr out) \<and>
    wrap_in_ppp_frame s' (xcp_packet 1 1 ([2, 6] @ take 4 (ACCM_rx s') @ [5, 6] @ bytes32 (magic s) @ [7, 2, 8, 2])) 0xc021 (ACCM_tx s') False = Inr request \<and>
    (protocol_compression s' \<longleftrightarrow> 7 \<in> fst ` set opts) \<and> (ac_field_compression s' \<longleftrightarrow> 8 \<in> fst ` set opts) \<and>
    take 4 (ACCM_rx s') = lcp_accm opts (take 4 (ACCM_rx s)) \<and> accms_ok s'"
proof -
  let ?s = "s\<lparr>protocol_compression := False, ac_field_compression := False, lcp_options_acked := False\<rparr>"
  let ?w = "\<lparr>lcp_ack = [], lcp_rej = [], lcp_state = ?s\<rparr>"
  let ?len = "of_nat (length (opts_octets opts) + 4) :: u16"
  let ?pre = "[0xff, 0x03] @ bytes16 0xc021 @ [1, key] @ bytes16 ?len"
  have h: "xcp_header data = Inr (1, key, ?len)" "length data = length (opts_octets opts) + 10"
    by (simp_all add: assms(4) xcp_frame_header)
  have "unat ?len = length (opts_octets opts) + 4"
    using assms(3) by (subst unsigned_of_nat) (simp add: take_bit_nat_eq_self)
  with h(2) have sz: "\<not> size_invalid data ?len" by (simp add: size_invalid_def)
  have d: "data = ?pre @ opts_octets opts @ [f1, f2]" by (simp add: assms(4) xcp_frame_def)
  have "accms_ok (lcp_state ?w)" using assms(2) by (simp add: accms_ok_def)
  from lcp_options_walk [OF assms(1) this d]
  obtain w where w: "options_loop (lcp_option data) data (length ?pre) ?w = Inr w" "lcp_ack w = opts_octets (filter lcp_known opts)"
    "lcp_rej w = opts_octets (filter (\<lambda>tv. \<not> lcp_known tv) opts)" "lcp_after opts ?s (lcp_state w)" by auto
  have loop: "options_loop (lcp_option data) data 8 ?w = Inr w" using w(1) by simp
  let ?s' = "lcp_state w"
  from w(4) have s': "accms_ok ?s'" "protocol_compression ?s' \<longleftrightarrow> 7 \<in> fst ` set opts" "ac_field_compression ?s' \<longleftrightarrow> 8 \<in> fst ` set opts"
    "take 4 (ACCM_rx ?s') = lcp_accm opts (take 4 (ACCM_rx s))"
    by (auto simp: lcp_after_def)
  from w(4) have fr: "\<not> lcp_options_acked ?s'" "magic ?s' = magic s"
    by (cases "lcp_state w", cases s, simp add: lcp_after_def)+
  obtain request where req: "lcp_request ?s' = Inr [Line request]"
    "wrap_in_ppp_frame ?s' (xcp_packet 1 1 ([2, 6] @ take 4 (ACCM_rx ?s') @ [5, 6] @ bytes32 (magic s) @ [7, 2, 8, 2])) 0xc021 (ACCM_tx ?s') False = Inr request"
    using lcp_request_sends [OF s'(1) fr(1)] unfolding fr(2) by blast
  obtain out where answer: "(if lcp_rej w \<noteq> [] then send_rej 0xc021 key (lcp_rej w) ?s' else if lcp_ack w \<noteq> [] then send_ack 0xc021 key (lcp_ack w) ?s' else Inr []) =
      Inr (if opts = [] then [] else [Line out])"
    and out: "wrap_in_ppp_frame ?s' (if list_all lcp_known opts then xcp_packet 2 key (opts_octets opts)
         else xcp_packet 4 key (opts_octets (filter (\<lambda>tv. \<not> lcp_known tv) opts))) 0xc021 (ACCM_tx ?s') False = Inr out"
    by (rule lcp_answer_sends [OF s'(1) w(2,3)])
  let ?answer = "if opts = [] then [] else [Line out]"
  have "handle_lcp data s = Inr (?answer @ [Line request], ?s')"
    using h(1) sz loop req(1) answer by (simp add: handle_lcp_def Let_def)
  then have "process_incoming_packet la data s = Inr (?answer @ [Line request], ?s')"
    using process_control_frame [of "0xc021" la "1" "key" ?len "opts_octets opts @ [f1, f2]" s] assms(4) by simp
  with out req(2) s' show ?thesis by (intro exI [of _ ?s'] exI [of _ ?answer] exI [of _ request] exI [of _ out]) simp
qed

theorem lcp_request_answer_witness:
  "\<exists>s' answer request. process_incoming_packet (\<lambda>_. Addr AF_ipv4 [10, 0, 0, 1])
      (xcp_frame 0xc021 1 7 14 ([2, 6, 0, 0, 0, 0] @ [3, 4, 0xc0, 0x23] @ [0xab, 0xcd])) example_ppp = Inr ([Line answer, Line request], s') \<and>
    wrap_in_ppp_frame s' (xcp_packet 4 7 [3, 4, 0xc0, 0x23]) 0xc021 (ACCM_tx s') False = Inr answer \<and> \<not> protocol_compression s'"
proof -
  let ?opts = "[(2, [0, 0, 0, 0]), (3, [0xc0, 0x23])] :: (byte \<times> byte list) list"
  have ok: "list_all lcp_opt_ok ?opts" "accms_ok example_ppp"
    by (simp_all add: lcp_opt_ok_def accms_ok_def example_ppp_def ppp_new_def gen_ppp_new_def phys_register_protocol_def phys_new_def
        gen_ppp.extend_def phys.extend_def ppp.fields_def gen_ppp.fields_def accm_ok_init)
  have oo: "opts_octets ?opts = [2, 6, 0, 0, 0, 0, 3, 4, 0xc0, 0x23]"
    "filter (\<lambda>tv. \<not> lcp_known tv) ?opts = [(3, [0xc0, 0x23])]" "\<not> list_all lcp_known ?opts" "opts_octets [(3, [0xc0, 0x23])] = [3, 4, 0xc0, 0x23]"
    by (simp_all add: opts_octets_def opt_octets_def opt_len_def lcp_known_def)
  have l: "length (opts_octets ?opts) < 65532" "of_nat (length (opts_octets ?opts) + 4) = (14 :: u16)" using oo(1) by simp_all
  show ?thesis
    using lcp_request_answer [OF ok l(1) refl, where key = 7 and ?f1.0 = "0xab" and ?f2.0 = "0xcd" and la = "\<lambda>_. Addr AF_ipv4 [10, 0, 0, 1]"] oo l(2) by auto
qed

end
