(* ===== verification/Ax25_Packet.thy ===== *)
theory Ax25_Packet
  imports Arp
begin

text \<open>
  AX.25 packets, the class \<open>ax25_packet\<close> of \<^verbatim>\<open>src/ax25.cpp\<close>: the parser, the setters and
  \<open>generate_packet\<close>.  The data of a packet, a \<open>buffer_in\<close> that is read from its start once, are its
  octets.
\<close>

section \<open>Packets\<close>

datatype frame_type = TYPE_I | TYPE_S | TYPE_U | TYPE_UI

record ax25_packet =
  axp_valid :: bool
  axp_invalid_reason :: string
  axp_from :: ax25_address
  axp_to :: ax25_address
  axp_repeaters :: "ax25_address list"
  axp_control :: byte
  axp_type :: frame_type
  axp_pid :: "byte option"
  axp_data :: "byte list"

definition ax25_packet_empty :: ax25_packet where
  "ax25_packet_empty = \<lparr>axp_valid = False, axp_invalid_reason = [], axp_from = ax25_address_default, axp_to = ax25_address_default,
     axp_repeaters = [], axp_control = 0, axp_type = TYPE_I, axp_pid = None, axp_data = []\<rparr>"

section \<open>The parser\<close>

text \<open>
  The loop over at most two repeaters: the offset behind them and the packet with the repeaters
  found, or a packet with the reason why it is not valid.  The octets of a repeater are taken
  without a look at the size of the packet.
\<close>

fun repeater_loop :: "byte list \<Rightarrow> nat \<Rightarrow> nat \<Rightarrow> bool \<Rightarrow> ax25_packet \<Rightarrow> (ax25_packet + nat \<times> ax25_packet) res" where
  "repeater_loop inp 0 offset end_mark p = Inr (Inr (offset, p))"
| "repeater_loop inp (Suc n) offset end_mark p =
     (if end_mark then Inr (Inr (offset, p))
      else
        rbind (octets_at inp offset 7) (\<lambda>bs.
        let a = ax25_address_of_octets bs in
        if \<not> ax_valid a then Inr (Inl (p\<lparr>axp_invalid_reason := ''via invalid: '' @ ax_invalid_reason a\<rparr>))
        else repeater_loop inp n (offset + 7) (ax_end_mark a) (p\<lparr>axp_repeaters := axp_repeaters p @ [a]\<rparr>)))"

definition has_pid :: "byte \<Rightarrow> bool" where
  "has_pid control \<longleftrightarrow> control AND 1 = 0 \<or> control AND 0xef = 0x03"

text \<open>Control, PID and data, behind the addresses; the control and PID octets are read without a check.\<close>

definition control_and_data :: "byte list \<Rightarrow> nat \<Rightarrow> ax25_packet \<Rightarrow> ax25_packet res" where
  "control_and_data inp offset p =
     rbind (octets_at inp offset 1) (\<lambda>c.
     let control = hd c in
     rbind (if has_pid control
            then rbind (octets_at inp (offset + 1) 1) (\<lambda>q.
                 Inr (offset + 2, p\<lparr>axp_control := control, axp_pid := Some (hd q),
                        axp_type := (if control AND 0xef = 0x03 then TYPE_UI else TYPE_I)\<rparr>))
            else Inr (offset + 1, p\<lparr>axp_control := control, axp_type := (if control AND 2 \<noteq> 0 then TYPE_U else TYPE_S)\<rparr>)) (\<lambda>(off, p').
     Inr (p'\<lparr>axp_data := (if off < length inp then drop off inp else axp_data p'), axp_valid := True\<rparr>)))"

definition ax25_packet_of_octets :: "byte list \<Rightarrow> ax25_packet res" where
  "ax25_packet_of_octets inp =
     (if length inp < 14 then
        Inr (ax25_packet_empty\<lparr>axp_invalid_reason := ''packet too short ('' @ fmt_d (length inp) @ '' bytes)''\<rparr>)
      else
        let to = ax25_address_of_octets (take 7 inp); p1 = ax25_packet_empty\<lparr>axp_to := to\<rparr> in
        if \<not> ax_valid to then Inr (p1\<lparr>axp_invalid_reason := ''to invalid: '' @ ax_invalid_reason to\<rparr>)
        else
          let from = ax25_address_of_octets (take 7 (drop 7 inp)); p2 = p1\<lparr>axp_from := from\<rparr> in
          if \<not> ax_valid from then Inr (p2\<lparr>axp_invalid_reason := ''from invalid: '' @ ax_invalid_reason from\<rparr>)
          else
            rbind (repeater_loop inp 2 14 (ax_end_mark from) p2) (\<lambda>r.
            case r of Inl p \<Rightarrow> Inr p | Inr (offset, p) \<Rightarrow> control_and_data inp offset p))"

section \<open>The setters\<close>

definition add_repeater :: "byte list \<Rightarrow> ax25_packet \<Rightarrow> ax25_packet" where
  "add_repeater a p =
     (let temp = ax25_address_of_addr a in
      if list_ex (\<lambda>repeater. ax25_address_eq repeater temp) (axp_repeaters p) then p
      else p\<lparr>axp_repeaters := axp_repeaters p @ [temp]\<rparr>)"

definition set_from :: "byte list \<Rightarrow> ax25_packet \<Rightarrow> ax25_packet" where
  "set_from callsign p = p\<lparr>axp_from := ax25_address_of_addr callsign\<rparr>"

definition set_to :: "byte list \<Rightarrow> ax25_packet \<Rightarrow> ax25_packet" where
  "set_to callsign p = p\<lparr>axp_to := ax25_address_of_addr callsign\<rparr>"

definition set_to_text :: "string \<Rightarrow> int \<Rightarrow> bool \<Rightarrow> bool \<Rightarrow> ax25_packet \<Rightarrow> ax25_packet" where
  "set_to_text callsign ssid end_mark repeated p = p\<lparr>axp_to := ax25_address_make callsign ssid end_mark repeated\<rparr>"

definition set_data :: "byte list \<Rightarrow> ax25_packet \<Rightarrow> ax25_packet" where
  "set_data d p = p\<lparr>axp_data := d\<rparr>"

definition set_control :: "byte \<Rightarrow> ax25_packet \<Rightarrow> ax25_packet" where
  "set_control control p = p\<lparr>axp_control := control\<rparr>"

definition set_pid :: "byte \<Rightarrow> ax25_packet \<Rightarrow> ax25_packet" where
  "set_pid q p = p\<lparr>axp_pid := Some q\<rparr>"

definition set_type :: "frame_type \<Rightarrow> ax25_packet \<Rightarrow> ax25_packet" where
  "set_type f p =
     (if f = TYPE_I then p\<lparr>axp_control := axp_control p AND 254\<rparr>
      else
        let c = axp_control p OR 1 in
        p\<lparr>axp_control := (if f = TYPE_S then c AND NOT 2 else c OR 2)\<rparr>)"

section \<open>The octets of a packet\<close>

text \<open>The last repeater, and only it, has the end mark.\<close>

fun mark_repeaters :: "ax25_address list \<Rightarrow> ax25_address list" where
  "mark_repeaters [] = []"
| "mark_repeaters [a] = [a\<lparr>ax_end_mark := True\<rparr>]"
| "mark_repeaters (a # as) = a\<lparr>ax_end_mark := False\<rparr> # mark_repeaters as"

definition marked_from :: "ax25_packet \<Rightarrow> ax25_address" where
  "marked_from p = (if axp_repeaters p \<noteq> [] then (axp_from p)\<lparr>ax_end_mark := False\<rparr> else axp_from p)"

text \<open>The head is written into a block with room for 1024 octets more than the data.\<close>

definition generate_packet :: "ax25_packet \<Rightarrow> byte list res" where
  "generate_packet p =
     (let head = generate_address (axp_to p) @ generate_address (marked_from p) @
            concat (map generate_address (mark_repeaters (axp_repeaters p))) @ [axp_control p] @
            (if has_pid (axp_control p) then [case axp_pid p of Some q \<Rightarrow> q | None \<Rightarrow> 0] else []) in
      if 1024 < length head then Inl Undefined_behaviour else Inr (head @ axp_data p))"

section \<open>Packets survive the air interface\<close>

lemma wf_ax25_end_mark [simp]: "wf_ax25 (a\<lparr>ax_end_mark := e\<rparr>) \<longleftrightarrow> wf_ax25 a"
  by (simp add: wf_ax25_def)

text \<open>What a packet has to be like: proper addresses, at most two repeaters, and the end mark in its place.\<close>

definition wf_ax25_packet :: "ax25_packet \<Rightarrow> bool" where
  "wf_ax25_packet p \<longleftrightarrow> wf_ax25 (axp_to p) \<and> wf_ax25 (axp_from p) \<and> list_all wf_ax25 (axp_repeaters p) \<and>
     length (axp_repeaters p) \<le> 2 \<and> (axp_repeaters p = [] \<longrightarrow> ax_end_mark (axp_from p))"

definition control_type :: "byte \<Rightarrow> frame_type" where
  "control_type c = (if c AND 0xef = 0x03 then TYPE_UI else if c AND 1 = 0 then TYPE_I else if c AND 2 \<noteq> 0 then TYPE_U else TYPE_S)"

text \<open>What the receiver makes of a packet.\<close>

definition received :: "ax25_packet \<Rightarrow> ax25_packet" where
  "received p = \<lparr>axp_valid = True, axp_invalid_reason = [], axp_from = marked_from p, axp_to = axp_to p,
     axp_repeaters = mark_repeaters (axp_repeaters p), axp_control = axp_control p, axp_type = control_type (axp_control p),
     axp_pid = (if has_pid (axp_control p) then Some (case axp_pid p of Some q \<Rightarrow> q | None \<Rightarrow> 0) else None), axp_data = axp_data p\<rparr>"

lemma parsed_octets [simp]: "wf_ax25 a \<Longrightarrow> ax25_address_of_octets (generate_address a) = a"
  using generate_address_parsed by blast

lemma wf_ax25_valid [simp]: "wf_ax25 a \<Longrightarrow> ax_valid a"
  by (simp add: wf_ax25_def)

lemma octets_at_prefix: "octets_at (pre @ xs @ post) (length pre) (length xs) = Inr xs"
  by (simp add: octets_at_def)

lemma repeater_loop_done: "repeater_loop inp n offset True p = Inr (Inr (offset, p))"
  by (cases n) simp_all

lemma length_marked [simp]: "length (concat (map generate_address (mark_repeaters reps))) = 7 * length reps"
  by (induction reps rule: mark_repeaters.induct) simp_all

lemma repeater_loop_Cons:
  assumes "inp = pre @ generate_address a @ post" and "wf_ax25 a"
  shows "repeater_loop inp (Suc n) (length pre) False p =
    repeater_loop inp n (length pre + 7) (ax_end_mark a) (p\<lparr>axp_repeaters := axp_repeaters p @ [a]\<rparr>)"
  using octets_at_prefix [of pre "generate_address a" post] assms by simp

lemma repeater_loop_marked:
  assumes "inp = pre @ concat (map generate_address (mark_repeaters reps)) @ post" and "list_all wf_ax25 reps"
    and "length reps \<le> 2"
  shows "repeater_loop inp 2 (length pre) (reps = []) p =
    Inr (Inr (length (pre @ concat (map generate_address (mark_repeaters reps))), p\<lparr>axp_repeaters := axp_repeaters p @ mark_repeaters reps\<rparr>))"
proof -
  consider "reps = []" | a where "reps = [a]" | a b where "reps = [a, b]"
    using assms(3) by (cases reps rule: mark_repeaters.cases) auto
  then show ?thesis
  proof cases
    case 1
    then show ?thesis by (simp add: repeater_loop_done)
  next
    case 2
    then show ?thesis
      using assms repeater_loop_Cons [of inp pre "a\<lparr>ax_end_mark := True\<rparr>" post 1 p] by (simp add: numeral_2_eq_2 repeater_loop_done del: repeater_loop.simps)
  next
    case 3
    then show ?thesis
      using assms repeater_loop_Cons [of inp pre "a\<lparr>ax_end_mark := False\<rparr>" "generate_address (b\<lparr>ax_end_mark := True\<rparr>) @ post" 1 p]
        repeater_loop_Cons [of inp "pre @ generate_address (a\<lparr>ax_end_mark := False\<rparr>)" "b\<lparr>ax_end_mark := True\<rparr>" post 0
          "p\<lparr>axp_repeaters := axp_repeaters p @ [a\<lparr>ax_end_mark := False\<rparr>]\<rparr>"]
      by (simp add: numeral_2_eq_2 repeater_loop_done del: repeater_loop.simps)
  qed
qed

lemma control_and_data_generated:
  assumes "inp = pre @ [c] @ (if has_pid c then [q] else []) @ data" and "axp_data p = []" and "axp_pid p = None"
  shows "control_and_data inp (length pre) p =
    Inr (p\<lparr>axp_control := c, axp_pid := (if has_pid c then Some q else None), axp_type := control_type c, axp_data := data, axp_valid := True\<rparr>)"
proof -
  have c: "octets_at inp (length pre) 1 = Inr [c]" "has_pid c \<Longrightarrow> octets_at inp (length pre + 1) 1 = Inr [q]"
    using assms(1) by (simp_all add: octets_at_def)
  have t: "control_type c = (if has_pid c then if c AND 0xef = 0x03 then TYPE_UI else TYPE_I else if c AND 2 \<noteq> 0 then TYPE_U else TYPE_S)"
    by (auto simp: control_type_def has_pid_def)
  show ?thesis
  proof (cases "has_pid c")
    case True
    with c assms t show ?thesis by (cases data) (simp_all add: control_and_data_def)
  next
    case False
    with c assms t show ?thesis by (cases data) (simp_all add: control_and_data_def)
  qed
qed

lemma generated_parsed:
  assumes "wf_ax25_packet p"
  shows "\<exists>octets. generate_packet p = Inr octets \<and> ax25_packet_of_octets octets = Inr (received p) \<and>
    length octets = 15 + 7 * length (axp_repeaters p) + (if has_pid (axp_control p) then 1 else 0) + length (axp_data p)"
proof -
  let ?q = "case axp_pid p of Some q \<Rightarrow> q | None \<Rightarrow> 0" and ?c = "axp_control p"
  let ?to = "generate_address (axp_to p)" and ?from = "generate_address (marked_from p)"
  let ?reps = "concat (map generate_address (mark_repeaters (axp_repeaters p)))"
  let ?rest = "[?c] @ (if has_pid ?c then [?q] else []) @ axp_data p"
  let ?inp = "?to @ ?from @ ?reps @ ?rest"
  have len: "length ?reps = 7 * length (axp_repeaters p)" by (rule length_marked)
  have wf: "wf_ax25 (axp_to p)" "wf_ax25 (marked_from p)" "list_all wf_ax25 (axp_repeaters p)" "length (axp_repeaters p) \<le> 2"
    using assms by (auto simp: wf_ax25_packet_def marked_from_def)
  have e: "ax_end_mark (marked_from p) \<longleftrightarrow> axp_repeaters p = []"
    using assms by (simp add: wf_ax25_packet_def marked_from_def)
  have gen: "generate_packet p = Inr ?inp"
    using len wf(4) by (auto simp: generate_packet_def Let_def)
  let ?p2 = "ax25_packet_empty\<lparr>axp_to := axp_to p, axp_from := marked_from p\<rparr>"
  let ?p3 = "?p2\<lparr>axp_repeaters := mark_repeaters (axp_repeaters p)\<rparr>"
  have loop: "repeater_loop ?inp 2 14 (ax_end_mark (marked_from p)) ?p2 = Inr (Inr (length (?to @ ?from @ ?reps), ?p3))"
    using repeater_loop_marked [of ?inp "?to @ ?from" "axp_repeaters p" ?rest ?p2] wf e by (simp add: ax25_packet_empty_def)
  have "control_and_data ?inp (length (?to @ ?from @ ?reps)) ?p3 = Inr (received p)"
    using control_and_data_generated [of ?inp "?to @ ?from @ ?reps" ?c ?q "axp_data p" ?p3]
    by (simp add: ax25_packet_empty_def received_def)
  then have "ax25_packet_of_octets ?inp = Inr (received p)"
    using loop wf by (simp add: ax25_packet_of_octets_def Let_def del: repeater_loop.simps)
  with gen len show ?thesis by auto
qed

text \<open>
  An AX.25 packet survives the air interface: what \<open>generate_packet\<close> writes, for addresses with
  proper call signs and at most two repeaters, is parsed back into a valid packet with the same
  addresses, repeaters, control octet, protocol identifier and data, and the end marks where they
  belong.
\<close>

theorem ax25_packet_roundtrip:
  assumes "wf_ax25_packet p"
  shows "\<exists>octets. generate_packet p = Inr octets \<and> ax25_packet_of_octets octets = Inr (received p)"
  using generated_parsed [OF assms] by blast

definition example_ax25 :: ax25_packet where
  "example_ax25 = set_pid 0xcc (set_data [0x45, 0, 0] (set_control 0x03 (ax25_packet_empty
     \<lparr>axp_to := ax25_address_make ''IDENT'' 0 False False, axp_from := ax25_address_make ''PD9FVH'' 7 False False,
      axp_repeaters := [ax25_address_make ''PI8ABC'' 2 False True]\<rparr>)))"

theorem ax25_packet_roundtrip_witness:
  "\<exists>octets p. generate_packet example_ax25 = Inr octets \<and> ax25_packet_of_octets octets = Inr p \<and> axp_valid p \<and>
     axp_data p = [0x45, 0, 0] \<and> axp_pid p = Some 0xcc \<and> axp_type p = TYPE_UI"
proof -
  have "wf_ax25_packet example_ax25"
    by (simp add: wf_ax25_packet_def wf_ax25_def example_ax25_def ax25_address_make_def set_pid_def set_data_def set_control_def callsign_char_def)
  from ax25_packet_roundtrip [OF this] show ?thesis
    by (auto simp: received_def example_ax25_def set_pid_def set_data_def set_control_def has_pid_def control_type_def)
qed

end
