(* ===== verification/Kiss.thy ===== *)
theory Kiss
  imports Ax25_Packet Phys
begin

text \<open>
  KISS, AX.25 over a serial line (\<^verbatim>\<open>src/phys_kiss.cpp\<close>), and Ethernet frames
  (\<^verbatim>\<open>src/phys_tap.cpp\<close>, \<^verbatim>\<open>src/phys_promiscuous.cpp\<close>): sending, the collection of frames octet by
  octet, and what becomes of a received AX.25 packet or Ethernet frame.  Connecting and
  reconnecting the device is not modelled, nor is pcap.
\<close>

section \<open>Sending\<close>

definition escape_put :: "byte \<Rightarrow> byte list" where
  "escape_put c = (if c = 0xc0 then [0xdb, 0xdc] else if c = 0xdb then [0xdb, 0xdd] else [c])"

text \<open>The frame, in a block of \<^verbatim>\<open>2 * size + 3\<close> octets; \<open>cmd\<close> and \<open>channel\<close> are 0.\<close>

definition kiss_frame :: "byte list \<Rightarrow> byte list" where
  "kiss_frame packet = [0xc0] @ escape_put 0 @ concat (map escape_put packet) @ [0xc0]"

definition transmit_ax25 :: "ax25_packet \<Rightarrow> byte list res" where
  "transmit_ax25 a =
     rbind (generate_packet a) (\<lambda>packet.
     let out = kiss_frame packet in
     if 2 * length packet + 3 < length out then Inl Undefined_behaviour else Inr out)"

definition beacon_packet :: "byte list \<Rightarrow> byte list \<Rightarrow> ax25_packet" where
  "beacon_packet my_callsign txt =
     set_pid 0xf0 (set_data txt (set_control 0x03 (set_to_text ''IDENT'' 0 True False (set_from my_callsign ax25_packet_empty))))"

text \<open>
  \<open>transmit_packet\<close>: the octets for the line, or none.  For BPQ frames the packet is parsed from a
  vector that is gone when the packet is sent: its data, if there are any, are read from freed
  memory.
\<close>

definition kiss_ip_packet :: "addr \<Rightarrow> addr \<Rightarrow> byte \<Rightarrow> byte list \<Rightarrow> ax25_packet" where
  "kiss_ip_packet dst_mac src_mac pid payload =
     set_pid pid (set_data payload (set_control 0x03 (set_to (octets dst_mac) (set_from (octets src_mac) ax25_packet_empty))))"

definition kiss_transmit_packet :: "addr \<Rightarrow> addr \<Rightarrow> u16 \<Rightarrow> byte list \<Rightarrow> byte list option res" where
  "kiss_transmit_packet dst_mac src_mac ether_type payload =
     rbind (rassert (addr_fam src_mac = AF_ax25)) (\<lambda>_.
     rbind (rassert (addr_fam dst_mac = AF_ax25)) (\<lambda>_.
     if ether_type = 0x0800 \<or> ether_type = 0x86dd then
       rbind (transmit_ax25 (kiss_ip_packet dst_mac src_mac 0xcc payload)) (\<lambda>out. Inr (Some out))
     else if ether_type = 0x0806 then
       rbind (transmit_ax25 (kiss_ip_packet dst_mac src_mac 0xcd payload)) (\<lambda>out. Inr (Some out))
     else if ether_type = 0x08ff then
       if length payload < 2 then Inl Length_error
       else
         rbind (ax25_packet_of_octets (butlast (tl payload))) (\<lambda>a.
         if axp_data a \<noteq> [] then Inl Undefined_behaviour
         else rbind (transmit_ax25 a) (\<lambda>out. Inr (Some out)))
     else Inr None))"

section \<open>Collecting frames\<close>

text \<open>
  The state of the two loops of \<open>handle_kiss\<close>: the octets collected, at most 256, the escape flag and
  whether the thread has ended (at the end of a file).  Leaving the inner loop starts a new frame.
  The first octet of a frame, with its command, is dropped.
\<close>

record kiss_rx =
  kr_p :: "byte list"
  kr_escape :: bool
  kr_ended :: bool

definition kiss_rx_new :: kiss_rx where
  "kiss_rx_new = \<lparr>kr_p = [], kr_escape = False, kr_ended = False\<rparr>"

definition kiss_step :: "bool \<Rightarrow> kiss_rx \<Rightarrow> read_result \<Rightarrow> kiss_rx \<times> byte list list" where
  "kiss_step is_a_file k r =
     (if kr_ended k then (k, [])
      else case r of
        Read_error \<Rightarrow> (kiss_rx_new, [])
      | Eof \<Rightarrow> if is_a_file then (k\<lparr>kr_ended := True\<rparr>, []) else (kiss_rx_new, [])
      | Octet b \<Rightarrow>
          if kr_escape k then
            if length (kr_p k) = 256 then (kiss_rx_new, [])
            else (k\<lparr>kr_p := kr_p k @ (if b = 0xdc then [0xc0] else if b = 0xdd then [0xdb] else []), kr_escape := False\<rparr>, [])
          else if b = 0xc0 then
            if kr_p k \<noteq> [] then (kiss_rx_new, [tl (kr_p k)]) else (k, [])
          else if b = 0xdb then (k\<lparr>kr_escape := True\<rparr>, [])
          else if length (kr_p k) = 256 then (kiss_rx_new, [])
          else (k\<lparr>kr_p := kr_p k @ [b]\<rparr>, []))"

section \<open>Received packets\<close>

type_synonym prot_map_t = "u16 \<rightharpoonup> nat"

text \<open>
  An Ethernet frame that is not BPQ: \<open>process_ethernet_frame\<close> hands its data to the layer of its type.
\<close>

definition ether_type_of :: "byte list \<Rightarrow> u16 res" where
  "ether_type_of buffer = rbind (octets_at buffer 12 2) (\<lambda>t. Inr (mk16 (t ! 0) (t ! 1)))"

definition ethernet_deliver :: "byte list \<Rightarrow> u16 \<Rightarrow> prot_map_t \<Rightarrow> bool \<times> (nat \<times> packet) list" where
  "ethernet_deliver buffer ether_type prot_map =
     (case prot_map ether_type of
        None \<Rightarrow> (False, [])
      | Some layer \<Rightarrow>
          let dst_mac = Addr AF_mac (take 6 buffer); src_mac = Addr AF_mac (take 6 (drop 6 buffer)) in
          (True, [(layer, packet_new src_mac src_mac dst_mac (drop 14 buffer) (take 14 buffer) False)]))"

text \<open>A BPQ frame in an Ethernet frame: the octets from 16 to 16 before the end.\<close>

definition bpq_octets :: "byte list \<Rightarrow> byte list res" where
  "bpq_octets buffer =
     (if length buffer < 32 then Inl Length_error else Inr (take (length buffer - 32) (drop 16 buffer)))"

text \<open>A packet with an internet protocol: the packet for a layer, with the AX.25 addresses.\<close>

definition ax25_addr :: "ax25_address \<Rightarrow> addr" where
  "ax25_addr a = Addr AF_ax25 (generate_address a)"

definition ax25_payload_packet :: "ax25_packet \<Rightarrow> packet" where
  "ax25_payload_packet ap =
     packet_new (ax25_addr (axp_from ap)) (ax25_addr (axp_from ap)) (ax25_addr (axp_to ap)) (axp_data ap) [] False"

definition kiss_ip :: "ax25_packet \<Rightarrow> prot_map_t \<Rightarrow> (nat \<times> packet) list res" where
  "kiss_ip ap prot_map =
     rbind (octets_at (axp_data ap) 0 1) (\<lambda>d.
     let ip_version = drop_bit 4 (hd d);
         ether_type = (if ip_version = 4 then Some 0x0800 else if ip_version = 6 then Some 0x86dd else None) in
     Inr (case ether_type of
            None \<Rightarrow> []
          | Some t \<Rightarrow> (case prot_map t of None \<Rightarrow> [] | Some layer \<Rightarrow> [(layer, ax25_payload_packet ap)])))"

text \<open>A packet of another kind is routed as it is, behind a zero octet, possibly with the own call sign as a repeater.\<close>

definition kiss_route :: "addr option \<Rightarrow> ax25_packet \<Rightarrow> router \<Rightarrow> (bool \<times> router) res" where
  "kiss_route add_callsign ap r =
     (let ap' = (case add_callsign of None \<Rightarrow> ap | Some c \<Rightarrow> add_repeater (octets c) ap) in
      rbind (generate_packet ap') (\<lambda>packet_out.
      route_packet (Some (ax25_addr (axp_to ap'))) 0x08ff (Addr AF_mac []) (Some (ax25_addr (axp_from ap'))) (Addr AF_mac [])
        (0 # packet_out) r))"

text \<open>What happens to a valid AX.25 packet.\<close>

definition kiss_valid :: "phys_id option \<Rightarrow> addr option \<Rightarrow> prot_map_t \<Rightarrow> ax25_packet \<Rightarrow> router \<Rightarrow>
    (bool \<times> (nat \<times> packet) list \<times> router) res" where
  "kiss_valid source_phys add_callsign prot_map ap r0 =
     (let r = (case source_phys of None \<Rightarrow> r0 | Some i \<Rightarrow> add_ax25_route (ax25_addr (axp_from ap)) (Some i) None r0) in
      if axp_type ap = TYPE_I \<or> axp_type ap = TYPE_UI then
        case axp_pid ap of
          None \<Rightarrow> Inr (False, [], r)
        | Some pid \<Rightarrow>
            if pid = 0xcc then rbind (kiss_ip ap prot_map) (\<lambda>ps. Inr (True, ps, r))
            else if pid = 0xf0 then Inr (True, [], r)
            else if pid = 0xcd then
              (case prot_map 0x0806 of
                 None \<Rightarrow> Inr (False, [], r)
               | Some layer \<Rightarrow> Inr (True, [(layer, ax25_payload_packet ap)], r))
            else rbind (kiss_route add_callsign ap r) (\<lambda>(ok, r'). Inr (ok, [], r'))
      else rbind (kiss_route add_callsign ap r) (\<lambda>(ok, r'). Inr (ok, [], r')))"

text \<open>
  \<open>process_kiss_packet\<close>.  A large packet that is not AX.25 is taken as an Ethernet frame, in which
  there may be a BPQ frame, which is processed again; a success there is reported as a failure.
\<close>

declare rbind_cong [fundef_cong]

function process_kiss_packet :: "byte list \<Rightarrow> phys_id option \<Rightarrow> addr option \<Rightarrow> prot_map_t \<Rightarrow> router \<Rightarrow>
    (bool \<times> (nat \<times> packet) list \<times> router) res" where
  "process_kiss_packet inp source_phys add_callsign prot_map r =
     rbind (ax25_packet_of_octets inp) (\<lambda>ap.
     if axp_valid ap then kiss_valid source_phys add_callsign prot_map ap r
     else if 60 \<le> length inp then
       rbind (ether_type_of inp) (\<lambda>ether_type.
       if ether_type = 0x08ff then
         rbind (bpq_octets inp) (\<lambda>bpq.
         rbind (process_kiss_packet bpq source_phys None prot_map r) (\<lambda>(rc, ps, r').
         Inr (False, ps, r')))
       else
         let (ok, ps) = ethernet_deliver inp ether_type prot_map in Inr (\<not> ok, ps, r))
     else Inr (False, [], r))"
  by auto
termination
  by (relation "measure (\<lambda>(inp, i, c, m, r). length inp)") (auto simp: bpq_octets_def split: if_splits)

declare process_kiss_packet.simps [simp del]

definition process_ethernet_frame :: "byte list \<Rightarrow> phys_id option \<Rightarrow> prot_map_t \<Rightarrow> router \<Rightarrow>
    (bool \<times> (nat \<times> packet) list \<times> router) res" where
  "process_ethernet_frame buffer source_phys prot_map r =
     rbind (ether_type_of buffer) (\<lambda>ether_type.
     if ether_type = 0x08ff then
       if 16 < length buffer then
         rbind (bpq_octets buffer) (\<lambda>bpq.
         rbind (process_kiss_packet bpq source_phys None prot_map r) (\<lambda>(rc, ps, r').
         Inr (True, ps, r')))
       else Inr (False, [], r)
     else
       let (ok, ps) = ethernet_deliver buffer ether_type prot_map in Inr (ok, ps, r))"

text \<open>The call of \<open>process_ethernet_frame\<close> in \<open>process_kiss_packet\<close>.\<close>

lemma process_kiss_packet_ethernet:
  assumes "ax25_packet_of_octets inp = Inr ap" and "\<not> axp_valid ap" and "60 \<le> length inp"
  shows "process_kiss_packet inp source_phys add_callsign prot_map r =
    rbind (process_ethernet_frame inp source_phys prot_map r) (\<lambda>(ok, ps, r'). Inr (\<not> ok, ps, r'))"
  using assms
  by (subst process_kiss_packet.simps)
    (auto simp: process_ethernet_frame_def rbind_assoc split_beta Let_def intro!: rbind_cong)

section \<open>Ethernet devices\<close>

text \<open>\<open>transmit_packet\<close> of the tap device and of the promiscuous one: padded with zeros to 64 or 60 octets.\<close>

definition ethernet_frame :: "nat \<Rightarrow> addr \<Rightarrow> addr \<Rightarrow> u16 \<Rightarrow> byte list \<Rightarrow> byte list res" where
  "ethernet_frame min_size dst_mac src_mac ether_type payload =
     rbind (rassert (length (octets dst_mac) = 6)) (\<lambda>_.
     rbind (rassert (length (octets src_mac) = 6)) (\<lambda>_.
     Inr (octets dst_mac @ octets src_mac @ bytes16 ether_type @ payload @ replicate (min_size - (length payload + 14)) 0)))"

definition count_out :: "nat \<Rightarrow> 'a phys_scheme \<Rightarrow> 'a phys_scheme" where
  "count_out n d = d\<lparr>phys_ifOutOctets := phys_ifOutOctets d + of_nat n, phys_ifHCOutOctets := phys_ifHCOutOctets d + of_nat n,
     phys_ifOutUcastPkts := phys_ifOutUcastPkts d + 1\<rparr>"

text \<open>\<open>rc\<close> is the result of \<open>write\<close> or \<open>sendto\<close>; the frame is part of the result.\<close>

definition tap_transmit_packet :: "int \<Rightarrow> addr \<Rightarrow> addr \<Rightarrow> u16 \<Rightarrow> byte list \<Rightarrow> phys \<Rightarrow> (bool \<times> byte list option \<times> phys) res" where
  "tap_transmit_packet rc dst_mac src_mac ether_type payload d =
     rbind (ethernet_frame 64 dst_mac src_mac ether_type payload) (\<lambda>out.
     Inr (rc = int (length out), Some out, count_out (length out) d))"

definition prom_transmit_packet :: "int \<Rightarrow> addr \<Rightarrow> addr \<Rightarrow> u16 \<Rightarrow> byte list \<Rightarrow> phys \<Rightarrow> (bool \<times> byte list option \<times> phys) res" where
  "prom_transmit_packet rc dst_mac src_mac ether_type payload d =
     (if dst_mac = my_mac d then Inr (False, None, d)
      else rbind (ethernet_frame 60 dst_mac src_mac ether_type payload) (\<lambda>out.
           Inr (rc = int (length out), Some out, count_out (length out) d)))"

text \<open>An iteration of the receiving thread: a frame of \<open>size\<close> octets was read.\<close>

definition ethernet_rx :: "phys_id \<Rightarrow> byte list \<Rightarrow> phys \<Rightarrow> router \<Rightarrow> ((nat \<times> packet) list \<times> phys \<times> router) res" where
  "ethernet_rx self buffer d0 r =
     (let n = of_nat (length buffer);
          d = d0\<lparr>phys_recv_frame := phys_recv_frame d0 + 1, phys_ifInUcastPkts := phys_ifInUcastPkts d0 + 1,
                 phys_ifInOctets := phys_ifInOctets d0 + n, phys_ifHCInOctets := phys_ifHCInOctets d0 + n\<rparr> in
      if length buffer < 14 then Inr ([], d\<lparr>phys_invl_frame := phys_invl_frame d + 1\<rparr>, r)
      else
        rbind (process_ethernet_frame buffer (Some self) (phys_prot_map d) r) (\<lambda>(ok, ps, r').
        Inr (ps, d, r')))"

section \<open>The line\<close>

definition kiss_ready :: "kiss_rx \<Rightarrow> bool" where
  "kiss_ready k \<longleftrightarrow> \<not> kr_escape k \<and> \<not> kr_ended k"

definition kiss_idle :: "kiss_rx \<Rightarrow> bool" where
  "kiss_idle k \<longleftrightarrow> kiss_ready k \<and> kr_p k = []"

definition kiss_rest :: "kiss_rx \<Rightarrow> byte list list" where
  "kiss_rest k = (if kr_p k = [] then [] else [tl (kr_p k)])"

lemma kiss_step_end:
  "kiss_ready k \<Longrightarrow> \<exists>k'. kiss_step f k (Octet 0xc0) = (k', kiss_rest k) \<and> kiss_idle k'"
  by (auto simp: kiss_step_def kiss_ready_def kiss_idle_def kiss_rest_def kiss_rx_new_def)

lemma kiss_run_octet:
  "kiss_ready k \<Longrightarrow> length (kr_p k) < 256 \<Longrightarrow>
   \<exists>k'. rx_run (kiss_step f) k (map Octet (escape_put b)) = (k', []) \<and> kiss_ready k' \<and> kr_p k' = kr_p k @ [b]"
  by (auto simp: escape_put_def kiss_step_def kiss_ready_def)

lemma kiss_run_octets:
  "kiss_ready k \<Longrightarrow> length (kr_p k) + length bs \<le> 256 \<Longrightarrow>
   \<exists>k'. rx_run (kiss_step f) k (map Octet (concat (map escape_put bs))) = (k', []) \<and> kiss_ready k' \<and> kr_p k' = kr_p k @ bs"
proof (induction bs arbitrary: k)
  case (Cons b bs)
  then obtain k1 where k1: "rx_run (kiss_step f) k (map Octet (escape_put b)) = (k1, [])" "kiss_ready k1" "kr_p k1 = kr_p k @ [b]"
    using kiss_run_octet [of k f b] by auto
  with Cons.IH [of k1] Cons.prems(2) show ?case by (auto simp: rx_run_append)
qed simp

lemma kiss_run_frame:
  assumes "kiss_ready k" and "length packet \<le> 255"
  shows "\<exists>k'. rx_run (kiss_step f) k (map Octet (kiss_frame packet)) = (k', kiss_rest k @ [packet]) \<and> kiss_idle k'"
proof -
  obtain k1 where k1: "kiss_step f k (Octet 0xc0) = (k1, kiss_rest k)" "kiss_ready k1" "kr_p k1 = []"
    using kiss_step_end [OF assms(1), of f] by (auto simp: kiss_idle_def)
  from kiss_run_octets [OF k1(2), of "0 # packet" f] k1(3) assms(2)
  obtain k2 where k2: "rx_run (kiss_step f) k1 (map Octet (concat (map escape_put (0 # packet)))) = (k2, [])" "kiss_ready k2" "kr_p k2 = 0 # packet"
    by auto
  from kiss_step_end [OF k2(2), of f] k2(3)
  obtain k3 where k3: "kiss_step f k2 (Octet 0xc0) = (k3, [packet])" "kiss_idle k3" by (auto simp: kiss_rest_def)
  have "map Octet (kiss_frame packet) = Octet 0xc0 # map Octet (concat (map escape_put (0 # packet))) @ [Octet 0xc0]"
    by (simp add: kiss_frame_def)
  then have "rx_run (kiss_step f) k (map Octet (kiss_frame packet)) = (k3, kiss_rest k @ [packet])"
    using k1(1) k2(1) k3(1) by (simp only: rx_run.simps rx_run_append) (simp add: Let_def)
  with k3(2) show ?thesis by blast
qed

interpretation kiss_line: resync_line "kiss_step f" "\<lambda>packet. map Octet (kiss_frame packet)" "\<lambda>packet. length packet \<le> 255"
  "\<lambda>packet. [packet]" kiss_idle kiss_ready kiss_rest for f
proof
  fix k and packet :: "byte list"
  assume "length packet \<le> 255"
  then show "kiss_idle k \<Longrightarrow> \<exists>k'. rx_run (kiss_step f) k (map Octet (kiss_frame packet)) = (k', [packet]) \<and> kiss_idle k'"
    "kiss_ready k \<Longrightarrow> \<exists>k'. rx_run (kiss_step f) k (map Octet (kiss_frame packet)) = (k', kiss_rest k @ [packet]) \<and> kiss_idle k'"
    using kiss_run_frame [of k packet f] by (auto simp: kiss_idle_def kiss_rest_def)
qed

lemma kiss_frame_fits: "length (kiss_frame packet) \<le> 2 * length packet + 3"
  by (induction packet) (auto simp: kiss_frame_def escape_put_def)

section \<open>Internet packets over AX.25\<close>

lemma kiss_ip_packet_generated:
  assumes "wf_ax25 a" and "wf_ax25 b" and "ax_end_mark b"
  shows "\<exists>pk. generate_packet (kiss_ip_packet (ax25_addr a) (ax25_addr b) 0xcc d) = Inr pk \<and> length pk = 16 + length d \<and>
    ax25_packet_of_octets pk = Inr \<lparr>axp_valid = True, axp_invalid_reason = [], axp_from = b, axp_to = a, axp_repeaters = [],
      axp_control = 0x03, axp_type = TYPE_UI, axp_pid = Some 0xcc, axp_data = d\<rparr>"
proof -
  let ?p = "kiss_ip_packet (ax25_addr a) (ax25_addr b) 0xcc d"
  have p: "?p = ax25_packet_empty\<lparr>axp_from := b, axp_to := a, axp_control := 0x03, axp_data := d, axp_pid := Some 0xcc\<rparr>"
    using generate_address_parsed [OF assms(1)] generate_address_parsed [OF assms(2)]
    by (simp add: kiss_ip_packet_def ax25_addr_def set_pid_def set_data_def set_control_def set_to_def set_from_def)
  then have "wf_ax25_packet ?p" using assms by (simp add: wf_ax25_packet_def ax25_packet_empty_def)
  from generated_parsed [OF this] show ?thesis
    by (auto simp: p received_def marked_from_def ax25_packet_empty_def has_pid_def control_type_def)
qed

text \<open>Whatever comes over the line, no packet of more than 255 octets is taken from it.\<close>

lemma kiss_packets_short:
  "length (kr_p k) \<le> 256 \<Longrightarrow> \<forall>p\<in>set (snd (rx_run (kiss_step f) k rs)). length p \<le> 255"
proof (induction rs arbitrary: k)
  case (Cons x rs)
  have "length (kr_p (fst (kiss_step f k x))) \<le> 256 \<and> (\<forall>p\<in>set (snd (kiss_step f k x)). length p \<le> 255)"
    using Cons.prems by (auto simp: kiss_step_def kiss_rx_new_def split: read_result.split)
  with Cons.IH [of "fst (kiss_step f k x)"] show ?case by (auto simp: case_prod_beta Let_def)
qed simp

text \<open>
  C22. Internet packets over KISS, from the router to the IPv4 layer of the other station: each
  packet of up to 239 octets is put into an AX.25 frame that fits its buffer; the receiver, in
  whatever state except inside an escape, takes exactly these frames from the line, in order, after
  at most one frame of what it had collected before, and hands every payload with the call signs of
  the two stations to its IPv4 layer, remembering the way to the sender.  The address of the sender carries
  the end mark.  A packet of 240 octets or more is sent as well, but no receiver ever takes its frame from
  the line, whatever it is sent.
\<close>

theorem kiss_transfer:
  assumes "wf_ax25 a" and "wf_ax25 b" and "ax_end_mark b" and "kiss_ready k" and "length (kr_p k) \<le> 256" and "prot_map 0x0800 = Some layer"
    and "ds \<noteq> []" and "\<forall>d\<in>set ds. d \<noteq> [] \<and> length d \<le> 239 \<and> drop_bit 4 (hd d) = 4"
  shows "(\<exists>outs pks k'. list_all2 (\<lambda>d out. kiss_transmit_packet (ax25_addr a) (ax25_addr b) 0x0800 d = Inr (Some out)) ds outs \<and>
    rx_run (kiss_step f) k (map Octet (concat outs)) = (k', kiss_rest k @ pks) \<and>
    list_all2 (\<lambda>d pk. process_kiss_packet pk (Some i) c prot_map r =
      Inr (True, [(layer, packet_new (ax25_addr b) (ax25_addr b) (ax25_addr a) d [] False)], add_ax25_route (ax25_addr b) (Some i) None r)) ds pks) \<and>
    (239 < length long \<longrightarrow> (\<exists>pk. generate_packet (kiss_ip_packet (ax25_addr a) (ax25_addr b) 0xcc long) = Inr pk \<and>
      kiss_transmit_packet (ax25_addr a) (ax25_addr b) 0x0800 long = Inr (Some (kiss_frame pk)) \<and>
      (\<forall>rs. pk \<notin> set (snd (rx_run (kiss_step f) k rs)))))"
proof -
  define pk where "pk d = projr (generate_packet (kiss_ip_packet (ax25_addr a) (ax25_addr b) 0xcc d))" for d
  have pk: "generate_packet (kiss_ip_packet (ax25_addr a) (ax25_addr b) 0xcc d) = Inr (pk d)" "length (pk d) = 16 + length d"
    "ax25_packet_of_octets (pk d) = Inr \<lparr>axp_valid = True, axp_invalid_reason = [], axp_from = b, axp_to = a, axp_repeaters = [],
      axp_control = 0x03, axp_type = TYPE_UI, axp_pid = Some 0xcc, axp_data = d\<rparr>" for d
    using kiss_ip_packet_generated [OF assms(1-3), of d] by (auto simp: pk_def)
  have t: "kiss_transmit_packet (ax25_addr a) (ax25_addr b) 0x0800 d = Inr (Some (kiss_frame (pk d)))" for d
    using pk(1) [of d] kiss_frame_fits [of "pk d"] by (simp add: kiss_transmit_packet_def transmit_ax25_def ax25_addr_def not_less)
  from this have tx: "list_all2 (\<lambda>d out. kiss_transmit_packet (ax25_addr a) (ax25_addr b) 0x0800 d = Inr (Some out)) ds (map (\<lambda>d. kiss_frame (pk d)) ds)"
    by (simp add: list_all2_conv_all_nth)
  have "pk long \<notin> set (snd (rx_run (kiss_step f) k rs))" if "239 < length long" for rs
    using kiss_packets_short [OF assms(5), of f rs] pk(2) [of long] that by fastforce
  note long = t [of long] pk(1) [of long] this
  have short: "list_all (\<lambda>p. length p \<le> 255) (map pk ds)" using assms(8) pk(2) by (auto simp: list_all_iff)
  obtain d0 ds0 where ds: "ds = d0 # ds0" using assms(7) by (cases ds) auto
  have "list_all (\<lambda>p. length p \<le> 255) (pk d0 # map pk ds0)" using short ds by simp
  from kiss_line.line_resync [OF assms(4) this, of f]
  obtain k' where "rx_run (kiss_step f) k (map Octet (concat (map (\<lambda>d. kiss_frame (pk d)) ds))) = (k', kiss_rest k @ map pk ds)"
    by (auto simp: ds map_concat comp_def concat_map_singleton)
  moreover have "process_kiss_packet (pk d) (Some i) c prot_map r =
      Inr (True, [(layer, packet_new (ax25_addr b) (ax25_addr b) (ax25_addr a) d [] False)], add_ax25_route (ax25_addr b) (Some i) None r)"
    if "d \<in> set ds" for d
    using assms(6,8) that pk(3) [of d]
    by (subst process_kiss_packet.simps)
      (cases d, auto simp: kiss_valid_def kiss_ip_def octets_at_def ax25_payload_packet_def Let_def)
  then have "list_all2 (\<lambda>d pk. process_kiss_packet pk (Some i) c prot_map r =
      Inr (True, [(layer, packet_new (ax25_addr b) (ax25_addr b) (ax25_addr a) d [] False)], add_ax25_route (ax25_addr b) (Some i) None r)) ds (map pk ds)"
    by (simp add: list_all2_conv_all_nth)
  ultimately show ?thesis using tx long by blast
qed

definition example_call :: "string \<Rightarrow> ax25_address" where
  "example_call txt = ax25_address_make txt 1 True False"

theorem kiss_transfer_witness:
  "\<exists>outs pks k'. length outs = 2 \<and> length pks = 2 \<and> rx_run (kiss_step False) kiss_rx_new (map Octet (concat outs)) = (k', pks) \<and>
    process_kiss_packet (pks ! 1) (Some 3) None [0x0800 \<mapsto> 7] router_new =
      Inr (True, [(7, packet_new (ax25_addr (example_call ''PD9FVH'')) (ax25_addr (example_call ''PD9FVH'')) (ax25_addr (example_call ''PI8ABC'')) [0x45, 0xdb] [] False)],
        add_ax25_route (ax25_addr (example_call ''PD9FVH'')) (Some 3) None router_new)"
proof -
  have wf: "wf_ax25 (example_call ''PI8ABC'')" "wf_ax25 (example_call ''PD9FVH'')" "ax_end_mark (example_call ''PD9FVH'')" "kiss_ready kiss_rx_new"
    "length (kr_p kiss_rx_new) \<le> 256"
    by (simp_all add: wf_ax25_def example_call_def ax25_address_make_def callsign_char_def kiss_ready_def kiss_rx_new_def)
  have m: "[0x0800 \<mapsto> 7] (0x0800 :: u16) = Some (7 :: nat)" by simp
  have ds: "[[0x45, 0xc0], [0x45, 0xdb]] \<noteq> ([] :: byte list list)"
    "\<forall>d\<in>set [[0x45, 0xc0], [0x45, 0xdb :: byte]]. d \<noteq> [] \<and> length d \<le> 239 \<and> drop_bit 4 (hd d) = 4" by simp_all
  obtain outs pks k' where o: "list_all2 (\<lambda>d out. kiss_transmit_packet (ax25_addr (example_call ''PI8ABC'')) (ax25_addr (example_call ''PD9FVH'')) 0x0800 d = Inr (Some out)) [[0x45, 0xc0], [0x45, 0xdb]] outs"
    "rx_run (kiss_step False) kiss_rx_new (map Octet (concat outs)) = (k', kiss_rest kiss_rx_new @ pks)"
    "list_all2 (\<lambda>d pk. process_kiss_packet pk (Some 3) None [0x0800 \<mapsto> 7] router_new =
      Inr (True, [(7, packet_new (ax25_addr (example_call ''PD9FVH'')) (ax25_addr (example_call ''PD9FVH'')) (ax25_addr (example_call ''PI8ABC'')) d [] False)],
        add_ax25_route (ax25_addr (example_call ''PD9FVH'')) (Some 3) None router_new)) [[0x45, 0xc0], [0x45, 0xdb]] pks"
    using kiss_transfer [where prot_map = "[0x0800 \<mapsto> 7]" and f = False and i = 3 and c = None and r = router_new and long = "[]", OF wf m ds] by blast
  have "length outs = 2" "length pks = 2" using o(1,3) by (auto dest: list_all2_lengthD)
  with o(2) list_all2_nthD [OF o(3), of 1] show ?thesis by (auto simp: kiss_rest_def kiss_rx_new_def)
qed

section \<open>Ethernet\<close>

text \<open>
  An Ethernet frame of the tap device arrives: with two MAC addresses and a type that is
  registered at the receiver (and not the one of BPQ), the layer of that type gets the payload,
  followed by the zeros that fill the frame up to 64 octets, together with the addresses and the
  head of the frame; the counters of both devices advance by the size of the frame.
\<close>

theorem ethernet_transfer:
  assumes "addr_fam dst = AF_mac" and "length (octets dst) = 6" and "addr_fam src = AF_mac" and "length (octets src) = 6"
    and "ether_type \<noteq> 0x08ff" and "phys_prot_map d ether_type = Some layer"
  shows "\<exists>out d' pad. tap_transmit_packet (int (max 64 (length payload + 14))) dst src ether_type payload t = Inr (True, Some out, count_out (length out) t) \<and>
    ethernet_rx i out d r = Inr ([(layer, packet_new src src dst (payload @ replicate pad 0) (take 14 out) False)], d', r) \<and>
    length payload + 14 + pad = max 64 (length payload + 14) \<and>
    phys_ifInOctets d' = phys_ifInOctets d + of_nat (length out) \<and> phys_recv_frame d' = phys_recv_frame d + 1"
proof -
  let ?pad = "64 - (length payload + 14)"
  let ?out = "octets dst @ octets src @ bytes16 ether_type @ payload @ replicate ?pad 0"
  obtain hi lo where t: "bytes16 ether_type = [hi, lo]" "mk16 hi lo = ether_type" by (rule bytes16_obtain)
  have l: "length ?out = max 64 (length payload + 14)" using assms(2,4) by simp
  have "ether_type_of ?out = Inr ether_type"
    using assms(2,4) t(2) by (simp add: ether_type_of_def octets_at_def t(1))
  moreover have "Addr AF_mac (take 6 ?out) = dst" "Addr AF_mac (take 6 (drop 6 ?out)) = src" "drop 14 ?out = payload @ replicate ?pad 0"
    using assms(1-4) by (cases dst; cases src; simp add: t(1))+
  ultimately have "process_ethernet_frame ?out (Some i) (phys_prot_map d) r =
      Inr (True, [(layer, packet_new src src dst (payload @ replicate ?pad 0) (take 14 ?out) False)], r)"
    using assms(5,6) by (simp only: process_ethernet_frame_def ethernet_deliver_def) (simp add: Let_def)
  then have "\<exists>d'. ethernet_rx i ?out d r = Inr ([(layer, packet_new src src dst (payload @ replicate ?pad 0) (take 14 ?out) False)], d', r) \<and>
      phys_ifInOctets d' = phys_ifInOctets d + of_nat (length ?out) \<and> phys_recv_frame d' = phys_recv_frame d + 1"
    using l by (simp add: ethernet_rx_def Let_def del: append_assoc)
  moreover have "tap_transmit_packet (int (max 64 (length payload + 14))) dst src ether_type payload t = Inr (True, Some ?out, count_out (length ?out) t)"
    using assms(2,4) l by (simp add: tap_transmit_packet_def ethernet_frame_def)
  moreover have "length payload + 14 + ?pad = max 64 (length payload + 14)" by simp
  ultimately show ?thesis by blast
qed

theorem ethernet_transfer_witness:
  "\<exists>out d'. ethernet_rx 1 out (phys_register_protocol 0x0800 7 (phys_new (Addr AF_mac [2, 0, 0, 0, 0, 1]))) router_new =
     Inr ([(7, packet_new (Addr AF_mac [2, 0, 0, 0, 0, 2]) (Addr AF_mac [2, 0, 0, 0, 0, 2]) (Addr AF_mac [2, 0, 0, 0, 0, 1])
       ([0x45, 1] @ replicate 48 0) (take 14 out) False)], d', router_new)"
proof -
  have m: "phys_prot_map (phys_register_protocol 0x0800 7 (phys_new (Addr AF_mac [2, 0, 0, 0, 0, 1]))) 0x0800 = Some 7"
    by (simp add: phys_register_protocol_def phys_new_def)
  obtain out d' pad where "ethernet_rx 1 out (phys_register_protocol 0x0800 7 (phys_new (Addr AF_mac [2, 0, 0, 0, 0, 1]))) router_new =
     Inr ([(7, packet_new (Addr AF_mac [2, 0, 0, 0, 0, 2]) (Addr AF_mac [2, 0, 0, 0, 0, 2]) (Addr AF_mac [2, 0, 0, 0, 0, 1])
       ([0x45, 1] @ replicate pad 0) (take 14 out) False)], d', router_new)" "length [0x45, 1 :: byte] + 14 + pad = 64"
    using ethernet_transfer [where dst = "Addr AF_mac [2, 0, 0, 0, 0, 1]" and src = "Addr AF_mac [2, 0, 0, 0, 0, 2]" and ether_type = "0x0800"
        and payload = "[0x45, 1]" and t = "phys_new (Addr AF_mac [])" and i = 1 and r = router_new, OF _ _ _ _ _ m] by auto
  then show ?thesis by auto
qed

end
