(* ===== verification/Snmp_Elem.thy ===== *)
theory Snmp_Elem
  imports Str Buffer
begin

text \<open>
  The elements of SNMP messages (\<^verbatim>\<open>src/snmp_elem.cpp\<close>): their construction and their BER encoding by
  \<open>get_payload\<close>.  Sizes are \<open>uint8_t\<close>: the encoding of an element is the block of octets together with
  the size that is returned with it, as the list of its octets.
\<close>

section \<open>Elements\<close>

datatype snmp_integer_type = si_counter32 | si_integer | si_counter64 | si_ticks

text \<open>
  The class hierarchy; the integer and the two kinds of octet blocks with their field \<open>len\<close>.
\<close>

datatype snmp_elem =
    Snmp_integer snmp_integer_type u64 byte
  | Snmp_sequence "snmp_elem list"
  | Snmp_null
  | Snmp_octet_string "byte list" byte
  | Snmp_oid "byte list" byte
  | Snmp_pdu byte "snmp_elem list"

definition snmp_integer_sized :: "snmp_integer_type \<Rightarrow> u64 \<Rightarrow> int \<Rightarrow> snmp_elem" where
  "snmp_integer_sized ty v len = Snmp_integer ty v (word_of_int (len + 2))"

definition snmp_integer_new :: "snmp_integer_type \<Rightarrow> u64 \<Rightarrow> snmp_elem" where
  "snmp_integer_new ty v = Snmp_integer ty v (if v \<le> 0xffffffff then 4 + 2 else 8 + 2)"

definition snmp_octet_string_new :: "byte list \<Rightarrow> snmp_elem" where
  "snmp_octet_string_new v = Snmp_octet_string v (of_nat (length v + 2))"

section \<open>Object identifiers\<close>

text \<open>\<open>atoll\<close>: blanks, a sign and the digits, clamped to the range of \<open>long long\<close>.\<close>

definition is_blank :: "char \<Rightarrow> bool" where
  "is_blank c = (let k = of_char c :: nat in k = 32 \<or> 9 \<le> k \<and> k \<le> 13)"

definition atoll :: "string \<Rightarrow> int" where
  "atoll s =
     (case dropWhile is_blank s of
        [] \<Rightarrow> 0
      | c # cs \<Rightarrow>
          if c = CHR ''-'' then max (- (2 ^ 63)) (- int (strtol_loop 10 0 cs))
          else if c = CHR ''+'' then min (2 ^ 63 - 1) (int (strtol_loop 10 0 cs))
          else min (2 ^ 63 - 1) (int (strtol_loop 10 0 (c # cs))))"

text \<open>The groups of seven bits of a number, most significant first, all but the last with the top bit.\<close>

lemma unat_drop_7: "unat (drop_bit 7 (v :: u64)) = unat v div 128"
proof -
  have "unat v < 2 ^ 64" using unsigned_less [where ?'b = 64 and ?'a = nat, of v] by simp
  then show ?thesis by (simp only: unsigned_drop_bit_eq) (simp add: drop_bit_eq_div take_bit_nat_eq_self)
qed

function base128_loop :: "u64 \<Rightarrow> byte list" where
  "base128_loop v = (if v = 0 then [] else ucast (v AND 127) # base128_loop (drop_bit 7 v))"
  by auto
termination
proof (relation "measure unat", goal_cases)
  case (2 v)
  then have "0 < unat v" by (simp add: unat_gt_0)
  then show ?case by (simp add: unat_drop_7)
qed simp

declare base128_loop.simps [simp del]

definition base128 :: "u64 \<Rightarrow> byte list" where
  "base128 v =
     (let temp = (if v = 0 then [0] else base128_loop v) in
      map (\<lambda>b. b OR 128) (rev (tl temp)) @ [hd temp])"

text \<open>The loop over the components of the text.\<close>

function oid_loop :: "string \<Rightarrow> byte list" where
  "oid_loop work =
     (if work = [] then []
      else base128 (word_of_int (atoll work)) @
        (case str_find ''.'' work of None \<Rightarrow> [] | Some dot \<Rightarrow> oid_loop (drop (dot + 1) work)))"
  by auto
termination
proof (relation "measure length", goal_cases)
  case (2 work dot)
  then show ?case using str_find_Some [of "''.''" work dot] by auto
qed simp

declare oid_loop.simps [simp del]

definition oid_octets :: "string \<Rightarrow> byte list" where
  "oid_octets oid =
     (if take 4 oid = ''1.3.'' then 43 # oid_loop (drop 4 oid) else oid_loop oid)"

text \<open>The octets go into a block as large as the text.\<close>

definition snmp_oid_new :: "string \<Rightarrow> snmp_elem res" where
  "snmp_oid_new oid =
     (let v = oid_octets oid in
      if length oid < length v then Inl Undefined_behaviour
      else Inr (Snmp_oid v (of_nat (length v + 2))))"

section \<open>Encoding\<close>

definition integer_type_octet :: "snmp_integer_type \<Rightarrow> byte" where
  "integer_type_octet ty =
     (case ty of si_integer \<Rightarrow> 0x02 | si_counter32 \<Rightarrow> 0x41 | si_counter64 \<Rightarrow> 0x46 | si_ticks \<Rightarrow> 0x43)"

text \<open>
  A block with a head of two octets and \<open>v\<close>, whose size is the field \<open>len\<close>: for a size below two, the
  head and the data go behind the end of the block.
\<close>

definition sized_block :: "byte \<Rightarrow> byte list \<Rightarrow> byte \<Rightarrow> byte list res" where
  "sized_block ty v len =
     (if len < 2 then Inl Undefined_behaviour
      else Inr ([ty, len - 2] @ take (unat (len - 2)) v))"

text \<open>A shift by 64 or more, for more than eight octets, is undefined.\<close>

definition integer_payload :: "snmp_integer_type \<Rightarrow> u64 \<Rightarrow> byte \<Rightarrow> byte list res" where
  "integer_payload ty v len =
     (let pl_len = unat (len - 2) in
      if len < 2 \<or> 8 < pl_len then Inl Undefined_behaviour
      else Inr ([integer_type_octet ty, len - 2] @
        map (\<lambda>i. ucast (drop_bit (pl_len * 8 - (i + 1) * 8) v)) [0..<pl_len]))"

text \<open>
  A sequence is collected in a block of 256 octets, of which \<open>off\<close> are in use, as a \<open>uint8_t\<close>: a block
  that is full is one with \<open>off = 0\<close>.  The first element that does not fit, and all behind it, are left
  out.  The octets that were not written yet are 0 here; they are never part of the result.
\<close>

definition blit_block :: "nat \<Rightarrow> byte list \<Rightarrow> byte list \<Rightarrow> byte list" where
  "blit_block off src buf = take off buf @ src @ drop (off + length src) buf"

definition seq_result :: "byte list \<times> byte \<Rightarrow> byte list \<times> byte" where
  "seq_result r = (case r of (out, off) \<Rightarrow> (out[1 := off - 2], off))"

definition in_use :: "byte list \<times> byte \<Rightarrow> byte list" where
  "in_use r = (case r of (out, off) \<Rightarrow> take (unat off) out)"

text \<open>\<open>get_payload\<close>; the first octet of a PDU is replaced at the end.\<close>

fun get_payload :: "snmp_elem \<Rightarrow> byte list res"
  and seq_loop :: "snmp_elem list \<Rightarrow> byte list \<Rightarrow> byte \<Rightarrow> (byte list \<times> byte) res" where
  "get_payload (Snmp_integer ty v len) = integer_payload ty v len"
| "get_payload (Snmp_sequence es) =
     rbind (seq_loop es ([0x30] @ replicate 255 0) 2) (\<lambda>r. Inr (in_use (seq_result r)))"
| "get_payload Snmp_null = Inr [0x05, 0x00]"
| "get_payload (Snmp_octet_string v len) = sized_block 0x04 v len"
| "get_payload (Snmp_oid v len) = sized_block 0x06 v len"
| "get_payload (Snmp_pdu ty es) =
     rbind (seq_loop es ([0x30] @ replicate 255 0) 2) (\<lambda>r.
     case seq_result r of (out, off) \<Rightarrow> Inr (in_use (out[0 := ty], off)))"
| "seq_loop [] out off = Inr (out, off)"
| "seq_loop (e # es) out off =
     rbind (get_payload e) (\<lambda>pl.
     if unat off + length pl > 256 then Inr (out, off)
     else seq_loop es (blit_block (unat off) pl out) (off + of_nat (length pl)))"

section \<open>The encoding of messages that fit\<close>

text \<open>Type, length, value.\<close>

definition tlv :: "byte \<Rightarrow> byte list \<Rightarrow> byte list" where
  "tlv ty v = [ty, of_nat (length v)] @ v"

lemma length_tlv [simp]: "length (tlv ty v) = length v + 2"
  by (simp add: tlv_def)

lemma sized_block_tlv: "length v \<le> 253 \<Longrightarrow> sized_block ty v (of_nat (length v + 2)) = Inr (tlv ty v)"
proof -
  assume l: "length v \<le> 253"
  have a: "(of_nat (length v + 2) :: byte) - 2 = of_nat (length v)" by simp
  have u: "unat (of_nat (length v + 2) :: byte) = length v + 2" using l by (subst unsigned_of_nat) (simp add: take_bit_nat_eq_self)
  have u': "unat (of_nat (length v) :: byte) = length v" using l by (subst unsigned_of_nat) (simp add: take_bit_nat_eq_self)
  have "\<not> (of_nat (length v + 2) :: byte) < 2" unfolding word_less_nat_alt u by simp
  then show ?thesis using u' by (simp add: sized_block_def a tlv_def del: of_nat_add)
qed

lemma seq_loop_fits:
  assumes "list_all2 (\<lambda>e pl. get_payload e = Inr pl) es pls" and "length used = unat off" and "length buf = 256"
    and "take (unat off) buf = used" and "unat off + length (concat pls) \<le> 255"
  shows "\<exists>buf'. seq_loop es buf off = Inr (buf', of_nat (length (used @ concat pls))) \<and>
    take (length (used @ concat pls)) buf' = used @ concat pls \<and> length buf' = 256"
  using assms
proof (induction es pls arbitrary: used buf off rule: list_all2_induct)
  case Nil
  then have "of_nat (length used) = off" by simp
  with Nil show ?case by auto
next
  case (Cons e es pl pls)
  let ?buf = "blit_block (unat off) pl buf" and ?off = "off + of_nat (length pl)" and ?used = "used @ pl"
  have small: "unat off + length pl \<le> 255" using Cons.prems by simp
  then have u: "unat ?off = unat off + length pl"
    by (simp add: unat_word_ariths unsigned_of_nat take_bit_nat_eq_self)
  have b: "length ?buf = 256" "take (unat off + length pl) ?buf = ?used"
    using small Cons.prems by (auto simp: blit_block_def)
  have "\<exists>buf'. seq_loop es ?buf ?off = Inr (buf', of_nat (length (?used @ concat pls))) \<and>
    take (length (?used @ concat pls)) buf' = ?used @ concat pls \<and> length buf' = 256"
    using Cons.IH [of ?used ?off ?buf] Cons.prems u b by simp
  with Cons small show ?case by simp
qed

lemma seq_payload_fits:
  assumes "list_all2 (\<lambda>e pl. get_payload e = Inr pl) es pls" and "length (concat pls) \<le> 253"
  shows "get_payload (Snmp_sequence es) = Inr (tlv 0x30 (concat pls)) \<and> get_payload (Snmp_pdu ty es) = Inr (tlv ty (concat pls))"
proof -
  let ?n = "length (concat pls)"
  have r: "replicate 255 (0 :: byte) = 0 # replicate 254 0" by (simp flip: replicate_Suc)
  have "take (unat (2 :: byte)) ([0x30] @ replicate 255 0) = [0x30, 0 :: byte]" unfolding r by simp
  with assms(2) obtain buf where s: "seq_loop es ([0x30] @ replicate 255 0) 2 = Inr (buf, of_nat (2 + ?n))"
    "take (2 + ?n) buf = [0x30, 0] @ concat pls" "length buf = 256"
    using seq_loop_fits [OF assms(1), of "[0x30, 0]" 2 "[0x30] @ replicate 255 0"] by auto
  have u: "unat (of_nat (2 + ?n) :: byte) = 2 + ?n" using assms(2) by (subst unsigned_of_nat) (simp add: take_bit_nat_eq_self)
  have "take (2 + ?n) (buf[1 := of_nat ?n]) = (take (2 + ?n) buf)[1 := of_nat ?n]" by (simp add: take_update_swap)
  then have 1: "take (2 + ?n) (buf[1 := of_nat ?n]) = tlv 0x30 (concat pls)" by (simp only: s(2)) (simp add: tlv_def)
  have "take (2 + ?n) (buf[1 := of_nat ?n, 0 := ty]) = (take (2 + ?n) (buf[1 := of_nat ?n]))[0 := ty]" by (simp add: take_update_swap)
  then have 2: "take (2 + ?n) (buf[1 := of_nat ?n, 0 := ty]) = tlv ty (concat pls)" by (simp only: 1) (simp add: tlv_def)
  show ?thesis
    using s(1) u 1 2 by (simp add: in_use_def seq_result_def del: of_nat_add)
qed

section \<open>Integers\<close>

definition int_octets :: "u64 \<Rightarrow> byte list" where
  "int_octets v = (if v \<le> 0xffffffff then map (\<lambda>j. ucast (drop_bit (8 * j) v)) (rev [0..<4])
     else map (\<lambda>j. ucast (drop_bit (8 * j) v)) (rev [0..<8]))"

lemma length_int_octets: "length (int_octets v) \<le> 8"
  by (simp add: int_octets_def)

lemma shift_in_octets:
  "foldl shift_in acc (map (\<lambda>j. ucast (drop_bit (8 * j) v)) (rev [0..<n])) = push_bit (8 * n) acc OR take_bit (8 * n) v"
proof (induction n arbitrary: acc)
  case (Suc n)
  have "push_bit (8 * n) (shift_in acc (ucast (drop_bit (8 * n) v))) OR take_bit (8 * n) v =
      push_bit (8 * Suc n) acc OR take_bit (8 * Suc n) v"
    unfolding shift_in_def by (rule bit_word_eqI) (auto simp: bit_simps add.commute)
  with Suc.IH show ?case by simp
qed simp

lemma int_octets_value: "foldl shift_in 0 (int_octets v) = v"
proof (cases "v \<le> 0xffffffff")
  case True
  have "take_bit 32 v = v"
  proof (rule word_unat_eq_iff [THEN iffD2])
    show "unat (take_bit 32 v) = unat v"
      using True by (simp add: unsigned_take_bit_eq word_le_nat_alt take_bit_nat_eq_self)
  qed
  with True show ?thesis using shift_in_octets [of 0 v 4] by (simp add: int_octets_def)
next
  case False
  have "take_bit 64 v = v" by (simp add: take_bit_word_eq_self)
  with False show ?thesis using shift_in_octets [of 0 v 8] by (simp add: int_octets_def)
qed

lemma snmp_integer_payload: "get_payload (snmp_integer_new ty v) = Inr (tlv (integer_type_octet ty) (int_octets v))"
  by (simp add: snmp_integer_new_def integer_payload_def int_octets_def tlv_def upt_rec)

lemma snmp_octet_string_payload: "length v \<le> 253 \<Longrightarrow> get_payload (snmp_octet_string_new v) = Inr (tlv 0x04 v)"
  using sized_block_tlv by (simp add: snmp_octet_string_new_def)

section \<open>Object identifiers that fit\<close>

definition enc_hi :: "u64 \<Rightarrow> byte list" where
  "enc_hi v = map (\<lambda>b. b OR 128) (rev (base128_loop v))"

lemma enc_hi_simps: "enc_hi v = (if v = 0 then [] else enc_hi (drop_bit 7 v) @ [ucast (v AND 127) OR 128])"
  by (simp add: enc_hi_def base128_loop.simps [of v])

lemma base128_enc_hi: "base128 v = enc_hi (drop_bit 7 v) @ [ucast (v AND 127)]"
proof (cases "v = 0")
  case True
  then show ?thesis by (simp add: base128_def enc_hi_simps [of 0])
next
  case False
  then show ?thesis by (simp add: base128_def enc_hi_def base128_loop.simps [of v])
qed

lemma enc_hi_length: "0 < unat v \<Longrightarrow> 128 ^ (length (enc_hi v) - 1) \<le> unat v \<and> 0 < length (enc_hi v)"
proof (induction v rule: base128_loop.induct)
  case (1 v)
  then have nz: "v \<noteq> 0" by auto
  show ?case
  proof (cases "unat (drop_bit 7 v) = 0")
    case True
    then have "drop_bit 7 v = 0" using unat_gt_0 [of "drop_bit 7 v"] by linarith
    then have "enc_hi v = [ucast (v AND 127) OR 128]" using nz enc_hi_simps [of v] enc_hi_simps [of 0] by simp
    with "1.prems" show ?thesis by simp
  next
    case False
    let ?k = "length (enc_hi (drop_bit 7 v))"
    have IH: "128 ^ (?k - 1) \<le> unat v div 128" "0 < ?k" using 1 nz False by (simp_all add: unat_drop_7)
    have "length (enc_hi v) - 1 = Suc (?k - 1)" using IH(2) nz enc_hi_simps [of v] by simp
    moreover have "128 * 128 ^ (?k - 1) \<le> unat v" using IH(1) by (simp add: less_eq_div_iff_mult_less_eq mult.commute)
    ultimately have "128 ^ (length (enc_hi v) - 1) \<le> unat v" by (metis power_Suc)
    then show ?thesis using nz enc_hi_simps [of v] by simp
  qed
qed

lemma num_to_str_bound: "2 \<le> base \<Longrightarrow> n < base ^ length (num_to_str base n)"
proof (induction base n rule: num_to_str.induct)
  case (1 base n)
  show ?case
  proof (cases "n < base")
    case True
    then show ?thesis by (subst num_to_str.simps) simp
  next
    case False
    with 1 have "n div base < base ^ length (num_to_str base (n div base))" by simp
    then have "n < base * base ^ length (num_to_str base (n div base))"
      using "1.prems" by (simp add: less_mult_imp_div_less div_less_iff_less_mult mult.commute)
    with False "1.prems" show ?thesis by (subst num_to_str.simps) simp
  qed
qed

lemma base128_fits:
  assumes "n < 2 ^ 63"
  shows "length (base128 (of_nat n)) \<le> length (fmt_d n)"
proof (rule ccontr)
  let ?v = "of_nat n :: u64"
  assume "\<not> ?thesis"
  then have l: "length (fmt_d n) \<le> length (enc_hi (drop_bit 7 ?v))" by (simp add: base128_enc_hi)
  have u: "unat ?v = n" using assms by (subst unsigned_of_nat) (simp add: take_bit_nat_eq_self)
  have d: "0 < length (fmt_d n)" by simp
  then have "enc_hi (drop_bit 7 ?v) \<noteq> []" using l by auto
  then have "drop_bit 7 ?v \<noteq> 0" using enc_hi_simps [of 0] by auto
  then have pos: "0 < unat (drop_bit 7 ?v)" by (simp add: unat_gt_0)
  let ?k = "length (enc_hi (drop_bit 7 ?v))"
  have "128 ^ (?k - 1) \<le> n div 128" "0 < ?k" using enc_hi_length [OF pos] u by (simp_all add: unat_drop_7)
  then have "128 * 128 ^ (?k - 1) \<le> n" by (simp add: less_eq_div_iff_mult_less_eq mult.commute)
  then have "128 ^ ?k \<le> n" using \<open>0 < ?k\<close> by (simp add: power_eq_if)
  moreover have "n < 10 ^ length (fmt_d n)" by (rule num_to_str_bound) simp
  moreover have "(10 :: nat) ^ length (fmt_d n) \<le> 128 ^ ?k"
    using l power_mono [of "10 :: nat" 128 "length (fmt_d n)"] power_increasing [OF l, of "128 :: nat"] by linarith
  ultimately show False by linarith
qed

end
