(* ===== verification/Snmp_Data.thy ===== *)
theory Snmp_Data
  imports Snmp_Elem
begin

text \<open>
  The tree of SNMP variables (\<^verbatim>\<open>src/snmp_data.cpp\<close>): registration, look-up and the successor of an
  object identifier.
\<close>

section \<open>The tree\<close>

text \<open>
  The classes of data: a node of the tree without data, texts and numbers, a counter (by its
  place among the counters), the time since the start, an object identifier.
\<close>

datatype snmp_value =
    Tree_node
  | Static_text "byte list"
  | Static_int snmp_integer_type int
  | Stats snmp_integer_type nat
  | Running_since u64
  | Oid_value string

datatype snmp_data_type = Snmp_node (oid_idx: int) (node_oid: string) (node_value: snmp_value) (children: "snmp_data_type list")

text \<open>\<open>get_data\<close>: \<open>None\<close> is a null pointer; the counters and the time are arguments.\<close>

definition get_data :: "(nat \<Rightarrow> u64) \<Rightarrow> u64 \<Rightarrow> snmp_value \<Rightarrow> snmp_elem option res" where
  "get_data counters now v =
     (case v of
        Tree_node \<Rightarrow> Inr None
      | Static_text txt \<Rightarrow> Inr (Some (snmp_octet_string_new txt))
      | Static_int ty i \<Rightarrow> Inr (Some (snmp_integer_new si_integer (word_of_int i)))
      | Stats ty c \<Rightarrow> Inr (Some (snmp_integer_new ty (counters c)))
      | Running_since start \<Rightarrow> Inr (Some (snmp_integer_new si_ticks (now div 10000 - start)))
      | Oid_value oid \<Rightarrow> rbind (snmp_oid_new oid) (\<lambda>e. Inr (Some e)))"

text \<open>\<open>set_tree_data\<close>: the number behind the last dot.\<close>

definition str_rfind_dot :: "string \<Rightarrow> nat option" where
  "str_rfind_dot s = (case str_find ''.'' (rev s) of None \<Rightarrow> None | Some i \<Rightarrow> Some (length s - 1 - i))"

definition tree_idx :: "string \<Rightarrow> int" where
  "tree_idx oid = (case str_rfind_dot oid of None \<Rightarrow> 0 | Some dot \<Rightarrow> sint (word_of_int (atoll (drop (dot + 1) oid)) :: u32))"

fun find_oid_in_vector :: "snmp_data_type list \<Rightarrow> string \<Rightarrow> nat option" where
  "find_oid_in_vector [] oid = None"
| "find_oid_in_vector (m # ms) oid =
     (if node_oid m = oid then Some 0 else map_option Suc (find_oid_in_vector ms oid))"

section \<open>Registration\<close>

text \<open>The object identifier of a child.\<close>

definition add_part :: "string \<Rightarrow> string \<Rightarrow> string" where
  "add_part cur_oid part = (if cur_oid \<noteq> [] then cur_oid @ ''.'' @ part else part)"

text \<open>A node goes in front of the first one with a larger number.\<close>

fun insert_node :: "snmp_data_type \<Rightarrow> snmp_data_type list \<Rightarrow> snmp_data_type list" where
  "insert_node e [] = [e]"
| "insert_node e (m # ms) = (if oid_idx e < oid_idx m then e # m # ms else m # insert_node e ms)"

text \<open>The loop over the parts; an object that exists already stays as it is.\<close>

fun register_loop :: "string \<Rightarrow> string list \<Rightarrow> snmp_value \<Rightarrow> snmp_data_type list \<Rightarrow> snmp_data_type list" where
  "register_loop cur_oid [] e p_lut = p_lut"
| "register_loop cur_oid (part # parts) e p_lut =
     (let cur = add_part cur_oid part in
      case find_oid_in_vector p_lut cur of
        None \<Rightarrow>
          insert_node (Snmp_node (tree_idx cur) cur (if parts = [] then e else Tree_node) (register_loop cur parts e [])) p_lut
      | Some i \<Rightarrow>
          p_lut[i := (case p_lut ! i of Snmp_node ix o' v cs \<Rightarrow> Snmp_node ix o' v (register_loop cur parts e cs))])"

definition register_oid :: "string \<Rightarrow> snmp_value \<Rightarrow> snmp_data_type list \<Rightarrow> snmp_data_type list" where
  "register_oid oid e sd = register_loop [] (split_loop ''.'' oid) e sd"

section \<open>Look-up\<close>

fun find_loop :: "string \<Rightarrow> string list \<Rightarrow> snmp_data_type list \<Rightarrow> snmp_value option" where
  "find_loop cur_oid [] p_lut = None"
| "find_loop cur_oid (part # parts) p_lut =
     (let cur = add_part cur_oid part in
      case find_oid_in_vector p_lut cur of
        None \<Rightarrow> None
      | Some i \<Rightarrow> if parts = [] then Some (node_value (p_lut ! i)) else find_loop cur parts (children (p_lut ! i)))"

definition find_by_oid :: "string \<Rightarrow> snmp_data_type list \<Rightarrow> snmp_value option" where
  "find_by_oid oid sd = find_loop [] (split_loop ''.'' oid) sd"

section \<open>The successor\<close>

text \<open>The branch: the nodes passed, from the top, with the place of the child that was taken.\<close>

type_synonym branch = "(snmp_data_type option \<times> nat) list"

fun branch_loop :: "string \<Rightarrow> string list \<Rightarrow> snmp_data_type option \<Rightarrow> snmp_data_type list \<Rightarrow> branch \<Rightarrow>
    snmp_data_type option \<times> snmp_data_type list \<times> branch" where
  "branch_loop cur_oid [] parent p_lut br = (parent, p_lut, br)"
| "branch_loop cur_oid (part # parts) parent p_lut br =
     (let cur = add_part cur_oid part in
      case find_oid_in_vector p_lut cur of
        None \<Rightarrow> (parent, p_lut, br)
      | Some i \<Rightarrow> branch_loop cur parts (Some (p_lut ! i)) (children (p_lut ! i)) (br @ [(parent, i)]))"

function descend :: "snmp_data_type option \<Rightarrow> snmp_data_type list \<Rightarrow> branch \<Rightarrow> snmp_data_type option \<times> branch" where
  "descend parent [] br = (parent, br)"
| "descend parent (m # ms) br = descend (Some m) (children m) (br @ [(parent, 0)])"
  by pat_completeness auto
termination
proof (relation "measure (\<lambda>(p, ms, br). size_list size ms)", goal_cases)
  case (2 parent m ms br)
  then show ?case by (cases m) simp
qed simp

function first_leaf :: "snmp_data_type \<Rightarrow> snmp_data_type" where
  "first_leaf m = (case children m of [] \<Rightarrow> m | c # cs \<Rightarrow> first_leaf c)"
  by auto
termination
proof (relation "measure size", goal_cases)
  case (2 m c cs)
  then show ?case by (cases m) simp
qed simp

declare first_leaf.simps [simp del]

text \<open>The search for a sibling, on the branch from its end; at the top node the search ends.\<close>

fun sibling_loop :: "branch \<Rightarrow> string res" where
  "sibling_loop [] = Inr []"
| "sibling_loop ((None, index) # rest) = rbind (rassert (rest = [])) (\<lambda>_. Inr [])"
| "sibling_loop ((Some element, index) # rest) =
     (if index + 1 < length (children element) then Inr (node_oid (first_leaf (children element ! (index + 1))))
      else sibling_loop rest)"

definition find_next_oid :: "string \<Rightarrow> snmp_data_type list \<Rightarrow> string res" where
  "find_next_oid oid sd =
     (let (parent, p_lut, br) = branch_loop [] (split_loop ''.'' oid) None sd [];
          (parent', br') = descend parent p_lut br in
      case parent' of
        None \<Rightarrow> Inl Undefined_behaviour
      | Some m \<Rightarrow> if node_oid m \<noteq> oid then Inr (node_oid m) else sibling_loop (rev (br' @ [(parent', 0)])))"

section \<open>What is registered is found\<close>

text \<open>
  The contract of a registry of named values, in which a name can lie below another one: a value
  stays, the names above a new one come into being, the others are left alone.
\<close>

locale oid_registry =
  fixes register :: "'o \<Rightarrow> 'v \<Rightarrow> 's \<Rightarrow> 's"
    and find :: "'o \<Rightarrow> 's \<Rightarrow> 'v option"
    and above :: "'o \<Rightarrow> 'o \<Rightarrow> bool"
    and proper :: "'o \<Rightarrow> bool"
    and inner :: 'v
  assumes find_same: "proper k \<Longrightarrow> find k (register k v s) = (case find k s of None \<Rightarrow> Some v | Some w \<Rightarrow> Some w)"
    and find_above: "proper k \<Longrightarrow> proper k' \<Longrightarrow> above k' k \<Longrightarrow>
      find k' (register k v s) = (case find k' s of None \<Rightarrow> Some inner | Some w \<Rightarrow> Some w)"
    and find_other: "proper k \<Longrightarrow> proper k' \<Longrightarrow> k' \<noteq> k \<Longrightarrow> \<not> above k' k \<Longrightarrow> find k' (register k v s) = find k' s"
begin

lemma find_kept: "proper k \<Longrightarrow> proper k' \<Longrightarrow> find k' s = Some w \<Longrightarrow> find k' (register k v s) = Some w"
  by (cases "k' = k"; cases "above k' k") (simp_all add: find_same find_above find_other)

lemma fold_kept:
  "list_all (proper \<circ> fst) kvs \<Longrightarrow> proper k \<Longrightarrow> find k s = Some w \<Longrightarrow> find k (fold (\<lambda>(k, v). register k v) kvs s) = Some w"
  by (induction kvs arbitrary: s) (auto simp: find_kept)

text \<open>After any registrations the first one that concerns an identifier decides what is found there.\<close>

lemma fold_first:
  assumes "list_all (proper \<circ> fst) kvs" and "proper k"
  shows "find k (fold (\<lambda>(k, v). register k v) kvs s) =
    (case find k s of Some w \<Rightarrow> Some w
     | None \<Rightarrow> (case List.find (\<lambda>(k', v). k' = k \<or> above k k') kvs of None \<Rightarrow> None | Some (k', v) \<Rightarrow> Some (if k' = k then v else inner)))"
  using assms(1)
proof (induction kvs arbitrary: s)
  case Nil
  show ?case by (simp split: option.split)
next
  case (Cons kv kvs)
  obtain k1 v1 where kv: "kv = (k1, v1)" by (cases kv)
  have p: "proper k1" "list_all (proper \<circ> fst) kvs" using Cons.prems kv by (simp_all add: comp_def)
  let ?s = "register k1 v1 s"
  show ?case
  proof (cases "find k s")
    case (Some w)
    then show ?thesis using find_kept [OF p(1) assms(2) Some] fold_kept [OF p(2) assms(2)] kv by simp
  next
    case None
    show ?thesis
    proof (cases "k1 = k \<or> above k k1")
      case True
      then have "find k ?s = Some (if k1 = k then v1 else inner)"
        using None p(1) assms(2) by (cases "k1 = k") (simp_all add: find_same find_above)
      with True None fold_kept [OF p(2) assms(2)] kv show ?thesis by simp
    next
      case False
      then have "find k ?s = find k s" using p(1) assms(2) by (intro find_other) auto
      with False None Cons.IH [OF p(2), of ?s] kv show ?thesis by simp
    qed
  qed
qed

end

definition node_at :: "snmp_data_type list \<Rightarrow> string \<Rightarrow> snmp_data_type option" where
  "node_at ms oid = List.find (\<lambda>m. node_oid m = oid) ms"

lemma find_oid_None: "find_oid_in_vector ms oid = None \<longleftrightarrow> node_at ms oid = None"
  by (induction ms) (auto simp: node_at_def)

lemma find_oid_Some:
  "find_oid_in_vector ms oid = Some i \<Longrightarrow> i < length ms \<and> node_oid (ms ! i) = oid \<and> node_at ms oid = Some (ms ! i)"
  by (induction ms arbitrary: i) (auto simp: node_at_def split: if_splits)

lemma node_at_find: "node_at ms oid = Some m \<Longrightarrow> \<exists>i. find_oid_in_vector ms oid = Some i \<and> ms ! i = m"
  by (cases "find_oid_in_vector ms oid") (auto simp: find_oid_None dest: find_oid_Some)

lemma node_at_insert:
  "node_at ms (node_oid e) = None \<Longrightarrow> node_at (insert_node e ms) oid = (if oid = node_oid e then Some e else node_at ms oid)"
  by (induction ms) (auto simp: node_at_def split: if_splits)

lemma node_at_update:
  "find_oid_in_vector ms (node_oid m') = Some i \<Longrightarrow> node_at (ms[i := m']) oid = (if oid = node_oid m' then Some m' else node_at ms oid)"
  by (induction ms arbitrary: i) (auto simp: node_at_def split: if_splits)

lemma find_loop_Cons:
  "find_loop cur (p # ps) ms =
     (case node_at ms (add_part cur p) of
        None \<Rightarrow> None
      | Some m \<Rightarrow> if ps = [] then Some (node_value m) else find_loop (add_part cur p) ps (children m))"
  by (cases "find_oid_in_vector ms (add_part cur p)") (auto simp: Let_def iffD1 [OF find_oid_None] dest: find_oid_Some)

lemma register_loop_Cons:
  "register_loop cur (p # ps) e ms =
     (let cur' = add_part cur p in
      case find_oid_in_vector ms cur' of
        None \<Rightarrow> insert_node (Snmp_node (tree_idx cur') cur' (if ps = [] then e else Tree_node) (register_loop cur' ps e [])) ms
      | Some i \<Rightarrow> ms[i := Snmp_node (oid_idx (ms ! i)) cur' (node_value (ms ! i)) (register_loop cur' ps e (children (ms ! i)))])"
  by (auto simp: Let_def split: option.split snmp_data_type.split dest!: find_oid_Some)

lemma add_part_eq [simp]: "add_part cur p = add_part cur q \<longleftrightarrow> p = q"
  by (simp add: add_part_def)

lemma node_at_register:
  "node_at (register_loop cur (p # ps) e ms) oid =
     (if oid = add_part cur p then
        case node_at ms oid of
          None \<Rightarrow> Some (Snmp_node (tree_idx oid) oid (if ps = [] then e else Tree_node) (register_loop oid ps e []))
        | Some m \<Rightarrow> Some (Snmp_node (oid_idx m) oid (node_value m) (register_loop oid ps e (children m)))
      else node_at ms oid)"
proof (cases "find_oid_in_vector ms (add_part cur p)")
  case None
  then show ?thesis using iffD1 [OF find_oid_None None] by (simp add: register_loop_Cons node_at_insert Let_def del: register_loop.simps)
next
  case (Some i)
  then show ?thesis
    using node_at_update [of ms "Snmp_node (oid_idx (ms ! i)) (add_part cur p) (node_value (ms ! i)) (register_loop (add_part cur p) ps e (children (ms ! i)))" i oid]
      find_oid_Some [OF Some] by (simp add: register_loop_Cons Some Let_def del: register_loop.simps)
qed

lemma find_loop_Nil [simp]: "find_loop cur qs [] = None"
  by (cases qs) simp_all

lemma find_register_loop:
  "qs \<noteq> [] \<Longrightarrow>
   find_loop cur qs (register_loop cur ps e ms) =
     (if prefix qs ps \<and> find_loop cur qs ms = None then Some (if qs = ps then e else Tree_node) else find_loop cur qs ms)"
proof (induction ps arbitrary: cur qs ms)
  case (Cons p ps)
  obtain q qs' where qs: "qs = q # qs'" using Cons.prems by (cases qs) auto
  show ?case
  proof (cases "q = p")
    case False
    then show ?thesis by (simp add: qs find_loop_Cons node_at_register del: register_loop.simps find_loop.simps)
  next
    case True
    then show ?thesis
      using Cons.IH [of qs' "add_part cur p"]
      by (auto simp: qs find_loop_Cons node_at_register simp del: register_loop.simps find_loop.simps split: option.splits)
  qed
qed simp

text \<open>Object identifiers with no empty part.\<close>

definition oid_parts :: "string \<Rightarrow> string list" where
  "oid_parts oid = split_loop ''.'' oid"

definition proper_oid :: "string \<Rightarrow> bool" where
  "proper_oid oid \<longleftrightarrow> oid_parts oid \<noteq> [] \<and> [] \<notin> set (oid_parts oid)"

definition oid_above :: "string \<Rightarrow> string \<Rightarrow> bool" where
  "oid_above a b \<longleftrightarrow> strict_prefix (oid_parts a) (oid_parts b)"

lemma oid_parts_eq [simp]: "oid_parts a = oid_parts b \<longleftrightarrow> a = b"
  unfolding oid_parts_def using join_split_loop [of "''.''"] by (metis list.distinct(1))

interpretation mib: oid_registry register_oid find_by_oid oid_above proper_oid Tree_node
proof
  fix k k' :: string and v s
  have k: "find_by_oid k' (register_oid k v s) =
    (if prefix (oid_parts k') (oid_parts k) \<and> find_by_oid k' s = None then Some (if k' = k then v else Tree_node) else find_by_oid k' s)"
    if "proper_oid k'" for k' k
    using that find_register_loop [of "oid_parts k'" "[]" "oid_parts k" v s]
    by (simp add: find_by_oid_def register_oid_def proper_oid_def flip: oid_parts_def)
  show "proper_oid k \<Longrightarrow> find_by_oid k (register_oid k v s) = (case find_by_oid k s of None \<Rightarrow> Some v | Some w \<Rightarrow> Some w)"
    using k by (auto split: option.split)
  show "proper_oid k \<Longrightarrow> proper_oid k' \<Longrightarrow> oid_above k' k \<Longrightarrow>
      find_by_oid k' (register_oid k v s) = (case find_by_oid k' s of None \<Rightarrow> Some Tree_node | Some w \<Rightarrow> Some w)"
    using k by (auto simp: oid_above_def strict_prefix_def split: option.split)
  show "proper_oid k \<Longrightarrow> proper_oid k' \<Longrightarrow> k' \<noteq> k \<Longrightarrow> \<not> oid_above k' k \<Longrightarrow> find_by_oid k' (register_oid k v s) = find_by_oid k' s"
    using k by (auto simp: oid_above_def strict_prefix_def)
qed

text \<open>
  C28. What is found under an object identifier after any registrations, duplicates and identifiers above
  others included: what was there before, if there was something; otherwise the first registration of this identifier or of
  one below it decides: the value registered for the identifier itself, or a node without a value.
  Later registrations do not change it, so that a second value for an identifier, or one for an
  identifier above another that was registered first, is dropped.
\<close>

theorem snmp_registry:
  assumes "list_all (proper_oid \<circ> fst) regs" and "proper_oid oid"
  shows "find_by_oid oid (fold (\<lambda>(oid, v). register_oid oid v) regs sd) =
    (case find_by_oid oid sd of
       Some w \<Rightarrow> Some w
     | None \<Rightarrow>
         (case List.find (\<lambda>(k, v). k = oid \<or> oid_above oid k) regs of
            None \<Rightarrow> None
          | Some (k, v) \<Rightarrow> Some (if k = oid then v else Tree_node)))"
  using assms by (rule mib.fold_first)

definition example_regs :: "(string \<times> snmp_value) list" where
  "example_regs = [(''1.3.6.1.10'', Stats si_counter32 3), (''1.3.6.1.2'', Static_text [104, 105]), (''1.3.6.4'', Static_int si_integer 7),
     (''1.3.6.1.2'', Static_text [106])]"

lemma example_regs_parts:
  "oid_parts ''1.3.6.1.10'' = [''1'', ''3'', ''6'', ''1'', ''10'']" "oid_parts ''1.3.6.1.2'' = [''1'', ''3'', ''6'', ''1'', ''2'']"
  "oid_parts ''1.3.6.4'' = [''1'', ''3'', ''6'', ''4'']"
  by code_simp+

theorem snmp_registry_witness:
  "find_by_oid ''1.3.6.1.10'' (fold (\<lambda>(oid, v). register_oid oid v) example_regs []) = Some (Stats si_counter32 3) \<and>
   find_by_oid ''1.3.6.1.2'' (fold (\<lambda>(oid, v). register_oid oid v) example_regs []) = Some (Static_text [104, 105])"
proof -
  have a: "list_all (proper_oid \<circ> fst) example_regs" "proper_oid ''1.3.6.1.10''" "proper_oid ''1.3.6.1.2''"
    by (simp_all add: example_regs_def proper_oid_def example_regs_parts)
  have c: "find_by_oid oid [] = None" for oid by (simp add: find_by_oid_def)
  from snmp_registry [OF a(1,2), of "[]"] snmp_registry [OF a(1,3), of "[]"] show ?thesis
    by (simp add: example_regs_def c oid_above_def example_regs_parts)
qed

section \<open>Walking the tree\<close>

text \<open>The leaves below a node, from the left to the right.\<close>

fun leaves :: "snmp_data_type \<Rightarrow> snmp_data_type list" where
  "leaves (Snmp_node ix o' v cs) = (if cs = [] then [Snmp_node ix o' v cs] else concat (map leaves cs))"

lemma leaves_children: "leaves m = (if children m = [] then [m] else concat (map leaves (children m)))"
  by (cases m) simp

lemma leaves_nonempty [simp]: "leaves m \<noteq> []"
proof (induction m rule: leaves.induct)
  case (1 ix o' v cs)
  then show ?case by (cases cs) auto
qed

lemma first_leaf_hd: "first_leaf m = hd (leaves m)"
proof (induction m rule: first_leaf.induct)
  case (1 m)
  show ?case
  proof (cases "children m")
    case Nil
    then show ?thesis by (simp add: first_leaf.simps leaves_children [of m])
  next
    case (Cons c cs)
    with 1 show ?thesis by (simp add: first_leaf.simps [of m] leaves_children [of m])
  qed
qed

text \<open>A way down a tree, by the places of the children; the nodes passed; the leaves to the right of it.\<close>

fun goes_to :: "snmp_data_type \<Rightarrow> nat list \<Rightarrow> snmp_data_type \<Rightarrow> bool" where
  "goes_to m [] l \<longleftrightarrow> m = l"
| "goes_to m (i # is) l \<longleftrightarrow> i < length (children m) \<and> goes_to (children m ! i) is l"

fun way :: "snmp_data_type \<Rightarrow> nat list \<Rightarrow> branch" where
  "way m [] = []"
| "way m (i # is) = (Some m, i) # way (children m ! i) is"

fun to_the_right :: "snmp_data_type \<Rightarrow> nat list \<Rightarrow> snmp_data_type list" where
  "to_the_right m [] = []"
| "to_the_right m (i # is) = to_the_right (children m ! i) is @ concat (map leaves (drop (i + 1) (children m)))"

lemma sibling_loop_way:
  "goes_to m is l \<Longrightarrow>
   sibling_loop (rev (way m is) @ rest) =
     (case to_the_right m is of [] \<Rightarrow> sibling_loop rest | a # as \<Rightarrow> Inr (node_oid a))"
proof (induction "is" arbitrary: m rest)
  case (Cons i "is")
  let ?c = "children m ! i" and ?r = "drop (i + 1) (children m)"
  have top: "sibling_loop ((Some m, i) # rest) = (case concat (map leaves ?r) of [] \<Rightarrow> sibling_loop rest | a # as \<Rightarrow> Inr (node_oid a))"
  proof (cases "i + 1 < length (children m)")
    case True
    then have "?r = children m ! (i + 1) # drop (i + 2) (children m)" by (simp add: Cons_nth_drop_Suc)
    moreover obtain a as where "leaves (children m ! (i + 1)) = a # as" by (cases "leaves (children m ! (i + 1))") auto
    ultimately show ?thesis using True by (simp add: first_leaf_hd)
  qed simp
  have "sibling_loop (rev (way ?c is) @ (Some m, i) # rest) =
      (case to_the_right ?c is of [] \<Rightarrow> sibling_loop ((Some m, i) # rest) | a # as \<Rightarrow> Inr (node_oid a))"
    using Cons by simp
  with top show ?case by (cases "to_the_right ?c is") simp_all
qed simp

lemma concat_split:
  "concat (map f cs) = bs @ l # as \<Longrightarrow>
   \<exists>xs c ys bs' as'. cs = xs @ c # ys \<and> f c = bs' @ l # as' \<and> as = as' @ concat (map f ys)"
proof (induction cs arbitrary: bs)
  case (Cons d cs)
  then have "f d @ concat (map f cs) = bs @ l # as" by simp
  then have "(\<exists>us. f d = bs @ l # us \<and> us @ concat (map f cs) = as) \<or> (\<exists>us. bs = f d @ us \<and> concat (map f cs) = us @ l # as)"
    by (auto simp: append_eq_append_conv2 append_eq_Cons_conv Cons_eq_append_conv)
  then show ?case
  proof
    assume "\<exists>us. f d = bs @ l # us \<and> us @ concat (map f cs) = as"
    then obtain us where "d # cs = [] @ d # cs \<and> f d = bs @ l # us \<and> as = us @ concat (map f cs)" by auto
    then show ?case by blast
  next
    assume "\<exists>us. bs = f d @ us \<and> concat (map f cs) = us @ l # as"
    then obtain xs c ys bs' as' where "cs = xs @ c # ys" "f c = bs' @ l # as'" "as = as' @ concat (map f ys)" using Cons.IH by blast
    then have "d # cs = (d # xs) @ c # ys \<and> f c = bs' @ l # as' \<and> as = as' @ concat (map f ys)" by simp
    then show ?case by blast
  qed
qed simp

lemma leaf_way: "leaves m = bs @ l # as \<Longrightarrow> \<exists>is. goes_to m is l \<and> to_the_right m is = as \<and> children l = []"
proof (induction m arbitrary: bs as)
  case (Snmp_node ix o' v cs)
  show ?case
  proof (cases "cs = []")
    case True
    with Snmp_node.prems show ?thesis by (intro exI [of _ "[]"]) (cases bs, auto)
  next
    case False
    then have "concat (map leaves cs) = bs @ l # as" using Snmp_node.prems by simp
    then obtain xs c ys bs' as' where cs: "cs = xs @ c # ys" "leaves c = bs' @ l # as'" "as = as' @ concat (map leaves ys)"
      using concat_split by metis
    have "c \<in> set cs" using cs(1) by simp
    from Snmp_node.IH [OF this cs(2)] obtain "is" where i: "goes_to c is l" "to_the_right c is = as'" "children l = []" by blast
    then show ?thesis
      using cs by (intro exI [of _ "length xs # is"]) (simp add: nth_append)
  qed
qed

text \<open>Trees as the registration builds them.\<close>

fun wf_mib :: "string \<Rightarrow> snmp_data_type \<Rightarrow> bool" where
  "wf_mib cur (Snmp_node ix oid v cs) \<longleftrightarrow>
     (\<exists>p. oid = add_part cur p \<and> p \<noteq> [] \<and> CHR ''.'' \<notin> set p) \<and> ix = tree_idx oid \<and>
     distinct (map node_oid cs) \<and> sorted (map oid_idx cs) \<and> (\<forall>c\<in>set cs. wf_mib oid c)"

definition wf_forest :: "string \<Rightarrow> snmp_data_type list \<Rightarrow> bool" where
  "wf_forest cur ms \<longleftrightarrow> distinct (map node_oid ms) \<and> sorted (map oid_idx ms) \<and> (\<forall>m\<in>set ms. wf_mib cur m)"

lemma wf_mib_forest:
  "wf_mib cur m \<longleftrightarrow> (\<exists>p. node_oid m = add_part cur p \<and> p \<noteq> [] \<and> CHR ''.'' \<notin> set p) \<and> oid_idx m = tree_idx (node_oid m) \<and>
     wf_forest (node_oid m) (children m)"
  by (cases m) (auto simp: wf_forest_def)

lemma find_oid_distinct: "distinct (map node_oid ms) \<Longrightarrow> i < length ms \<Longrightarrow> find_oid_in_vector ms (node_oid (ms ! i)) = Some i"
proof (induction ms arbitrary: i)
  case (Cons m ms)
  show ?case
  proof (cases i)
    case (Suc j)
    then have "node_oid (ms ! j) \<in> set (map node_oid ms)" using Cons.prems(2) by simp
    then have "node_oid m \<noteq> node_oid (ms ! j)" using Cons.prems(1) by auto
    then show ?thesis using Cons Suc by simp
  qed simp
qed simp

text \<open>The names on a way, and what the search for the identifier at its end does.\<close>

lemma branch_loop_way:
  "wf_forest (node_oid m) (children m) \<Longrightarrow> node_oid m \<noteq> [] \<Longrightarrow> goes_to m is l \<Longrightarrow>
   \<exists>ps. branch_loop (node_oid m) ps (Some m) (children m) br = (Some l, children l, br @ way m is) \<and>
     (\<forall>p\<in>set ps. p \<noteq> [] \<and> CHR ''.'' \<notin> set p) \<and> node_oid l = join_str ''.'' (node_oid m # ps)"
proof (induction "is" arbitrary: m br)
  case (Cons i "is")
  let ?c = "children m ! i"
  have i: "i < length (children m)" "goes_to ?c is l" using Cons.prems(3) by simp_all
  then have c: "wf_mib (node_oid m) ?c" using Cons.prems(1) by (simp add: wf_forest_def)
  then obtain p where p: "node_oid ?c = add_part (node_oid m) p" "p \<noteq> []" "CHR ''.'' \<notin> set p" "wf_forest (node_oid ?c) (children ?c)"
    by (auto simp: wf_mib_forest)
  have ne: "node_oid ?c \<noteq> []" using p by (simp add: add_part_def)
  obtain ps where ps: "branch_loop (node_oid ?c) ps (Some ?c) (children ?c) (br @ [(Some m, i)]) = (Some l, children l, (br @ [(Some m, i)]) @ way ?c is)"
    "\<forall>p\<in>set ps. p \<noteq> [] \<and> CHR ''.'' \<notin> set p" "node_oid l = join_str ''.'' (node_oid ?c # ps)"
    using Cons.IH [OF p(4) ne i(2)] by blast
  have f: "find_oid_in_vector (children m) (add_part (node_oid m) p) = Some i"
    using find_oid_distinct [OF _ i(1)] Cons.prems(1) p(1) by (simp add: wf_forest_def)
  have j: "join_str ''.'' (node_oid ?c # ps) = join_str ''.'' (node_oid m # p # ps)"
    using Cons.prems(2) p(1) by (cases ps) (simp_all add: add_part_def)
  show ?case
    using ps(1,2) p(2,3) f ps(3) j by (intro exI [of _ "p # ps"]) (simp add: Let_def p(1))
qed (intro exI [of _ "[]"], simp)

lemma find_next_leaf:
  assumes "wf_mib [] t" and "leaves t = bs @ l # as"
  shows "find_next_oid (node_oid l) [t] = Inr (case as of [] \<Rightarrow> [] | a # _ \<Rightarrow> node_oid a)"
proof -
  obtain "is" where i: "goes_to t is l" "to_the_right t is = as" "children l = []" using leaf_way [OF assms(2)] by blast
  obtain r where r: "node_oid t = r" "r \<noteq> []" "CHR ''.'' \<notin> set r" "wf_forest r (children t)"
    using assms(1) by (auto simp: wf_mib_forest add_part_def)
  obtain ps where ps: "branch_loop r ps (Some t) (children t) [(None, 0)] = (Some l, [], (None, 0) # way t is)"
    "\<forall>p\<in>set ps. p \<noteq> [] \<and> CHR ''.'' \<notin> set p" "node_oid l = join_str ''.'' (r # ps)"
    using branch_loop_way [of t "is" l "[(None, 0)]"] r i by auto
  have "split_loop ''.'' (node_oid l) = r # ps"
    unfolding ps(3) using ps(2) r(2,3) by (intro split_loop_join) auto
  then have b: "branch_loop [] (split_loop ''.'' (node_oid l)) None [t] [] = (Some l, [], (None, 0) # way t is)"
    using ps(1) r(1) by (simp add: add_part_def Let_def)
  have "sibling_loop (rev (way t is) @ [(None, 0)]) = Inr (case as of [] \<Rightarrow> [] | a # _ \<Rightarrow> node_oid a)"
    using sibling_loop_way [OF i(1), of "[(None, 0)]"] i(2) by (cases as) simp_all
  with b i(3) show ?thesis by (simp add: find_next_oid_def)
qed

lemma find_oid_notin: "find_oid_in_vector ms oid = None \<longleftrightarrow> oid \<notin> node_oid ` set ms"
  by (induction ms) auto

lemma insert_node_set [simp]: "set (insert_node e ms) = insert e (set ms)"
  by (induction ms) auto

lemma insert_node_distinct:
  "distinct (map node_oid ms) \<Longrightarrow> node_oid e \<notin> node_oid ` set ms \<Longrightarrow> distinct (map node_oid (insert_node e ms))"
  by (induction ms) auto

lemma insert_node_sorted: "sorted (map oid_idx ms) \<Longrightarrow> sorted (map oid_idx (insert_node e ms))"
  by (induction ms) auto

lemma register_loop_wf:
  "wf_forest cur ms \<Longrightarrow> (\<forall>p\<in>set ps. p \<noteq> [] \<and> CHR ''.'' \<notin> set p) \<Longrightarrow> wf_forest cur (register_loop cur ps e ms)"
proof (induction ps arbitrary: cur ms)
  case (Cons p ps)
  let ?cur = "add_part cur p"
  have p: "\<exists>q. ?cur = add_part cur q \<and> q \<noteq> [] \<and> CHR ''.'' \<notin> set q" using Cons.prems(2) by auto
  show ?case
  proof (cases "find_oid_in_vector ms ?cur")
    case None
    let ?n = "Snmp_node (tree_idx ?cur) ?cur (if ps = [] then e else Tree_node) (register_loop ?cur ps e [])"
    have "wf_forest ?cur (register_loop ?cur ps e [])" using Cons.IH [of ?cur "[]"] Cons.prems(2) by (simp add: wf_forest_def)
    then have "wf_mib cur ?n" using p by (simp add: wf_mib_forest)
    moreover have "node_oid ?n \<notin> node_oid ` set ms" using None by (simp add: find_oid_notin)
    ultimately have "wf_forest cur (insert_node ?n ms)"
      using Cons.prems(1) insert_node_distinct [of ms ?n] insert_node_sorted [of ms ?n] by (simp add: wf_forest_def)
    then show ?thesis using None by (simp add: register_loop_Cons Let_def del: register_loop.simps)
  next
    case (Some i)
    note i = find_oid_Some [OF Some]
    let ?m = "Snmp_node (oid_idx (ms ! i)) ?cur (node_value (ms ! i)) (register_loop ?cur ps e (children (ms ! i)))"
    have old: "wf_mib cur (ms ! i)" using Cons.prems(1) i by (simp add: wf_forest_def)
    then have "wf_forest ?cur (register_loop ?cur ps e (children (ms ! i)))"
      using Cons.IH [of ?cur] Cons.prems(2) i by (simp add: wf_mib_forest)
    then have "wf_mib cur ?m" using old i p by (simp add: wf_mib_forest)
    moreover have "map node_oid (ms[i := ?m]) = map node_oid ms" "map oid_idx (ms[i := ?m]) = map oid_idx ms"
      using i by (simp_all add: map_update list_update_same_conv)
    ultimately have "wf_forest cur (ms[i := ?m])"
      using Cons.prems(1) unfolding wf_forest_def by (metis (no_types, lifting) insert_iff set_update_subset_insert subsetD)
    then show ?thesis using Some by (simp add: register_loop_Cons Let_def del: register_loop.simps)
  qed
qed simp

lemma oid_parts_no_dot: "proper_oid oid \<Longrightarrow> p \<in> set (oid_parts oid) \<Longrightarrow> p \<noteq> [] \<and> CHR ''.'' \<notin> set p"
  using split_loop_parts [of "''.''" p oid] by (auto simp: proper_oid_def oid_parts_def sublist_def in_set_conv_decomp)

text \<open>A tree all of whose registrations begin with the same part has one root.\<close>

lemma register_root:
  assumes "proper_oid oid" and "hd (oid_parts oid) = r" and "sd = [] \<or> (\<exists>t. sd = [t] \<and> node_oid t = r \<and> wf_mib [] t)"
  shows "\<exists>t. register_oid oid v sd = [t] \<and> node_oid t = r \<and> wf_mib [] t"
proof -
  obtain ps where ps: "oid_parts oid = r # ps" using assms(1,2) by (cases "oid_parts oid") (auto simp: proper_oid_def)
  have "wf_forest [] sd" using assms(3) by (auto simp: wf_forest_def)
  then have "wf_forest [] (register_loop [] (r # ps) v sd)"
    using oid_parts_no_dot [OF assms(1)] ps by (intro register_loop_wf) auto
  moreover obtain t where "register_loop [] (r # ps) v sd = [t]" "node_oid t = r"
    using assms(3) by (auto simp: add_part_def Let_def split: snmp_data_type.split)
  moreover have "register_oid oid v sd = register_loop [] (r # ps) v sd"
    using ps by (simp only: register_oid_def oid_parts_def)
  ultimately show ?thesis by (simp add: wf_forest_def del: register_loop.simps)
qed

lemma register_all_root:
  "list_all (\<lambda>(oid, v). proper_oid oid \<and> hd (oid_parts oid) = r) regs \<Longrightarrow> sd = [] \<or> (\<exists>t. sd = [t] \<and> node_oid t = r \<and> wf_mib [] t) \<Longrightarrow>
   regs \<noteq> [] \<Longrightarrow> \<exists>t. fold (\<lambda>(oid, v). register_oid oid v) regs sd = [t] \<and> node_oid t = r \<and> wf_mib [] t"
proof (induction regs arbitrary: sd)
  case (Cons a regs)
  obtain oid v where a: "a = (oid, v)" by (cases a)
  obtain t where t: "register_oid oid v sd = [t]" "node_oid t = r" "wf_mib [] t"
    using register_root [of oid r sd v] Cons.prems a by auto
  show ?case
  proof (cases "regs = []")
    case True
    with t a show ?thesis by simp
  next
    case False
    with Cons.IH [of "[t]"] Cons.prems(1) t a show ?thesis by auto
  qed
qed simp

text \<open>
  C27. GETNEXT walks the whole tree: after any registrations below one root, the successor of the
  identifier of each leaf is the identifier of the next leaf, from the left to the right, and the last
  leaf has none; at every node the children are in the order of their numbers.
\<close>

theorem snmp_walk:
  assumes "list_all (\<lambda>(oid, v). proper_oid oid \<and> hd (oid_parts oid) = r) regs" and "regs \<noteq> []"
  shows "\<exists>t. fold (\<lambda>(oid, v). register_oid oid v) regs [] = [t] \<and> wf_mib [] t \<and>
    (\<forall>i < length (leaves t). find_next_oid (node_oid (leaves t ! i)) [t] =
      Inr (if i + 1 < length (leaves t) then node_oid (leaves t ! (i + 1)) else []))"
proof -
  obtain t where t: "fold (\<lambda>(oid, v). register_oid oid v) regs [] = [t]" "wf_mib [] t"
    using register_all_root [OF assms(1) _ assms(2), of "[]"] by auto
  have "find_next_oid (node_oid (leaves t ! i)) [t] = Inr (if i + 1 < length (leaves t) then node_oid (leaves t ! (i + 1)) else [])"
    if i: "i < length (leaves t)" for i
  proof -
    let ?as = "drop (i + 1) (leaves t)"
    have "leaves t = take i (leaves t) @ leaves t ! i # ?as" using id_take_nth_drop [OF i] by simp
    from find_next_leaf [OF t(2) this] show ?thesis
      by (cases "i + 1 < length (leaves t)") (auto simp: Cons_nth_drop_Suc [symmetric])
  qed
  with t show ?thesis by blast
qed

theorem snmp_walk_witness:
  "\<exists>t. fold (\<lambda>(oid, v). register_oid oid v) example_regs [] = [t] \<and> 0 < length (leaves t) \<and>
     find_next_oid (node_oid (leaves t ! (length (leaves t) - 1))) [t] = Inr []"
proof -
  have "list_all (\<lambda>(oid, v). proper_oid oid \<and> hd (oid_parts oid) = ''1'') example_regs" "example_regs \<noteq> []"
    by (simp_all add: example_regs_def proper_oid_def example_regs_parts)
  from snmp_walk [OF this] obtain t where t: "fold (\<lambda>(oid, v). register_oid oid v) example_regs [] = [t]"
    "\<forall>i < length (leaves t). find_next_oid (node_oid (leaves t ! i)) [t] =
      Inr (if i + 1 < length (leaves t) then node_oid (leaves t ! (i + 1)) else [])" by blast
  have n: "0 < length (leaves t)" by simp
  then have "find_next_oid (node_oid (leaves t ! (length (leaves t) - 1))) [t] = Inr []"
    using t(2) [rule_format, of "length (leaves t) - 1"] by simp
  with t(1) n show ?thesis by blast
qed

end
