(* ===== verification/Snmp.thy ===== *)
theory Snmp
  imports Snmp_Data Udp
begin

text \<open>
  The SNMP agent (\<^verbatim>\<open>src/snmp.cpp\<close>): the parser of requests, which follows lengths through the memory of
  the packet, and the reply.
\<close>

section \<open>Requests\<close>

record oid_req =
  req_oids :: "string list"
  req_id :: u64
  req_err :: int
  req_err_idx :: int
  req_version :: int
  req_community :: "byte list"


definition get_INTEGER :: "byte list \<Rightarrow> u64" where
  "get_INTEGER p = foldl shift_in 0 p"

text \<open>\<open>%d\<close> with a \<open>uint32_t\<close>.\<close>

definition fmt_int :: "u32 \<Rightarrow> string" where
  "fmt_int v = (if sint v < 0 then ''-'' @ fmt_d (nat (- sint v)) else fmt_d (nat (sint v)))"

text \<open>\<open>get_OID\<close>: \<open>None\<close> for an identifier that ends within a number.\<close>

fun get_OID_loop :: "nat \<Rightarrow> u32 \<Rightarrow> byte list \<Rightarrow> string \<Rightarrow> string option" where
  "get_OID_loop i v [] oid_out = (if v \<noteq> 0 then None else Some oid_out)"
| "get_OID_loop i v (b # bs) oid_out =
     (if b < 128 then
        let v' = push_bit 7 v OR ucast b in
        get_OID_loop (i + 1) 0 bs (oid_out @ (if i = 0 \<and> v' = 43 then ''1.3'' else ''.'' @ fmt_int v'))
      else get_OID_loop (i + 1) (push_bit 7 v OR ucast (b AND 127)) bs oid_out)"

definition get_OID :: "byte list \<Rightarrow> string option" where
  "get_OID p = get_OID_loop 0 0 p []"

text \<open>
  The head of a PDU: three integers, of which the first is the identifier of the request, and the
  place of the list of variables.  \<open>len\<close> is the length of the PDU, which is compared with 2 only.
\<close>

definition pdu_integer :: "byte list \<Rightarrow> nat \<Rightarrow> nat \<Rightarrow> (u64 \<times> nat) option res" where
  "pdu_integer mem pos len =
     (if len < 2 then Inr None
      else
        rbind (octets_at mem pos 2) (\<lambda>h.
        if h ! 0 \<noteq> 0x02 then Inr None
        else
          rbind (octets_at mem (pos + 2) (unat (h ! 1))) (\<lambda>v.
          Inr (Some (get_INTEGER v, pos + 2 + unat (h ! 1))))))"

definition pdu_head :: "byte list \<Rightarrow> nat \<Rightarrow> nat \<Rightarrow> oid_req \<Rightarrow> ((nat \<times> nat) option \<times> oid_req) res" where
  "pdu_head mem pos len req =
     rbind (pdu_integer mem pos len) (\<lambda>r1.
     case r1 of
       None \<Rightarrow> Inr (None, req)
     | Some (rid, pos1) \<Rightarrow>
         let req1 = req\<lparr>req_id := rid\<rparr> in
         rbind (pdu_integer mem pos1 len) (\<lambda>r2.
         case r2 of
           None \<Rightarrow> Inr (None, req1)
         | Some (err, pos2) \<Rightarrow>
             rbind (pdu_integer mem pos2 len) (\<lambda>r3.
             case r3 of
               None \<Rightarrow> Inr (None, req1)
             | Some (err_idx, pos3) \<Rightarrow>
                 rbind (octets_at mem pos3 1) (\<lambda>t.
                 if t ! 0 \<noteq> 0x30 then Inr (None, req1)
                 else rbind (octets_at mem (pos3 + 1) 1) (\<lambda>n. Inr (Some (pos3 + 2, unat (n ! 0)), req1))))))"

text \<open>An object identifier; \<open>next_oid\<close> is \<open>find_next_oid\<close>.\<close>

definition add_oid :: "(string \<Rightarrow> string res) \<Rightarrow> bool \<Rightarrow> string \<Rightarrow> oid_req \<Rightarrow> oid_req res" where
  "add_oid next_oid is_getnext oid req =
     (if is_getnext then
        rbind (next_oid oid) (\<lambda>oid_next.
        if oid_next = [] then Inr (req\<lparr>req_err := 2, req_err_idx := 1\<rparr>)
        else Inr (req\<lparr>req_oids := req_oids req @ [oid_next]\<rparr>))
      else Inr (req\<lparr>req_oids := req_oids req @ [oid]\<rparr>))"

lemma pdu_integer_pos: "pdu_integer mem pos len = Inr (Some (v, pos')) \<Longrightarrow> pos < pos' \<and> pos' \<le> length mem"
  by (auto simp: pdu_integer_def octets_at_def split: if_splits)

lemma pdu_head_pos:
  assumes "pdu_head mem pos len req = Inr (Some (vb, n), req')"
  shows "pos < vb \<and> vb \<le> length mem"
proof -
  obtain r1 where r1: "pdu_integer mem pos len = Inr r1" using assms unfolding pdu_head_def by (rule rbindE)
  with assms obtain rid pos1 where r1': "pdu_integer mem pos len = Inr (Some (rid, pos1))" by (cases r1) (auto simp: pdu_head_def)
  with assms obtain r2 where r2: "pdu_integer mem pos1 len = Inr r2" unfolding pdu_head_def Let_def by (auto elim!: rbindE)
  with assms r1' obtain err pos2 where r2': "pdu_integer mem pos1 len = Inr (Some (err, pos2))" by (cases r2) (auto simp: pdu_head_def Let_def)
  with assms r1' obtain r3 where r3: "pdu_integer mem pos2 len = Inr r3" unfolding pdu_head_def Let_def by (auto elim!: rbindE)
  with assms r1' r2' obtain ei pos3 where r3': "pdu_integer mem pos2 len = Inr (Some (ei, pos3))" by (cases r3) (auto simp: pdu_head_def Let_def)
  with assms r1' r2' have "vb = pos3 + 2 \<and> pos3 + 2 \<le> length mem"
    by (auto simp: pdu_head_def octets_at_def Let_def split: if_splits)
  with pdu_integer_pos [OF r1'] pdu_integer_pos [OF r2'] pdu_integer_pos [OF r3'] show ?thesis by auto
qed

text \<open>
  The two loops that call each other: the one over the elements of a \<open>process_BER\<close>, with its flags
  \<open>is_top\<close>, \<open>first_integer\<close> and \<open>first_octet_str\<close>, and the one over the variables of a \<open>process_PDU\<close>.
  The result of the calls for the variables is not looked at.  The octets from \<open>pos\<close> to \<open>fin\<close> are
  looked at; for the variables \<open>fin\<close> is taken from the packet without a check.
\<close>

datatype ber_loop = Elements int bool bool | Variables

declare rbind_cong [fundef_cong]

function ber_walk :: "(string \<Rightarrow> string res) \<Rightarrow> byte list \<Rightarrow> ber_loop \<Rightarrow> nat \<Rightarrow> nat \<Rightarrow> bool \<Rightarrow> oid_req \<Rightarrow> (bool \<times> oid_req) res" where
  "ber_walk next_oid mem k pos fin is_getnext req =
     (if pos < fin then
        rbind (octets_at mem pos 2) (\<lambda>h.
        let ty = h ! 0; n = unat (h ! 1); p = pos + 2 in
        if fin < p + n then Inr (False, req)
        else case k of
          Variables \<Rightarrow>
            if ty = 0x30 then
              rbind (if n < 2 then Inr (False, req) else ber_walk next_oid mem (Elements 0 True True) p (p + n) is_getnext req) (\<lambda>(ok, req').
              ber_walk next_oid mem Variables (p + n) fin is_getnext req')
            else Inr (False, req)
        | Elements is_top first_integer first_octet_str \<Rightarrow>
            if ty = 0x02 then
              rbind (if is_top \<noteq> 0 \<and> first_integer
                     then rbind (octets_at mem p n) (\<lambda>v. Inr (req\<lparr>req_version := sint (ucast (get_INTEGER v) :: u32)\<rparr>))
                     else Inr req) (\<lambda>req'.
              ber_walk next_oid mem (Elements is_top False first_octet_str) (p + n) fin is_getnext req')
            else if ty = 0x04 then
              rbind (if is_top \<noteq> 0 \<and> first_octet_str
                     then rbind (octets_at mem p n) (\<lambda>v. Inr (req\<lparr>req_community := v\<rparr>))
                     else Inr req) (\<lambda>req'.
              ber_walk next_oid mem (Elements is_top first_integer False) (p + n) fin is_getnext req')
            else if ty = 0x05 then ber_walk next_oid mem k (p + n) fin is_getnext req
            else if ty = 0x06 then
              rbind (octets_at mem p n) (\<lambda>v.
              case get_OID v of
                None \<Rightarrow> Inr (False, req)
              | Some oid \<Rightarrow>
                  rbind (add_oid next_oid is_getnext oid req) (\<lambda>req'.
                  ber_walk next_oid mem k (p + n) fin is_getnext req'))
            else if ty = 0x30 then
              rbind (if n < 2 then Inr (False, req) else ber_walk next_oid mem (Elements (is_top - 1) True True) p (p + n) is_getnext req) (\<lambda>(ok, req').
              if ok then ber_walk next_oid mem k (p + n) fin is_getnext req' else Inr (False, req'))
            else if ty = 0xa0 \<or> ty = 0xa1 \<or> ty = 0xa3 then
              rbind (pdu_head mem p n req) (\<lambda>r.
              case r of
                (None, req') \<Rightarrow> Inr (False, req')
              | (Some (vb, m), req') \<Rightarrow>
                  rbind (ber_walk next_oid mem Variables vb (vb + m) (if ty = 0xa1 then True else is_getnext) req') (\<lambda>(ok, req'').
                  if ok then ber_walk next_oid mem k (p + n) fin is_getnext req'' else Inr (False, req'')))
            else Inr (False, req))
      else Inr (True, req))"
  by auto
termination
  by (relation "measure (\<lambda>(nx, mem, k, pos, fin, g, req). length mem - pos)")
    (auto simp: octets_at_def split: if_splits dest!: pdu_head_pos)

declare ber_walk.simps [simp del]


definition process_PDU :: "(string \<Rightarrow> string res) \<Rightarrow> byte list \<Rightarrow> nat \<Rightarrow> nat \<Rightarrow> oid_req \<Rightarrow> bool \<Rightarrow> (bool \<times> oid_req) res" where
  "process_PDU next_oid mem pos len req is_getnext =
     rbind (pdu_head mem pos len req) (\<lambda>r.
     case r of
       (None, req') \<Rightarrow> Inr (False, req')
     | (Some (vb, m), req') \<Rightarrow> ber_walk next_oid mem Variables vb (vb + m) is_getnext req')"

section \<open>The reply\<close>






section \<open>Object identifiers in messages\<close>

text \<open>The identifiers below 1.3, as text, with numbers that are not negative as an \<open>int\<close>.\<close>

definition oid_text :: "nat list \<Rightarrow> string" where
  "oid_text ns = ''1.3'' @ concat (map (\<lambda>n. ''.'' @ fmt_d n) ns)"





























section \<open>Parsing requests\<close>














section \<open>Requests that fit\<close>














section \<open>The reply to a request\<close>


lemma oid_text_nonempty [simp]: "oid_text ns \<noteq> []"
  by (simp add: oid_text_def)






lemma int_octets_four:
  assumes "n < 2 ^ 32"
  shows "int_octets (of_nat n) = bytes32 (of_nat n)"
proof -
  have u: "unat (of_nat n :: u64) = n" using assms by (subst unsigned_of_nat) (simp add: take_bit_nat_eq_self)
  have l: "(of_nat n :: u64) \<le> 0xffffffff" unfolding word_le_nat_alt u using assms by simp
  have "ucast (drop_bit k (of_nat n :: u64)) = (ucast (drop_bit k (of_nat n :: u32)) :: byte)" if "k \<le> 24" for k
    by (rule bit_word_eqI) (use that in \<open>auto simp: bit_simps\<close>)
  from this [of 0] this [of 8] this [of 16] this [of 24] show ?thesis
    using l by (simp add: int_octets_def bytes32_def upt_rec)
qed

lemma int_octets_zero [simp]: "int_octets 0 = bytes32 0"
  using int_octets_four [of 0] by simp









section \<open>Packets that overrun memory\<close>










end
