(* ===== verification/Reader.thy ===== *)
theory Reader
  imports Buffer
begin

text \<open>
  How the proofs about parsers use \<open>buffer_in\<close>: a reader over the octets \<open>xs\<close>, what each read does to
  them, and a small calculus for runs that end normally or with \<open>std::out_of_range\<close>.
\<close>

section \<open>Readers over octets\<close>

definition rd :: "buffer_in \<Rightarrow> byte list \<Rightarrow> bool" where
  "rd b xs \<longleftrightarrow> wf_in b \<and> octets_left b = xs"

lemma rd_new: "length p < 2 ^ 30 \<Longrightarrow> rd (buffer_in_new p (int (length p))) p"
  by (simp add: rd_def wf_in_new)

lemma rd_end: "rd b xs \<Longrightarrow> end_reached b \<longleftrightarrow> xs = []"
  using length_octets_left [of b] by (auto simp: rd_def end_reached_def get_n_bytes_left_def)

lemma rd_n_left: "rd b xs \<Longrightarrow> get_n_bytes_left b = int (length xs)"
  using length_octets_left [of b] by (simp add: rd_def)

lemma rd_peek: "rd b xs \<Longrightarrow> peek b = Inr xs"
  by (simp add: rd_def peek_left)

lemma rd_size: "rd b xs \<Longrightarrow> length xs < 2 ^ 30"
  using rd_n_left [of b xs] by (simp add: rd_def wf_in_def get_n_bytes_left_def)

lemma rd_advance: "rd b xs \<Longrightarrow> n \<le> length xs \<Longrightarrow> rd (advance b (int n)) (drop n xs)"
  by (simp add: rd_def wf_in_advance octets_left_advance)

lemma rd_byte: "rd b (v # xs) \<Longrightarrow> \<exists>b'. get_net_byte b = Inr (v, b') \<and> rd b' xs"
  using rd_advance [of b "v # xs" 1] by (auto simp: rd_def get_net_byte_Cons)

lemma rd_short: "rd b (bytes16 v @ xs) \<Longrightarrow> \<exists>b'. get_net_short b = Inr (v, b') \<and> rd b' xs"
  using rd_advance [of b "bytes16 v @ xs" 2] by (auto simp: rd_def get_net_short_left bytes16_def codec_simps)

lemma rd_long: "rd b (bytes32 v @ xs) \<Longrightarrow> \<exists>b'. get_net_long b = Inr (v, b') \<and> rd b' xs"
  using rd_advance [of b "bytes32 v @ xs" 4] by (auto simp: rd_def get_net_long_left bytes32_def codec_simps)

text \<open>A segment is a reader of its own, at its beginning.\<close>

lemma rd_segment:
  assumes "rd b (ys @ xs)"
  shows "\<exists>c b'. get_segment b (int (length ys)) = Inr (c, b') \<and> rd c ys \<and> buffer_in_copy c = c \<and> rd b' xs"
proof -
  have wf: "wf_in b" and o: "octets_left b = ys @ xs" using assms by (simp_all add: rd_def)
  let ?c = "buffer_in_new (drop (nat (bi_o b)) (bi_p b)) (int (length ys))"
  have l: "length ys < 2 ^ 30" using rd_size [OF assms] by simp
  then have s: "get_segment b (int (length ys)) = Inr (?c, advance b (int (length ys)))"
    using get_segment_left [OF wf, of "int (length ys)"] o by simp
  have n: "int (length ys + length xs) = bi_size b - bi_o b" using rd_n_left [OF assms] by (simp add: get_n_bytes_left_def)
  have "take (nat (bi_size b - bi_o b)) (drop (nat (bi_o b)) (bi_p b)) = ys @ xs" using o by (simp add: octets_left_def)
  then have t: "take (length ys + length xs) (drop (nat (bi_o b)) (bi_p b)) = ys @ xs" using n by (metis nat_int)
  then have "take (length ys) (drop (nat (bi_o b)) (bi_p b)) = ys" by (metis append_eq_conv_conj length_append take_take min.absorb1 le_add1)
  moreover have "length ys \<le> length (drop (nat (bi_o b)) (bi_p b))" using arg_cong [OF t, of length] by simp
  ultimately have "rd ?c ys" using l by (simp add: rd_def wf_in_def octets_left_def buffer_in_new_def)
  moreover have "buffer_in_copy ?c = ?c" by (simp add: buffer_in_copy_def buffer_in_new_def)
  ultimately show ?thesis using s rd_advance [OF assms, of "length ys"] by auto
qed

lemma rd_seek: "rd b (ys @ xs) \<Longrightarrow> \<exists>b'. seek b (int (length ys)) = Inr b' \<and> rd b' xs"
  using rd_advance [of b "ys @ xs" "length ys"] rd_size [of b "ys @ xs"] by (auto simp: rd_def seek_left)

lemma rd_add_buffer_in: "rd b xs \<Longrightarrow> \<exists>b'. add_buffer_in b buf = Inr (buf @ xs, b')"
proof -
  assume rd: "rd b xs"
  have "foldl (\<lambda>acc c. acc @ [c]) buf xs = buf @ xs" for xs by (induction xs arbitrary: buf) auto
  moreover obtain b' where "read_loop get_net_byte (\<lambda>acc c. acc @ [c]) (length xs) buf b = Inr (foldl (\<lambda>acc c. acc @ [c]) buf (take (length xs) (octets_left b)), b')"
    using bi.read_loop_enough [of b "length xs" "\<lambda>acc c. acc @ [c]" buf] rd by (auto simp: rd_def)
  ultimately show ?thesis using rd rd_n_left [OF rd] by (simp add: add_buffer_in_def rd_def)
qed

section \<open>Writers\<close>

lemma put_octets [simp]:
  "add_net_byte v buf = buf @ [v]" "add_net_short s buf = buf @ bytes16 s" "add_net_long l buf = buf @ bytes32 l"
  "add_buffer_out o' buf = buf @ o'"
  by (simp_all add: add_net_byte_def add_net_short_def add_net_long_def add_buffer_out_def bytes16_def bytes32_def)

lemma put_short_end [simp]: "add_net_short_at s (- 1) buf = Inr (int (length buf), buf @ bytes16 s)"
  by (simp add: add_net_short_at_def bytes16_def)

lemma put_long_end [simp]: "add_net_long_at l (- 1) buf = Inr (int (length buf), buf @ bytes32 l)"
  by (simp add: add_net_long_at_def bytes32_def)

lemma put_short_at: "add_net_short_at s (int (length pre)) (pre @ bytes16 x @ post) = Inr (int (length pre), pre @ bytes16 s @ post)"
  using add_net_short_at_in_range [of "int (length pre)" "pre @ bytes16 x @ post" s] by simp

lemma put_long_at: "add_net_long_at l (int (length pre)) (pre @ bytes32 x @ post) = Inr (int (length pre), pre @ bytes32 l @ post)"
  by (simp add: add_net_long_at_def vec_at_put_def bytes32_def list_update_append nat_add_distrib)

section \<open>Runs that end normally or out of range\<close>

definition safe :: "('a \<Rightarrow> bool) \<Rightarrow> 'a res \<Rightarrow> bool" where
  "safe P r \<longleftrightarrow> (case r of Inr a \<Rightarrow> P a | Inl (Out_of_range n) \<Rightarrow> True | Inl _ \<Rightarrow> False)"

lemma safe_simps [simp]: "safe P (Inr a) \<longleftrightarrow> P a" "safe P (Inl (Out_of_range n))"
  by (simp_all add: safe_def)

lemma safe_bind: "safe Q m \<Longrightarrow> (\<And>a. Q a \<Longrightarrow> safe P (f a)) \<Longrightarrow> safe P (rbind m f)"
  by (cases m) (auto simp: safe_def split: cpp_error.splits)

lemma safe_cases: "safe P r \<Longrightarrow> (\<exists>a. r = Inr a \<and> P a) \<or> (\<exists>n. r = Inl (Out_of_range n))"
  by (auto simp: safe_def split: sum.splits cpp_error.splits)

lemma safe_mono: "safe P r \<Longrightarrow> (\<And>a. P a \<Longrightarrow> Q a) \<Longrightarrow> safe Q r"
  by (auto simp: safe_def split: sum.splits cpp_error.splits)

text \<open>Each read: the reader stays well formed, and what is left gets shorter.\<close>

definition left_of :: "buffer_in \<Rightarrow> nat" where
  "left_of b = length (octets_left b)"

lemma left_advance: "wf_in b \<Longrightarrow> n \<le> left_of b \<Longrightarrow> wf_in (advance b (int n)) \<and> left_of (advance b (int n)) = left_of b - n"
  by (simp add: left_of_def wf_in_advance octets_left_advance)

lemma safe_byte: "wf_in b \<Longrightarrow> safe (\<lambda>(v, b'). wf_in b' \<and> left_of b' + 1 = left_of b) (get_net_byte b)"
  using left_advance [of b 1]
  by (cases "octets_left b") (auto simp: get_net_byte_Nil get_net_byte_Cons left_of_def)

lemma safe_short: "wf_in b \<Longrightarrow> safe (\<lambda>(v, b'). wf_in b' \<and> left_of b' + 2 = left_of b) (get_net_short b)"
  using left_advance [of b 2] by (auto simp: get_net_short_left left_of_def split: list.splits)

lemma safe_long: "wf_in b \<Longrightarrow> safe (\<lambda>(v, b'). wf_in b' \<and> left_of b' + 4 = left_of b) (get_net_long b)"
  using left_advance [of b 4] by (auto simp: get_net_long_left left_of_def split: list.splits)

lemma safe_seek: "wf_in b \<Longrightarrow> 0 \<le> n \<Longrightarrow> n \<le> 2 ^ 30 \<Longrightarrow> safe (\<lambda>b'. wf_in b' \<and> left_of b' \<le> left_of b) (seek b n)"
  using left_advance [of b "nat n"] by (auto simp: seek_left left_of_def)

lemma safe_segment:
  assumes "wf_in b" and "0 \<le> n" and "n \<le> 2 ^ 30"
  shows "safe (\<lambda>(c, b'). wf_in c \<and> wf_in b' \<and> left_of b' \<le> left_of b \<and> octets_left c = take (nat n) (octets_left b) \<and>
    octets_left b' = drop (nat n) (octets_left b) \<and> buffer_in_copy c = c) (get_segment b n)"
proof (cases "n \<le> int (left_of b)")
  case True
  let ?ys = "take (nat n) (octets_left b)"
  have "rd b (?ys @ drop (nat n) (octets_left b))" using assms(1) by (simp add: rd_def)
  from rd_segment [OF this] obtain c b' where "get_segment b (int (length ?ys)) = Inr (c, b')" "rd c ?ys" "buffer_in_copy c = c"
    "rd b' (drop (nat n) (octets_left b))" by blast
  moreover have "int (length ?ys) = n" using True assms(2) by (auto simp: left_of_def min_def)
  ultimately show ?thesis by (simp add: rd_def left_of_def)
next
  case False
  then show ?thesis using assms by (simp add: get_segment_left left_of_def)
qed

end
