(* ===== verification/Sctp.thy ===== *)
theory Sctp
  imports Tcp Crc32c Reader "HOL-Library.Sublist"
begin

text \<open>
  SCTP (\<^verbatim>\<open>src/sctp.cpp\<close>): the chunks of a packet and their answers, the state cookie, the sessions and
  the sending of data.  The keyed hash of the crypto library is the argument \<open>hmac\<close>; calls of the
  applications are recorded, \<open>answer\<close> are their results; \<open>rnds\<close> are the random numbers that are drawn.
\<close>

unbundle bit_operations_syntax

section \<open>State\<close>

record sctp_session =
  ss_local :: addr
  ss_local_port :: u16
  ss_peer :: addr
  ss_peer_port :: u16
  ss_my_tsn :: u32
  ss_their_tsn :: u32
  ss_my_stream_sequence_nr :: u16
  ss_their_verification_tag :: u32

definition sctp_session_new :: "addr \<Rightarrow> u16 \<Rightarrow> addr \<Rightarrow> u16 \<Rightarrow> u32 \<Rightarrow> u32 \<Rightarrow> u32 \<Rightarrow> sctp_session" where
  "sctp_session_new peer peer_port local local_port their_tsn my_tsn their_verification_tag =
     \<lparr>ss_local = local, ss_local_port = local_port, ss_peer = peer, ss_peer_port = peer_port,
      ss_my_tsn = my_tsn, ss_their_tsn = their_tsn, ss_my_stream_sequence_nr = 0,
      ss_their_verification_tag = their_verification_tag\<rparr>"

definition inc_my_tsn :: "u32 \<Rightarrow> sctp_session \<Rightarrow> sctp_session" where
  "inc_my_tsn how_much s = s\<lparr>ss_my_tsn := ss_my_tsn s + how_much\<rparr>"

definition inc_their_tsn :: "u32 \<Rightarrow> sctp_session \<Rightarrow> sctp_session" where
  "inc_their_tsn how_much s = s\<lparr>ss_their_tsn := ss_their_tsn s + how_much\<rparr>"

definition inc_my_stream_sequence_nr :: "sctp_session \<Rightarrow> sctp_session" where
  "inc_my_stream_sequence_nr s = s\<lparr>ss_my_stream_sequence_nr := ss_my_stream_sequence_nr s + 1\<rparr>"

record sctp =
  sctp_sessions :: "(u64, sctp_session) std_map"
  sctp_listeners :: "int \<rightharpoonup> port_handler"
  state_cookie_key :: "byte list"
  state_cookie_key_timestamp :: int

definition sctp_new :: "byte list \<Rightarrow> int \<Rightarrow> sctp" where
  "sctp_new rnd now = \<lparr>sctp_sessions = [], sctp_listeners = Map.empty, state_cookie_key = rnd, state_cookie_key_timestamp = now\<rparr>"

text \<open>\<open>insert\<close> keeps a handler that is there.\<close>

definition sctp_add_handler :: "int \<Rightarrow> port_handler \<Rightarrow> sctp \<Rightarrow> app_call list \<times> sctp" where
  "sctp_add_handler port sph s =
     (if ph_init sph then [Init port] else [],
      case sctp_listeners s port of None \<Rightarrow> s\<lparr>sctp_listeners := (sctp_listeners s)(port \<mapsto> sph)\<rparr> | Some _ \<Rightarrow> s)"

section \<open>Chunks\<close>

text \<open>The padding behind a parameter or chunk of length \<open>len\<close>.\<close>

definition skip_padding :: "u16 \<Rightarrow> buffer_in \<Rightarrow> buffer_in res" where
  "skip_padding len b = (let padding = len AND 3 in if padding \<noteq> 0 then seek b (4 - uint padding) else Inr b)"

definition get_parameter :: "buffer_in \<Rightarrow> (u16 \<times> buffer_in \<times> buffer_in) res" where
  "get_parameter b0 =
     rbind (get_net_short b0) (\<lambda>(type, b1).
     rbind (get_net_short b1) (\<lambda>(len, b2).
     if len < 4 then Inl (Out_of_range ''sctp::get_parameter'')
     else
       rbind (get_segment b2 (uint len - 4)) (\<lambda>(val, b3).
       rbind (skip_padding len b3) (\<lambda>b4. Inr (type, val, b4)))))"

definition chunk_gen_abort :: buffer_out where
  "chunk_gen_abort = add_net_short 4 (add_net_byte 0 (add_net_byte 6 []))"

definition chunk_gen_shutdown :: buffer_out where
  "chunk_gen_shutdown = add_net_short 4 (add_net_byte 0 (add_net_byte 7 []))"

definition chunk_gen_cookie_ack :: buffer_out where
  "chunk_gen_cookie_ack = add_net_short 4 (add_net_byte 0 (add_net_byte 11 []))"

text \<open>The part of the cookie that the hash protects, and the cookie.\<close>

definition cookie_fields :: "sctp \<Rightarrow> addr \<Rightarrow> int \<Rightarrow> int \<Rightarrow> u32 \<Rightarrow> u32 \<Rightarrow> u32 \<Rightarrow> buffer_out" where
  "cookie_fields s peer peer_port local_port their_verification_tag their_initial_tsn my_initial_tsn =
     add_net_long (word_of_int (state_cookie_key_timestamp s))
       (add_net_short (word_of_int local_port)
         (add_net_short (word_of_int peer_port)
           (add_buffer_out (octets peer)
             (add_net_byte (of_nat (length (octets peer)))
               (add_net_long my_initial_tsn (add_net_long their_initial_tsn (add_net_long their_verification_tag [])))))))"

definition generate_state_cookie :: "(byte list \<Rightarrow> byte list \<Rightarrow> byte list) \<Rightarrow> sctp \<Rightarrow> addr \<Rightarrow> int \<Rightarrow> int \<Rightarrow> u32 \<Rightarrow> u32 \<Rightarrow> u32 \<Rightarrow> buffer_out res" where
  "generate_state_cookie hmac s peer peer_port local_port their_verification_tag their_initial_tsn my_initial_tsn =
     (let sc = cookie_fields s peer peer_port local_port their_verification_tag their_initial_tsn my_initial_tsn in
      add_buffer (hmac (state_cookie_key s) sc) 28 sc)"

text \<open>The parameters of an INIT are read and ignored.\<close>

lemma get_net_short_decreases: "get_net_short b = Inr (v, b') \<Longrightarrow> bi_o b < bi_o b' \<and> bi_o b' \<le> bi_size b' \<and> bi_size b' = bi_size b"
  by (auto simp: get_net_short_def need_def advance_def split: if_splits)

lemma get_segment_size: "get_segment b n = Inr (v, b') \<Longrightarrow> bi_o b' = bi_o b + n \<and> bi_o b' \<le> bi_size b' \<and> bi_size b' = bi_size b"
  by (auto simp: get_segment_def need_def advance_def split: if_splits)

lemma padding_mod: "uint (len AND 3 :: u16) = uint len mod 4"
proof -
  have "(3 :: u16) = mask 2" by (simp add: mask_eq_exp_minus_1)
  then have "len AND 3 = take_bit 2 len" by (simp only: take_bit_eq_mask)
  then show ?thesis by (simp only: unsigned_take_bit_eq) (simp add: take_bit_eq_mod)
qed

lemma skip_padding_size:
  "skip_padding len b = Inr b' \<Longrightarrow> bi_o b \<le> bi_size b \<Longrightarrow> bi_o b \<le> bi_o b' \<and> bi_o b' \<le> bi_size b' \<and> bi_size b' = bi_size b"
  using pos_mod_bound [of 4 "uint len"]
  by (auto simp: skip_padding_def Let_def padding_mod seek_def need_def advance_def split: if_splits)

lemma get_parameter_decreases:
  assumes "get_parameter b = Inr (ty, v, b')"
  shows "bi_o b < bi_o b' \<and> bi_o b' \<le> bi_size b' \<and> bi_size b' = bi_size b"
proof -
  from assms obtain b1 len b2 b3 where b: "get_net_short b = Inr (ty, b1)" "get_net_short b1 = Inr (len, b2)" "\<not> len < 4"
      "get_segment b2 (uint len - 4) = Inr (v, b3)" "skip_padding len b3 = Inr b'"
    by (auto simp: get_parameter_def split: if_splits)
  from b(3) have "0 \<le> uint len - 4" by (simp add: word_less_def)
  with get_net_short_decreases [OF b(1)] get_net_short_decreases [OF b(2)] get_segment_size [OF b(4)] skip_padding_size [OF b(5)]
  show ?thesis by auto
qed

declare rbind_cong [fundef_cong]

function init_parameters :: "buffer_in \<Rightarrow> unit res" where
  "init_parameters b =
     (if end_reached b then Inr () else rbind (get_parameter b) (\<lambda>(type, val, b'). init_parameters b'))"
  by auto
termination
  by (relation "measure (\<lambda>b. nat (bi_size b - bi_o b))") (auto dest!: get_parameter_decreases)

declare init_parameters.simps [simp del]

text \<open>The numbers drawn: a verification tag is drawn until it is not zero; the loop ends with the numbers.\<close>

fun draw_tag :: "u32 list \<Rightarrow> (u32 \<times> u32 list) res" where
  "draw_tag [] = Inl Diverges"
| "draw_tag (r # rnds) = (if r = 0 then draw_tag rnds else Inr (r, rnds))"

fun draw_tsn :: "u32 list \<Rightarrow> (u32 \<times> u32 list) res" where
  "draw_tsn [] = Inl Diverges"
| "draw_tsn (r # rnds) = Inr (r, rnds)"

text \<open>\<open>chunk_init\<close>: the chunk INIT ACK, the tag of the peer and the numbers that are left.\<close>

definition init_ack :: "u32 \<Rightarrow> u32 \<Rightarrow> u32 \<Rightarrow> buffer_out \<Rightarrow> buffer_out res" where
  "init_ack my_verification_tag buffer_size my_initial_tsn state_cookie =
     rbind (add_net_short_at 0 (- 1) (add_net_byte 0 (add_net_byte 2 []))) (\<lambda>(length_offset, out).
     let out1 = add_net_long my_initial_tsn (add_net_short 1 (add_net_short 1 (add_net_long buffer_size (add_net_long my_verification_tag out))));
         out2 = add_buffer_out state_cookie (add_net_short (of_nat (4 + get_size state_cookie)) (add_net_short 7 out1)) in
     rbind (add_net_short_at (of_nat (get_size out2)) length_offset out2) (\<lambda>(_, out3). add_padding 4 out3))"

definition chunk_init :: "(byte list \<Rightarrow> byte list \<Rightarrow> byte list) \<Rightarrow> sctp \<Rightarrow> buffer_in \<Rightarrow> u32 \<Rightarrow> u32 \<Rightarrow> addr \<Rightarrow> int \<Rightarrow> int \<Rightarrow> u32 list \<Rightarrow>
    (buffer_out \<times> u32 \<times> u32 list) res" where
  "chunk_init hmac s b0 my_verification_tag buffer_size peer peer_port local_port rnds =
     rbind (get_net_long b0) (\<lambda>(initiate_tag, b1).
     rbind (get_net_long b1) (\<lambda>(a_rwnd, b2).
     rbind (get_net_short b2) (\<lambda>(n_outbound_streams, b3).
     rbind (get_net_short b3) (\<lambda>(n_inbound_streams, b4).
     rbind (get_net_long b4) (\<lambda>(their_initial_tsn, b5).
     rbind (init_parameters b5) (\<lambda>_.
     rbind (draw_tsn rnds) (\<lambda>(my_initial_tsn, rnds').
     rbind (generate_state_cookie hmac s peer peer_port local_port initiate_tag their_initial_tsn my_initial_tsn) (\<lambda>state_cookie.
     rbind (init_ack my_verification_tag buffer_size my_initial_tsn state_cookie) (\<lambda>out.
     Inr (out, initiate_tag, rnds'))))))))))"

text \<open>\<open>chunk_cookie_echo\<close>: whether the cookie is one of ours for this peer, and what it says.\<close>

definition chunk_cookie_echo :: "(byte list \<Rightarrow> byte list \<Rightarrow> byte list) \<Rightarrow> sctp \<Rightarrow> buffer_in \<Rightarrow> addr \<Rightarrow> int \<Rightarrow> int \<Rightarrow> (bool \<times> u32 \<times> u32 \<times> u32) res" where
  "chunk_cookie_echo hmac s chunk_payload peer peer_port local_port =
     rbind (get_segment chunk_payload (get_n_bytes_left chunk_payload)) (\<lambda>(cookie_data, _).
     rbind (get_net_long (buffer_in_copy cookie_data)) (\<lambda>(their_verification_tag, t1).
     rbind (get_net_long t1) (\<lambda>(their_initial_tsn, t2).
     rbind (get_net_long t2) (\<lambda>(my_initial_tsn, t3).
     rbind (generate_state_cookie hmac s peer peer_port local_port their_verification_tag their_initial_tsn my_initial_tsn) (\<lambda>state_cookie.
     rbind (compare state_cookie cookie_data) (\<lambda>ok.
     Inr (ok, their_verification_tag, their_initial_tsn, my_initial_tsn)))))))"

definition chunk_heartbeat_request :: "buffer_in \<Rightarrow> buffer_out res" where
  "chunk_heartbeat_request chunk_payload =
     rbind (add_net_short_at 4 (- 1) (add_net_byte 0 (add_net_byte 5 []))) (\<lambda>(length_offset, out).
     rbind (add_buffer_in chunk_payload out) (\<lambda>(out1, _).
     rbind (add_net_short_at (of_nat (get_size out1)) length_offset out1) (\<lambda>(_, out2).
     add_padding 4 out2)))"

datatype sctp_data_handling_result_t = dcb_close | dcb_abort | dcb_continue

definition sack_chunk :: "u32 \<Rightarrow> buffer_out res" where
  "sack_chunk tsn_before =
     rbind (add_net_short_at 0 (- 1) (add_net_byte 3 (add_net_byte 3 []))) (\<lambda>(length_offset, out).
     let out1 = add_net_short 0 (add_net_short 0 (add_net_long 4096 (add_net_long tsn_before out))) in
     rbind (add_net_short_at (of_nat (get_size out1)) length_offset out1) (\<lambda>(_, out2). Inr out2))"

text \<open>\<open>chunk_data\<close>; the octets of a chunk are handed to the application as a reader of their own.\<close>

definition chunk_data :: "(app_call \<Rightarrow> bool) \<Rightarrow> u64 \<Rightarrow> sctp_session \<Rightarrow> buffer_in \<Rightarrow>
    (sctp_data_handling_result_t \<times> buffer_out \<times> sctp_session \<times> app_call list) res" where
  "chunk_data answer key s b0 =
     rbind (get_net_long b0) (\<lambda>(current_tsn, b1).
     rbind (get_net_short b1) (\<lambda>(stream_id_s, b2).
     rbind (get_net_short b2) (\<lambda>(stream_seq_nr, b3).
     rbind (get_net_long b3) (\<lambda>(payload_protocol_identifier, b4).
     let tsn_before = ss_their_tsn s in
     rbind
       (if current_tsn = ss_their_tsn s then
          rbind (get_segment b4 (get_n_bytes_left b4)) (\<lambda>(temp, _).
          rbind (peek temp) (\<lambda>data.
          let call = New_data key data in
          Inr (if answer call then dcb_continue else dcb_close, inc_their_tsn 1 s, [call])))
        else Inr (dcb_continue, s, []))
       (\<lambda>(result, s', calls).
     rbind (sack_chunk tsn_before) (\<lambda>chunk_out.
     Inr (result, chunk_out, s', calls)))))))"


section \<open>The chunks of a packet\<close>

text \<open>
  What the handling of a packet works on; an exception leaves the changes made so far.  \<open>Leave\<close> ends the
  loop over the chunks.
\<close>

record sctp_work =
  sw_sctp :: sctp
  sw_reply :: buffer_out
  sw_terminate :: bool
  sw_send_reply :: bool
  sw_calls :: "app_call list"
  sw_rnds :: "u32 list"

record sctp_head =
  sh_peer :: addr
  sh_local :: addr
  sh_source_port :: u16
  sh_destination_port :: u16
  sh_tag_offset :: int
  sh_crc_offset :: int

datatype chunk_flow = Go_on | Leave | Throw cpp_error

definition attempt :: "'a res \<Rightarrow> sctp_work \<Rightarrow> ('a \<Rightarrow> chunk_flow \<times> sctp_work) \<Rightarrow> chunk_flow \<times> sctp_work" where
  "attempt m w f = (case m of Inl e \<Rightarrow> (Throw e, w) | Inr a \<Rightarrow> f a)"

lemma attempt_simps [simp]: "attempt (Inl e) w f = (Throw e, w)" "attempt (Inr a) w f = f a"
  by (simp_all add: attempt_def)

lemma attempt_cong [fundef_cong]: "m = m' \<Longrightarrow> w = w' \<Longrightarrow> (\<And>a. m' = Inr a \<Longrightarrow> f a = f' a) \<Longrightarrow> attempt m w f = attempt m' w' f'"
  by (cases m') simp_all

definition sh_hash :: "sctp_head \<Rightarrow> u64" where
  "sh_hash h = session_hash (sh_peer h) (sh_source_port h) (sh_destination_port h)"

definition put_reply :: "buffer_out \<Rightarrow> sctp_work \<Rightarrow> sctp_work" where
  "put_reply c w = w\<lparr>sw_reply := add_buffer_out c (sw_reply w)\<rparr>"

text \<open>The tag of the reply is set when it is known.\<close>

definition put_tag :: "sctp_head \<Rightarrow> u32 \<Rightarrow> sctp_work \<Rightarrow> chunk_flow \<times> sctp_work" where
  "put_tag h tag w = attempt (add_net_long_at tag (sh_tag_offset h) (sw_reply w)) w (\<lambda>(_, r). (Go_on, w\<lparr>sw_reply := r\<rparr>))"

definition on_data :: "(app_call \<Rightarrow> bool) \<Rightarrow> sctp_head \<Rightarrow> buffer_in \<Rightarrow> sctp_work \<Rightarrow> chunk_flow \<times> sctp_work" where
  "on_data answer h chunk w =
     (let t = sw_sctp w in
      case sctp_listeners t (uint (sh_destination_port h)) of
        Some ph \<Rightarrow>
          if ph_new_data ph then
            case map_of (sctp_sessions t) (sh_hash h) of
              None \<Rightarrow> (Go_on, w)
            | Some s \<Rightarrow>
                attempt (chunk_data answer (sh_hash h) s chunk) w (\<lambda>(result, out, s', calls).
                let w1 = w\<lparr>sw_sctp := t\<lparr>sctp_sessions := map_modify (sh_hash h) s' (sctp_sessions t)\<rparr>, sw_calls := sw_calls w @ calls\<rparr> in
                case result of
                  dcb_abort \<Rightarrow> (Leave, (put_reply chunk_gen_abort w1)\<lparr>sw_terminate := True\<rparr>)
                | dcb_close \<Rightarrow> put_tag h (ss_their_verification_tag s') (put_reply chunk_gen_shutdown (put_reply out w1))
                | dcb_continue \<Rightarrow> put_tag h (ss_their_verification_tag s') (put_reply out w1))
          else (Go_on, (put_reply chunk_gen_abort w)\<lparr>sw_terminate := True\<rparr>)
      | None \<Rightarrow> (Go_on, (put_reply chunk_gen_abort w)\<lparr>sw_terminate := True\<rparr>))"

definition on_init :: "(byte list \<Rightarrow> byte list \<Rightarrow> byte list) \<Rightarrow> sctp_head \<Rightarrow> buffer_in \<Rightarrow> sctp_work \<Rightarrow> chunk_flow \<times> sctp_work" where
  "on_init hmac h chunk w =
     (let t = sw_sctp w; has_listener = (sctp_listeners t (uint (sh_destination_port h)) \<noteq> None) in
      attempt (draw_tag (sw_rnds w)) w (\<lambda>(my_new_verification_tag, rnds).
      attempt (chunk_init hmac t chunk my_new_verification_tag 4096 (sh_peer h) (uint (sh_source_port h)) (uint (sh_destination_port h)) rnds) w
        (\<lambda>(temp, their_initial_verification_tag, rnds').
      case put_tag h their_initial_verification_tag (w\<lparr>sw_rnds := rnds'\<rparr>) of
        (Go_on, w1) \<Rightarrow>
          if has_listener then (Go_on, put_reply temp w1)
          else (Go_on, (put_reply chunk_gen_abort w1)\<lparr>sw_terminate := True\<rparr>)
      | r \<Rightarrow> r)))"

definition on_cookie_echo :: "(byte list \<Rightarrow> byte list \<Rightarrow> byte list) \<Rightarrow> sctp_head \<Rightarrow> buffer_in \<Rightarrow> sctp_work \<Rightarrow> chunk_flow \<times> sctp_work" where
  "on_cookie_echo hmac h chunk w =
     (let t = sw_sctp w; key = sh_hash h in
      attempt (chunk_cookie_echo hmac t chunk (sh_peer h) (uint (sh_source_port h)) (uint (sh_destination_port h))) w
        (\<lambda>(cookie_ok, their_verification_tag, their_initial_tsn, my_initial_tsn).
      let has_handler = (case sctp_listeners t (uint (sh_destination_port h)) of None \<Rightarrow> False | Some ph \<Rightarrow> ph_new_session ph) in
      put_tag h their_verification_tag
        (if cookie_ok \<and> has_handler then
           put_reply chunk_gen_cookie_ack
             (if map_of (sctp_sessions t) key \<noteq> None then w
              else
                let s = sctp_session_new (sh_peer h) (sh_source_port h) (sh_local h) (sh_destination_port h)
                  their_initial_tsn my_initial_tsn their_verification_tag in
                w\<lparr>sw_sctp := t\<lparr>sctp_sessions := map_insert key s (sctp_sessions t)\<rparr>, sw_calls := sw_calls w @ [New_session key]\<rparr>)
         else (put_reply chunk_gen_abort w)\<lparr>sw_terminate := True\<rparr>)))"

definition on_chunk :: "(byte list \<Rightarrow> byte list \<Rightarrow> byte list) \<Rightarrow> (app_call \<Rightarrow> bool) \<Rightarrow> sctp_head \<Rightarrow> byte \<Rightarrow> buffer_in \<Rightarrow> sctp_work \<Rightarrow>
    chunk_flow \<times> sctp_work" where
  "on_chunk hmac answer h type chunk w =
     (if type = 0 then on_data answer h chunk w
      else if type = 1 then on_init hmac h chunk w
      else if type = 4 then attempt (chunk_heartbeat_request chunk) w (\<lambda>out. (Go_on, put_reply out w))
      else if type = 6 then (Leave, w\<lparr>sw_terminate := True, sw_send_reply := False\<rparr>)
      else if type = 10 then on_cookie_echo hmac h chunk w
      else (Go_on, w\<lparr>sw_send_reply := False\<rparr>))"

definition chunk_header :: "buffer_in \<Rightarrow> (byte \<times> byte \<times> u16 \<times> buffer_in) res" where
  "chunk_header b =
     rbind (get_net_byte b) (\<lambda>(type, b1).
     rbind (get_net_byte b1) (\<lambda>(flags, b2).
     rbind (get_net_short b2) (\<lambda>(len, b3). Inr (type, flags, len, b3))))"

lemma get_net_byte_decreases: "get_net_byte b = Inr (v, b') \<Longrightarrow> bi_o b < bi_o b' \<and> bi_o b' \<le> bi_size b' \<and> bi_size b' = bi_size b"
  by (auto simp: get_net_byte_def advance_def split: if_splits)

lemma chunk_header_decreases:
  "chunk_header b = Inr (type, flags, len, b') \<Longrightarrow> bi_o b < bi_o b' \<and> bi_o b' \<le> bi_size b' \<and> bi_size b' = bi_size b"
  by (auto simp: chunk_header_def dest!: get_net_byte_decreases get_net_short_decreases)

function chunks_loop :: "(byte list \<Rightarrow> byte list \<Rightarrow> byte list) \<Rightarrow> (app_call \<Rightarrow> bool) \<Rightarrow> sctp_head \<Rightarrow> buffer_in \<Rightarrow> sctp_work \<Rightarrow>
    chunk_flow \<times> sctp_work" where
  "chunks_loop hmac answer h b w =
     (if end_reached b then (Go_on, w)
      else
        attempt (chunk_header b) w (\<lambda>(type, flags, len, b1).
        if len < 4 then (Leave, w\<lparr>sw_terminate := True\<rparr>)
        else
          attempt (get_segment b1 (uint len - 4)) w (\<lambda>(chunk, b2).
          case on_chunk hmac answer h type chunk w of
            (Go_on, w') \<Rightarrow> attempt (skip_padding len b2) w' (\<lambda>b3. chunks_loop hmac answer h b3 w')
          | r \<Rightarrow> r)))"
  by auto
termination
  by (relation "measure (\<lambda>(hm, an, h, b, w). nat (bi_size b - bi_o b))")
    (auto simp: not_less word_le_def dest!: chunk_header_decreases get_segment_size dest: skip_padding_size)

declare chunks_loop.simps [simp del]

section \<open>Packets\<close>

definition sctp_transmit_packet :: "addr \<Rightarrow> addr \<Rightarrow> byte list \<Rightarrow> ip_send" where
  "sctp_transmit_packet dst_ip src_ip payload =
     \<lparr>is_dst_mac = None, is_dst_ip = dst_ip, is_src_ip = src_ip, is_protocol = 0x84, is_payload = payload, is_header_template = None\<rparr>"

text \<open>The checksum goes into its place once the packet is complete.\<close>

definition put_crc :: "int \<Rightarrow> buffer_out \<Rightarrow> buffer_out res" where
  "put_crc crc_offset out = rbind (add_net_long_at (generate_crc32c out) crc_offset out) (\<lambda>(_, out'). Inr out')"

text \<open>The header of a packet, and the beginning of the reply.\<close>

definition sctp_header :: "packet \<Rightarrow> (sctp_head \<times> buffer_out \<times> buffer_in) res" where
  "sctp_header pkt =
     rbind (get_net_short (buffer_in_new (pk_data pkt) (int (length (pk_data pkt))))) (\<lambda>(source_port, b1).
     rbind (get_net_short b1) (\<lambda>(destination_port, b2).
     rbind (get_net_long b2) (\<lambda>(my_verification_tag, b3).
     rbind (get_net_long b3) (\<lambda>(checksum, b4).
     rbind (add_net_long_at (- 1) (- 1) (add_net_short source_port (add_net_short destination_port []))) (\<lambda>(tag_offset, r1).
     rbind (add_net_long_at 0 (- 1) r1) (\<lambda>(crc_offset, r2).
     Inr (\<lparr>sh_peer = pk_src_addr pkt, sh_local = pk_dst_addr pkt, sh_source_port = source_port, sh_destination_port = destination_port,
       sh_tag_offset = tag_offset, sh_crc_offset = crc_offset\<rparr>, r2, b4)))))))"

definition sctp_finish :: "sctp_head \<Rightarrow> sctp_work \<Rightarrow> (ip_send list \<times> sctp) res" where
  "sctp_finish h w =
     rbind (if sw_send_reply w
            then rbind (put_crc (sh_crc_offset h) (sw_reply w)) (\<lambda>r. Inr [sctp_transmit_packet (sh_peer h) (sh_local h) r])
            else Inr []) (\<lambda>outs.
     let t = sw_sctp w in
     Inr (outs, if sw_terminate w then t\<lparr>sctp_sessions := map_erase (sh_hash h) (sctp_sessions t)\<rparr> else t))"

definition sctp_work_new :: "sctp \<Rightarrow> buffer_out \<Rightarrow> u32 list \<Rightarrow> sctp_work" where
  "sctp_work_new t reply0 rnds =
     \<lparr>sw_sctp = t, sw_reply = reply0, sw_terminate = False, sw_send_reply = True, sw_calls = [], sw_rnds = rnds\<rparr>"

text \<open>A round of \<open>operator()\<close>: out of range exceptions end the work on the packet.\<close>

definition sctp_handle :: "(byte list \<Rightarrow> byte list \<Rightarrow> byte list) \<Rightarrow> (app_call \<Rightarrow> bool) \<Rightarrow> u32 list \<Rightarrow> packet \<Rightarrow> sctp \<Rightarrow>
    (ip_send list \<times> app_call list \<times> sctp) res" where
  "sctp_handle hmac answer rnds pkt t =
     (if length (pk_data pkt) < 12 then Inr ([], [], t)
      else
        rbind (sctp_header pkt) (\<lambda>(h, reply0, b).
        case chunks_loop hmac answer h b (sctp_work_new t reply0 rnds) of
          (Throw (Out_of_range _), w) \<Rightarrow> Inr ([], sw_calls w, sw_sctp w)
        | (Throw e, w) \<Rightarrow> Inl e
        | (_, w) \<Rightarrow> rbind (sctp_finish h w) (\<lambda>(outs, t'). Inr (outs, sw_calls w, t'))))"

section \<open>Operations of the application\<close>

text \<open>
  One packet of \<open>send_data\<close>, and the loop over the payload: \<open>accepted\<close> are the results of the
  transmissions, in their order; a loop that still runs when they are used up has not returned.
\<close>

definition send_packet :: "int \<Rightarrow> buffer_in \<Rightarrow> sctp_session \<Rightarrow> (ip_send \<times> buffer_in \<times> sctp_session) res" where
  "send_packet mtu payload s =
     rbind (add_net_long_at 0 (- 1) (add_net_long (ss_their_verification_tag s) (add_net_short (ss_peer_port s) (add_net_short (ss_local_port s) []))))
       (\<lambda>(crc_offset, out).
     let n = min (get_n_bytes_left payload) (mtu - 50);
         out1 = add_net_long (ss_my_tsn s) (add_net_short (word_of_int (n + 16)) (add_net_byte 3 (add_net_byte 0 out)));
         s1 = inc_my_tsn 1 s;
         out2 = add_net_long 0 (add_net_short (ss_my_stream_sequence_nr s1) (add_net_short 0 out1));
         s2 = inc_my_stream_sequence_nr s1 in
     rbind (get_segment payload n) (\<lambda>(temp_payload, payload').
     rbind (add_buffer_in temp_payload out2) (\<lambda>(out3, _).
     rbind (add_padding 4 out3) (\<lambda>out4.
     rbind (put_crc crc_offset out4) (\<lambda>out5.
     Inr (sctp_transmit_packet (ss_peer s2) (ss_local s2) out5, payload', s2))))))"

fun send_loop :: "int \<Rightarrow> bool list \<Rightarrow> buffer_in \<Rightarrow> sctp_session \<Rightarrow> (bool \<times> ip_send list \<times> sctp_session) res" where
  "send_loop mtu [] payload s = (if end_reached payload then Inr (True, [], s) else Inl Diverges)"
| "send_loop mtu (a # accepted) payload s =
     (if end_reached payload then Inr (True, [], s)
      else
        rbind (send_packet mtu payload s) (\<lambda>(d, payload', s').
        if \<not> a then Inr (False, [d], s')
        else rbind (send_loop mtu accepted payload' s') (\<lambda>(ok, ds, s''). Inr (ok, d # ds, s''))))"

definition sctp_send_data :: "int \<Rightarrow> bool list \<Rightarrow> byte list \<Rightarrow> sctp_session \<Rightarrow> (bool \<times> ip_send list \<times> sctp_session) res" where
  "sctp_send_data mtu accepted data s = send_loop mtu accepted (buffer_in_new data (int (length data))) s"

definition sctp_end_session :: "sctp_session \<Rightarrow> ip_send res" where
  "sctp_end_session s =
     rbind (add_net_long_at 0 (- 1) (add_net_long (ss_their_verification_tag s) (add_net_short (ss_peer_port s) (add_net_short (ss_local_port s) []))))
       (\<lambda>(crc_offset, out).
     rbind (put_crc crc_offset (add_buffer_out chunk_gen_shutdown out)) (\<lambda>out'.
     Inr (sctp_transmit_packet (ss_peer s) (ss_local s) out')))"


section \<open>Every packet is handled\<close>

lemma safe_padding: "wf_in b \<Longrightarrow> safe (\<lambda>b'. wf_in b' \<and> left_of b' \<le> left_of b) (skip_padding len b)"
proof -
  assume b: "wf_in b"
  have "0 \<le> 4 - uint (len AND 3)" "4 - uint (len AND 3) \<le> 2 ^ 30" unfolding padding_mod by simp_all
  with b show ?thesis using safe_seek [of b "4 - uint (len AND 3)"] by (simp add: skip_padding_def Let_def)
qed

lemma uint_u16: "0 \<le> uint (len :: u16)" "uint len < 65536" "\<not> len < 4 \<Longrightarrow> 0 \<le> uint len - 4"
  using unsigned_less [where ?'b = 16 and ?'a = int, of len] by (simp_all add: word_less_def)

lemma safe_parameter: "wf_in b \<Longrightarrow> safe (\<lambda>(ty, v, b'). wf_in b') (get_parameter b)"
  unfolding get_parameter_def
  by (auto intro!: safe_bind [OF safe_short] safe_bind [OF safe_segment] safe_bind [OF safe_padding]
      simp: word_less_def less_imp_le [OF order_less_le_trans [OF uint_u16(2)]])

lemma safe_parameters: "wf_in b \<Longrightarrow> safe (\<lambda>_. True) (init_parameters b)"
proof (induction b rule: init_parameters.induct)
  case (1 b)
  show ?case
  proof (cases "end_reached b")
    case False
    from safe_cases [OF safe_parameter [OF "1.prems"]] show ?thesis
    proof
      assume "\<exists>a. get_parameter b = Inr a \<and> (case a of (ty, v, b') \<Rightarrow> wf_in b')"
      then obtain ty v b' where p: "get_parameter b = Inr (ty, v, b')" "wf_in b'" by auto
      from "1.IH" [OF False p(1) refl refl p(2)] False p(1) show ?thesis by (subst init_parameters.simps) simp
    next
      assume "\<exists>n. get_parameter b = Inl (Out_of_range n)"
      with False show ?thesis by (subst init_parameters.simps) auto
    qed
  qed (simp add: init_parameters.simps)
qed

text \<open>The hash has 28 octets, and there are enough random numbers for what is left of the packet.\<close>

definition hmac_ok :: "(byte list \<Rightarrow> byte list \<Rightarrow> byte list) \<Rightarrow> bool" where
  "hmac_ok hmac \<longleftrightarrow> (\<forall>k d. length (hmac k d) = 28)"

definition rnds_ok :: "nat \<Rightarrow> u32 list \<Rightarrow> bool" where
  "rnds_ok n rnds \<longleftrightarrow> n \<le> length rnds \<and> 0 \<notin> set rnds"

lemma state_cookie: "hmac_ok hmac \<Longrightarrow> generate_state_cookie hmac t peer pp lp a b c =
    Inr (cookie_fields t peer pp lp a b c @ hmac (state_cookie_key t) (cookie_fields t peer pp lp a b c))"
  by (simp add: generate_state_cookie_def hmac_ok_def add_buffer_def Let_def)

lemma init_ack_octets:
  "\<exists>k<4. init_ack tag wnd tsn cookie =
     Inr ([2, 0] @ bytes16 (of_nat (24 + length cookie)) @ bytes32 tag @ bytes32 wnd @ bytes16 1 @ bytes16 1 @ bytes32 tsn @
       bytes16 7 @ bytes16 (of_nat (4 + length cookie)) @ cookie @ replicate k 0) \<and> 4 dvd (length cookie + k)"
proof -
  let ?rest = "bytes32 tag @ bytes32 wnd @ bytes16 1 @ bytes16 1 @ bytes32 tsn @ bytes16 7 @ bytes16 (of_nat (4 + length cookie)) @ cookie"
  have "init_ack tag wnd tsn cookie = add_padding 4 ([2, 0] @ bytes16 (of_nat (24 + length cookie)) @ ?rest)"
    using put_short_at [of "of_nat (24 + length cookie)" "[2, 0]" 0 ?rest] by (simp add: init_ack_def get_size_def Let_def)
  moreover obtain k where "add_padding 4 ([2, 0] @ bytes16 (of_nat (24 + length cookie)) @ ?rest) =
      Inr (([2, 0] @ bytes16 (of_nat (24 + length cookie)) @ ?rest) @ replicate k 0)" "k < 4"
      "4 dvd length (([2, 0] @ bytes16 (of_nat (24 + length cookie)) @ ?rest) @ replicate k 0)"
    using add_padding_aligns [of 4 "[2, 0] @ bytes16 (of_nat (24 + length cookie)) @ ?rest"] by (auto simp: get_size_def)
  ultimately show ?thesis by (intro exI [of _ k]) (simp, presburger)
qed

lemma safe_chunk_init:
  assumes "wf_in b" and "hmac_ok hmac" and "rnds_ok (Suc n) rnds"
  shows "safe (\<lambda>(out, tag, rnds'). rnds_ok n rnds') (chunk_init hmac t b vt wnd peer pp lp rnds)"
proof -
  obtain r rnds' where r: "rnds = r # rnds'" "rnds_ok n rnds'" using assms(3) by (cases rnds) (auto simp: rnds_ok_def)
  have a: "\<exists>out. init_ack vt wnd tsn cookie = Inr out" for tsn cookie using init_ack_octets [of vt wnd tsn cookie] by blast
  show ?thesis
    unfolding chunk_init_def state_cookie [OF assms(2)]
    using assms(1) r a
    by (auto intro!: safe_bind [OF safe_long] safe_bind [OF safe_short] safe_bind [OF safe_parameters]) (metis rbind_simps(2) safe_simps(1) case_prod_conv)
qed

lemma safe_cookie_echo:
  "wf_in b \<Longrightarrow> hmac_ok hmac \<Longrightarrow> safe (\<lambda>_. True) (chunk_cookie_echo hmac t b peer pp lp)"
proof -
  assume b: "wf_in b" and h: "hmac_ok hmac"
  have n: "0 \<le> get_n_bytes_left b" "get_n_bytes_left b \<le> 2 ^ 30" using b by (auto simp: get_n_bytes_left_def wf_in_def)
  have c: "safe (\<lambda>_. True) (compare sc c)" if "wf_in c" for sc c using that by (simp add: compare_def peek_left)
  show ?thesis
    unfolding chunk_cookie_echo_def state_cookie [OF h]
    using b n by (auto intro!: safe_bind [OF safe_segment] safe_bind [OF safe_long] safe_bind [OF c])
qed


lemma sack_octets: "sack_chunk tsn = Inr ([3, 3] @ bytes16 16 @ bytes32 tsn @ bytes32 4096 @ bytes16 0 @ bytes16 0)"
  using put_short_at [of "16" "[3, 3]" 0 "bytes32 tsn @ bytes32 4096 @ bytes16 0 @ bytes16 0"] by (simp add: sack_chunk_def get_size_def Let_def)

lemma safe_chunk_data: "wf_in b \<Longrightarrow> safe (\<lambda>(r, out, s', calls). r \<noteq> dcb_abort) (chunk_data answer key s b)"
proof -
  assume b: "wf_in b"
  have n: "0 \<le> get_n_bytes_left b" "get_n_bytes_left b \<le> 2 ^ 30" if "wf_in b" for b using that by (auto simp: get_n_bytes_left_def wf_in_def)
  have "safe (\<lambda>(r, s', calls). r \<noteq> dcb_abort)
      (if tsn = ss_their_tsn s then rbind (get_segment b (get_n_bytes_left b)) (\<lambda>(temp, _). rbind (peek temp) (\<lambda>data.
         let call = New_data key data in Inr (if answer call then dcb_continue else dcb_close, inc_their_tsn 1 s, [call])))
       else Inr (dcb_continue, s, []))" if "wf_in b" for b tsn
    using that n [OF that] by (auto simp: peek_left Let_def intro!: safe_bind [OF safe_segment])
  note step = this
  show ?thesis
    unfolding chunk_data_def Let_def sack_octets
    using b step [unfolded Let_def] by (auto intro!: safe_bind [OF safe_long] safe_bind [OF safe_short] safe_bind [of "\<lambda>(r, s', calls). r \<noteq> dcb_abort"])
qed

lemma safe_heartbeat: "wf_in b \<Longrightarrow> safe (\<lambda>_. True) (chunk_heartbeat_request b)"
proof -
  assume "wf_in b"
  then obtain b' where a: "add_buffer_in b ([5, 0] @ bytes16 4) = Inr (([5, 0] @ bytes16 4) @ octets_left b, b')"
    using rd_add_buffer_in [of b "octets_left b" "[5, 0] @ bytes16 4"] by (auto simp: rd_def)
  obtain x where "add_padding 4 ([5, 0] @ bytes16 (of_nat (4 + length (octets_left b))) @ octets_left b) = Inr x" using add_padding_aligns [of 4] by fastforce
  with a show ?thesis
    using put_short_at [of "of_nat (4 + length (octets_left b))" "[5, 0]" 4 "octets_left b"] by (simp add: chunk_heartbeat_request_def get_size_def)
qed

text \<open>What the work on the chunks keeps; an exception is one of the standard library.\<close>

definition work_ok :: "nat \<Rightarrow> sctp_work \<Rightarrow> bool" where
  "work_ok n w \<longleftrightarrow> 12 \<le> length (sw_reply w) \<and> rnds_ok n (sw_rnds w)"

definition head_ok :: "sctp_head \<Rightarrow> bool" where
  "head_ok h \<longleftrightarrow> sh_tag_offset h = 4 \<and> sh_crc_offset h = 8"

definition fine :: "nat \<Rightarrow> chunk_flow \<times> sctp_work \<Rightarrow> bool" where
  "fine n r \<longleftrightarrow> work_ok n (snd r) \<and> (\<forall>e. fst r = Throw e \<longrightarrow> (\<exists>name. e = Out_of_range name))"

lemma fine_simps [simp]:
  "fine n (Go_on, w) \<longleftrightarrow> work_ok n w" "fine n (Leave, w) \<longleftrightarrow> work_ok n w" "fine n (Throw (Out_of_range name), w) \<longleftrightarrow> work_ok n w"
  by (simp_all add: fine_def)

lemma fine_attempt: "safe Q m \<Longrightarrow> work_ok n w \<Longrightarrow> (\<And>a. Q a \<Longrightarrow> fine n (k a)) \<Longrightarrow> fine n (attempt m w k)"
  using safe_cases [of Q m] by auto

lemma work_ok_mono: "work_ok n w \<Longrightarrow> m \<le> n \<Longrightarrow> work_ok m w"
  by (simp add: work_ok_def rnds_ok_def)

lemma work_ok_simps [simp]:
  "work_ok n (w\<lparr>sw_sctp := t\<rparr>) \<longleftrightarrow> work_ok n w" "work_ok n (w\<lparr>sw_terminate := c\<rparr>) \<longleftrightarrow> work_ok n w"
  "work_ok n (w\<lparr>sw_send_reply := c\<rparr>) \<longleftrightarrow> work_ok n w" "work_ok n (w\<lparr>sw_calls := cs\<rparr>) \<longleftrightarrow> work_ok n w"
  "work_ok n w \<Longrightarrow> work_ok n (put_reply r w)"
  by (simp_all add: work_ok_def put_reply_def)

lemma long_at_in_range:
  assumes "k + 4 \<le> length buf"
  shows "add_net_long_at l (int k) buf = Inr (int k, take k buf @ bytes32 l @ drop (k + 4) buf)"
proof -
  have "length (drop k buf) = Suc (Suc (Suc (Suc (length buf - k - 4))))" using assms by simp
  then obtain a b c d r where "drop k buf = a # b # c # d # r" unfolding length_Suc_conv by blast
  then have d: "drop k buf = bytes32 (mk32 a b c d) @ r" by (simp add: codec_simps)
  then have buf: "buf = take k buf @ bytes32 (mk32 a b c d) @ r" using append_take_drop_id [of k buf] by simp
  have "drop (k + 4) buf = drop 4 (drop k buf)" by (simp add: add.commute)
  then have r: "drop (k + 4) buf = r" unfolding d by simp
  have "length (take k buf) = k" using assms by simp
  then show ?thesis using put_long_at [of l "take k buf" "mk32 a b c d" r] r by (simp flip: buf)
qed

lemma fine_put_tag: "head_ok h \<Longrightarrow> work_ok n w \<Longrightarrow> \<exists>r. put_tag h tag w = (Go_on, w\<lparr>sw_reply := r\<rparr>) \<and> length r = length (sw_reply w)"
  using long_at_in_range [of 4 "sw_reply w" tag] 
  by (intro exI [of _ "take 4 (sw_reply w) @ bytes32 tag @ drop 8 (sw_reply w)"]) (simp add: put_tag_def head_ok_def work_ok_def)

lemma fine_on_data: "wf_in b \<Longrightarrow> head_ok h \<Longrightarrow> work_ok n w \<Longrightarrow> fine n (on_data answer h b w)"
proof -
  assume b: "wf_in b" and h: "head_ok h" and w: "work_ok n w"
  have tag: "fine n (put_tag h tag w)" if "work_ok n w" for tag w
    using fine_put_tag [OF h that, of tag] that by (auto simp: work_ok_def)
  show ?thesis
    using w unfolding on_data_def Let_def
    by (auto split: option.splits sctp_data_handling_result_t.splits intro!: fine_attempt [OF safe_chunk_data [OF b]] tag)
qed

lemma fine_on_init:
  assumes "wf_in b" and "head_ok h" and "hmac_ok hmac" and "work_ok (Suc (Suc n)) w"
  shows "fine n (on_init hmac h b w)"
proof -
  obtain r rnds where r: "sw_rnds w = r # rnds" "r \<noteq> 0" "rnds_ok (Suc n) rnds"
    using assms(4) by (cases "sw_rnds w") (auto simp: work_ok_def rnds_ok_def)
  have w: "work_ok n w" using assms(4) by (rule work_ok_mono) simp
  have "fine n (case put_tag h tag (w\<lparr>sw_rnds := rnds'\<rparr>) of
        (Go_on, w1) \<Rightarrow> if c then (Go_on, put_reply temp w1) else (Go_on, (put_reply chunk_gen_abort w1)\<lparr>sw_terminate := True\<rparr>)
      | x \<Rightarrow> x)" if "rnds_ok n rnds'" for tag rnds' c temp
  proof -
    have "work_ok n (w\<lparr>sw_rnds := rnds'\<rparr>)" using w that by (simp add: work_ok_def)
    from fine_put_tag [OF assms(2) this, of tag] this show ?thesis by (auto simp: work_ok_def put_reply_def)
  qed
  with r w show ?thesis
    unfolding on_init_def Let_def by (auto intro!: fine_attempt [OF safe_chunk_init [OF assms(1,3)]])
qed

lemma fine_on_cookie_echo:
  assumes "wf_in b" and "head_ok h" and "hmac_ok hmac" and "work_ok n w"
  shows "fine n (on_cookie_echo hmac h b w)"
proof -
  have tag: "fine n (put_tag h tag w)" if "work_ok n w" for tag w
    using fine_put_tag [OF assms(2) that, of tag] that by (auto simp: work_ok_def)
  show ?thesis
    unfolding on_cookie_echo_def Let_def using assms(4) by (auto intro!: fine_attempt [OF safe_cookie_echo [OF assms(1,3)]] tag)
qed

lemma fine_on_chunk:
  assumes "wf_in b" and "head_ok h" and "hmac_ok hmac" and "work_ok (Suc (Suc n)) w"
  shows "fine n (on_chunk hmac answer h ty b w)"
proof -
  have w: "work_ok n w" using assms(4) by (rule work_ok_mono) simp
  then show ?thesis
    using fine_on_data [OF assms(1,2) w] fine_on_init [OF assms] fine_on_cookie_echo [OF assms(1-3) w]
    by (auto simp: on_chunk_def intro!: fine_attempt [OF safe_heartbeat [OF assms(1)]])
qed

lemma safe_header: "wf_in b \<Longrightarrow> safe (\<lambda>(ty, fl, len, b'). wf_in b' \<and> left_of b' + 4 = left_of b) (chunk_header b)"
  unfolding chunk_header_def by (auto intro!: safe_bind [OF safe_byte] safe_bind [OF safe_short])

lemma chunks_loop_fine:
  assumes "head_ok h" and "hmac_ok hmac"
  shows "wf_in b \<Longrightarrow> work_ok (left_of b) w \<Longrightarrow> fine 0 (chunks_loop hmac answer h b w)"
proof (induction "left_of b" arbitrary: b w rule: less_induct)
  case less
  have w0: "work_ok 0 w" using less.prems(2) by (rule work_ok_mono) simp
  have rest: "fine 0 (attempt (skip_padding len b2) w' (\<lambda>b3. chunks_loop hmac answer h b3 w'))"
    if "wf_in b2" "left_of b2 + 4 \<le> left_of b" "work_ok (left_of b2) w'" for len b2 w'
  proof -
    note t = that
    have "work_ok 0 w'" using that(3) by (rule work_ok_mono) simp
    moreover have "fine 0 (chunks_loop hmac answer h b3 w')" if b3: "wf_in b3 \<and> left_of b3 \<le> left_of b2" for b3
      using less.hyps [of b3 w'] b3 t work_ok_mono [of "left_of b2" w' "left_of b3"] by auto
    ultimately show ?thesis by (intro fine_attempt [OF safe_padding [OF that(1)]])
  qed
  have chunk: "fine 0 (case on_chunk hmac answer h ty c w of (Go_on, w') \<Rightarrow> attempt (skip_padding len b2) w' (\<lambda>b3. chunks_loop hmac answer h b3 w') | r \<Rightarrow> r)"
    if "wf_in c" "wf_in b2" "left_of b2 + 4 \<le> left_of b" for ty c b2 len
  proof -
    obtain f w' where f: "on_chunk hmac answer h ty c w = (f, w')" by (cases "on_chunk hmac answer h ty c w")
    have "work_ok (Suc (Suc (left_of b2))) w" using less.prems(2) by (rule work_ok_mono) (use that(3) in simp)
    from fine_on_chunk [OF that(1) assms this, of answer ty] have fw: "fine (left_of b2) (f, w')" by (simp add: f)
    then have "fine 0 (f, w')" by (auto simp: fine_def intro: work_ok_mono)
    then show ?thesis using fw rest [OF that(2,3), of w' len] f by (cases f) (auto simp: fine_def)
  qed
  show ?case
  proof (cases "end_reached b")
    case False
    then show ?thesis
      using w0 less.prems(1) chunk
      by (subst chunks_loop.simps)
        (auto intro!: fine_attempt [OF safe_header] fine_attempt [OF safe_segment] simp: word_less_def less_imp_le [OF order_less_le_trans [OF uint_u16(2)]])
  qed (use w0 in \<open>simp add: chunks_loop.simps\<close>)
qed

definition head_of :: "packet \<Rightarrow> u16 \<Rightarrow> u16 \<Rightarrow> sctp_head" where
  "head_of pkt sp dp = \<lparr>sh_peer = pk_src_addr pkt, sh_local = pk_dst_addr pkt, sh_source_port = sp, sh_destination_port = dp,
     sh_tag_offset = 4, sh_crc_offset = 8\<rparr>"

lemma head_ok_of [simp]: "head_ok (head_of pkt sp dp)"
  by (simp add: head_ok_def head_of_def)

lemma header_at:
  assumes "pk_data pkt = bytes16 sp @ bytes16 dp @ bytes32 tag @ bytes32 crc @ rest" and "length (pk_data pkt) < 2 ^ 30"
  shows "\<exists>b. sctp_header pkt = Inr (head_of pkt sp dp, bytes16 dp @ bytes16 sp @ bytes32 (- 1) @ bytes32 0, b) \<and> rd b rest"
proof -
  obtain b1 b2 b3 b4 where "get_net_short (buffer_in_new (pk_data pkt) (int (length (pk_data pkt)))) = Inr (sp, b1)"
    "get_net_short b1 = Inr (dp, b2)" "get_net_long b2 = Inr (tag, b3)" "get_net_long b3 = Inr (crc, b4)" "rd b4 rest"
    using rd_new [OF assms(2)] assms(1) by (metis rd_short rd_long)
  then show ?thesis by (simp add: sctp_header_def head_of_def)
qed

lemma packet_split:
  assumes "12 \<le> length xs"
  obtains sp dp tag crc rest where "xs = bytes16 sp @ bytes16 dp @ bytes32 tag @ bytes32 crc @ rest" and "rest = drop 12 xs"
proof -
  have n: "(12 :: nat) = Suc (Suc (Suc (Suc (Suc (Suc (Suc (Suc (Suc (Suc (Suc (Suc 0)))))))))))" by simp
  obtain a b c d e f g h i j k l where "take 12 xs = [a, b, c, d, e, f, g, h, i, j, k, l]"
    using assms length_take [of 12 xs] unfolding n by (simp only: min.absorb2 length_Suc_conv length_0_conv) blast
  then have "xs = [a, b, c, d, e, f, g, h, i, j, k, l] @ drop 12 xs" by (metis append_take_drop_id)
  then show thesis
    by (intro that [of "mk16 a b" "mk16 c d" "mk32 e f g h" "mk32 i j k l" "drop 12 xs"]) (simp_all add: codec_simps)
qed

text \<open>
  C11. No packet makes the handler leave memory or fail otherwise: whatever the octets of a packet are, and
  whatever sessions and listeners there are, the handling ends, with a reply or not, provided the
  hash function gives its 28 octets and the random numbers are not zero.
\<close>

theorem sctp_handle_total:
  assumes "length (pk_data pkt) < 2 ^ 30" and "\<forall>k d. length (hmac k d) = 28" and "length (pk_data pkt) \<le> length rnds" and "0 \<notin> set rnds"
  shows "\<exists>outs calls t'. sctp_handle hmac answer rnds pkt t = Inr (outs, calls, t') \<and> length outs \<le> 1"
proof (cases "length (pk_data pkt) < 12")
  case False
  then obtain sp dp tag crc rest where p: "pk_data pkt = bytes16 sp @ bytes16 dp @ bytes32 tag @ bytes32 crc @ rest"
    using packet_split [of "pk_data pkt"] by (metis not_less)
  let ?h = "head_of pkt sp dp" and ?r = "bytes16 dp @ bytes16 sp @ bytes32 (- 1) @ bytes32 0"
  obtain b where h: "sctp_header pkt = Inr (?h, ?r, b)" "rd b rest" using header_at [OF p assms(1)] by blast
  have b: "wf_in b" "left_of b \<le> length (pk_data pkt)" using h(2) p by (auto simp: rd_def left_of_def)
  have "work_ok (left_of b) (sctp_work_new t ?r rnds)"
    using b assms(3,4) by (simp add: work_ok_def sctp_work_new_def rnds_ok_def)
  then have "fine 0 (chunks_loop hmac answer ?h b (sctp_work_new t ?r rnds))"
    using assms(2) by (intro chunks_loop_fine [OF head_ok_of _ b(1)]) (simp add: hmac_ok_def)
  moreover obtain f w where f: "chunks_loop hmac answer ?h b (sctp_work_new t ?r rnds) = (f, w)" by (meson surj_pair)
  ultimately have w: "12 \<le> length (sw_reply w)" and e: "\<forall>e. f = Throw e \<longrightarrow> (\<exists>n. e = Out_of_range n)" by (auto simp: fine_def work_ok_def)
  have "\<exists>outs t'. sctp_finish ?h w = Inr (outs, t') \<and> length outs \<le> 1"
    using long_at_in_range [of 8 "sw_reply w"] w by (auto simp: sctp_finish_def put_crc_def head_of_def Let_def)
  with e f h(1) False show ?thesis by (cases f) (auto simp: sctp_handle_def)
qed (simp add: sctp_handle_def)


theorem sctp_handle_total_witness:
  "\<exists>outs calls t'. sctp_handle (\<lambda>_ _. replicate 28 0) (\<lambda>_. True) (replicate 16 1)
     (packet_new (Addr AF_mac []) (Addr AF_ipv4 [10, 0, 0, 1]) (Addr AF_ipv4 [10, 0, 0, 2]) [0, 1, 0, 2, 0, 0, 0, 0, 0, 0, 0, 0, 1, 0, 0, 4] [] False)
     (sctp_new [] 0) = Inr (outs, calls, t') \<and> length outs \<le> 1"
  by (rule sctp_handle_total) (simp_all add: packet_new_def)

end
