(* ===== verification/Sctp_Association.thy ===== *)
theory Sctp_Association
  imports Sctp
begin

text \<open>
  What SCTP does with well-formed packets: the set-up of an association, and that no session comes into
  being without a cookie.
\<close>

unbundle bit_operations_syntax

section \<open>Packets that are well formed\<close>

text \<open>A chunk with its padding, and a packet with its checksum.\<close>

definition pad_octets :: "nat \<Rightarrow> byte list" where
  "pad_octets n = replicate ((4 - n mod 4) mod 4) 0"

definition chunk_octets :: "byte \<Rightarrow> byte \<Rightarrow> byte list \<Rightarrow> byte list" where
  "chunk_octets ty fl body = [ty, fl] @ bytes16 (of_nat (4 + length body)) @ body @ pad_octets (length body)"

definition sctp_octets :: "u16 \<Rightarrow> u16 \<Rightarrow> u32 \<Rightarrow> byte list \<Rightarrow> byte list" where
  "sctp_octets sp dp tag chunks =
     bytes16 sp @ bytes16 dp @ bytes32 tag @ bytes32 (generate_crc32c (bytes16 sp @ bytes16 dp @ bytes32 tag @ bytes32 0 @ chunks)) @ chunks"

lemma add_padding_pad: "add_padding 4 buf = Inr (buf @ pad_octets (length buf))"
  by (cases "length buf mod 4 = 0") (auto simp: add_padding_def pad_octets_def Let_def)

lemma pad_octets_4 [simp]: "pad_octets (4 + n) = pad_octets n" "pad_octets (Suc (Suc (Suc (Suc n)))) = pad_octets n"
  by (simp_all add: pad_octets_def)

lemma uint_len: "4 + n < 65536 \<Longrightarrow> uint (of_nat (4 + n) :: u16) = int (4 + n)"
  by (simp add: unsigned_of_nat take_bit_nat_eq_self del: of_nat_add)

lemma rd_padding:
  assumes "rd b (pad_octets n @ xs)" and "4 + n < 65536"
  shows "\<exists>b'. skip_padding (of_nat (4 + n)) b = Inr b' \<and> rd b' xs"
proof -
  have u: "uint (of_nat (4 + n) AND 3 :: u16) = int (n mod 4)"
    by (simp only: padding_mod uint_len [OF assms(2)]) (simp add: zmod_int)
  show ?thesis
  proof (cases "n mod 4 = 0")
    case True
    then have "uint (of_nat (4 + n) AND 3 :: u16) = 0" using u by (simp only: of_nat_0)
    then have "of_nat (4 + n) AND (3 :: u16) = 0" by (simp only: uint_0_iff)
    with True assms(1) show ?thesis by (simp add: skip_padding_def pad_octets_def del: of_nat_add)
  next
    case False
    then have nz: "of_nat (4 + n) AND (3 :: u16) \<noteq> 0" using u by (auto simp del: of_nat_add)
    have "int (length (pad_octets n)) = 4 - int (n mod 4)" using False by (simp add: pad_octets_def of_nat_diff less_imp_le)
    with rd_seek [OF assms(1)] nz u show ?thesis by (simp add: skip_padding_def del: of_nat_add)
  qed
qed

lemma chunks_loop_chunk:
  assumes "rd b (chunk_octets ty fl body @ rest)" and "4 + length body < 65536"
  shows "\<exists>c b'. rd c body \<and> buffer_in_copy c = c \<and> rd b' rest \<and>
    chunks_loop hmac answer h b w = (case on_chunk hmac answer h ty c w of (Go_on, w') \<Rightarrow> chunks_loop hmac answer h b' w' | r \<Rightarrow> r)"
proof -
  let ?len = "of_nat (4 + length body) :: u16"
  have u: "uint ?len = int (4 + length body)" by (rule uint_len [OF assms(2)])
  obtain b1 where b1: "chunk_header b = Inr (ty, fl, ?len, b1)" "rd b1 (body @ pad_octets (length body) @ rest)"
    using assms(1) unfolding chunk_octets_def chunk_header_def by (auto dest!: rd_byte rd_short simp del: of_nat_add)
  obtain c b2 where c: "get_segment b1 (int (length body)) = Inr (c, b2)" "rd c body" "buffer_in_copy c = c" "rd b2 (pad_octets (length body) @ rest)"
    using rd_segment [OF b1(2)] by blast
  obtain b3 where b3: "skip_padding ?len b2 = Inr b3" "rd b3 rest" using rd_padding [OF c(4) assms(2)] by blast
  have "\<not> end_reached b" using rd_end [OF assms(1)] by (simp add: chunk_octets_def)
  moreover have "\<not> ?len < 4" using u by (simp add: word_less_def)
  moreover have "uint ?len - 4 = int (length body)" using u by simp
  ultimately have "chunks_loop hmac answer h b w = (case on_chunk hmac answer h ty c w of (Go_on, w') \<Rightarrow> chunks_loop hmac answer h b3 w' | r \<Rightarrow> r)"
    using b1(1) c(1) b3(1) by (subst chunks_loop.simps) (auto simp del: of_nat_add split: chunk_flow.splits prod.splits)
  with c b3 show ?thesis by blast
qed

lemma chunks_loop_end: "rd b [] \<Longrightarrow> chunks_loop hmac answer h b w = (Go_on, w)"
  using rd_end [of b "[]"] by (simp add: chunks_loop.simps)

lemma put_tag_at:
  "sh_tag_offset h = 4 \<Longrightarrow> sw_reply w = bytes16 x @ bytes16 y @ bytes32 z @ rest \<Longrightarrow>
   put_tag h tag w = (Go_on, w\<lparr>sw_reply := bytes16 x @ bytes16 y @ bytes32 tag @ rest\<rparr>)"
  using put_long_at [of tag "bytes16 x @ bytes16 y" z rest] by (simp add: put_tag_def)

lemma sctp_finish_at:
  assumes "sh_crc_offset h = 8" and "sw_reply w = bytes16 x @ bytes16 y @ bytes32 tag @ bytes32 0 @ chunks" and "sw_send_reply w" and "\<not> sw_terminate w"
  shows "sctp_finish h w = Inr ([sctp_transmit_packet (sh_peer h) (sh_local h) (sctp_octets x y tag chunks)], sw_sctp w)"
  using assms put_long_at [of "generate_crc32c (sw_reply w)" "bytes16 x @ bytes16 y @ bytes32 tag" 0 chunks]
  by (simp add: sctp_finish_def put_crc_def sctp_octets_def)

text \<open>A packet with one chunk.\<close>

lemma sctp_handle_chunk:
  assumes "pk_data pkt = bytes16 sp @ bytes16 dp @ bytes32 tag @ bytes32 crc @ chunk_octets ty fl body" and "length (pk_data pkt) < 2 ^ 30"
    and "4 + length body < 65536"
    and "\<And>c. rd c body \<Longrightarrow> buffer_in_copy c = c \<Longrightarrow>
      on_chunk hmac answer (head_of pkt sp dp) ty c (sctp_work_new t (bytes16 dp @ bytes16 sp @ bytes32 (- 1) @ bytes32 0) rnds) = (Go_on, w)"
  shows "sctp_handle hmac answer rnds pkt t = rbind (sctp_finish (head_of pkt sp dp) w) (\<lambda>(outs, t'). Inr (outs, sw_calls w, t'))"
proof -
  obtain b where b: "sctp_header pkt = Inr (head_of pkt sp dp, bytes16 dp @ bytes16 sp @ bytes32 (- 1) @ bytes32 0, b)"
    "rd b (chunk_octets ty fl body @ [])" using header_at [OF assms(1,2)] by auto
  have "12 \<le> length (pk_data pkt)" using assms(1) by simp
  moreover obtain c b' where "rd c body" "buffer_in_copy c = c" "rd b' []"
    "chunks_loop hmac answer (head_of pkt sp dp) b (sctp_work_new t (bytes16 dp @ bytes16 sp @ bytes32 (- 1) @ bytes32 0) rnds) =
      (case on_chunk hmac answer (head_of pkt sp dp) ty c (sctp_work_new t (bytes16 dp @ bytes16 sp @ bytes32 (- 1) @ bytes32 0) rnds) of
         (Go_on, w') \<Rightarrow> chunks_loop hmac answer (head_of pkt sp dp) b' w' | r \<Rightarrow> r)"
    using chunks_loop_chunk [OF b(2) assms(3)] by blast
  ultimately show ?thesis using assms(4) b(1) by (simp add: sctp_handle_def chunks_loop_end)
qed


section \<open>Setting up an association\<close>

text \<open>The parameters of an INIT.\<close>

definition param_octets :: "u16 \<times> byte list \<Rightarrow> byte list" where
  "param_octets p = bytes16 (fst p) @ bytes16 (of_nat (4 + length (snd p))) @ snd p @ pad_octets (length (snd p))"

lemma init_parameters_at:
  "rd b (concat (map param_octets ps)) \<Longrightarrow> \<forall>p\<in>set ps. 4 + length (snd p) < 65536 \<Longrightarrow> init_parameters b = Inr ()"
proof (induction ps arbitrary: b)
  case Nil
  then show ?case using rd_end [of b "[]"] by (simp add: init_parameters.simps)
next
  case (Cons p ps)
  let ?v = "snd p" and ?r = "concat (map param_octets ps)" let ?len = "of_nat (4 + length ?v) :: u16"
  have l: "4 + length ?v < 65536" using Cons.prems(2) by simp
  have "rd b (bytes16 (fst p) @ bytes16 ?len @ ?v @ pad_octets (length ?v) @ ?r)" using Cons.prems(1) by (simp add: param_octets_def [of p])
  then obtain b1 b2 where b: "get_net_short b = Inr (fst p, b1)" "get_net_short b1 = Inr (?len, b2)" "rd b2 (?v @ pad_octets (length ?v) @ ?r)"
    by (metis rd_short)
  obtain c b3 b4 where c: "get_segment b2 (int (length ?v)) = Inr (c, b3)" "skip_padding ?len b3 = Inr b4" "rd b4 ?r"
    using rd_segment [OF b(3)] rd_padding [OF _ l] by blast
  have "\<not> ?len < 4" "uint ?len - 4 = int (length ?v)" using uint_len [OF l] by (simp_all add: word_less_def del: of_nat_add)
  then have "get_parameter b = Inr (fst p, c, b4)" using b c by (simp add: get_parameter_def del: of_nat_add)
  moreover have "\<not> end_reached b" using rd_end [OF Cons.prems(1)] by (simp add: param_octets_def [of p] bytes16_def)
  ultimately show ?case using Cons.IH [OF c(3)] Cons.prems(2) by (subst init_parameters.simps) simp
qed

definition init_body :: "u32 \<Rightarrow> u32 \<Rightarrow> u16 \<Rightarrow> u16 \<Rightarrow> u32 \<Rightarrow> (u16 \<times> byte list) list \<Rightarrow> byte list" where
  "init_body tag rwnd outs_n ins tsn ps = bytes32 tag @ bytes32 rwnd @ bytes16 outs_n @ bytes16 ins @ bytes32 tsn @ concat (map param_octets ps)"

text \<open>The answer to it: with the tag, the first sequence number and the cookie.\<close>

definition init_ack_body :: "u32 \<Rightarrow> u32 \<Rightarrow> byte list \<Rightarrow> byte list" where
  "init_ack_body tag tsn cookie = bytes32 tag @ bytes32 4096 @ bytes16 1 @ bytes16 1 @ bytes32 tsn @ bytes16 7 @ bytes16 (of_nat (4 + length cookie)) @ cookie"

lemma init_ack_chunk: "init_ack tag 4096 tsn cookie = Inr (chunk_octets 2 0 (init_ack_body tag tsn cookie))"
proof -
  let ?rest = "init_ack_body tag tsn cookie"
  have l: "length ?rest = 20 + length cookie" by (simp add: init_ack_body_def)
  have "init_ack tag 4096 tsn cookie = add_padding 4 ([2, 0] @ bytes16 (of_nat (4 + length ?rest)) @ ?rest)"
    using put_short_at [of "of_nat (4 + length ?rest)" "[2, 0]" 0 ?rest] l by (simp add: init_ack_def get_size_def Let_def init_ack_body_def)
  then show ?thesis by (simp add: add_padding_pad chunk_octets_def del: of_nat_add)
qed

definition state_cookie_of :: "(byte list \<Rightarrow> byte list \<Rightarrow> byte list) \<Rightarrow> sctp \<Rightarrow> addr \<Rightarrow> u16 \<Rightarrow> u16 \<Rightarrow> u32 \<Rightarrow> u32 \<Rightarrow> u32 \<Rightarrow> byte list" where
  "state_cookie_of hmac t peer pp lp vtag ptsn ltsn =
     (let f = cookie_fields t peer (uint pp) (uint lp) vtag ptsn ltsn in f @ hmac (state_cookie_key t) f)"

lemma chunk_init_at:
  assumes "rd b (init_body tag rwnd outs_n ins tsn ps)" and "\<forall>p\<in>set ps. 4 + length (snd p) < 65536" and "hmac_ok hmac"
  shows "chunk_init hmac t b vt 4096 peer (uint pp) (uint lp) (r # rnds) =
    Inr (chunk_octets 2 0 (init_ack_body vt r (state_cookie_of hmac t peer pp lp tag tsn r)), tag, rnds)"
proof -
  let ?ps = "concat (map param_octets ps)"
  obtain b1 where 1: "get_net_long b = Inr (tag, b1)" "rd b1 (bytes32 rwnd @ bytes16 outs_n @ bytes16 ins @ bytes32 tsn @ ?ps)"
    using rd_long [OF assms(1) [unfolded init_body_def]] by blast
  obtain b2 where 2: "get_net_long b1 = Inr (rwnd, b2)" "rd b2 (bytes16 outs_n @ bytes16 ins @ bytes32 tsn @ ?ps)" using rd_long [OF 1(2)] by blast
  obtain b3 where 3: "get_net_short b2 = Inr (outs_n, b3)" "rd b3 (bytes16 ins @ bytes32 tsn @ ?ps)" using rd_short [OF 2(2)] by blast
  obtain b4 where 4: "get_net_short b3 = Inr (ins, b4)" "rd b4 (bytes32 tsn @ ?ps)" using rd_short [OF 3(2)] by blast
  obtain b5 where 5: "get_net_long b4 = Inr (tsn, b5)" "rd b5 ?ps" using rd_long [OF 4(2)] by blast
  from init_parameters_at [OF 5(2) assms(2)] 1(1) 2(1) 3(1) 4(1) 5(1) show ?thesis
    by (simp add: chunk_init_def state_cookie [OF assms(3)] init_ack_chunk state_cookie_of_def Let_def)
qed

lemma on_init_at:
  assumes "rd b (init_body tag rwnd outs_n ins tsn ps)" and "\<forall>p\<in>set ps. 4 + length (snd p) < 65536" and "hmac_ok hmac"
    and "sctp_listeners t (uint dp) = Some ph" and "vt \<noteq> 0"
  shows "on_init hmac (head_of pkt sp dp) b (sctp_work_new t (bytes16 dp @ bytes16 sp @ bytes32 (- 1) @ bytes32 0) (vt # r # rnds)) =
    (Go_on, sctp_work_new t (bytes16 dp @ bytes16 sp @ bytes32 tag @ bytes32 0 @
      chunk_octets 2 0 (init_ack_body vt r (state_cookie_of hmac t (pk_src_addr pkt) sp dp tag tsn r))) rnds)"
proof -
  have h: "sh_peer (head_of pkt sp dp) = pk_src_addr pkt" "sh_source_port (head_of pkt sp dp) = sp" "sh_destination_port (head_of pkt sp dp) = dp"
    "sh_tag_offset (head_of pkt sp dp) = 4" by (simp_all add: head_of_def)
  show ?thesis
    using chunk_init_at [OF assms(1-3), of t vt "pk_src_addr pkt" sp dp r rnds] assms(4,5) put_tag_at [OF h(4), of _ dp sp "- 1" "bytes32 0" tag]
    by (simp add: on_init_def h sctp_work_new_def put_reply_def Let_def)
qed


lemma cookie_fields_octets:
  "cookie_fields t peer pp lp vtag ptsn ltsn = bytes32 vtag @ bytes32 ptsn @ bytes32 ltsn @ [of_nat (length (octets peer))] @ octets peer @
     bytes16 (word_of_int pp) @ bytes16 (word_of_int lp) @ bytes32 (word_of_int (state_cookie_key_timestamp t))"
  by (simp add: cookie_fields_def)

text \<open>A cookie is accepted exactly if it is the one of this peer and these ports for the numbers in it.\<close>

lemma chunk_cookie_echo_at:
  assumes "rd b xs" and "hmac_ok hmac" and "xs = bytes32 vtag @ bytes32 ptsn @ bytes32 ltsn @ rest"
  shows "chunk_cookie_echo hmac t b peer (uint pp) (uint lp) = Inr (xs = state_cookie_of hmac t peer pp lp vtag ptsn ltsn, vtag, ptsn, ltsn)"
proof -
  obtain c b' where c: "get_segment b (int (length xs)) = Inr (c, b')" "rd c xs" "buffer_in_copy c = c" using rd_segment [of b xs "[]"] assms(1) by auto
  obtain t1 where 1: "get_net_long c = Inr (vtag, t1)" "rd t1 (bytes32 ptsn @ bytes32 ltsn @ rest)" using rd_long [OF c(2) [unfolded assms(3)]] by blast
  obtain t2 where 2: "get_net_long t1 = Inr (ptsn, t2)" "rd t2 (bytes32 ltsn @ rest)" using rd_long [OF 1(2)] by blast
  obtain t3 where 3: "get_net_long t2 = Inr (ltsn, t3)" using rd_long [OF 2(2)] by blast
  from c(1,3) 1(1) 2(1) 3 show ?thesis
    by (simp add: chunk_cookie_echo_def rd_n_left [OF assms(1)] state_cookie [OF assms(2)] compare_def rd_peek [OF c(2)] state_cookie_of_def Let_def)
qed

lemma on_cookie_echo_at:
  assumes "rd b (state_cookie_of hmac t (pk_src_addr pkt) sp dp vtag ptsn ltsn)" and "hmac_ok hmac"
    and "sctp_listeners t (uint dp) = Some ph" "ph_new_session ph" and "map_of (sctp_sessions t) (session_hash (pk_src_addr pkt) sp dp) = None"
  shows "on_cookie_echo hmac (head_of pkt sp dp) b (sctp_work_new t (bytes16 dp @ bytes16 sp @ bytes32 (- 1) @ bytes32 0) rnds) =
    (Go_on, \<lparr>sw_sctp = t\<lparr>sctp_sessions := map_insert (session_hash (pk_src_addr pkt) sp dp)
       (sctp_session_new (pk_src_addr pkt) sp (pk_dst_addr pkt) dp ptsn ltsn vtag) (sctp_sessions t)\<rparr>,
     sw_reply = bytes16 dp @ bytes16 sp @ bytes32 vtag @ bytes32 0 @ chunk_gen_cookie_ack, sw_terminate = False, sw_send_reply = True,
     sw_calls = [New_session (session_hash (pk_src_addr pkt) sp dp)], sw_rnds = rnds\<rparr>)"
proof -
  let ?xs = "state_cookie_of hmac t (pk_src_addr pkt) sp dp vtag ptsn ltsn" and ?h = "head_of pkt sp dp"
  obtain rest where "?xs = bytes32 vtag @ bytes32 ptsn @ bytes32 ltsn @ rest" by (simp add: state_cookie_of_def cookie_fields_octets Let_def)
  from chunk_cookie_echo_at [OF assms(1,2) this, of t "pk_src_addr pkt" sp dp]
  have ok: "chunk_cookie_echo hmac t b (pk_src_addr pkt) (uint sp) (uint dp) = Inr (True, vtag, ptsn, ltsn)" by simp
  have h: "sh_peer ?h = pk_src_addr pkt" "sh_local ?h = pk_dst_addr pkt" "sh_source_port ?h = sp" "sh_destination_port ?h = dp" "sh_tag_offset ?h = 4"
    by (simp_all add: head_of_def)
  show ?thesis
    using put_tag_at [OF h(5), of _ dp sp "- 1" "bytes32 0 @ chunk_gen_cookie_ack" vtag] ok assms(3-5)
    by (simp add: on_cookie_echo_def h sh_hash_def sctp_work_new_def put_reply_def Let_def)
qed

lemma sctp_cookie_echo:
  assumes "pk_data p = bytes16 pp @ bytes16 lp @ bytes32 vt @ bytes32 crc @ chunk_octets 10 fl (state_cookie_of hmac t (pk_src_addr p) pp lp vtag ptsn ltsn)"
    and "length (octets (pk_src_addr p)) \<le> 16" and "\<forall>k d. length (hmac k d) = 28"
    and "sctp_listeners t (uint lp) = Some ph" "ph_new_session ph" and "map_of (sctp_sessions t) (session_hash (pk_src_addr p) pp lp) = None"
  shows "sctp_handle hmac answer rnds p t =
    Inr ([sctp_transmit_packet (pk_src_addr p) (pk_dst_addr p) (sctp_octets lp pp vtag chunk_gen_cookie_ack)],
      [New_session (session_hash (pk_src_addr p) pp lp)],
      t\<lparr>sctp_sessions := map_insert (session_hash (pk_src_addr p) pp lp)
        (sctp_session_new (pk_src_addr p) pp (pk_dst_addr p) lp ptsn ltsn vtag) (sctp_sessions t)\<rparr>)"
proof -
  let ?c = "state_cookie_of hmac t (pk_src_addr p) pp lp vtag ptsn ltsn" and ?h = "head_of p pp lp"
  have hm: "hmac_ok hmac" using assms(3) by (simp add: hmac_ok_def)
  have "length ?c \<le> 61 + 28" using assms(2,3) by (simp add: state_cookie_of_def cookie_fields_octets Let_def)
  then have l: "4 + length ?c < 65536" "length (pk_data p) < 2 ^ 30" using assms(1) by (simp_all add: chunk_octets_def pad_octets_def)
  note w = on_cookie_echo_at [OF _ hm assms(4-6)]
  show ?thesis
    by (subst sctp_handle_chunk [OF assms(1) l(2,1), of hmac answer t rnds])
      (simp add: on_chunk_def, rule w, assumption,
       subst sctp_finish_at [of ?h _ lp pp vtag chunk_gen_cookie_ack], simp_all add: head_of_def)
qed

text \<open>
  C9. An association is set up by two exchanges, and none of the first leaves a trace: an INIT to a port
  with a listener, with any parameters, is answered by an INIT ACK with the tag of the peer, a tag and a
  sequence number of our own and a cookie, and changes nothing; the COOKIE ECHO with that cookie, also after
  other packets have changed the sessions, makes the session with exactly the numbers of the INIT and
  the INIT ACK, calls the application, and is acknowledged.
\<close>

theorem sctp_association:
  assumes "\<forall>k d. length (hmac k d) = 28" and "length (octets (pk_src_addr p1)) \<le> 16"
    and "pk_data p1 = bytes16 pp @ bytes16 lp @ bytes32 0 @ bytes32 crc @ chunk_octets 1 fl (init_body vtag rwnd outs_n ins ptsn ps)"
    and "length (pk_data p1) < 65536" and "\<forall>p\<in>set ps. 4 + length (snd p) < 65536"
    and "sctp_listeners t (uint lp) = Some ph" and "ph_new_session ph" and "vt \<noteq> 0"
  shows "\<exists>cookie. sctp_handle hmac answer (vt # ltsn # rnds) p1 t =
      Inr ([sctp_transmit_packet (pk_src_addr p1) (pk_dst_addr p1) (sctp_octets lp pp vtag (chunk_octets 2 0 (init_ack_body vt ltsn cookie)))], [], t) \<and>
    (\<forall>p2 crc' fl' t2. pk_data p2 = bytes16 pp @ bytes16 lp @ bytes32 vt @ bytes32 crc' @ chunk_octets 10 fl' cookie \<and>
       pk_src_addr p2 = pk_src_addr p1 \<and> pk_dst_addr p2 = pk_dst_addr p1 \<and>
       state_cookie_key t2 = state_cookie_key t \<and> state_cookie_key_timestamp t2 = state_cookie_key_timestamp t \<and>
       sctp_listeners t2 (uint lp) = Some ph \<and> map_of (sctp_sessions t2) (session_hash (pk_src_addr p1) pp lp) = None \<longrightarrow>
       sctp_handle hmac answer rnds p2 t2 =
         Inr ([sctp_transmit_packet (pk_src_addr p1) (pk_dst_addr p1) (sctp_octets lp pp vtag chunk_gen_cookie_ack)],
           [New_session (session_hash (pk_src_addr p1) pp lp)],
           t2\<lparr>sctp_sessions := map_insert (session_hash (pk_src_addr p1) pp lp)
             (sctp_session_new (pk_src_addr p1) pp (pk_dst_addr p1) lp ptsn ltsn vtag) (sctp_sessions t2)\<rparr>))"
proof -
  have hm: "hmac_ok hmac" using assms(1) by (simp add: hmac_ok_def)
  let ?c = "state_cookie_of hmac t (pk_src_addr p1) pp lp vtag ptsn ltsn" and ?h = "head_of p1 pp lp"
  let ?w = "sctp_work_new t (bytes16 lp @ bytes16 pp @ bytes32 vtag @ bytes32 0 @ chunk_octets 2 0 (init_ack_body vt ltsn ?c)) rnds"
  have l: "4 + length (init_body vtag rwnd outs_n ins ptsn ps) < 65536" "length (pk_data p1) < 2 ^ 30"
    using assms(3,4) by (simp_all add: chunk_octets_def)
  have "sctp_handle hmac answer (vt # ltsn # rnds) p1 t = rbind (sctp_finish ?h ?w) (\<lambda>(outs, t'). Inr (outs, sw_calls ?w, t'))"
    using on_init_at [OF _ assms(5) hm assms(6,8)] by (intro sctp_handle_chunk [OF assms(3) l(2,1)]) (simp add: on_chunk_def)
  then have 1: "sctp_handle hmac answer (vt # ltsn # rnds) p1 t =
      Inr ([sctp_transmit_packet (pk_src_addr p1) (pk_dst_addr p1) (sctp_octets lp pp vtag (chunk_octets 2 0 (init_ack_body vt ltsn ?c)))], [], t)"
    using sctp_finish_at [of ?h ?w lp pp vtag "chunk_octets 2 0 (init_ack_body vt ltsn ?c)"] by (simp add: sctp_work_new_def head_of_def)
  from 1 show ?thesis
    using sctp_cookie_echo [OF _ _ assms(1) _ assms(7)] assms(2) by (intro exI [of _ ?c]) (simp add: state_cookie_of_def cookie_fields_octets)
qed


definition example_host :: sctp where
  "example_host = (sctp_new [1, 2, 3] 0)\<lparr>sctp_listeners := [7 \<mapsto>
     \<lparr>ph_init = True, ph_new_session = True, ph_new_data = True, ph_session_closed_1 = True, ph_session_closed_2 = True\<rparr>]\<rparr>"

definition example_init :: packet where
  "example_init = packet_new (Addr AF_mac []) (Addr AF_ipv4 [10, 0, 0, 1]) (Addr AF_ipv4 [10, 0, 0, 2])
     (bytes16 5000 @ bytes16 7 @ bytes32 0 @ bytes32 0 @ chunk_octets 1 0 (init_body 11 65535 1 1 22 [(32773, [0, 5])])) [] False"

theorem sctp_association_witness:
  "\<exists>cookie. sctp_handle (\<lambda>_ _. replicate 28 0) (\<lambda>_. True) [33, 44] example_init example_host =
     Inr ([sctp_transmit_packet (Addr AF_ipv4 [10, 0, 0, 1]) (Addr AF_ipv4 [10, 0, 0, 2])
       (sctp_octets 7 5000 11 (chunk_octets 2 0 (init_ack_body 33 44 cookie)))], [], example_host)"
  using sctp_association [of "\<lambda>_ _. replicate 28 0" example_init 5000 7 0 0 11 65535 1 1 22 "[(32773, [0, 5])]" example_host _ 33 "\<lambda>_. True" 44 "[]"]
  by (auto simp: example_init_def example_host_def packet_new_def chunk_octets_def init_body_def param_octets_def pad_octets_def)

section \<open>No session without a cookie\<close>

lemma put_tag_sctp [simp]: "sw_sctp (snd (put_tag h tag w)) = sw_sctp w"
  by (cases "add_net_long_at tag (sh_tag_offset h) (sw_reply w)") (auto simp: put_tag_def)

lemma put_reply_sctp [simp]: "sw_sctp (put_reply c w) = sw_sctp w"
  by (simp add: put_reply_def)

lemma attempt_sctp: "(\<And>a. m = Inr a \<Longrightarrow> P (sw_sctp (snd (k a)))) \<Longrightarrow> P (sw_sctp w) \<Longrightarrow> P (sw_sctp (snd (attempt m w k)))"
  by (cases m) simp_all

text \<open>
  The sessions of \<open>t'\<close> are those of \<open>t\<close>, with their addresses, ports and tags, but for one made by a
  cookie that is part of the octets \<open>xs\<close>.
\<close>

definition ss_ident :: "sctp_session \<Rightarrow> addr \<times> u16 \<times> addr \<times> u16 \<times> u32" where
  "ss_ident s = (ss_peer s, ss_peer_port s, ss_local s, ss_local_port s, ss_their_verification_tag s)"

definition from_cookie :: "(byte list \<Rightarrow> byte list \<Rightarrow> byte list) \<Rightarrow> sctp \<Rightarrow> sctp_head \<Rightarrow> byte list \<Rightarrow> sctp_session \<Rightarrow> bool" where
  "from_cookie hmac t h xs s \<longleftrightarrow>
     ss_peer s = sh_peer h \<and> ss_peer_port s = sh_source_port h \<and> ss_local s = sh_local h \<and> ss_local_port s = sh_destination_port h \<and>
     (\<exists>ptsn ltsn. sublist (state_cookie_of hmac t (sh_peer h) (sh_source_port h) (sh_destination_port h) (ss_their_verification_tag s) ptsn ltsn) xs)"

definition sessions_from :: "(byte list \<Rightarrow> byte list \<Rightarrow> byte list) \<Rightarrow> sctp \<Rightarrow> sctp_head \<Rightarrow> byte list \<Rightarrow> sctp \<Rightarrow> bool" where
  "sessions_from hmac t h xs t' \<longleftrightarrow>
     state_cookie_key t' = state_cookie_key t \<and> state_cookie_key_timestamp t' = state_cookie_key_timestamp t \<and> map_ok (sctp_sessions t') \<and>
     (\<forall>k s'. map_of (sctp_sessions t') k = Some s' \<longrightarrow>
       (\<exists>s. map_of (sctp_sessions t) k = Some s \<and> ss_ident s' = ss_ident s) \<or> k = sh_hash h \<and> from_cookie hmac t h xs s')"

lemma sessions_from_modify:
  assumes "sessions_from hmac t h xs t'" and "map_of (sctp_sessions t') k = Some s" and "ss_ident s' = ss_ident s"
  shows "sessions_from hmac t h xs (t'\<lparr>sctp_sessions := map_modify k s' (sctp_sessions t')\<rparr>)"
  using assms by (auto simp: sessions_from_def map_of_modify from_cookie_def ss_ident_def)

lemma chunk_data_ident: "chunk_data answer key s b = Inr (res, out, s', calls) \<Longrightarrow> ss_ident s' = ss_ident s"
  by (auto simp: chunk_data_def Let_def ss_ident_def inc_their_tsn_def split: if_splits)

lemma cookie_echo_ok:
  assumes "chunk_cookie_echo hmac t b peer (uint pp) (uint lp) = Inr (True, vtag, ptsn, ltsn)" and "rd b xs" and "hmac_ok hmac"
  shows "xs = state_cookie_of hmac t peer pp lp vtag ptsn ltsn"
proof -
  obtain c b' where c: "get_segment b (int (length xs)) = Inr (c, b')" "rd c xs" using rd_segment [of b xs "[]"] assms(2) by auto
  have "compare (state_cookie_of hmac t peer pp lp vtag ptsn ltsn) c = Inr True"
    using assms(1) c(1) by (auto simp: chunk_cookie_echo_def rd_n_left [OF assms(2)] state_cookie [OF assms(3)] state_cookie_of_def Let_def)
  then show ?thesis by (simp add: compare_def rd_peek [OF c(2)])
qed

lemma on_cookie_echo_from:
  assumes "sessions_from hmac t h xs (sw_sctp w)" and "rd b ys" and "sublist ys xs" and "hmac_ok hmac"
  shows "sessions_from hmac t h xs (sw_sctp (snd (on_cookie_echo hmac h b w)))"
proof -
  let ?t = "sw_sctp w"
  have "sessions_from hmac t h xs (?t\<lparr>sctp_sessions := map_insert (sh_hash h)
      (sctp_session_new (sh_peer h) (sh_source_port h) (sh_local h) (sh_destination_port h) ptsn ltsn vtag) (sctp_sessions ?t)\<rparr>)"
    if "chunk_cookie_echo hmac ?t b (sh_peer h) (uint (sh_source_port h)) (uint (sh_destination_port h)) = Inr (True, vtag, ptsn, ltsn)" for vtag ptsn ltsn
  proof -
    have "ys = state_cookie_of hmac ?t (sh_peer h) (sh_source_port h) (sh_destination_port h) vtag ptsn ltsn" using cookie_echo_ok [OF that assms(2,4)] .
    also have "\<dots> = state_cookie_of hmac t (sh_peer h) (sh_source_port h) (sh_destination_port h) vtag ptsn ltsn"
      using assms(1) by (simp add: sessions_from_def state_cookie_of_def cookie_fields_octets)
    finally have "from_cookie hmac t h xs (sctp_session_new (sh_peer h) (sh_source_port h) (sh_local h) (sh_destination_port h) ptsn ltsn vtag)"
      using assms(3) by (auto simp: from_cookie_def sctp_session_new_def)
    then show ?thesis using assms(1) by (auto simp: sessions_from_def map_of_insert)
  qed
  then show ?thesis
    unfolding on_cookie_echo_def Let_def using assms(1) by (auto intro!: attempt_sctp [where P = "sessions_from hmac t h xs"])
qed

lemma on_chunk_from:
  assumes "sessions_from hmac t h xs (sw_sctp w)" and "rd b ys" and "sublist ys xs" and "hmac_ok hmac"
  shows "sessions_from hmac t h xs (sw_sctp (snd (on_chunk hmac answer h ty b w)))"
proof -
  note P = attempt_sctp [where P = "sessions_from hmac t h xs"]
  have "sessions_from hmac t h xs (sw_sctp (snd (on_data answer h b w)))"
    unfolding on_data_def Let_def
    using assms(1) by (auto intro!: P sessions_from_modify dest: chunk_data_ident split: option.splits sctp_data_handling_result_t.splits)
  moreover have "sw_sctp (snd (on_init hmac h b w)) = sw_sctp w"
  proof -
    have "sw_sctp (snd (case put_tag h tag (w\<lparr>sw_rnds := rnds'\<rparr>) of
        (Go_on, w1) \<Rightarrow> if c then (Go_on, put_reply temp w1) else (Go_on, (put_reply chunk_gen_abort w1)\<lparr>sw_terminate := True\<rparr>)
      | x \<Rightarrow> x)) = sw_sctp w" for tag rnds' c temp
    proof -
      obtain f w1 where "put_tag h tag (w\<lparr>sw_rnds := rnds'\<rparr>) = (f, w1)" by (meson surj_pair)
      then show ?thesis using put_tag_sctp [of h tag "w\<lparr>sw_rnds := rnds'\<rparr>"] by (cases f) simp_all
    qed
    then show ?thesis unfolding on_init_def Let_def by (auto intro!: attempt_sctp [where P = "\<lambda>x. x = sw_sctp w"])
  qed
  ultimately show ?thesis
    using assms(1) on_cookie_echo_from [OF assms] by (auto simp: on_chunk_def intro!: P)
qed


text \<open>Behind every read there is a part of what was there before.\<close>

lemma skip_padding_left: "wf_in b \<Longrightarrow> skip_padding len b = Inr b' \<Longrightarrow> wf_in b' \<and> sublist (octets_left b') (octets_left b) \<and> left_of b' \<le> left_of b"
proof -
  assume b: "wf_in b" and s: "skip_padding len b = Inr b'"
  have n: "0 \<le> 4 - uint (len AND 3)" "4 - uint (len AND 3) \<le> 2 ^ 30" unfolding padding_mod by simp_all
  show ?thesis
    using s b seek_left [OF b n] wf_in_advance [OF b n(1)] octets_left_advance [OF b n(1)]
    by (auto simp: skip_padding_def Let_def left_of_def sublist_drop split: if_splits)
qed

lemma chunk_header_left:
  assumes "wf_in b" and "chunk_header b = Inr (ty, fl, len, b')"
  shows "wf_in b' \<and> sublist (octets_left b') (octets_left b) \<and> left_of b' + 4 = left_of b"
proof -
  obtain b1 b2 where r: "get_net_byte b = Inr (ty, b1)" "get_net_byte b1 = Inr (fl, b2)" "get_net_short b2 = Inr (len, b')"
    using assms(2) by (auto simp: chunk_header_def)
  have b1: "wf_in b1" "octets_left b1 = drop 1 (octets_left b)"
    using r(1) assms(1) by (cases "octets_left b"; auto simp: get_net_byte_Nil get_net_byte_Cons wf_in_advance octets_left_advance)+
  have b2: "wf_in b2" "octets_left b2 = drop 1 (octets_left b1)"
    using r(2) b1(1) by (cases "octets_left b1"; auto simp: get_net_byte_Nil get_net_byte_Cons wf_in_advance octets_left_advance)+
  have b3: "wf_in b'" "octets_left b' = drop 2 (octets_left b2)"
    using r(3) b2(1) by (auto simp: get_net_short_left wf_in_advance octets_left_advance split: list.splits)
  have "octets_left b' = drop 4 (octets_left b)" using b1(2) b2(2) b3(2) by simp
  then show ?thesis using b3(1) safe_header [OF assms(1)] assms(2) by (simp add: sublist_drop)
qed

lemma chunks_loop_from:
  assumes "hmac_ok hmac"
  shows "sessions_from hmac t h xs (sw_sctp w) \<Longrightarrow> wf_in b \<Longrightarrow> sublist (octets_left b) xs \<Longrightarrow>
    sessions_from hmac t h xs (sw_sctp (snd (chunks_loop hmac answer h b w)))"
proof (induction "left_of b" arbitrary: b w rule: less_induct)
  case less
  let ?P = "sessions_from hmac t h xs"
  note P = attempt_sctp [where P = ?P]
  have chunk: "?P (sw_sctp (snd (case on_chunk hmac answer h ty c w of
      (Go_on, w') \<Rightarrow> attempt (skip_padding len b2) w' (\<lambda>b3. chunks_loop hmac answer h b3 w') | r \<Rightarrow> r)))"
    if c: "wf_in c" "sublist (octets_left c) xs" and b2: "wf_in b2" "sublist (octets_left b2) xs" "left_of b2 < left_of b" for ty c b2 len
  proof -
    obtain f w' where f: "on_chunk hmac answer h ty c w = (f, w')" by (meson surj_pair)
    have w': "?P (sw_sctp w')" using on_chunk_from [OF less.prems(1) _ c(2) assms, of c answer ty] c(1) f by (simp add: rd_def)
    have "?P (sw_sctp (snd (attempt (skip_padding len b2) w' (\<lambda>b3. chunks_loop hmac answer h b3 w'))))"
    proof (rule P [OF _ w'])
      fix b3 assume "skip_padding len b2 = Inr b3"
      with skip_padding_left [OF b2(1)] have "wf_in b3" "sublist (octets_left b3) xs" "left_of b3 < left_of b"
        using b2(2,3) sublist_order.order_trans by fastforce+
      with less.hyps [OF _ w'] show "?P (sw_sctp (snd (chunks_loop hmac answer h b3 w')))" by blast
    qed
    with f w' show ?thesis by (cases f) simp_all
  qed
  have "?P (sw_sctp (snd (attempt (chunk_header b) w (\<lambda>(type, flags, len, b1).
        if len < 4 then (Leave, w\<lparr>sw_terminate := True\<rparr>)
        else attempt (get_segment b1 (uint len - 4)) w (\<lambda>(c, b2).
          case on_chunk hmac answer h type c w of
            (Go_on, w') \<Rightarrow> attempt (skip_padding len b2) w' (\<lambda>b3. chunks_loop hmac answer h b3 w')
          | r \<Rightarrow> r)))))"
  proof (rule P [OF _ less.prems(1)], goal_cases)
    case (1 a)
    obtain ty fl len b1 where a: "a = (ty, fl, len, b1)" by (cases a)
    have b1: "wf_in b1" "sublist (octets_left b1) xs" "left_of b1 < left_of b"
      using chunk_header_left [OF less.prems(2), of ty fl len b1] 1 a less.prems(3) sublist_order.order_trans by fastforce+
    have "?P (sw_sctp (snd (attempt (get_segment b1 (uint len - 4)) w (\<lambda>(c, b2).
          case on_chunk hmac answer h ty c w of (Go_on, w') \<Rightarrow> attempt (skip_padding len b2) w' (\<lambda>b3. chunks_loop hmac answer h b3 w') | r \<Rightarrow> r))))"
      if "\<not> len < 4"
    proof (rule P [OF _ less.prems(1)], goal_cases)
      case (1 s)
      obtain c b2 where s: "s = (c, b2)" by (cases s)
      have n: "0 \<le> uint len - 4" "uint len - 4 \<le> 2 ^ 30" using uint_u16(2) [of len] uint_u16(3) [OF that] by simp_all
      have "wf_in c" "wf_in b2" "octets_left c = take (nat (uint len - 4)) (octets_left b1)" "octets_left b2 = drop (nat (uint len - 4)) (octets_left b1)" "left_of b2 \<le> left_of b1"
        using safe_segment [OF b1(1) n] 1 s by simp_all
      then have "sublist (octets_left c) (octets_left b1)" "sublist (octets_left b2) (octets_left b1)" by (simp_all add: sublist_take sublist_drop)
      then show ?case
        using chunk b1 \<open>wf_in c\<close> \<open>wf_in b2\<close> \<open>left_of b2 \<le> left_of b1\<close> sublist_order.order_trans by (auto simp: s)
    qed
    then show ?case using less.prems(1) by (simp add: a)
  qed
  with less.prems(1) show ?case by (subst chunks_loop.simps) simp
qed

text \<open>
  C10. A session needs a cookie: if a packet leaves a session that was not there before, the packet
  contains a cookie with the hash, under the secret key, of the address and the ports the packet came from and
  goes to, and the session has the tag of that cookie; the sessions of others keep their addresses, ports and tags.
\<close>

theorem sctp_session_needs_cookie:
  assumes "\<forall>k d. length (hmac k d) = 28" and "length (pk_data pkt) < 2 ^ 30" and "map_ok (sctp_sessions t)"
    and "sctp_handle hmac answer rnds pkt t = Inr (outs, calls, t')" and "map_of (sctp_sessions t') k = Some s'"
  shows "(\<exists>s. map_of (sctp_sessions t) k = Some s \<and> ss_ident s' = ss_ident s) \<or>
    (\<exists>ptsn ltsn. k = session_hash (ss_peer s') (ss_peer_port s') (ss_local_port s') \<and> ss_peer s' = pk_src_addr pkt \<and>
      sublist (state_cookie_of hmac t (pk_src_addr pkt) (ss_peer_port s') (ss_local_port s') (ss_their_verification_tag s') ptsn ltsn) (pk_data pkt))"
proof (cases "length (pk_data pkt) < 12")
  case True
  with assms(4,5) show ?thesis by (auto simp: sctp_handle_def)
next
  case False
  then obtain sp dp tag crc rest where p: "pk_data pkt = bytes16 sp @ bytes16 dp @ bytes32 tag @ bytes32 crc @ rest"
    using packet_split [of "pk_data pkt"] by (metis not_less)
  let ?h = "head_of pkt sp dp" and ?r = "bytes16 dp @ bytes16 sp @ bytes32 (- 1) @ bytes32 0"
  obtain b where b: "sctp_header pkt = Inr (?h, ?r, b)" "wf_in b" "octets_left b = rest" using header_at [OF p assms(2)] by (auto simp: rd_def)
  obtain f w where f: "chunks_loop hmac answer ?h b (sctp_work_new t ?r rnds) = (f, w)" by (meson surj_pair)
  have "pk_data pkt = (bytes16 sp @ bytes16 dp @ bytes32 tag @ bytes32 crc) @ rest @ []" by (simp add: p)
  then have "sublist rest (pk_data pkt)" unfolding sublist_def by blast
  then have P: "sessions_from hmac t ?h (pk_data pkt) (sw_sctp w)"
    using chunks_loop_from [of hmac t ?h "pk_data pkt" "sctp_work_new t ?r rnds" b answer] assms(1,3) b f
    by (auto simp: hmac_ok_def sessions_from_def sctp_work_new_def)
  have "map_of (sctp_sessions (sw_sctp w)) k = Some s'"
    using assms(4,5) False b(1) f
    by (auto simp: sctp_handle_def sctp_finish_def Let_def map_of_erase split: chunk_flow.splits cpp_error.splits if_splits)
  with P have "(\<exists>s. map_of (sctp_sessions t) k = Some s \<and> ss_ident s' = ss_ident s) \<or> k = sh_hash ?h \<and> from_cookie hmac t ?h (pk_data pkt) s'"
    unfolding sessions_from_def by blast
  then show ?thesis by (auto simp: from_cookie_def sh_hash_def head_of_def)
qed


definition example_echo :: packet where
  "example_echo = packet_new (Addr AF_mac []) (Addr AF_ipv4 [10, 0, 0, 1]) (Addr AF_ipv4 [10, 0, 0, 2])
     (bytes16 5000 @ bytes16 7 @ bytes32 33 @ bytes32 0 @
       chunk_octets 10 0 (state_cookie_of (\<lambda>_ _. replicate 28 0) example_host (Addr AF_ipv4 [10, 0, 0, 1]) 5000 7 11 22 44)) [] False"

theorem sctp_session_needs_cookie_witness:
  "\<exists>ptsn ltsn. sublist (state_cookie_of (\<lambda>_ _. replicate 28 0) example_host (Addr AF_ipv4 [10, 0, 0, 1]) 5000 7 11 ptsn ltsn) (pk_data example_echo)"
proof -
  let ?hm = "\<lambda>_ _. replicate 28 0 :: byte list" and ?a = "Addr AF_ipv4 [10, 0, 0, 1]"
  let ?ph = "\<lparr>ph_init = True, ph_new_session = True, ph_new_data = True, ph_session_closed_1 = True, ph_session_closed_2 = True\<rparr>"
  have e: "pk_src_addr example_echo = ?a" "pk_data example_echo = bytes16 5000 @ bytes16 7 @ bytes32 33 @ bytes32 0 @
      chunk_octets 10 0 (state_cookie_of ?hm example_host (pk_src_addr example_echo) 5000 7 11 22 44)"
    by (simp_all add: example_echo_def packet_new_def)
  have l: "sctp_listeners example_host (uint (7 :: u16)) = Some ?ph" "ph_new_session ?ph" "sctp_sessions example_host = []"
    by (simp_all add: example_host_def sctp_new_def)
  let ?k = "session_hash (pk_src_addr example_echo) 5000 7" and ?s = "sctp_session_new (pk_src_addr example_echo) 5000 (pk_dst_addr example_echo) 7 22 44 11"
  have h: "sctp_handle ?hm (\<lambda>_. True) [] example_echo example_host =
    Inr ([sctp_transmit_packet (pk_src_addr example_echo) (pk_dst_addr example_echo) (sctp_octets 7 5000 11 chunk_gen_cookie_ack)],
      [New_session ?k], example_host\<lparr>sctp_sessions := map_insert ?k ?s (sctp_sessions example_host)\<rparr>)"
    by (rule sctp_cookie_echo [OF e(2) _ _ l(1,2)]) (simp_all add: e(1) l(3))
  have "length (pk_data example_echo) < 2 ^ 30" by (simp add: e chunk_octets_def state_cookie_of_def cookie_fields_octets pad_octets_def Let_def)
  from sctp_session_needs_cookie [OF _ this _ h, of ?k ?s] show ?thesis
    by (auto simp: l(3) e(1) sctp_session_new_def)
qed

end
