(* ===== verification/Sctp_Data.thy ===== *)
theory Sctp_Data
  imports Sctp_Association
begin

text \<open>
  The data of an SCTP association: the packets of \<open>send_data\<close> and what the peer hands to its application.
\<close>

unbundle bit_operations_syntax

section \<open>The packets of the data\<close>

text \<open>The packet of a piece of the data, and what is left of the session.\<close>

definition data_body :: "u32 \<Rightarrow> u16 \<Rightarrow> byte list \<Rightarrow> byte list" where
  "data_body tsn ssn piece = bytes32 tsn @ bytes16 0 @ bytes16 ssn @ bytes32 0 @ piece"

definition data_packet :: "sctp_session \<Rightarrow> byte list \<Rightarrow> ip_send" where
  "data_packet s piece = sctp_transmit_packet (ss_peer s) (ss_local s)
     (sctp_octets (ss_local_port s) (ss_peer_port s) (ss_their_verification_tag s)
       (chunk_octets 0 3 (data_body (ss_my_tsn s) (ss_my_stream_sequence_nr s) piece)))"

definition data_sent :: "sctp_session \<Rightarrow> sctp_session" where
  "data_sent s = inc_my_stream_sequence_nr (inc_my_tsn 1 s)"

fun data_packets :: "sctp_session \<Rightarrow> byte list list \<Rightarrow> ip_send list" where
  "data_packets s [] = []"
| "data_packets s (piece # ps) = data_packet s piece # data_packets (data_sent s) ps"

lemma put_crc_at: "put_crc 8 (bytes16 x @ bytes16 y @ bytes32 tag @ bytes32 0 @ chunks) = Inr (sctp_octets x y tag chunks)"
  using put_long_at [of "generate_crc32c (bytes16 x @ bytes16 y @ bytes32 tag @ bytes32 0 @ chunks)" "bytes16 x @ bytes16 y @ bytes32 tag" 0 chunks]
  by (simp add: put_crc_def sctp_octets_def)

lemma pad_octets_add: "4 dvd m \<Longrightarrow> pad_octets (m + n) = pad_octets n"
  by (auto simp: pad_octets_def)

lemma send_packet_at:
  assumes "rd payload (piece @ rest)" and "int (length piece) = min (int (length (piece @ rest))) (mtu - 50)"
  shows "\<exists>payload'. send_packet mtu payload s = Inr (data_packet s piece, payload', data_sent s) \<and> rd payload' rest"
proof -
  let ?n = "length piece"
  obtain c p' where c: "get_segment payload (int ?n) = Inr (c, p')" "rd c piece" "rd p' rest" using rd_segment [OF assms(1)] by blast
  have n: "min (get_n_bytes_left payload) (mtu - 50) = int ?n" unfolding rd_n_left [OF assms(1)] by (rule assms(2) [symmetric])
  have len: "of_nat ?n + 16 = (of_nat (4 + length (data_body (ss_my_tsn s) (ss_my_stream_sequence_nr s) piece)) :: u16)" by (simp add: data_body_def)
  let ?head = "bytes16 (ss_local_port s) @ bytes16 (ss_peer_port s) @ bytes32 (ss_their_verification_tag s) @ bytes32 0"
  let ?body = "data_body (ss_my_tsn s) (ss_my_stream_sequence_nr s) piece"
  have "pad_octets (length (?head @ [0, 3] @ bytes16 (of_nat (4 + length ?body)) @ ?body)) = pad_octets (length ?body)"
    using pad_octets_add [of 16 "length ?body"] by simp
  then have pad: "add_padding 4 (?head @ [0, 3] @ bytes16 (of_nat (4 + length ?body)) @ ?body) = Inr (?head @ chunk_octets 0 3 ?body)"
    by (simp add: add_padding_pad chunk_octets_def)
  let ?pre = "?head @ [0, 3] @ bytes16 (of_nat (4 + length ?body)) @ bytes32 (ss_my_tsn s) @ bytes16 0 @ bytes16 (ss_my_stream_sequence_nr s) @ bytes32 0"
  obtain c' where "add_buffer_in c ?pre = Inr (?pre @ piece, c')" using rd_add_buffer_in [OF c(2)] by blast
  moreover have "?pre @ piece = ?head @ [0, 3] @ bytes16 (of_nat (4 + length ?body)) @ ?body" by (simp add: data_body_def)
  ultimately have a: "add_buffer_in c ?pre = Inr (?head @ [0, 3] @ bytes16 (of_nat (4 + length ?body)) @ ?body, c')" by (simp only:)
  show ?thesis
    using c(1,3) a pad put_crc_at
    by (simp add: send_packet_def n len Let_def data_sent_def inc_my_tsn_def inc_my_stream_sequence_nr_def
        data_packet_def del: of_nat_add)
qed

lemma send_loop_packets:
  "rd payload xs \<Longrightarrow> 50 < mtu \<Longrightarrow> length xs \<le> length accepted \<Longrightarrow>
   \<exists>ok ps s'. send_loop mtu accepted payload s = Inr (ok, data_packets s ps, s') \<and> prefix (concat ps) xs \<and> (ok \<longrightarrow> concat ps = xs) \<and>
     length ps \<le> length xs \<and> (\<forall>p\<in>set ps. int (length p) \<le> mtu - 50)"
proof (induction accepted arbitrary: payload xs s)
  case Nil
  then show ?case using rd_end [of payload "[]"] by (intro exI [of _ True] exI [of _ "[]"]) auto
next
  case (Cons a accepted)
  show ?case
  proof (cases "xs = []")
    case True
    then show ?thesis using Cons.prems rd_end [of payload xs] by (intro exI [of _ True] exI [of _ "[]"]) auto
  next
    case False
    let ?n = "min (length xs) (nat (mtu - 50))"
    let ?p = "take ?n xs" and ?r = "drop ?n xs"
    have n: "0 < ?n" "length ?p = ?n" using False Cons.prems(2) by (simp_all)
    have "int (length ?p) = min (int (length (?p @ ?r))) (mtu - 50)" using Cons.prems(2) by (auto simp: min_def)
    with Cons.prems(1) obtain p' where p': "send_packet mtu payload s = Inr (data_packet s ?p, p', data_sent s)" "rd p' ?r"
      using send_packet_at [of payload ?p ?r mtu s] by auto
    have e: "\<not> end_reached payload" using rd_end [OF Cons.prems(1)] False by simp
    have small: "int (length ?p) \<le> mtu - 50" using Cons.prems(2) by (auto simp: min_def)
    show ?thesis
    proof (cases a)
      case True
      have "length ?r \<le> length accepted" using n(1) Cons.prems(3) by (simp only: length_drop length_Cons)
      from Cons.IH [OF p'(2) Cons.prems(2) this] obtain ok ps s' where i: "send_loop mtu accepted p' (data_sent s) = Inr (ok, data_packets (data_sent s) ps, s')"
        "prefix (concat ps) ?r" "ok \<longrightarrow> concat ps = ?r" "length ps \<le> length ?r" "\<forall>p\<in>set ps. int (length p) \<le> mtu - 50" by blast
      have "prefix (concat (?p # ps)) (?p @ ?r)" unfolding concat.simps same_prefix_prefix by (rule i(2))
      then have "prefix (concat (?p # ps)) xs" by (simp only: append_take_drop_id)
      moreover have "ok \<longrightarrow> concat (?p # ps) = xs" using i(3) by simp
      moreover have "length (?p # ps) \<le> length xs" using i(4) n(1) unfolding length_drop length_Cons by arith
      moreover have "send_loop mtu (a # accepted) payload s = Inr (ok, data_packets s (?p # ps), s')" using e p'(1) i(1) True by simp
      ultimately show ?thesis using i(5) small by (intro exI [of _ ok] exI [of _ "?p # ps"] exI [of _ s']) simp
    next
      case f: False
      then have "send_loop mtu (a # accepted) payload s = Inr (False, data_packets s [?p], data_sent s)" using e p'(1) by simp
      moreover have "prefix (concat [?p]) xs" by (simp add: take_is_prefix)
      ultimately show ?thesis using small n False
        by (intro exI [of _ False] exI [of _ "[?p]"] exI [of _ "data_sent s"]) (simp add: Suc_le_eq)
    qed
  qed
qed


text \<open>What a host does with such a packet.\<close>

lemma chunk_data_at:
  assumes "rd b (data_body tsn ssn piece)"
  shows "chunk_data answer key s b =
    Inr (if tsn = ss_their_tsn s \<and> \<not> answer (New_data key piece) then dcb_close else dcb_continue,
      [3, 3] @ bytes16 16 @ bytes32 (ss_their_tsn s) @ bytes32 4096 @ bytes16 0 @ bytes16 0,
      if tsn = ss_their_tsn s then inc_their_tsn 1 s else s, if tsn = ss_their_tsn s then [New_data key piece] else [])"
proof -
  obtain b1 where 1: "get_net_long b = Inr (tsn, b1)" "rd b1 (bytes16 0 @ bytes16 ssn @ bytes32 0 @ piece)"
    using rd_long [OF assms [unfolded data_body_def]] by blast
  obtain b2 where 2: "get_net_short b1 = Inr (0, b2)" "rd b2 (bytes16 ssn @ bytes32 0 @ piece)" using rd_short [OF 1(2)] by blast
  obtain b3 where 3: "get_net_short b2 = Inr (ssn, b3)" "rd b3 (bytes32 0 @ piece)" using rd_short [OF 2(2)] by blast
  obtain b4 where 4: "get_net_long b3 = Inr (0, b4)" "rd b4 piece" using rd_long [OF 3(2)] by blast
  obtain c b5 where 5: "get_segment b4 (int (length piece)) = Inr (c, b5)" "rd c piece" using rd_segment [of b4 piece "[]"] 4(2) by auto
  show ?thesis
    using 1(1) 2(1) 3(1) 4(1) 5(1) rd_n_left [OF 4(2)] rd_peek [OF 5(2)] by (simp add: chunk_data_def sack_octets Let_def)
qed

definition sack_octets_of :: "u32 \<Rightarrow> byte list" where
  "sack_octets_of tsn = [3, 3] @ bytes16 16 @ bytes32 tsn @ bytes32 4096 @ bytes16 0 @ bytes16 0"

lemma sctp_handle_data:
  assumes "pk_data pkt = sctp_octets sp dp tag (chunk_octets 0 3 (data_body tsn ssn piece))" and "length piece < 60000"
    and "sctp_listeners t (uint dp) = Some ph" "ph_new_data ph" and "map_of (sctp_sessions t) (session_hash (pk_src_addr pkt) sp dp) = Some r"
  shows "sctp_handle hmac answer rnds pkt t =
    Inr ([sctp_transmit_packet (pk_src_addr pkt) (pk_dst_addr pkt) (sctp_octets dp sp (ss_their_verification_tag r)
        (sack_octets_of (ss_their_tsn r) @
         (if tsn = ss_their_tsn r \<and> \<not> answer (New_data (session_hash (pk_src_addr pkt) sp dp) piece) then chunk_gen_shutdown else [])))],
      if tsn = ss_their_tsn r then [New_data (session_hash (pk_src_addr pkt) sp dp) piece] else [],
      t\<lparr>sctp_sessions := map_modify (session_hash (pk_src_addr pkt) sp dp) (if tsn = ss_their_tsn r then inc_their_tsn 1 r else r) (sctp_sessions t)\<rparr>)"
proof -
  let ?key = "session_hash (pk_src_addr pkt) sp dp" and ?h = "head_of pkt sp dp" and ?r = "if tsn = ss_their_tsn r then inc_their_tsn 1 r else r"
  let ?body = "data_body tsn ssn piece"
  have p: "pk_data pkt = bytes16 sp @ bytes16 dp @ bytes32 tag @ bytes32 (generate_crc32c (bytes16 sp @ bytes16 dp @ bytes32 tag @ bytes32 0 @ chunk_octets 0 3 ?body)) @
      chunk_octets 0 3 ?body" using assms(1) by (simp add: sctp_octets_def)
  have l: "4 + length ?body < 65536" "length (pk_data pkt) < 2 ^ 30"
    using assms(2) by (simp_all add: p chunk_octets_def data_body_def pad_octets_def)
  let ?sack = "[3, 3] @ bytes16 16 @ bytes32 (ss_their_tsn r) @ bytes32 4096 @ bytes16 0 @ bytes16 0"
  let ?chunks = "?sack @ (if tsn = ss_their_tsn r \<and> \<not> answer (New_data ?key piece) then chunk_gen_shutdown else [])"
  let ?w = "\<lparr>sw_sctp = t\<lparr>sctp_sessions := map_modify ?key ?r (sctp_sessions t)\<rparr>,
    sw_reply = bytes16 dp @ bytes16 sp @ bytes32 (ss_their_verification_tag ?r) @ bytes32 0 @ ?chunks, sw_terminate = False, sw_send_reply = True,
    sw_calls = (if tsn = ss_their_tsn r then [New_data ?key piece] else []), sw_rnds = rnds\<rparr>"
  have h: "sh_peer ?h = pk_src_addr pkt" "sh_source_port ?h = sp" "sh_destination_port ?h = dp" "sh_tag_offset ?h = 4" by (simp_all add: head_of_def)
  have "on_chunk hmac answer ?h 0 c (sctp_work_new t (bytes16 dp @ bytes16 sp @ bytes32 (- 1) @ bytes32 0) rnds) = (Go_on, ?w)" if "rd c ?body" for c
    using put_tag_at [OF h(4), of _ dp sp "- 1" "bytes32 0 @ ?chunks" "ss_their_verification_tag ?r"] assms(3-5) chunk_data_at [OF that]
    by (cases "tsn = ss_their_tsn r"; cases "answer (New_data ?key piece)") (simp_all add: on_chunk_def on_data_def h sh_hash_def sctp_work_new_def put_reply_def Let_def)
  note step = this
  have "sctp_handle hmac answer rnds pkt t = rbind (sctp_finish ?h ?w) (\<lambda>(outs, t'). Inr (outs, sw_calls ?w, t'))"
    by (rule sctp_handle_chunk [OF p l(2,1)]) (rule step)
  moreover have "sctp_finish ?h ?w = Inr ([sctp_transmit_packet (sh_peer ?h) (sh_local ?h) (sctp_octets dp sp (ss_their_verification_tag ?r) ?chunks)], sw_sctp ?w)"
    by (rule sctp_finish_at) (simp_all add: head_of_def)
  ultimately show ?thesis by (simp add: head_of_def sack_octets_of_def inc_their_tsn_def)
qed

text \<open>A run of a host over packets, with the calls of the applications.\<close>

fun sctp_run :: "(byte list \<Rightarrow> byte list \<Rightarrow> byte list) \<Rightarrow> (app_call \<Rightarrow> bool) \<Rightarrow> packet list \<Rightarrow> sctp \<Rightarrow> (app_call list \<times> sctp) res" where
  "sctp_run hmac answer [] t = Inr ([], t)"
| "sctp_run hmac answer (p # ps) t =
     rbind (sctp_handle hmac answer [] p t) (\<lambda>(_, calls, t').
     rbind (sctp_run hmac answer ps t') (\<lambda>(calls', t''). Inr (calls @ calls', t'')))"

lemma data_packets_nth:
  "d \<in> set (data_packets s ps) \<Longrightarrow> \<exists>i ssn. i < length ps \<and> is_payload d =
     sctp_octets (ss_local_port s) (ss_peer_port s) (ss_their_verification_tag s) (chunk_octets 0 3 (data_body (ss_my_tsn s + of_nat i) ssn (ps ! i)))"
proof (induction ps arbitrary: s)
  case (Cons p ps)
  show ?case
  proof (cases "d = data_packet s p")
    case True
    then show ?thesis by (intro exI [of _ 0] exI [of _ "ss_my_stream_sequence_nr s"]) (simp add: data_packet_def sctp_transmit_packet_def)
  next
    case False
    then have "d \<in> set (data_packets (data_sent s) ps)" using Cons.prems by simp
    from Cons.IH [OF this] obtain i ssn where "i < length ps" "is_payload d = sctp_octets (ss_local_port s) (ss_peer_port s) (ss_their_verification_tag s)
        (chunk_octets 0 3 (data_body (ss_my_tsn s + 1 + of_nat i) ssn (ps ! i)))"
      by (auto simp: data_sent_def inc_my_tsn_def inc_my_stream_sequence_nr_def)
    then show ?thesis by (intro exI [of _ "Suc i"] exI [of _ ssn]) (simp add: add.assoc)
  qed
qed simp

lemma tsn_inject: "i < 2 ^ 32 \<Longrightarrow> k < 2 ^ 32 \<Longrightarrow> x + of_nat i = (x :: u32) + of_nat k \<longleftrightarrow> i = k"
proof -
  assume "i < 2 ^ 32" "k < 2 ^ 32"
  then have "unat (of_nat i :: u32) = i" "unat (of_nat k :: u32) = k" by (simp_all add: unsigned_of_nat take_bit_nat_eq_self)
  then have "of_nat i = (of_nat k :: u32) \<longleftrightarrow> i = k" by metis
  then show ?thesis by simp
qed

text \<open>The session of the receiver after \<open>k\<close> pieces.\<close>

lemma sctp_run_data:
  assumes "\<forall>q\<in>set qs. pk_src_addr q = peer \<and> (\<exists>i ssn. i < length ps \<and>
      pk_data q = sctp_octets sp dp tag (chunk_octets 0 3 (data_body (tsn + of_nat i) ssn (ps ! i))))"
    and "\<forall>p\<in>set ps. length p < 60000" and "length ps < 2 ^ 32"
    and "sctp_listeners t (uint dp) = Some ph" "ph_new_data ph" and "map_of (sctp_sessions t) (session_hash peer sp dp) = Some r"
    and "ss_their_tsn r = tsn + of_nat k" and "k \<le> length ps"
  shows "\<exists>m t'. k \<le> m \<and> m \<le> length ps \<and> sctp_run hmac answer qs t = Inr (map (New_data (session_hash peer sp dp)) (drop k (take m ps)), t')"
  using assms
proof (induction qs arbitrary: t r k)
  case Nil
  then show ?case by (intro exI [of _ k]) simp
next
  case (Cons q qs)
  let ?key = "session_hash peer sp dp"
  obtain i ssn where i: "i < length ps" "pk_src_addr q = peer"
      "pk_data q = sctp_octets sp dp tag (chunk_octets 0 3 (data_body (tsn + of_nat i) ssn (ps ! i)))" using Cons.prems(1) by auto
  let ?r = "if i = k then inc_their_tsn 1 r else r" and ?k = "if i = k then Suc k else k"
  have eq: "tsn + of_nat i = ss_their_tsn r \<longleftrightarrow> i = k" using tsn_inject [of i k tsn] Cons.prems(3,7,8) i(1) by simp
  let ?t = "t\<lparr>sctp_sessions := map_modify ?key ?r (sctp_sessions t)\<rparr>"
  obtain outs where h: "sctp_handle hmac answer [] q t = Inr (outs, if i = k then [New_data ?key (ps ! i)] else [], ?t)"
    using sctp_handle_data [OF i(3), of t ph r hmac answer "[]"] i Cons.prems(2,4-6) eq by simp
  have "map_of (sctp_sessions ?t) ?key = Some ?r" "ss_their_tsn ?r = tsn + of_nat ?k" "?k \<le> length ps"
    using Cons.prems(6-8) i(1) by (simp_all add: map_of_modify inc_their_tsn_def add.assoc)
  from Cons.IH [OF _ Cons.prems(2,3) _ Cons.prems(5) this] Cons.prems(1,4)
  obtain m t' where m: "?k \<le> m" "m \<le> length ps" "sctp_run hmac answer qs ?t = Inr (map (New_data ?key) (drop ?k (take m ps)), t')" by auto
  have "(if i = k then [ps ! i] else []) @ drop ?k (take m ps) = drop k (take m ps)"
    using m(1,2) by (auto simp: Cons_nth_drop_Suc [symmetric] nth_take)
  then have "(if i = k then [New_data ?key (ps ! i)] else []) @ map (New_data ?key) (drop ?k (take m ps)) = map (New_data ?key) (drop k (take m ps))"
    by (cases "i = k") (simp_all flip: list.map(2))
  with h m show ?case by (intro exI [of _ m] exI [of _ t']) (auto split: if_splits)
qed


lemma data_sent_fields [simp]:
  "ss_local_port (data_sent s) = ss_local_port s" "ss_peer_port (data_sent s) = ss_peer_port s" "ss_my_tsn (data_sent s) = ss_my_tsn s + 1"
  by (simp_all add: data_sent_def inc_my_tsn_def inc_my_stream_sequence_nr_def)

lemma length_data_packets [simp]: "length (data_packets s ps) = length ps"
  by (induction ps arbitrary: s) simp_all

lemma sctp_run_in_order:
  assumes "list_all2 (\<lambda>q d. pk_src_addr q = peer \<and> pk_data q = is_payload d) qs (data_packets s ps)" and "\<forall>p\<in>set ps. length p < 60000"
    and "sctp_listeners t (uint (ss_peer_port s)) = Some ph" "ph_new_data ph"
    and "map_of (sctp_sessions t) (session_hash peer (ss_local_port s) (ss_peer_port s)) = Some r" and "ss_their_tsn r = ss_my_tsn s"
  shows "\<exists>t'. sctp_run hmac answer qs t = Inr (map (New_data (session_hash peer (ss_local_port s) (ss_peer_port s))) ps, t')"
  using assms
proof (induction ps arbitrary: s t r qs)
  case (Cons p ps)
  let ?key = "session_hash peer (ss_local_port s) (ss_peer_port s)" and ?r = "inc_their_tsn 1 r"
  obtain q qs' where q: "qs = q # qs'" "pk_src_addr q = peer" "pk_data q = is_payload (data_packet s p)"
    "list_all2 (\<lambda>q d. pk_src_addr q = peer \<and> pk_data q = is_payload d) qs' (data_packets (data_sent s) ps)"
    using Cons.prems(1) by (auto simp: list_all2_Cons2)
  have d: "pk_data q = sctp_octets (ss_local_port s) (ss_peer_port s) (ss_their_verification_tag s)
      (chunk_octets 0 3 (data_body (ss_my_tsn s) (ss_my_stream_sequence_nr s) p))" using q(3) by (simp add: data_packet_def sctp_transmit_packet_def)
  let ?t = "t\<lparr>sctp_sessions := map_modify ?key ?r (sctp_sessions t)\<rparr>"
  obtain outs where h: "sctp_handle hmac answer [] q t = Inr (outs, [New_data ?key p], ?t)"
    using sctp_handle_data [OF d, of t ph r hmac answer "[]"] q(2) Cons.prems(2-6) by simp
  have "map_of (sctp_sessions ?t) ?key = Some ?r" "ss_their_tsn ?r = ss_my_tsn (data_sent s)"
    using Cons.prems(5,6) by (simp_all add: map_of_modify inc_their_tsn_def)
  then obtain t' where "sctp_run hmac answer qs' ?t = Inr (map (New_data ?key) ps, t')"
    using Cons.IH [OF q(4), of ?t ?r] Cons.prems(2-4) by auto
  with h q(1) show ?case by simp
qed simp

text \<open>
  C8. \<open>send_data\<close> returns, and what arrives is what was sent: it cuts the data into the packets of
  consecutive sequence numbers, and whatever of these packets reach the peer, in whatever order and however
  often, its application is handed a prefix of the data, cut at packet boundaries, each piece once; all of it,
  if every transmission succeeded and the packets arrive in order.  The peer handles the packets one after the
  other, as it does with one handler thread; with more threads two packets can be in the handler at the
  same time, and \<open>sctp_race\<close> shows that a piece that comes twice can then be handed over twice, and two
  pieces in the wrong order.
\<close>

theorem sctp_stream:
  assumes "length data < 2 ^ 30" and "length data \<le> length accepted" and "50 < mtu" and "mtu \<le> 60000"
    and "sctp_listeners t (uint (ss_peer_port s)) = Some ph" and "ph_new_data ph"
    and "map_of (sctp_sessions t) (session_hash peer (ss_local_port s) (ss_peer_port s)) = Some r" and "ss_their_tsn r = ss_my_tsn s"
    and "key = session_hash peer (ss_local_port s) (ss_peer_port s)"
  shows "\<exists>ok ds s' pieces. sctp_send_data mtu accepted data s = Inr (ok, ds, s') \<and> length pieces = length ds \<and>
    prefix (concat pieces) data \<and> (ok \<longrightarrow> concat pieces = data) \<and>
    (\<forall>qs. (\<forall>q\<in>set qs. pk_src_addr q = peer \<and> pk_data q \<in> is_payload ` set ds) \<longrightarrow>
      (\<exists>m t'. sctp_run hmac answer qs t = Inr (map (New_data key) (take m pieces), t'))) \<and>
    (\<forall>qs. list_all2 (\<lambda>q d. pk_src_addr q = peer \<and> pk_data q = is_payload d) qs ds \<longrightarrow>
      (\<exists>t'. sctp_run hmac answer qs t = Inr (map (New_data key) pieces, t')))"
proof -
  obtain ok ps s' where ps: "sctp_send_data mtu accepted data s = Inr (ok, data_packets s ps, s')" "prefix (concat ps) data" "ok \<longrightarrow> concat ps = data"
    "length ps \<le> length data" "\<forall>p\<in>set ps. int (length p) \<le> mtu - 50"
    using send_loop_packets [OF rd_new [OF assms(1)] assms(3,2), of s] by (auto simp: sctp_send_data_def)
  have small: "\<forall>p\<in>set ps. length p < 60000" "length ps < 2 ^ 32" using ps(4,5) assms(1,4) by fastforce+
  have any: "\<exists>m t'. sctp_run hmac answer qs t = Inr (map (New_data key) (take m ps), t')"
    if "\<forall>q\<in>set qs. pk_src_addr q = peer \<and> pk_data q \<in> is_payload ` set (data_packets s ps)" for qs
  proof -
    have "\<forall>q\<in>set qs. pk_src_addr q = peer \<and> (\<exists>i ssn. i < length ps \<and> pk_data q =
        sctp_octets (ss_local_port s) (ss_peer_port s) (ss_their_verification_tag s) (chunk_octets 0 3 (data_body (ss_my_tsn s + of_nat i) ssn (ps ! i))))"
    proof
      fix q assume "q \<in> set qs"
      with that have "pk_src_addr q = peer" "pk_data q \<in> is_payload ` set (data_packets s ps)" by auto
      then obtain d where "pk_src_addr q = peer" "pk_data q = is_payload d" "d \<in> set (data_packets s ps)" by auto
      with data_packets_nth [of d s ps] show "pk_src_addr q = peer \<and> (\<exists>i ssn. i < length ps \<and> pk_data q =
        sctp_octets (ss_local_port s) (ss_peer_port s) (ss_their_verification_tag s) (chunk_octets 0 3 (data_body (ss_my_tsn s + of_nat i) ssn (ps ! i))))"
        by simp
    qed
    from sctp_run_data [OF this small assms(5-7), of 0 hmac answer] assms(8) show ?thesis by (auto simp: assms(9))
  qed
  have order: "\<exists>t'. sctp_run hmac answer qs t = Inr (map (New_data key) ps, t')"
    if "list_all2 (\<lambda>q d. pk_src_addr q = peer \<and> pk_data q = is_payload d) qs (data_packets s ps)" for qs
    unfolding assms(9) by (rule sctp_run_in_order [OF that small(1) assms(5-8)])
  from ps any order show ?thesis
    by (intro exI [of _ ok] exI [of _ "data_packets s ps"] exI [of _ s'] exI [of _ ps]) simp
qed


definition sctp_example :: "addr \<Rightarrow> u16 \<Rightarrow> addr \<Rightarrow> u16 \<Rightarrow> sctp_session" where
  "sctp_example peer pp local lp = sctp_session_new peer pp local lp 100 100 11"

theorem sctp_stream_witness:
  "\<exists>ok ds s' pieces. sctp_send_data 1500 [True, True] [1, 2] (sctp_example (Addr AF_ipv4 [10, 0, 0, 2]) 7 (Addr AF_ipv4 [10, 0, 0, 1]) 5000) = Inr (ok, ds, s') \<and>
    length pieces = length ds \<and> prefix (concat pieces) [1, 2 :: byte]"
proof -
  let ?a = "Addr AF_ipv4 [10, 0, 0, 1]" and ?b = "Addr AF_ipv4 [10, 0, 0, 2]"
  let ?key = "session_hash ?a 5000 7"
  let ?t = "example_host\<lparr>sctp_sessions := [(?key, sctp_example ?a 5000 ?b 7)]\<rparr>"
  let ?s = "sctp_example ?b 7 ?a 5000" and ?r = "sctp_example ?a 5000 ?b 7"
  let ?ph = "\<lparr>ph_init = True, ph_new_session = True, ph_new_data = True, ph_session_closed_1 = True, ph_session_closed_2 = True\<rparr>"
  have l: "sctp_listeners ?t (uint (ss_peer_port ?s)) = Some ?ph" by (simp add: sctp_example_def sctp_session_new_def example_host_def)
  have m: "map_of (sctp_sessions ?t) (session_hash ?a (ss_local_port ?s) (ss_peer_port ?s)) = Some ?r" "ss_their_tsn ?r = ss_my_tsn ?s"
    by (simp_all add: sctp_example_def sctp_session_new_def)
  have d: "length [1, 2 :: byte] < 2 ^ 30" "length [1, 2 :: byte] \<le> length [True, True]" "(50 :: int) < 1500" "(1500 :: int) \<le> 60000" "ph_new_data ?ph" by simp_all
  from sctp_stream [OF d(1-4) l d(5) m refl, of "\<lambda>_ _. []" "\<lambda>_. True"] show ?thesis by blast
qed

section \<open>Several handler threads\<close>

text \<open>
  The handling of a DATA chunk only holds the lock of the table of sessions, and holds it shared: between the comparison
  of the sequence number, its increment and the call of the application other threads can do the same.  A
  thread is before one of the three, or done.
\<close>

datatype data_at = At_test u32 "byte list" | At_inc "byte list" | At_call "byte list" | At_end

definition data_move :: "u64 \<Rightarrow> nat \<Rightarrow> sctp_session \<times> data_at list \<times> app_call list \<Rightarrow> sctp_session \<times> data_at list \<times> app_call list" where
  "data_move key i = (\<lambda>(s, ts, calls).
     if i < length ts then
       case ts ! i of
         At_test tsn piece \<Rightarrow> (s, ts[i := if tsn = ss_their_tsn s then At_inc piece else At_end], calls)
       | At_inc piece \<Rightarrow> (inc_their_tsn 1 s, ts[i := At_call piece], calls)
       | At_call piece \<Rightarrow> (s, ts[i := At_end], calls @ [New_data key piece])
       | At_end \<Rightarrow> (s, ts, calls)
     else (s, ts, calls))"

text \<open>The moves of a thread that is alone are \<open>chunk_data\<close>.\<close>

lemma data_moves_alone:
  assumes "rd b (data_body tsn ssn piece)"
  shows "\<exists>result out s' calls. chunk_data answer key s b = Inr (result, out, s', calls) \<and>
    fold (data_move key) [0, 0, 0] (s, [At_test tsn piece], []) = (s', [At_end], calls)"
  unfolding chunk_data_at [OF assms] by (simp add: data_move_def)

text \<open>
  Two threads with the same expected piece that both compare before either increments hand it over twice, and
  the sequence number is one too high afterwards: the next piece is not accepted.  Two threads with consecutive
  pieces can hand them over in the wrong order.
\<close>

theorem sctp_race:
  assumes "tsn = ss_their_tsn s"
  shows "fold (data_move key) [0, 1, 0, 1, 0, 1] (s, [At_test tsn piece, At_test tsn piece], []) =
    (inc_their_tsn 1 (inc_their_tsn 1 s), [At_end, At_end], [New_data key piece, New_data key piece])"
    "fold (data_move key) [0, 0, 0] (inc_their_tsn 1 (inc_their_tsn 1 s), [At_test (tsn + 1) piece2], []) =
    (inc_their_tsn 1 (inc_their_tsn 1 s), [At_end], [])"
    "fold (data_move key) [0, 0, 1, 1, 1, 0] (s, [At_test tsn piece, At_test (tsn + 1) piece2], []) =
    (inc_their_tsn 1 (inc_their_tsn 1 s), [At_end, At_end], [New_data key piece2, New_data key piece])"
  using assms by (simp_all add: data_move_def inc_their_tsn_def add.commute)

text \<open>
  A gap is acknowledged: data that does not have the expected sequence number is not handed to the
  application, but the reply acknowledges everything up to and with the expected number, which did not
  arrive, so that the sender never repeats it.
\<close>

theorem sctp_gap_acknowledged:
  assumes "pk_data pkt = sctp_octets sp dp tag (chunk_octets 0 3 (data_body tsn ssn piece))" and "length piece < 60000"
    and "sctp_listeners t (uint dp) = Some ph" "ph_new_data ph" and "map_of (sctp_sessions t) (session_hash (pk_src_addr pkt) sp dp) = Some r"
    and "tsn \<noteq> ss_their_tsn r"
  shows "\<exists>t'. sctp_handle hmac answer rnds pkt t =
    Inr ([sctp_transmit_packet (pk_src_addr pkt) (pk_dst_addr pkt) (sctp_octets dp sp (ss_their_verification_tag r)
        ([3, 3] @ bytes16 16 @ bytes32 (ss_their_tsn r) @ bytes32 4096 @ bytes16 0 @ bytes16 0))], [], t')"
  using sctp_handle_data [OF assms(1-5)] assms(6) by (simp add: sack_octets_of_def)

theorem sctp_gap_acknowledged_witness:
  "\<exists>pkt t t' out. sctp_handle (\<lambda>_ _. []) (\<lambda>_. True) [] pkt t = Inr (out, [], t') \<and> map is_payload out =
     [sctp_octets 7 5000 11 ([3, 3] @ bytes16 16 @ bytes32 100 @ bytes32 4096 @ bytes16 0 @ bytes16 0)]"
proof -
  let ?a = "Addr AF_ipv4 [10, 0, 0, 1]" and ?b = "Addr AF_ipv4 [10, 0, 0, 2]"
  let ?t = "example_host\<lparr>sctp_sessions := [(session_hash ?a 5000 7, sctp_example ?a 5000 ?b 7)]\<rparr>"
  let ?p = "packet_new (Addr AF_mac []) ?a ?b (sctp_octets 5000 7 33 (chunk_octets 0 3 (data_body 101 0 [1, 2]))) [] False"
  let ?ph = "\<lparr>ph_init = True, ph_new_session = True, ph_new_data = True, ph_session_closed_1 = True, ph_session_closed_2 = True\<rparr>"
  have d: "pk_data ?p = sctp_octets 5000 7 33 (chunk_octets 0 3 (data_body 101 0 [1, 2]))" "pk_src_addr ?p = ?a" by (simp_all add: packet_new_def)
  have l: "sctp_listeners ?t (uint (7 :: u16)) = Some ?ph" by (simp add: example_host_def)
  have m: "map_of (sctp_sessions ?t) (session_hash (pk_src_addr ?p) 5000 7) = Some (sctp_example ?a 5000 ?b 7)" using d(2) by simp
  have s: "ss_their_tsn (sctp_example ?a 5000 ?b 7) = 100" "ss_their_verification_tag (sctp_example ?a 5000 ?b 7) = 11"
    by (simp_all add: sctp_example_def sctp_session_new_def)
  from sctp_gap_acknowledged [OF d(1) _ l _ m, of "\<lambda>_ _. []" "\<lambda>_. True" "[]"] obtain t' where
    "sctp_handle (\<lambda>_ _. []) (\<lambda>_. True) [] ?p ?t = Inr ([sctp_transmit_packet (pk_src_addr ?p) (pk_dst_addr ?p)
      (sctp_octets 7 5000 11 ([3, 3] @ bytes16 16 @ bytes32 100 @ bytes32 4096 @ bytes16 0 @ bytes16 0))], [], t')"
    by (auto simp: s)
  then show ?thesis by (intro exI [of _ ?p] exI [of _ ?t] exI [of _ t'] exI) (auto simp: sctp_transmit_packet_def)
qed

end
