(* ===== verification/Mqtt.thy ===== *)
theory Mqtt
  imports Arp
begin

text \<open>
  The MQTT broker (\<^verbatim>\<open>src/mqtt.cpp\<close>): the tables of subscriptions, the sessions with their queues
  of outgoing messages, and the thread of each session, which takes the messages of the client out of the
  received octets.  Sessions are named by numbers, as the code names them by the addresses of their
  \<open>mqtt_session_data\<close>; the number of a session that was deleted may come back.

  The thread of a session moves in the steps between two reads of \<open>terminate\<close> or two waits for octets,
  and a message is handled in one step.  What a thread sends, and the end of the session, are
  outputs.
\<close>

unbundle bit_operations_syntax

section \<open>State\<close>

record mqtt_session_data =
  md_data :: "byte list"
  msgs_out :: "byte list list"
  session_name :: string
  md_terminate :: bool

text \<open>Where the thread of a session is: before a test of \<open>terminate\<close>, or in a call of \<open>mqtt_get_bytes\<close>.\<close>

datatype recv_at = Loop_head | Get_control | Length_loop byte u32 | Get_length byte u32 | Get_body byte u32 | Ended

record mqtt =
  topic_subscriptions :: "byte list \<rightharpoonup> nat set"
  topic_wc_subscriptions :: "(byte list \<times> nat set) list"
  msds :: "nat \<rightharpoonup> mqtt_session_data"
  recv_threads :: "nat \<Rightarrow> recv_at \<times> string"

definition mqtt_new :: mqtt where
  "mqtt_new = \<lparr>topic_subscriptions = Map.empty, topic_wc_subscriptions = [], msds = Map.empty,
     recv_threads = (\<lambda>_. (Ended, []))\<rparr>"

definition upd_msd :: "nat \<Rightarrow> (mqtt_session_data \<Rightarrow> mqtt_session_data) \<Rightarrow> mqtt \<Rightarrow> mqtt" where
  "upd_msd sid f m = m\<lparr>msds := (msds m)(sid := map_option f (msds m sid))\<rparr>"

definition move_thread :: "nat \<Rightarrow> recv_at \<Rightarrow> mqtt \<Rightarrow> mqtt" where
  "move_thread sid pos m = m\<lparr>recv_threads := (recv_threads m)(sid := (pos, snd (recv_threads m sid)))\<rparr>"

section \<open>Subscriptions\<close>

fun wc_insert :: "byte list \<Rightarrow> nat \<Rightarrow> (byte list \<times> nat set) list \<Rightarrow> (byte list \<times> nat set) list" where
  "wc_insert topic sid [] = [(topic, {sid})]"
| "wc_insert topic sid ((t, S) # ts) =
     (if t = topic then (t, insert sid S) # ts else (t, S) # wc_insert topic sid ts)"

fun wc_erase :: "byte list \<Rightarrow> nat \<Rightarrow> (byte list \<times> nat set) list \<Rightarrow> (byte list \<times> nat set) list" where
  "wc_erase topic sid [] = []"
| "wc_erase topic sid ((t, S) # ts) =
     (if t = topic then (t, S - {sid}) # ts else (t, S) # wc_erase topic sid ts)"

text \<open>\<open>find('#')\<close>, the length of the topic if there is none.\<close>

definition wc_pos :: "byte list \<Rightarrow> nat" where
  "wc_pos t = length (takeWhile (\<lambda>c. c \<noteq> 0x23) t)"

definition register_topic :: "byte list \<Rightarrow> nat \<Rightarrow> mqtt \<Rightarrow> mqtt" where
  "register_topic topic sid m =
     (if 0x23 \<notin> set topic then
        m\<lparr>topic_subscriptions := (topic_subscriptions m)(topic \<mapsto>
          (case topic_subscriptions m topic of Some S \<Rightarrow> insert sid S | None \<Rightarrow> {sid}))\<rparr>
      else m\<lparr>topic_wc_subscriptions := wc_insert topic sid (topic_wc_subscriptions m)\<rparr>)"

definition unregister_topic :: "byte list \<Rightarrow> nat \<Rightarrow> mqtt \<Rightarrow> mqtt" where
  "unregister_topic topic sid m =
     m\<lparr>topic_subscriptions := (topic_subscriptions m)(topic := map_option (\<lambda>S. S - {sid}) (topic_subscriptions m topic)),
       topic_wc_subscriptions := wc_erase topic sid (topic_wc_subscriptions m)\<rparr>"

definition unregister_all_topics :: "nat \<Rightarrow> mqtt \<Rightarrow> mqtt" where
  "unregister_all_topics sid m =
     m\<lparr>topic_subscriptions := (\<lambda>t. map_option (\<lambda>S. S - {sid}) (topic_subscriptions m t)),
       topic_wc_subscriptions := map (\<lambda>(t, S). (t, S - {sid})) (topic_wc_subscriptions m)\<rparr>"

section \<open>Publishing\<close>

text \<open>The remaining length of a message: seven bits per octet, the upper ones of which are all set.\<close>

function length_octets :: "int \<Rightarrow> byte list" where
  "length_octets rem_len =
     (if 0 < rem_len
      then (if 127 < rem_len then 127 OR 128 else of_int rem_len) # length_octets (rem_len div 128)
      else [])"
  by auto
termination
  by (relation "measure nat") auto

declare length_octets.simps [simp del]

definition publish_frame :: "byte list \<Rightarrow> byte list \<Rightarrow> byte list" where
  "publish_frame topic payload =
     (let rem_len = sint (of_nat (2 + length topic + length payload) :: u32) in
      [push_bit 4 3] @ length_octets rem_len @ bytes16 (of_nat (length topic)) @ topic @ payload)"

text \<open>
  The message is appended to the queue of every session of a set; a session that was deleted is freed
  memory.
\<close>

definition queue_all :: "nat set \<Rightarrow> byte list \<Rightarrow> mqtt \<Rightarrow> mqtt res" where
  "queue_all S msg m =
     (if \<forall>sid \<in> S. msds m sid \<noteq> None
      then Inr (m\<lparr>msds := (\<lambda>sid. if sid \<in> S then map_option (\<lambda>s. s\<lparr>msgs_out := msgs_out s @ [msg]\<rparr>) (msds m sid)
                                 else msds m sid)\<rparr>)
      else Inl Undefined_behaviour)"

fun publish_wc :: "byte list \<Rightarrow> byte list \<Rightarrow> (byte list \<times> nat set) list \<Rightarrow> mqtt \<Rightarrow> mqtt res" where
  "publish_wc topic msg [] m = Inr m"
| "publish_wc topic msg ((t, S) # ts) m =
     rbind (rassert (0x23 \<in> set t)) (\<lambda>_.
     if take (wc_pos t) topic \<noteq> take (wc_pos t) t then publish_wc topic msg ts m
     else rbind (queue_all S msg m) (publish_wc topic msg ts))"

definition publish :: "byte list \<Rightarrow> byte list \<Rightarrow> mqtt \<Rightarrow> mqtt res" where
  "publish topic payload m =
     (let msg = publish_frame topic payload in
      rbind (queue_all (case topic_subscriptions m topic of None \<Rightarrow> {} | Some S \<Rightarrow> S) msg m)
        (publish_wc topic msg (topic_wc_subscriptions m)))"

section \<open>The messages of a client\<close>

text \<open>
  \<open>mem\<close> is the block that was allocated for a message: its \<open>len\<close> octets and a zero.
  Each handler returns the octets it sends to the client.
\<close>

definition c_string :: "byte list \<Rightarrow> nat \<Rightarrow> string" where
  "c_string mem pos = map (\<lambda>b. char_of (unat b)) (takeWhile (\<lambda>b. b \<noteq> 0) (drop pos mem))"

definition on_connect :: "byte list \<Rightarrow> u32 \<Rightarrow> nat \<Rightarrow> mqtt \<Rightarrow> (byte list list \<times> mqtt) res" where
  "on_connect mem len sid m =
     (let (pos, old) = recv_threads m sid;
          identifier = if 12 < len then c_string mem 12 else old;
          m1 = m\<lparr>recv_threads := (recv_threads m)(sid := (pos, identifier))\<rparr>
      in Inr ([[0x20, 0x02, 0x00, 0x00]],
              if identifier \<noteq> [] then upd_msd sid (\<lambda>s. s\<lparr>session_name := identifier\<rparr>) m1 else m1))"

definition on_publish :: "byte \<Rightarrow> byte list \<Rightarrow> u32 \<Rightarrow> mqtt \<Rightarrow> (byte list list \<times> mqtt) res" where
  "on_publish control mem len m =
     rbind (octets_at mem 0 2) (\<lambda>h.
     let topic_len = min (uint (mk16 (h ! 0) (h ! 1))) (sint len) in
     if topic_len < 0 then Inl Length_error
     else
       rbind (octets_at mem 2 (nat topic_len)) (\<lambda>topic.
       rbind (let pos = 2 + nat topic_len in
              if drop_bit 1 control AND 3 \<noteq> 0
              then rbind (octets_at mem pos 2) (\<lambda>i. Inr (mk16 (i ! 0) (i ! 1), pos + 2))
              else Inr (0, pos)) (\<lambda>(msg_id, pos).
       let payload_len = sint (len - of_nat pos) in
       rbind (if 0 < payload_len
              then rbind (octets_at mem pos (nat payload_len)) (\<lambda>payload. publish topic payload m)
              else Inr m) (\<lambda>m'.
       Inr ([[push_bit 4 4, 2] @ bytes16 msg_id], m')))))"

text \<open>
  The loops over the topics of SUBSCRIBE and UNSUBSCRIBE; \<open>act\<close> is what they do with a topic,
  \<open>skip\<close> the octets behind it and \<open>ack\<close> what they add to the reply.  The minimum with a remaining
  length of 2^31 or more is a negative length of a string.
\<close>

function topics_loop :: "(byte list \<Rightarrow> mqtt \<Rightarrow> mqtt) \<Rightarrow> nat \<Rightarrow> byte \<Rightarrow> byte list \<Rightarrow> nat \<Rightarrow> nat \<Rightarrow> byte list \<Rightarrow> mqtt \<Rightarrow>
    (byte list \<times> mqtt) res" where
  "topics_loop act skip ack mem len pos reply m =
     (if pos < len then
        rbind (octets_at mem pos 2) (\<lambda>h.
        if 2 ^ 31 \<le> len - pos then Inl Length_error
        else
          let topic_len = min (unat (mk16 (h ! 0) (h ! 1))) (len - pos) in
          rbind (octets_at mem (pos + 2) topic_len) (\<lambda>topic.
          topics_loop act skip ack mem len (pos + 2 + topic_len + skip) (reply @ [ack]) (act topic m)))
      else Inr (reply, m))"
  by auto
termination
  by (relation "measure (\<lambda>(act, skip, ack, mem, len, pos, reply, m). len - pos)") auto

declare topics_loop.simps [simp del]

definition topics_reply :: "byte \<Rightarrow> (byte list \<Rightarrow> mqtt \<Rightarrow> mqtt) \<Rightarrow> nat \<Rightarrow> byte \<Rightarrow> byte list \<Rightarrow> u32 \<Rightarrow> mqtt \<Rightarrow>
    (byte list list \<times> mqtt) res" where
  "topics_reply ty act skip ack mem len m =
     rbind (octets_at mem 0 2) (\<lambda>i.
     rbind (topics_loop act skip ack mem (unat len) 2 ([push_bit 4 ty, 0] @ i) m) (\<lambda>(reply, m').
     Inr ([reply[1 := of_nat (length reply - 2)]], m')))"

definition on_subscribe :: "byte list \<Rightarrow> u32 \<Rightarrow> nat \<Rightarrow> mqtt \<Rightarrow> (byte list list \<times> mqtt) res" where
  "on_subscribe mem len sid m = topics_reply 0x9 (\<lambda>t. register_topic t sid) 1 2 mem len m"

definition on_unsubscribe :: "byte list \<Rightarrow> u32 \<Rightarrow> nat \<Rightarrow> mqtt \<Rightarrow> (byte list list \<times> mqtt) res" where
  "on_unsubscribe mem len sid m = topics_reply 11 (\<lambda>t. unregister_topic t sid) 0 0 mem len m"

definition handle_message :: "byte \<Rightarrow> byte list \<Rightarrow> u32 \<Rightarrow> nat \<Rightarrow> mqtt \<Rightarrow> (byte list list \<times> mqtt) res" where
  "handle_message control mem len sid m =
     (let cmsg = drop_bit 4 control in
      if cmsg = 1 then on_connect mem len sid m
      else if cmsg = 3 then on_publish control mem len m
      else if cmsg = 8 then on_subscribe mem len sid m
      else if cmsg = 10 then on_unsubscribe mem len sid m
      else if cmsg = 12 then Inr ([[push_bit 4 13, 0]], m)
      else Inr ([], m))"

section \<open>The thread of a session\<close>

text \<open>\<open>Unfilled\<close>: \<open>mqtt_get_bytes\<close> returns because of \<open>terminate\<close>, without writing to its target.\<close>

datatype got = Got "byte list" | Unfilled | Waits

definition mqtt_get_bytes :: "nat \<Rightarrow> mqtt_session_data \<Rightarrow> got \<times> byte list list \<times> mqtt_session_data" where
  "mqtt_get_bytes n s =
     (if md_terminate s then (Unfilled, [], s)
      else if n \<le> length (md_data s)
      then (Got (take n (md_data s)), msgs_out s, s\<lparr>msgs_out := [], md_data := drop n (md_data s)\<rparr>)
      else (Waits, msgs_out s, s\<lparr>msgs_out := []\<rparr>))"

datatype mqtt_out = Send nat "byte list" | Handled nat byte "byte list" | End_session nat

definition add_length :: "u32 \<Rightarrow> byte \<Rightarrow> u32" where
  "add_length len b = push_bit 7 len OR ucast (b AND 127)"

text \<open>
  A step of \<open>mqtt_recv_thread\<close>.  \<open>fresh\<close> is what the memory allocated for a message contained before.
  With a length of 2^32 - 1 the size of that memory wraps to 0.
\<close>

definition read_step :: "nat \<Rightarrow> nat \<Rightarrow> mqtt_session_data \<Rightarrow> (got \<Rightarrow> mqtt \<Rightarrow> (mqtt_out list \<times> mqtt) res) \<Rightarrow> mqtt \<Rightarrow>
    (mqtt_out list \<times> mqtt) res" where
  "read_step n sid s k m =
     (let (g, sent, s') = mqtt_get_bytes n s; m' = upd_msd sid (\<lambda>_. s') m in
      rbind (if g = Waits then Inr ([], m') else k g m') (\<lambda>(out, m'').
      Inr (map (Send sid) sent @ out, m'')))"

fun octet_of :: "got \<Rightarrow> byte" where
  "octet_of (Got d) = hd d"
| "octet_of Unfilled = 0"
| "octet_of Waits = 0"

fun block_of :: "(nat \<Rightarrow> byte) \<Rightarrow> nat \<Rightarrow> got \<Rightarrow> byte list" where
  "block_of fresh n (Got d) = d"
| "block_of fresh n g = map fresh [0..<n]"

definition thread_step :: "(nat \<Rightarrow> byte) \<Rightarrow> nat \<Rightarrow> mqtt \<Rightarrow> (mqtt_out list \<times> mqtt) res" where
  "thread_step fresh sid m =
     (case msds m sid of
        None \<Rightarrow> Inl Undefined_behaviour
      | Some s \<Rightarrow>
          (case fst (recv_threads m sid) of
             Loop_head \<Rightarrow>
               if md_terminate s then Inr ([End_session sid], unregister_all_topics sid (move_thread sid Ended m))
               else Inr ([], move_thread sid Get_control m)
           | Get_control \<Rightarrow>
               read_step 1 sid s (\<lambda>g m. Inr ([], move_thread sid (Length_loop (octet_of g) 0) m)) m
           | Length_loop control len \<Rightarrow>
               Inr ([], move_thread sid (if md_terminate s then Get_body control len else Get_length control len) m)
           | Get_length control len \<Rightarrow>
               read_step 1 sid s (\<lambda>g m.
                 let b = octet_of g; len' = add_length len b in
                 Inr ([], move_thread sid (if b AND 128 = 0 then Get_body control len' else Length_loop control len') m)) m
           | Get_body control len \<Rightarrow>
               read_step (unat len) sid s (\<lambda>g m.
                 let d = block_of fresh (unat len) g in
                 if unat (len + 1) \<le> unat len then Inl Undefined_behaviour
                 else
                   rbind (handle_message control (d @ [0]) len sid m) (\<lambda>(replies, m').
                   Inr (Handled sid control d # map (Send sid) replies, move_thread sid Loop_head m'))) m
           | Ended \<Rightarrow> Inr ([], m)))"

section \<open>Sessions\<close>

definition mqtt_new_session :: "nat \<Rightarrow> string \<Rightarrow> mqtt \<Rightarrow> mqtt" where
  "mqtt_new_session sid client_addr m =
     m\<lparr>msds := (msds m)(sid \<mapsto> \<lparr>md_data = [], msgs_out = [], session_name = client_addr, md_terminate = False\<rparr>),
       recv_threads := (recv_threads m)(sid := (Loop_head, []))\<rparr>"

definition mqtt_new_data :: "nat \<Rightarrow> byte list \<Rightarrow> mqtt \<Rightarrow> bool \<times> mqtt" where
  "mqtt_new_data sid b m =
     (case msds m sid of
        None \<Rightarrow> (False, m)
      | Some s \<Rightarrow> (True, if b = [] then m else upd_msd sid (\<lambda>s. s\<lparr>md_data := md_data s @ b\<rparr>) m))"

text \<open>\<open>mqtt_close_session_2\<close> waits for the thread between these two parts.\<close>

definition mqtt_close_session_2 :: "nat \<Rightarrow> mqtt \<Rightarrow> mqtt" where
  "mqtt_close_session_2 sid m = upd_msd sid (\<lambda>s. s\<lparr>md_terminate := True\<rparr>) m"

definition mqtt_delete :: "nat \<Rightarrow> mqtt \<Rightarrow> mqtt" where
  "mqtt_delete sid m = m\<lparr>msds := (msds m)(sid := None)\<rparr>"

datatype mqtt_event = New_session nat string | New_data nat "byte list" | Thread nat | Close nat | Join nat

inductive mqtt_step :: "mqtt \<Rightarrow> mqtt_event \<Rightarrow> mqtt_out list \<Rightarrow> mqtt \<Rightarrow> bool" where
  mqtt_step_new: "msds m sid = None \<Longrightarrow> mqtt_step m (New_session sid a) [] (mqtt_new_session sid a m)"
| mqtt_step_data: "mqtt_step m (New_data sid d) [] (snd (mqtt_new_data sid d m))"
| mqtt_step_thread: "msds m sid \<noteq> None \<Longrightarrow> thread_step fresh sid m = Inr (out, m') \<Longrightarrow> mqtt_step m (Thread sid) out m'"
| mqtt_step_close: "msds m sid \<noteq> None \<Longrightarrow> mqtt_step m (Close sid) [] (mqtt_close_session_2 sid m)"
| mqtt_step_join: "msds m sid = Some s \<Longrightarrow> md_terminate s \<Longrightarrow> fst (recv_threads m sid) = Ended \<Longrightarrow>
    mqtt_step m (Join sid) [] (mqtt_delete sid m)"

text \<open>Runs, with the events and outputs of every step.\<close>

inductive mqtt_run :: "mqtt \<Rightarrow> (mqtt_event \<times> mqtt_out list) list \<Rightarrow> mqtt \<Rightarrow> bool" where
  mqtt_run_start: "mqtt_run m [] m"
| mqtt_run_step: "mqtt_run m tr m' \<Longrightarrow> mqtt_step m' e out m'' \<Longrightarrow> mqtt_run m (tr @ [(e, out)]) m''"

inductive_cases mqtt_step_cases: "mqtt_step m e out m'"

end
