(* ===== verification/Mqtt_Broker.thy ===== *)
theory Mqtt_Broker
  imports Mqtt
begin

text \<open>
  Subscriptions and publishing of the MQTT broker: the tables of \<^verbatim>\<open>src/mqtt.cpp\<close> implement a set of
  topic filters for every session, a published message reaches each session once for each of its filters that
  matches, and no table names a session that was deleted.
\<close>

unbundle bit_operations_syntax

section \<open>A table of subscriptions\<close>

text \<open>
  What the handlers rely on: topics can be added to and removed from the filters of one session, and
  all of them dropped, without effect on other sessions.
\<close>

locale subscription_table =
  fixes subscribe :: "byte list \<Rightarrow> nat \<Rightarrow> 'm \<Rightarrow> 'm"
    and unsubscribe :: "byte list \<Rightarrow> nat \<Rightarrow> 'm \<Rightarrow> 'm"
    and subscriptions :: "'m \<Rightarrow> nat \<Rightarrow> byte list set"
    and table_ok :: "'m \<Rightarrow> bool"
  assumes subscribe_ok: "table_ok m \<Longrightarrow> table_ok (subscribe t sid m)"
    and unsubscribe_ok: "table_ok m \<Longrightarrow> table_ok (unsubscribe t sid m)"
    and subscribe_filters: "table_ok m \<Longrightarrow>
      subscriptions (subscribe t sid m) = (subscriptions m)(sid := insert t (subscriptions m sid))"
    and unsubscribe_filters: "table_ok m \<Longrightarrow>
      subscriptions (unsubscribe t sid m) = (subscriptions m)(sid := subscriptions m sid - {t})"
begin

lemma subscribe_fold:
  "table_ok m \<Longrightarrow> table_ok (fold (\<lambda>t. subscribe t sid) ts m) \<and>
   subscriptions (fold (\<lambda>t. subscribe t sid) ts m) = (subscriptions m)(sid := subscriptions m sid \<union> set ts)"
  by (induction ts arbitrary: m) (auto simp: subscribe_ok subscribe_filters fun_eq_iff)

lemma unsubscribe_fold:
  "table_ok m \<Longrightarrow> table_ok (fold (\<lambda>t. unsubscribe t sid) ts m) \<and>
   subscriptions (fold (\<lambda>t. unsubscribe t sid) ts m) = (subscriptions m)(sid := subscriptions m sid - set ts)"
  by (induction ts arbitrary: m) (auto simp: unsubscribe_ok unsubscribe_filters fun_eq_iff)

end

section \<open>The tables of the broker\<close>

definition filters :: "mqtt \<Rightarrow> nat \<Rightarrow> byte list set" where
  "filters m sid =
     {t. \<exists>S. topic_subscriptions m t = Some S \<and> sid \<in> S} \<union> {t. \<exists>S. (t, S) \<in> set (topic_wc_subscriptions m) \<and> sid \<in> S}"

definition subs_ok :: "mqtt \<Rightarrow> bool" where
  "subs_ok m \<longleftrightarrow> (\<forall>t S. topic_subscriptions m t = Some S \<longrightarrow> 0x23 \<notin> set t) \<and>
     (\<forall>t S. (t, S) \<in> set (topic_wc_subscriptions m) \<longrightarrow> 0x23 \<in> set t) \<and> distinct (map fst (topic_wc_subscriptions m))"

lemma wc_insert_fst: "map fst (wc_insert t sid ts) = (if t \<in> set (map fst ts) then map fst ts else map fst ts @ [t])"
  by (induction t sid ts rule: wc_insert.induct) auto

lemma wc_insert_mem:
  "distinct (map fst ts) \<Longrightarrow>
   (\<exists>S. (t', S) \<in> set (wc_insert t sid ts) \<and> x \<in> S) \<longleftrightarrow> t' = t \<and> x = sid \<or> (\<exists>S. (t', S) \<in> set ts \<and> x \<in> S)"
proof (induction t sid ts rule: wc_insert.induct)
  case (2 topic sid t S ts)
  then show ?case by auto
qed auto

lemma wc_erase_fst [simp]: "map fst (wc_erase t sid ts) = map fst ts"
  by (induction t sid ts rule: wc_erase.induct) auto

lemma wc_erase_mem:
  "distinct (map fst ts) \<Longrightarrow>
   (\<exists>S. (t', S) \<in> set (wc_erase t sid ts) \<and> x \<in> S) \<longleftrightarrow> (t', x) \<noteq> (t, sid) \<and> (\<exists>S. (t', S) \<in> set ts \<and> x \<in> S)"
proof (induction t sid ts rule: wc_erase.induct)
  case (2 topic sid t S ts)
  show ?case
  proof (cases "t = topic")
    case True
    with "2.prems" have "\<And>S. (topic, S) \<notin> set ts" by (metis distinct.simps(2) fst_conv image_eqI list.simps(9) set_map)
    with True show ?thesis by auto
  next
    case False
    with 2 have "(\<exists>S. (t', S) \<in> set (wc_erase topic sid ts) \<and> x \<in> S) \<longleftrightarrow>
      (t', x) \<noteq> (topic, sid) \<and> (\<exists>S. (t', S) \<in> set ts \<and> x \<in> S)" by simp
    with False show ?thesis by auto
  qed
qed auto

lemma in_fst_iff: "(\<exists>S. (t, S) \<in> set ts) \<longleftrightarrow> t \<in> set (map fst ts)"
  by force

lemma wildcards_iff:
  "(\<forall>t S. (t, S) \<in> set ts \<longrightarrow> P t) \<longleftrightarrow> (\<forall>t \<in> set (map fst ts). P t)"
  by force

lemma register_ok: "subs_ok m \<Longrightarrow> subs_ok (register_topic t sid m)"
  unfolding subs_ok_def wildcards_iff
  by (auto simp: register_topic_def wc_insert_fst simp del: set_map split: if_splits option.splits)

lemma unregister_ok: "subs_ok m \<Longrightarrow> subs_ok (unregister_topic t sid m)"
  unfolding subs_ok_def wildcards_iff by (simp add: unregister_topic_def)

lemma register_filters:
  assumes "subs_ok m"
  shows "filters (register_topic t sid m) = (filters m)(sid := insert t (filters m sid))"
proof (rule ext)
  fix x
  have d: "distinct (map fst (topic_wc_subscriptions m))" using assms by (simp add: subs_ok_def)
  show "filters (register_topic t sid m) x = ((filters m)(sid := insert t (filters m sid))) x"
  proof (cases "0x23 \<in> set t")
    case True
    then show ?thesis
      by (auto simp: filters_def register_topic_def wc_insert_mem [OF d] simp del: split_paired_Ex)
  next
    case False
    then show ?thesis
      by (cases "topic_subscriptions m t") (auto simp: filters_def register_topic_def split: if_splits)
  qed
qed

lemma unregister_filters:
  assumes "subs_ok m"
  shows "filters (unregister_topic t sid m) = (filters m)(sid := filters m sid - {t})"
proof (rule ext)
  fix x
  have d: "distinct (map fst (topic_wc_subscriptions m))" using assms by (simp add: subs_ok_def)
  show "filters (unregister_topic t sid m) x = ((filters m)(sid := filters m sid - {t})) x"
    by (auto simp: filters_def unregister_topic_def wc_erase_mem [OF d] split: if_splits)
qed

interpretation broker: subscription_table register_topic unregister_topic filters subs_ok
  by unfold_locales (simp_all add: register_ok unregister_ok register_filters unregister_filters)

lemma unregister_all:
  assumes "subs_ok m"
  shows "subs_ok (unregister_all_topics sid m)" "filters (unregister_all_topics sid m) = (filters m)(sid := {})"
proof -
  show "subs_ok (unregister_all_topics sid m)"
    using assms by (auto simp: subs_ok_def unregister_all_topics_def comp_def case_prod_beta)
  show "filters (unregister_all_topics sid m) = (filters m)(sid := {})"
    by (rule ext) (fastforce simp: filters_def unregister_all_topics_def split: if_splits)
qed

section \<open>The topics of a message\<close>

lemma topics_loop_fold:
  "topics_loop act skip ack mem len pos reply m = Inr (reply', m') \<Longrightarrow>
   \<exists>ts. m' = fold act ts m \<and> reply' = reply @ replicate (length ts) ack"
proof (induction act skip ack mem len pos reply m rule: topics_loop.induct)
  case (1 act skip ack mem len pos reply m)
  show ?case
  proof (cases "pos < len")
    case True
    from "1.prems" True obtain h topic where h: "octets_at mem pos 2 = Inr h" "\<not> 2 ^ 31 \<le> len - pos"
      and t: "octets_at mem (pos + 2) (min (unat (mk16 (h ! 0) (h ! 1))) (len - pos)) = Inr topic"
      and r: "topics_loop act skip ack mem len (pos + 2 + min (unat (mk16 (h ! 0) (h ! 1))) (len - pos) + skip)
        (reply @ [ack]) (act topic m) = Inr (reply', m')"
      unfolding topics_loop.simps [of act skip ack mem len pos] Let_def
      by (auto simp only: if_True if_False rbind_eq_Inr sum.distinct not_True_eq_False split: if_splits)
    from "1.IH" [OF True h(2) refl r] obtain ts where "m' = fold act ts (act topic m)" "reply' = (reply @ [ack]) @ replicate (length ts) ack"
      by blast
    then have "m' = fold act (topic # ts) m \<and> reply' = reply @ replicate (length (topic # ts)) ack" by simp
    then show ?thesis by blast
  next
    case False
    with "1.prems" have "m' = fold act [] m \<and> reply' = reply @ replicate (length []) ack"
      by (subst (asm) topics_loop.simps) simp
    then show ?thesis by blast
  qed
qed

text \<open>The octets of a list of topics, each with the \<open>skip\<close> octets that follow it.\<close>

definition topics_octets :: "byte list \<Rightarrow> byte list list \<Rightarrow> byte list" where
  "topics_octets tail ts = concat (map (\<lambda>t. bytes16 (of_nat (length t)) @ t @ tail) ts)"

lemma topics_octets_simps [simp]:
  "topics_octets tail [] = []"
  "topics_octets tail (t # ts) = bytes16 (of_nat (length t)) @ t @ tail @ topics_octets tail ts"
  by (simp_all add: topics_octets_def)

lemma unat_of_nat_u16: "n < 65536 \<Longrightarrow> unat (of_nat n :: u16) = n"
  by (subst unsigned_of_nat) (simp add: take_bit_nat_eq_self)

lemma topics_loop_octets:
  assumes "\<forall>t \<in> set ts. length t < 65536"
    and "length pre + length (topics_octets tail ts) < 2 ^ 31" "length tail \<le> 1"
  shows "topics_loop act (length tail) ack (pre @ topics_octets tail ts @ [0]) (length pre + length (topics_octets tail ts))
      (length pre) reply m = Inr (reply @ replicate (length ts) ack, fold act ts m)"
  using assms
proof (induction ts arbitrary: pre reply m)
  case Nil
  then show ?case by (subst topics_loop.simps) simp
next
  case (Cons t ts)
  obtain hi lo where b: "bytes16 (of_nat (length t)) = [hi, lo]" "mk16 hi lo = of_nat (length t)"
    by (rule bytes16_obtain)
  let ?rest = "tail @ topics_octets tail ts @ [0]"
  define mem where "mem = pre @ topics_octets tail (t # ts) @ [0]"
  let ?len = "length pre + length (topics_octets tail (t # ts))"
  have t16: "length t < 65536" using Cons.prems by simp
  have h: "octets_at mem (length pre) 2 = Inr [hi, lo]"
    using octets_at_middle [of pre "length pre" "[hi, lo]" 2 "t @ ?rest"] b by (simp add: mem_def)
  have tl: "min (unat (mk16 hi lo)) (?len - length pre) = length t"
    using unat_of_nat_u16 [OF t16] b by simp
  have tt: "octets_at mem (length pre + 2) (length t) = Inr t"
    using octets_at_middle [of "pre @ [hi, lo]" "length pre + 2" t "length t" ?rest] b by (simp add: mem_def)
  have "topics_loop act (length tail) ack mem ?len (length pre) reply m =
      topics_loop act (length tail) ack mem ?len (length pre + 2 + length t + length tail) (reply @ [ack]) (act t m)"
    using Cons.prems(2) tl by (subst topics_loop.simps) (simp add: h tt [simplified] Let_def)
  moreover have "topics_loop act (length tail) ack ((pre @ [hi, lo] @ t @ tail) @ topics_octets tail ts @ [0])
      (length (pre @ [hi, lo] @ t @ tail) + length (topics_octets tail ts)) (length (pre @ [hi, lo] @ t @ tail)) (reply @ [ack]) (act t m) =
      Inr ((reply @ [ack]) @ replicate (length ts) ack, fold act ts (act t m))"
    using Cons.prems b by (intro Cons.IH) auto
  ultimately show ?case using b by (simp add: mem_def add.assoc)
qed

section \<open>Publishing\<close>

text \<open>A filter with a wildcard matches the topics that begin with what is in front of it.\<close>

definition topic_matches :: "byte list \<Rightarrow> byte list \<Rightarrow> bool" where
  "topic_matches f topic \<longleftrightarrow> (if 0x23 \<in> set f then prefix (takeWhile (\<lambda>c. c \<noteq> 0x23) f) topic else f = topic)"

lemma take_wc_pos: "take (wc_pos t) topic = take (wc_pos t) t \<longleftrightarrow> prefix (takeWhile (\<lambda>c. c \<noteq> 0x23) t) topic"
proof -
  have "take (wc_pos t) t = takeWhile (\<lambda>c. c \<noteq> 0x23) t"
    unfolding wc_pos_def by (metis takeWhile_eq_take)
  then show ?thesis by (metis append_eq_conv_conj prefix_def wc_pos_def)
qed

definition enqueue :: "byte list list \<Rightarrow> mqtt_session_data \<Rightarrow> mqtt_session_data" where
  "enqueue ms s = s\<lparr>msgs_out := msgs_out s @ ms\<rparr>"

lemma enqueue_enqueue [simp]: "enqueue b (enqueue a s) = enqueue (a @ b) s"
  by (simp add: enqueue_def)

lemma enqueue_Nil [simp]: "enqueue [] = (\<lambda>s. s)"
  by (rule ext) (simp add: enqueue_def)

definition enqueue_all :: "(nat \<Rightarrow> byte list list) \<Rightarrow> mqtt \<Rightarrow> mqtt" where
  "enqueue_all q m = m\<lparr>msds := (\<lambda>sid. map_option (enqueue (q sid)) (msds m sid))\<rparr>"

lemma enqueue_all_simps [simp]:
  "enqueue_all q2 (enqueue_all q1 m) = enqueue_all (\<lambda>sid. q1 sid @ q2 sid) m"
  "topic_subscriptions (enqueue_all q m) = topic_subscriptions m"
  "topic_wc_subscriptions (enqueue_all q m) = topic_wc_subscriptions m"
  "recv_threads (enqueue_all q m) = recv_threads m"
  "msds (enqueue_all q m) sid = map_option (enqueue (q sid)) (msds m sid)"
  by (simp_all add: enqueue_all_def option.map_comp comp_def)

lemma enqueue_all_Nil: "enqueue_all (\<lambda>_. []) m = m"
  by (simp add: enqueue_all_def option.map_ident)

lemma queue_all_enqueue:
  "\<forall>sid \<in> S. msds m sid \<noteq> None \<Longrightarrow> queue_all S msg m = Inr (enqueue_all (\<lambda>sid. if sid \<in> S then [msg] else []) m)"
  by (auto simp: queue_all_def enqueue_all_def enqueue_def [abs_def] option.map_ident fun_eq_iff intro!: mqtt.fold_congs)

lemma publish_wc_enqueue:
  "\<forall>(t, S) \<in> set ts. 0x23 \<in> set t \<and> (\<forall>sid \<in> S. msds m sid \<noteq> None) \<Longrightarrow>
   publish_wc topic msg ts m =
     Inr (enqueue_all (\<lambda>sid. replicate (length (filter (\<lambda>(t, S). topic_matches t topic \<and> sid \<in> S) ts)) msg) m)"
proof (induction topic msg ts m rule: publish_wc.induct)
  case (1 topic msg m)
  then show ?case by (simp add: enqueue_all_Nil)
next
  case (2 topic msg t S ts m)
  have t: "0x23 \<in> set t" and S: "\<forall>sid \<in> S. msds m sid \<noteq> None" using "2.prems" by auto
  have mt: "take (wc_pos t) topic = take (wc_pos t) t \<longleftrightarrow> topic_matches t topic"
    using t by (simp add: take_wc_pos topic_matches_def)
  show ?case
  proof (cases "topic_matches t topic")
    case True
    let ?m = "enqueue_all (\<lambda>sid. if sid \<in> S then [msg] else []) m"
    have "publish_wc topic msg ts ?m =
      Inr (enqueue_all (\<lambda>sid. replicate (length (filter (\<lambda>(t, S). topic_matches t topic \<and> sid \<in> S) ts)) msg) ?m)"
      using "2.prems" True mt by (intro "2.IH"(2)) (auto simp: queue_all_enqueue [OF S] t)
    moreover have "(\<lambda>sid. (if sid \<in> S then [msg] else []) @ replicate (length (filter (\<lambda>(t, S). topic_matches t topic \<and> sid \<in> S) ts)) msg) =
      (\<lambda>sid. replicate (length (filter (\<lambda>(t, S). topic_matches t topic \<and> sid \<in> S) ((t, S) # ts))) msg)"
      using True by (auto simp: fun_eq_iff)
    ultimately show ?thesis using True mt t by (simp add: queue_all_enqueue [OF S])
  next
    case False
    with 2 mt t show ?thesis by simp
  qed
qed

lemma filters_card:
  assumes "subs_ok m"
  shows "card {f \<in> filters m sid. topic_matches f topic} =
    (if sid \<in> (case topic_subscriptions m topic of None \<Rightarrow> {} | Some S \<Rightarrow> S) then 1 else 0) +
    length (filter (\<lambda>(t, S). topic_matches t topic \<and> sid \<in> S) (topic_wc_subscriptions m))"
proof -
  let ?ts = "filter (\<lambda>(t, S). topic_matches t topic \<and> sid \<in> S) (topic_wc_subscriptions m)"
  let ?E = "if sid \<in> (case topic_subscriptions m topic of None \<Rightarrow> {} | Some S \<Rightarrow> S) then {topic} else {}"
  have d: "distinct (map fst ?ts)"
    using assms by (simp add: subs_ok_def distinct_map_filter)
  have e: "topic_matches t topic \<longleftrightarrow> t = topic" if "topic_subscriptions m t = Some S" for t S
    using that assms by (auto simp: subs_ok_def topic_matches_def)
  have E: "f \<in> ?E \<longleftrightarrow> (\<exists>S. topic_subscriptions m f = Some S \<and> sid \<in> S) \<and> topic_matches f topic" for f
    using e [of f] by (cases "topic_subscriptions m topic") auto
  have T: "f \<in> set (map fst ?ts) \<longleftrightarrow> (\<exists>S. (f, S) \<in> set (topic_wc_subscriptions m) \<and> sid \<in> S) \<and> topic_matches f topic" for f
    by force
  have "{f \<in> filters m sid. topic_matches f topic} = ?E \<union> set (map fst ?ts)"
    unfolding set_eq_iff Un_iff E T by (auto simp: filters_def)
  moreover have "?E \<inter> set (map fst ?ts) = {}"
    unfolding set_eq_iff Int_iff E T using assms by (auto simp: subs_ok_def)
  moreover have "card (set (map fst ?ts)) = length ?ts"
    using distinct_card [OF d] by simp
  ultimately show ?thesis by (simp add: card_Un_disjoint)
qed

text \<open>No table names a session that does not exist or whose thread has ended.\<close>

definition broker_ok :: "mqtt \<Rightarrow> bool" where
  "broker_ok m \<longleftrightarrow> subs_ok m \<and>
     (\<forall>sid. filters m sid \<noteq> {} \<longrightarrow> msds m sid \<noteq> None \<and> fst (recv_threads m sid) \<noteq> Ended)"

lemma filters_memberI:
  "topic_subscriptions m t = Some S \<Longrightarrow> sid \<in> S \<Longrightarrow> filters m sid \<noteq> {}"
  "(t, S) \<in> set (topic_wc_subscriptions m) \<Longrightarrow> sid \<in> S \<Longrightarrow> filters m sid \<noteq> {}"
  by (auto simp: filters_def)

lemma publish_enqueue:
  assumes "broker_ok m"
  shows "publish topic payload m =
    Inr (enqueue_all (\<lambda>sid. replicate (card {f \<in> filters m sid. topic_matches f topic}) (publish_frame topic payload)) m)"
proof -
  let ?S = "case topic_subscriptions m topic of None \<Rightarrow> {} | Some S \<Rightarrow> S"
  let ?msg = "publish_frame topic payload"
  let ?n = "\<lambda>sid. length (filter (\<lambda>(t, S). topic_matches t topic \<and> sid \<in> S) (topic_wc_subscriptions m))"
  have ok: "subs_ok m" and ex: "\<And>sid. filters m sid \<noteq> {} \<Longrightarrow> msds m sid \<noteq> None"
    using assms by (auto simp: broker_ok_def)
  let ?m = "enqueue_all (\<lambda>sid. if sid \<in> ?S then [?msg] else []) m"
  have S: "\<forall>sid \<in> ?S. msds m sid \<noteq> None"
    using ex filters_memberI(1) by (fastforce split: option.splits)
  have "\<forall>(t, S) \<in> set (topic_wc_subscriptions m). 0x23 \<in> set t \<and> (\<forall>sid \<in> S. msds ?m sid \<noteq> None)"
    using ok ex filters_memberI(2) by (fastforce simp: subs_ok_def)
  from publish_wc_enqueue [OF this, of topic ?msg]
  have "publish topic payload m = Inr (enqueue_all (\<lambda>sid. (if sid \<in> ?S then [?msg] else []) @ replicate (?n sid) ?msg) m)"
    by (simp add: publish_def Let_def queue_all_enqueue [OF S])
  moreover have "(if sid \<in> ?S then [?msg] else []) @ replicate (?n sid) ?msg =
    replicate (card {f \<in> filters m sid. topic_matches f topic}) ?msg" for sid
    by (simp add: filters_card [OF ok])
  ultimately show ?thesis by simp
qed

section \<open>What a message changes\<close>

definition msg_frame :: "nat \<Rightarrow> mqtt \<Rightarrow> mqtt \<Rightarrow> bool" where
  "msg_frame sid m m' \<longleftrightarrow> subs_ok m' \<and> (\<forall>x. x \<noteq> sid \<longrightarrow> filters m' x = filters m x) \<and>
     (\<forall>x. map_option (\<lambda>s. (md_data s, md_terminate s)) (msds m' x) = map_option (\<lambda>s. (md_data s, md_terminate s)) (msds m x)) \<and>
     (\<forall>x. fst (recv_threads m' x) = fst (recv_threads m x)) \<and> (\<forall>x. x \<noteq> sid \<longrightarrow> recv_threads m' x = recv_threads m x)"

lemma frame_record [simp]:
  "filters (m\<lparr>recv_threads := r\<rparr>) = filters m" "subs_ok (m\<lparr>recv_threads := r\<rparr>) = subs_ok m"
  "filters (m\<lparr>msds := d\<rparr>) = filters m" "subs_ok (m\<lparr>msds := d\<rparr>) = subs_ok m"
  by (simp_all add: filters_def subs_ok_def fun_eq_iff)

lemma frame_move [simp]:
  "filters (move_thread sid pos m) = filters m" "subs_ok (move_thread sid pos m) = subs_ok m"
  "msds (move_thread sid pos m) = msds m" "fst (recv_threads (move_thread sid pos m) x) = (if x = sid then pos else fst (recv_threads m x))"
  by (simp_all add: move_thread_def filters_def subs_ok_def fun_eq_iff)

lemma frame_upd [simp]:
  "filters (upd_msd sid f m) = filters m" "subs_ok (upd_msd sid f m) = subs_ok m"
  "recv_threads (upd_msd sid f m) = recv_threads m" "msds (upd_msd sid f m) x = (if x = sid then map_option f (msds m sid) else msds m x)"
  by (simp_all add: upd_msd_def filters_def subs_ok_def fun_eq_iff)

lemma frame_other [simp]:
  "filters (mqtt_delete sid m) = filters m" "subs_ok (mqtt_delete sid m) = subs_ok m"
  "msds (unregister_all_topics sid m) = msds m" "recv_threads (unregister_all_topics sid m) = recv_threads m"
  "msds (mqtt_delete sid m) = (msds m)(sid := None)" "recv_threads (mqtt_delete sid m) = recv_threads m"
  by (simp_all add: mqtt_delete_def unregister_all_topics_def filters_def subs_ok_def fun_eq_iff)

lemma topics_frame:
  "msds (fold (\<lambda>t. register_topic t sid) ts m) = msds m" "recv_threads (fold (\<lambda>t. register_topic t sid) ts m) = recv_threads m"
  "msds (fold (\<lambda>t. unregister_topic t sid) ts m) = msds m" "recv_threads (fold (\<lambda>t. unregister_topic t sid) ts m) = recv_threads m"
  by (induction ts arbitrary: m) (simp_all add: register_topic_def unregister_topic_def)

lemma msg_frame_topics:
  assumes "subs_ok m"
  shows "msg_frame sid m (fold (\<lambda>t. register_topic t sid) ts m)" "msg_frame sid m (fold (\<lambda>t. unregister_topic t sid) ts m)"
  using broker.subscribe_fold [OF assms, of sid ts] broker.unsubscribe_fold [OF assms, of sid ts]
  by (simp_all add: msg_frame_def topics_frame)

lemma topics_reply_fold:
  assumes "topics_reply ty act skip ack mem len m = Inr (r, m')"
  shows "\<exists>ts. m' = fold act ts m"
  using assms by (auto simp: topics_reply_def dest!: topics_loop_fold)

lemma enqueue_all_frame:
  "subs_ok (enqueue_all q m) = subs_ok m" "filters (enqueue_all q m) = filters m"
  by (simp_all add: subs_ok_def filters_def fun_eq_iff)

lemma on_publish_cases:
  assumes "broker_ok m" "on_publish control mem len m = Inr (r, m')"
  shows "m' = m \<or> (\<exists>topic payload. publish topic payload m = Inr m')"
  using assms(2) by (auto simp: on_publish_def Let_def simp del: One_nat_def split: if_splits)

lemma msg_frame_enqueue: "subs_ok m \<Longrightarrow> msg_frame sid m (enqueue_all q m)"
  by (simp add: msg_frame_def enqueue_all_frame option.map_comp comp_def enqueue_def)

lemma msg_frame_refl: "subs_ok m \<Longrightarrow> msg_frame sid m m"
  by (simp add: msg_frame_def)

lemma handle_message_msg_frame:
  assumes "broker_ok m" "handle_message control mem len sid m = Inr (r, m')"
  shows "msg_frame sid m m'"
proof -
  have ok: "subs_ok m" using assms(1) by (simp add: broker_ok_def)
  have c: "msg_frame sid m m'" if "on_connect mem len sid m = Inr (r, m')"
    using that ok by (auto simp: on_connect_def msg_frame_def Let_def option.map_comp comp_def split: prod.splits if_splits)
  have p: "msg_frame sid m m'" if "on_publish control mem len m = Inr (r, m')"
    using on_publish_cases [OF assms(1) that] msg_frame_refl [OF ok] msg_frame_enqueue [OF ok]
    by (auto simp: publish_enqueue [OF assms(1)])
  have t: "msg_frame sid m m'" if "on_subscribe mem len sid m = Inr (r, m') \<or> on_unsubscribe mem len sid m = Inr (r, m')"
    using that msg_frame_topics [OF ok] unfolding on_subscribe_def on_unsubscribe_def by (blast dest: topics_reply_fold)
  show ?thesis
    using assms(2) c p t msg_frame_refl [OF ok] by (auto simp: handle_message_def Let_def split: if_splits)
qed

section \<open>Reachable states\<close>

lemma broker_ok_ended: "broker_ok m \<Longrightarrow> broker_ok (unregister_all_topics sid (move_thread sid Ended m))"
  by (auto simp: broker_ok_def unregister_all)

lemma broker_ok_delete: "broker_ok m \<Longrightarrow> fst (recv_threads m sid) = Ended \<Longrightarrow> broker_ok (mqtt_delete sid m)"
  by (simp add: broker_ok_def) blast

lemma broker_ok_upd [simp]: "broker_ok (upd_msd sid f m) = broker_ok m"
  by (auto simp: broker_ok_def)

lemma broker_ok_move: "broker_ok m \<Longrightarrow> pos \<noteq> Ended \<Longrightarrow> broker_ok (move_thread sid pos m)"
  by (auto simp: broker_ok_def)

lemma broker_ok_msg_frame:
  assumes "broker_ok m" "msg_frame sid m m'" "msds m sid \<noteq> None" "pos \<noteq> Ended"
  shows "broker_ok (move_thread sid pos m')"
proof -
  have n: "msds m' x = None \<longleftrightarrow> msds m x = None" for x
  proof -
    have "map_option (\<lambda>s. (md_data s, md_terminate s)) (msds m' x) = map_option (\<lambda>s. (md_data s, md_terminate s)) (msds m x)"
      using assms(2) by (simp add: msg_frame_def)
    then show ?thesis by (cases "msds m' x"; cases "msds m x") simp_all
  qed
  have f: "filters m' x = filters m x" "fst (recv_threads m' x) = fst (recv_threads m x)" if "x \<noteq> sid" for x
    using assms(2) that by (simp_all add: msg_frame_def)
  have "msds m' x \<noteq> None \<and> fst (recv_threads (move_thread sid pos m') x) \<noteq> Ended" if "filters m' x \<noteq> {}" for x
    using that assms(1,3,4) f [of x] n [of x] unfolding broker_ok_def by (cases "x = sid") auto
  moreover have "subs_ok m'" using assms(2) by (simp add: msg_frame_def)
  ultimately show ?thesis by (simp add: broker_ok_def)
qed

lemma broker_ok_handled:
  "broker_ok m \<Longrightarrow> msds m sid = Some s \<Longrightarrow> msg_frame sid (upd_msd sid f m) b \<Longrightarrow> broker_ok (move_thread sid Loop_head b)"
  by (rule broker_ok_msg_frame [of "upd_msd sid f m"]) auto

lemma read_step_cases:
  assumes "read_step n sid s k m = Inr (out, m')"
  obtains g sent s' where "mqtt_get_bytes n s = (g, sent, s')"
    "g = Waits \<and> out = map (Send sid) sent \<and> m' = upd_msd sid (\<lambda>_. s') m \<or>
     g \<noteq> Waits \<and> (\<exists>out'. k g (upd_msd sid (\<lambda>_. s') m) = Inr (out', m') \<and> out = map (Send sid) sent @ out')"
  using assms by (cases "mqtt_get_bytes n s") (auto simp: read_step_def Let_def split: if_splits)

lemma thread_step_broker_ok:
  assumes "broker_ok m" "thread_step fresh sid m = Inr (out, m')"
  shows "broker_ok m'"
proof -
  obtain s where s: "msds m sid = Some s" using assms(2) by (cases "msds m sid") (auto simp: thread_step_def)
  show ?thesis
  proof (cases "fst (recv_threads m sid)")
    case Loop_head
    with assms s show ?thesis
      by (auto simp: thread_step_def intro: broker_ok_ended broker_ok_move split: if_splits)
  next
    case Get_control
    with assms s show ?thesis
      by (auto simp: thread_step_def intro!: broker_ok_move elim!: read_step_cases)
  next
    case (Length_loop c len)
    with assms s show ?thesis by (auto simp: thread_step_def intro!: broker_ok_move split: if_splits)
  next
    case (Get_length c len)
    with assms s show ?thesis
      by (auto simp: thread_step_def Let_def intro!: broker_ok_move elim!: read_step_cases split: if_splits)
  next
    case (Get_body c len)
    with assms s show ?thesis
      by (auto simp: thread_step_def Let_def elim!: read_step_cases split: if_splits
          dest!: handle_message_msg_frame [rotated] intro: broker_ok_handled)
  next
    case Ended
    with assms s show ?thesis by (simp add: thread_step_def)
  qed
qed

lemma mqtt_step_broker_ok:
  assumes "mqtt_step m e out m'" "broker_ok m"
  shows "broker_ok m'"
  using assms
proof (cases rule: mqtt_step.cases)
  case (mqtt_step_new sid a)
  with assms(2) show ?thesis by (auto simp: broker_ok_def mqtt_new_session_def filters_def subs_ok_def)
next
  case (mqtt_step_data sid d)
  with assms(2) show ?thesis by (simp add: mqtt_new_data_def split: option.splits)
next
  case (mqtt_step_thread sid fresh)
  with assms(2) show ?thesis by (blast intro: thread_step_broker_ok)
next
  case (mqtt_step_close sid)
  with assms(2) show ?thesis by (simp add: mqtt_close_session_2_def)
next
  case (mqtt_step_join sid s)
  with assms(2) show ?thesis by (simp add: broker_ok_delete)
qed

lemma mqtt_run_broker_ok: "mqtt_run m tr m' \<Longrightarrow> broker_ok m \<Longrightarrow> broker_ok m'"
  by (induction rule: mqtt_run.induct) (auto intro: mqtt_step_broker_ok)

lemma broker_ok_new [simp]: "broker_ok mqtt_new"
  by (simp add: broker_ok_def subs_ok_def filters_def mqtt_new_def)

lemma mqtt_reachable_ok: "mqtt_run mqtt_new tr m \<Longrightarrow> broker_ok m"
  by (erule mqtt_run_broker_ok) simp

section \<open>The requests of clients\<close>

lemma unat_of_nat32: "n < 2 ^ 32 \<Longrightarrow> unat (of_nat n :: u32) = n"
  by (subst unsigned_of_nat) (simp add: take_bit_nat_eq_self)

lemma sint_of_nat32: "n < 2 ^ 31 \<Longrightarrow> sint (of_nat n :: u32) = int n"
  by (simp add: signed_of_nat signed_take_bit_int_eq_self)

lemma topics_reply_octets:
  assumes "\<forall>t \<in> set ts. length t < 65536" "length tail \<le> 1" "length i = 2"
    and "2 + length (topics_octets tail ts) < 2 ^ 31"
  shows "topics_reply ty act (length tail) ack (i @ topics_octets tail ts @ [0]) (of_nat (2 + length (topics_octets tail ts))) m =
    Inr ([[push_bit 4 ty, of_nat (length ts + 2)] @ i @ replicate (length ts) ack], fold act ts m)"
proof -
  have "unat (of_nat (2 + length (topics_octets tail ts)) :: u32) = length i + length (topics_octets tail ts)"
    using assms(3,4) by (subst unat_of_nat32) auto
  moreover have "octets_at (i @ topics_octets tail ts @ [0]) 0 2 = Inr i"
    using assms(3) octets_at_middle [of "[]" 0 i 2] by simp
  ultimately show ?thesis
    using topics_loop_octets [OF assms(1), of i tail act ack "[push_bit 4 ty, 0] @ i" m] assms(2-4)
    by (simp add: topics_reply_def)
qed

text \<open>
  C15. Subscriptions: in every reachable state, a SUBSCRIBE of a client adds its topics to the filters of that
  client, an UNSUBSCRIBE removes them, and no other client is affected; both are acknowledged with the
  identifier of the message and one octet per topic.\<close>

theorem mqtt_subscriptions:
  assumes "mqtt_run mqtt_new tr m" and "\<forall>t \<in> set ts. length t < 65536" and "length i = 2"
    and "2 + length (topics_octets [q] ts) < 2 ^ 31"
  shows "(\<exists>m1. handle_message 0x82 (i @ topics_octets [q] ts @ [0]) (of_nat (2 + length (topics_octets [q] ts))) sid m =
        Inr ([[0x90, of_nat (length ts + 2)] @ i @ replicate (length ts) 2], m1) \<and>
      filters m1 = (filters m)(sid := filters m sid \<union> set ts)) \<and>
    (\<exists>m2. handle_message 0xa2 (i @ topics_octets [] ts @ [0]) (of_nat (2 + length (topics_octets [] ts))) sid m =
        Inr ([[0xb0, of_nat (length ts + 2)] @ i @ replicate (length ts) 0], m2) \<and>
      filters m2 = (filters m)(sid := filters m sid - set ts))"
proof -
  have ok: "subs_ok m" using mqtt_reachable_ok [OF assms(1)] by (simp add: broker_ok_def)
  have l: "length (topics_octets [] ts) \<le> length (topics_octets [q] ts)"
    by (induction ts) simp_all
  have "\<exists>m1. handle_message 0x82 (i @ topics_octets [q] ts @ [0]) (of_nat (2 + length (topics_octets [q] ts))) sid m =
        Inr ([[0x90, of_nat (length ts + 2)] @ i @ replicate (length ts) 2], m1) \<and>
      filters m1 = (filters m)(sid := filters m sid \<union> set ts)"
    using topics_reply_octets [of ts "[q]" i 9 "\<lambda>t. register_topic t sid" 2 m] assms broker.subscribe_fold [OF ok, of sid ts]
    by (simp add: handle_message_def on_subscribe_def)
  moreover have "\<exists>m2. handle_message 0xa2 (i @ topics_octets [] ts @ [0]) (of_nat (2 + length (topics_octets [] ts))) sid m =
        Inr ([[0xb0, of_nat (length ts + 2)] @ i @ replicate (length ts) 0], m2) \<and>
      filters m2 = (filters m)(sid := filters m sid - set ts)"
    using topics_reply_octets [of ts "[]" i 11 "\<lambda>t. unregister_topic t sid" 0 m] assms broker.unsubscribe_fold [OF ok, of sid ts] l
    by (simp add: handle_message_def on_unsubscribe_def)
  ultimately show ?thesis ..
qed

text \<open>A PUBLISH without an identifier, or with one.\<close>

lemma on_publish_octets:
  assumes "broker_ok m" "length topic < 65536" "payload \<noteq> []" "length i = (if drop_bit 1 control AND 3 \<noteq> (0 :: byte) then 2 else 0)"
    and "2 + length topic + length i + length payload < 2 ^ 31"
  shows "on_publish control (bytes16 (of_nat (length topic)) @ topic @ i @ payload @ [0])
      (of_nat (2 + length topic + length i + length payload)) m =
    Inr ([[0x40, 2] @ (if i = [] then [0, 0] else i)],
      enqueue_all (\<lambda>x. replicate (card {f \<in> filters m x. topic_matches f topic}) (publish_frame topic payload)) m)"
proof -
  obtain hi lo where b: "bytes16 (of_nat (length topic)) = [hi, lo]" "mk16 hi lo = of_nat (length topic)"
    by (rule bytes16_obtain)
  define mem where "mem = [hi, lo] @ topic @ i @ payload @ [0]"
  define len where "len = 2 + length topic + length i + length payload"
  have h: "octets_at mem 0 2 = Inr [hi, lo]" by (simp add: mem_def octets_at_def)
  have tl: "min (uint (mk16 hi lo)) (sint (of_nat len :: u32)) = int (length topic)"
  proof -
    have "len < 2 ^ 31" using assms(5) by (simp add: len_def)
    moreover have "uint (mk16 hi lo) = int (length topic)"
      using unat_of_nat_u16 [OF assms(2)] by (simp add: b uint_nat)
    ultimately show ?thesis by (simp only: sint_of_nat32) (simp add: len_def)
  qed
  have t: "octets_at mem 2 (length topic) = Inr topic"
    using octets_at_middle [of "[hi, lo]" 2 topic "length topic"] by (simp add: mem_def)
  have p: "octets_at mem (2 + length topic + length i) (length payload) = Inr payload"
    using octets_at_middle [of "[hi, lo] @ topic @ i" "2 + length topic + length i" payload "length payload" "[0]"] by (simp add: mem_def)
  have w: "(of_nat len :: u32) - of_nat (2 + length topic + length i) = of_nat (length payload)"
    by (simp add: len_def)
  have pl: "sint ((of_nat len :: u32) - of_nat (2 + length topic + length i)) = int (length payload)"
    unfolding w using assms(5) by (simp add: sint_of_nat32)
  have "on_publish control mem (of_nat len) m =
    Inr ([[0x40, 2] @ (if i = [] then [0, 0] else i)],
      enqueue_all (\<lambda>x. replicate (card {f \<in> filters m x. topic_matches f topic}) (publish_frame topic payload)) m)"
  proof (cases "drop_bit 1 control AND 3 = (0 :: byte)")
    case True
    with assms(4) have "i = []" by simp
    with True assms(3) p pl show ?thesis
      by (simp add: on_publish_def h tl t Let_def publish_enqueue [OF assms(1)] bytes16_def)
  next
    case False
    with assms(4) obtain x y where i: "i = [x, y]" by (auto simp: length_Suc_conv numeral_2_eq_2)
    have "octets_at mem (2 + length topic) 2 = Inr [x, y]"
      using octets_at_middle [of "[hi, lo] @ topic" "2 + length topic" "[x, y]" 2 "payload @ [0]"] by (simp add: mem_def i)
    with False assms(3) p pl i show ?thesis
      by (simp add: on_publish_def h tl t Let_def publish_enqueue [OF assms(1)] codec_simps)
  qed
  then show ?thesis by (simp add: mem_def len_def b)
qed

text \<open>
  C14. Publishing: in every reachable state, whatever clients have connected, subscribed and disconnected, a
  PUBLISH with a payload succeeds: the queue of every session grows by one copy of the message for each of its
  filters that matches the topic, and nothing else changes.  In particular no message is queued for a session that
  was deleted.  The message is acknowledged, also when it carries no identifier.\<close>

theorem mqtt_publish:
  assumes "mqtt_run mqtt_new tr m" and "length topic < 65536" and "payload \<noteq> []" and "drop_bit 4 control = 3"
    and "length i = (if drop_bit 1 control AND 3 \<noteq> (0 :: byte) then 2 else 0)"
    and "2 + length topic + length i + length payload < 2 ^ 31"
  shows "\<exists>m'. handle_message control (bytes16 (of_nat (length topic)) @ topic @ i @ payload @ [0])
        (of_nat (2 + length topic + length i + length payload)) sid m =
      Inr ([[0x40, 2] @ (if i = [] then [0, 0] else i)], m') \<and>
    m' = m\<lparr>msds := msds m'\<rparr> \<and>
    (\<forall>x. msds m' x = map_option (\<lambda>s. s\<lparr>msgs_out := msgs_out s @
       replicate (card {f \<in> filters m x. topic_matches f topic}) (publish_frame topic payload)\<rparr>) (msds m x))"
  using on_publish_octets [OF mqtt_reachable_ok [OF assms(1)] assms(2,3,5,6)] assms(4)
  by (simp add: handle_message_def enqueue_def [abs_def] enqueue_all_def)

text \<open>A client that has subscribed to ``a/#'': the steps of its thread.\<close>

definition example_state :: "recv_at \<Rightarrow> byte list \<Rightarrow> (byte list \<times> nat set) list \<Rightarrow> mqtt" where
  "example_state pos d w = \<lparr>topic_subscriptions = Map.empty, topic_wc_subscriptions = w,
     msds = [5 \<mapsto> \<lparr>md_data = d, msgs_out = [], session_name = ''c'', md_terminate = False\<rparr>],
     recv_threads = (\<lambda>x. if x = 5 then (pos, []) else (Ended, []))\<rparr>"

lemma example_moves:
  "upd_msd 5 f (example_state pos d w) = (example_state pos d w)\<lparr>msds := [5 \<mapsto> f \<lparr>md_data = d, msgs_out = [], session_name = ''c'', md_terminate = False\<rparr>]\<rparr>"
  "(example_state pos d w)\<lparr>msds := [5 \<mapsto> \<lparr>md_data = d', msgs_out = [], session_name = ''c'', md_terminate = False\<rparr>]\<rparr> = example_state pos d' w"
  "move_thread 5 pos' (example_state pos d w) = example_state pos' d w"
  "msds (example_state pos d w) 5 = Some \<lparr>md_data = d, msgs_out = [], session_name = ''c'', md_terminate = False\<rparr>"
  "fst (recv_threads (example_state pos d w) 5) = pos"
  by (auto simp: example_state_def upd_msd_def move_thread_def fun_eq_iff)

lemma example_run: "\<exists>tr. mqtt_run mqtt_new tr (example_state Loop_head [] [([0x61, 0x2f, 0x23], {5})])"
proof -
  let ?sub = "[0x82, 8, 0, 7, 0, 3, 0x61, 0x2f, 0x23, 0 :: byte]"
  let ?body = "[0, 7, 0, 3, 0x61, 0x2f, 0x23, 0 :: byte]"
  let ?w = "[([0x61, 0x2f, 0x23], {5})] :: (byte list \<times> nat set) list"
  have t: "\<exists>tr. mqtt_run mqtt_new tr m'"
    if "\<exists>tr. mqtt_run mqtt_new tr m" "msds m 5 \<noteq> None" "thread_step (\<lambda>_. 0) 5 m = Inr (out, m')" for m m' out
    using that by (blast intro: mqtt_run_step mqtt_step_thread)
  have 1: "mqtt_run mqtt_new [(New_session 5 ''c'', [])] (example_state Loop_head [] [])"
    using mqtt_run_step [OF mqtt_run_start mqtt_step_new, of mqtt_new 5 "''c''"]
    by (simp add: mqtt_new_def mqtt_new_session_def example_state_def fun_upd_def cong: if_cong)
  have 2: "\<exists>tr. mqtt_run mqtt_new tr (example_state Loop_head ?sub [])"
    using mqtt_run_step [OF 1 mqtt_step_data, of 5 ?sub] by (auto simp: mqtt_new_data_def example_moves)
  have 3: "\<exists>tr. mqtt_run mqtt_new tr (example_state Get_control ?sub [])"
    by (rule t [OF 2]) (simp_all add: thread_step_def example_moves)
  have 4: "\<exists>tr. mqtt_run mqtt_new tr (example_state (Length_loop 0x82 0) (8 # ?body) [])"
    by (rule t [OF 3]) (simp_all add: thread_step_def read_step_def mqtt_get_bytes_def example_moves)
  have 5: "\<exists>tr. mqtt_run mqtt_new tr (example_state (Get_length 0x82 0) (8 # ?body) [])"
    by (rule t [OF 4]) (simp_all add: thread_step_def example_moves)
  have 6: "\<exists>tr. mqtt_run mqtt_new tr (example_state (Get_body 0x82 8) ?body [])"
    by (rule t [OF 5]) (simp_all add: thread_step_def read_step_def mqtt_get_bytes_def example_moves add_length_def)
  have r: "register_topic [0x61, 0x2f, 0x23] 5 (example_state pos d []) = example_state pos d ?w" for pos d
    by (simp add: register_topic_def example_state_def)
  have h: "handle_message 0x82 (?body @ [0]) 8 5 (example_state pos [] []) = Inr ([[0x90, 3, 0, 7, 2]], example_state pos [] ?w)" for pos
    using topics_reply_octets [of "[[0x61, 0x2f, 0x23]]" "[0]" "[0, 7]" 9 "\<lambda>t. register_topic t 5" 2 "example_state pos [] []"]
    by (simp add: handle_message_def on_subscribe_def r bytes16_def)
  show ?thesis
    by (rule t [OF 6]) (simp_all add: thread_step_def read_step_def mqtt_get_bytes_def example_moves h [simplified])
qed

theorem mqtt_subscriptions_witness:
  "\<exists>tr m1. mqtt_run mqtt_new tr (example_state Loop_head [] [([0x61, 0x2f, 0x23], {5})]) \<and>
     handle_message 0x82 [0, 9, 0, 1, 0x62, 0, 0] 6 5 (example_state Loop_head [] [([0x61, 0x2f, 0x23], {5})]) =
       Inr ([[0x90, 3, 0, 9, 2]], m1) \<and> filters m1 5 = {[0x61, 0x2f, 0x23], [0x62]}"
proof -
  let ?m = "example_state Loop_head [] [([0x61, 0x2f, 0x23], {5})]"
  obtain tr where r: "mqtt_run mqtt_new tr ?m" using example_run by blast
  have "filters ?m 5 = {[0x61, 0x2f, 0x23]}" by (auto simp: filters_def example_state_def)
  then show ?thesis
    using r mqtt_subscriptions [OF r, of "[[0x62]]" "[0, 9]" 0 5] by (auto simp: bytes16_def)
qed

theorem mqtt_publish_witness:
  "\<exists>tr m'. mqtt_run mqtt_new tr (example_state Loop_head [] [([0x61, 0x2f, 0x23], {5})]) \<and>
     handle_message 0x30 [0, 3, 0x61, 0x2f, 0x62, 0x78, 0] 6 5 (example_state Loop_head [] [([0x61, 0x2f, 0x23], {5})]) =
       Inr ([[0x40, 2, 0, 0]], m') \<and>
     map_option msgs_out (msds m' 5) = Some [[0x30, 6, 0, 3, 0x61, 0x2f, 0x62, 0x78]]"
proof -
  let ?m = "example_state Loop_head [] [([0x61, 0x2f, 0x23], {5})]"
  obtain tr where r: "mqtt_run mqtt_new tr ?m" using example_run by blast
  have "{f \<in> filters ?m 5. topic_matches f [0x61, 0x2f, 0x62]} = {[0x61, 0x2f, 0x23]}"
    by (auto simp: filters_def example_state_def topic_matches_def)
  moreover have "publish_frame [0x61, 0x2f, 0x62] [0x78] = [0x30, 6, 0, 3, 0x61, 0x2f, 0x62, 0x78]"
    by (simp add: publish_frame_def length_octets.simps bytes16_def)
  ultimately show ?thesis
    using r mqtt_publish [OF r, where topic = "[0x61, 0x2f, 0x62]" and payload = "[0x78]" and control = "0x30" and i = "[]" and sid = 5]
    by (auto simp: bytes16_def example_moves option.map_comp comp_def)
qed

end
