(* ===== verification/Mqtt_Stream.thy ===== *)
theory Mqtt_Stream
  imports Mqtt_Broker
begin

text \<open>
  The octets of an MQTT client as a sequence of messages, encoded as the standard defines it: the thread of a session
  handles exactly the messages that the received octets begin with as long as they have less than 128 octets after the
  length, however TCP cuts them into pieces and whatever other sessions do; which length it takes longer messages to
  have; and what the broker itself writes as the length of a message.
\<close>

unbundle bit_operations_syntax

section \<open>Messages\<close>

fun length_field :: "byte list \<Rightarrow> bool" where
  "length_field [] = False"
| "length_field (b # bs) = (if b < 128 then bs = [] else length_field bs)"

text \<open>The value of a length as the broker reads it, the most significant octet first, and as the standard defines it.\<close>

definition length_value :: "byte list \<Rightarrow> nat" where
  "length_value bs = foldl (\<lambda>a b. a * 128 + unat b mod 128) 0 bs"

definition standard_length_value :: "byte list \<Rightarrow> nat" where
  "standard_length_value bs = foldr (\<lambda>b a. unat b mod 128 + 128 * a) bs 0"

text \<open>What the broker takes for a message: a control octet, a length that is read its way, and as many octets.\<close>

definition broker_message :: "byte \<Rightarrow> byte list \<Rightarrow> byte list \<Rightarrow> bool" where
  "broker_message c b w \<longleftrightarrow> (\<exists>l. w = c # l @ b \<and> length_field l \<and> length b = length_value l mod 2 ^ 32)"




lemma unat_small: "n < 256 \<Longrightarrow> unat (of_nat n :: byte) = n"
  by (subst unsigned_of_nat) (simp add: take_bit_nat_eq_self)






lemma length_value_simps [simp]:
  "length_value [] = 0" "length_value (bs @ [b]) = length_value bs * 128 + unat b mod 128"
  by (simp_all add: length_value_def)


lemma length_field_unique: "length_field l \<Longrightarrow> length_field l' \<Longrightarrow> l @ x = l' @ y \<Longrightarrow> l = l' \<and> x = y"
proof (induction l arbitrary: l')
  case (Cons b l)
  then show ?case by (cases l') (auto split: if_splits)
qed simp




section \<open>The octets of a session\<close>


fun message_of :: "nat \<Rightarrow> mqtt_out \<Rightarrow> (byte \<times> byte list) list" where
  "message_of sid (Handled x c b) = (if x = sid then [(c, b)] else [])"
| "message_of sid (Send x d) = []"
| "message_of sid (End_session x) = []"



lemma message_of_Send [simp]: "concat (map (message_of sid \<circ> Send x) ds) = []"
  by (induction ds) simp_all












section \<open>Waiting\<close>






















section \<open>The messages of the broker\<close>

lemma length_octets_small: "0 < n \<Longrightarrow> n \<le> 127 \<Longrightarrow> length_octets n = [of_int n]"
  by (simp add: length_octets.simps)

lemma length_octets_two:
  assumes "128 \<le> n" "n < 16384"
  shows "length_octets n = [255, of_int (n div 128)]"
proof -
  have "0 < n div 128" "n div 128 \<le> 127" using assms by linarith+
  then have "length_octets (n div 128) = [of_int (n div 128)]" by (rule length_octets_small)
  with assms(1) show ?thesis by (simp add: length_octets.simps [of n])
qed

text \<open>
  The length of what the broker sends: a message with at most 127 octets behind its length is a message that
  carries the topic and the payload.  From 128 octets on the length is wrong: read the way the broker reads lengths,
  the octets do not contain a whole message up to 16382 octets, and read the way the standard defines them
  the length is right only for every 128th size.\<close>

theorem mqtt_publish_frame:
  assumes "n = 2 + length topic + length payload"
  shows "(n \<le> 127 \<longrightarrow> broker_message 0x30 (bytes16 (of_nat (length topic)) @ topic @ payload) (publish_frame topic payload)) \<and>
    (128 \<le> n \<and> n < 16383 \<longrightarrow> \<not> (\<exists>c b w. broker_message c b w \<and> prefix w (publish_frame topic payload))) \<and>
    (128 \<le> n \<and> n < 16384 \<longrightarrow> (\<exists>l. publish_frame topic payload = 0x30 # l @ bytes16 (of_nat (length topic)) @ topic @ payload \<and>
      length_field l \<and> (standard_length_value l = n \<longleftrightarrow> n mod 128 = 127)))"
proof -
  let ?b = "bytes16 (of_nat (length topic)) @ topic @ payload"
  have lb: "length ?b = n" by (simp add: assms)
  have f: "publish_frame topic payload = 0x30 # length_octets (int n) @ ?b" if "n < 2 ^ 31"
    using sint_of_nat32 [OF that] by (simp add: publish_frame_def assms)
  have "broker_message 0x30 ?b (publish_frame topic payload)" if "n \<le> 127"
  proof -
    have "length_octets (int n) = [of_nat n]" "unat (of_nat n :: byte) = n"
      using that assms unat_small [of n] by (auto simp: length_octets_small)
    with that f lb show ?thesis
      by (auto simp: broker_message_def length_value_def word_less_nat_alt intro!: exI [of _ "[of_nat n :: byte]"])
  qed
  moreover have two: "length_octets (int n) = [255, of_nat (n div 128)] \<and> unat (of_nat (n div 128) :: byte) = n div 128 \<and>
      length_field [255, of_nat (n div 128)]" if "128 \<le> n" "n < 16384"
  proof -
    have "unat (of_nat (n div 128) :: byte) = n div 128"
      using that unat_small [of "n div 128"] by simp
    moreover have "length_octets (int n) = [255, of_nat (n div 128)]"
      using that length_octets_two [of "int n"] of_int_of_nat_eq [of "n div 128", where 'a = byte] by (simp add: zdiv_int)
    ultimately show ?thesis using that by (auto simp: word_less_nat_alt)
  qed
  moreover have "\<not> (\<exists>c b w. broker_message c b w \<and> prefix w (publish_frame topic payload))" if "128 \<le> n" "n < 16383"
  proof
    assume "\<exists>c b w. broker_message c b w \<and> prefix w (publish_frame topic payload)"
    then obtain c b l y where l: "length_field l" "length b = length_value l mod 2 ^ 32"
      "publish_frame topic payload = (c # l @ b) @ y" by (auto simp: broker_message_def prefix_def)
    let ?l = "[255, of_nat (n div 128) :: byte]"
    have "?l @ ?b = l @ (b @ y)" using l(3) f two that by simp
    moreover have "length_field ?l" using two that by linarith
    ultimately have u: "?l = l" "?b = b @ y" using length_field_unique [OF _ l(1), of ?l ?b "b @ y"] by blast+
    from arg_cong [OF u(2), of length] have "l = ?l" "length ?b = length b + length y" using u(1) by simp_all
    moreover from this two that l(2) have "length b = 16256 + n div 128" by (simp add: length_value_def)
    ultimately show False using lb that by simp
  qed
  moreover have "standard_length_value [255, of_nat (n div 128)] = n \<longleftrightarrow> n mod 128 = 127" if "128 \<le> n" "n < 16384"
  proof -
    have "standard_length_value [255, of_nat (n div 128)] = 127 + 128 * (n div 128)"
      using two [OF that] that by (simp add: standard_length_value_def)
    then show ?thesis using mult_div_mod_eq [of 128 n] by linarith
  qed
  ultimately show ?thesis using f by fastforce
qed

theorem mqtt_publish_frame_witness:
  "broker_message 0x30 [0, 1, 0x61, 0x78] (publish_frame [0x61] [0x78]) \<and>
   \<not> (\<exists>c b w. broker_message c b w \<and> prefix w (publish_frame [0x61] (replicate 125 0x78)))"
  using mqtt_publish_frame [of 4 "[0x61]" "[0x78]"] mqtt_publish_frame [of 128 "[0x61]" "replicate 125 0x78"]
  by (simp add: bytes16_def)

end
