(* ===== verification/Dns.thy ===== *)
theory Dns
  imports Udp Str
begin

text \<open>
  The resolver (\<^verbatim>\<open>src/dns.cpp\<close>): names in packets, the answers of the name server, the cache, and
  queries, which wait for the cache to change.  \<open>now\<close> is the time in seconds; a waiting query is a
  sequence of rounds, each with the time and the state it sees when it holds the lock.
\<close>

unbundle bit_operations_syntax

section \<open>State\<close>

record dns_a_rec_t =
  dr_a :: addr
  dr_t :: int
  dr_max_age :: int

record dns_cname_rec_t =
  cr_name :: string
  cr_t :: int
  cr_max_age :: int

record dns =
  dns_my_ip :: addr
  dns_ip :: addr
  a_aaaa_cache :: "string \<rightharpoonup> dns_a_rec_t"
  cname_cache :: "string \<rightharpoonup> dns_cname_rec_t"
  dns_queries :: u64
  dns_queries_hit :: u64
  dns_queries_alien_reply :: u64
  dns_queries_to :: u64

definition dns_new :: "addr \<Rightarrow> addr \<Rightarrow> dns" where
  "dns_new my_ip ip = \<lparr>dns_my_ip = my_ip, dns_ip = ip, a_aaaa_cache = Map.empty, cname_cache = Map.empty,
     dns_queries = 0, dns_queries_hit = 0, dns_queries_alien_reply = 0, dns_queries_to = 0\<rparr>"

section \<open>Names\<close>

definition octets_string :: "byte list \<Rightarrow> string" where
  "octets_string bs = map (\<lambda>b. char_of (unat b)) bs"

definition string_octets :: "string \<Rightarrow> byte list" where
  "string_octets s = map (\<lambda>c. of_nat (of_char c)) s"

text \<open>
  \<open>get_name\<close>: the name at a position of the packet, and the position behind it.  A reference to another place is
  followed once; \<open>sub\<close> is what it gives.  The octet it refers to is read to print it.
\<close>

declare rbind_cong [fundef_cong]

function name_walk :: "(nat \<Rightarrow> string res) \<Rightarrow> byte list \<Rightarrow> nat \<Rightarrow> string \<Rightarrow> (string \<times> nat) res" where
  "name_walk sub p pos name =
     rbind (octets_at p pos 1) (\<lambda>b.
     let len = b ! 0 in
     if len = 0 then Inr (name, pos + 1)
     else if len AND 0xc0 \<noteq> 0 then
       rbind (octets_at p (pos + 1) 1) (\<lambda>lo.
       let offset = unat (mk16 (len AND NOT 0xc0) (lo ! 0)) in
       rbind (octets_at p offset 1) (\<lambda>_.
       rbind (sub offset) (\<lambda>s. Inr (name @ s, pos + 2))))
     else
       rbind (octets_at p (pos + 1) (unat len)) (\<lambda>out.
       name_walk sub p (pos + 1 + unat len) (name @ octets_string out @ ''.'')))"
  by auto
termination
  by (relation "measure (\<lambda>(sub, p, pos, name). length p - pos)") (auto simp: octets_at_def split: if_splits)

declare name_walk.simps [simp del]

definition get_name :: "byte list \<Rightarrow> nat \<Rightarrow> (string \<times> nat) res" where
  "get_name p pos = name_walk (\<lambda>offset. rbind (name_walk (\<lambda>_. Inr []) p offset []) (\<lambda>(s, _). Inr s)) p pos []"

section \<open>Responses\<close>

fun questions_loop :: "byte list \<Rightarrow> nat \<Rightarrow> nat \<Rightarrow> nat res" where
  "questions_loop p 0 pos = Inr pos"
| "questions_loop p (Suc n) pos =
     rbind (get_name p pos) (\<lambda>(name, pos1).
     rbind (octets_at p pos1 4) (\<lambda>_.
     questions_loop p n (pos1 + 4)))"

text \<open>An answer, behind its name: the record it puts into the caches.\<close>

definition store_answer :: "byte list \<Rightarrow> int \<Rightarrow> string \<Rightarrow> nat \<Rightarrow> dns \<Rightarrow> dns res" where
  "store_answer p now name pos d =
     rbind (octets_at p pos 10) (\<lambda>h.
     let type = mk16 (h ! 0) (h ! 1);
         ttl = sint (mk32 (h ! 4) (h ! 5) (h ! 6) (h ! 7));
         len = mk16 (h ! 8) (h ! 9);
         wrk = pos + 10
     in if len = 4 \<and> type = 0x0001 then
          rbind (octets_at p wrk 4) (\<lambda>a.
          Inr (d\<lparr>a_aaaa_cache := (a_aaaa_cache d)(butlast name \<mapsto> \<lparr>dr_a = Addr AF_ipv4 a, dr_t = now, dr_max_age = ttl\<rparr>)\<rparr>))
        else if type = 0x0005 then
          rbind (get_name p wrk) (\<lambda>(cname, _).
          Inr (d\<lparr>cname_cache := (cname_cache d)(butlast name \<mapsto> \<lparr>cr_name = butlast cname, cr_t = now, cr_max_age = ttl\<rparr>)\<rparr>))
        else if len = 16 \<and> type = 0x001c then
          rbind (octets_at p wrk 16) (\<lambda>a.
          Inr (d\<lparr>a_aaaa_cache := (a_aaaa_cache d)(butlast name \<mapsto> \<lparr>dr_a = Addr AF_ipv6 a, dr_t = now, dr_max_age = ttl\<rparr>)\<rparr>))
        else Inr d)"

text \<open>The next answer is looked for behind the length of the data, not behind the data.\<close>

fun answers_loop :: "byte list \<Rightarrow> int \<Rightarrow> nat \<Rightarrow> nat \<Rightarrow> dns \<Rightarrow> dns res" where
  "answers_loop p now 0 pos d = Inr d"
| "answers_loop p now (Suc n) pos d =
     rbind (get_name p pos) (\<lambda>(name, pos1).
     rbind (store_answer p now name pos1 d) (\<lambda>d'.
     answers_loop p now n (pos1 + 10) d'))"

definition dns_input :: "addr \<Rightarrow> int \<Rightarrow> byte list \<Rightarrow> dns \<Rightarrow> dns res" where
  "dns_input src_ip now p d =
     (if src_ip \<noteq> dns_ip d then Inr (d\<lparr>dns_queries_alien_reply := dns_queries_alien_reply d + 1\<rparr>)
      else
        rbind (octets_at p 2 2) (\<lambda>fl.
        if mk16 (fl ! 0) (fl ! 1) = 0x8400 then Inr d
        else
          rbind (octets_at p 4 4) (\<lambda>n.
          rbind (questions_loop p (unat (mk16 (n ! 0) (n ! 1))) 12) (\<lambda>pos.
          answers_loop p now (unat (mk16 (n ! 2) (n ! 3))) pos d))))"

section \<open>Queries\<close>


text \<open>The request, in a buffer of 256 octets.\<close>

definition query_packet :: "string \<Rightarrow> byte list res" where
  "query_packet wrk =
     (let parts = split_loop ''.'' wrk;
          buffer = [0, 0, 1, 0, 0, 1, 0, 0, 0, 0, 0, 0] @
            concat (map (\<lambda>p. of_nat (length p) # string_octets p) parts) @ [0, 0, 1, 0, 1]
      in if length buffer \<le> 256 then Inr buffer else Inl Undefined_behaviour)"





definition query_counted :: "addr option \<Rightarrow> dns \<Rightarrow> dns" where
  "query_counted result d =
     (let d1 = d\<lparr>dns_queries := dns_queries d + 1\<rparr> in
      case result of Some _ \<Rightarrow> d1\<lparr>dns_queries_hit := dns_queries_hit d1 + 1\<rparr>
        | None \<Rightarrow> d1\<lparr>dns_queries_to := dns_queries_to d1 + 1\<rparr>)"


section \<open>Names in packets\<close>

definition label_ok :: "string \<Rightarrow> bool" where
  "label_ok l \<longleftrightarrow> l \<noteq> [] \<and> length l < 64 \<and> CHR ''.'' \<notin> set l"

definition name_octets :: "string list \<Rightarrow> byte list" where
  "name_octets ls = concat (map (\<lambda>l. of_nat (length l) # string_octets l) ls) @ [0]"

definition name_text :: "string list \<Rightarrow> string" where
  "name_text ls = concat (map (\<lambda>l. l @ ''.'') ls)"

lemma octets_string_octets [simp]: "octets_string (string_octets s) = s"
proof -
  have "char_of (unat (of_nat (of_char c) :: byte)) = c" for c :: char
  proof -
    have "(of_char c :: nat) < 256" by (rule nat_of_char_less_256)
    then have "unat (of_nat (of_char c) :: byte) = of_char c" by (subst unsigned_of_nat) (simp add: take_bit_nat_eq_self)
    then show ?thesis by simp
  qed
  then show ?thesis by (simp add: octets_string_def string_octets_def comp_def)
qed

lemma length_string_octets [simp]: "length (string_octets s) = length s"
  by (simp add: string_octets_def)

lemma label_length:
  assumes "label_ok l"
  shows "unat (of_nat (length l) :: byte) = length l" "(of_nat (length l) :: byte) \<noteq> 0" "(of_nat (length l) :: byte) AND 0xc0 = 0"
proof -
  show u: "unat (of_nat (length l) :: byte) = length l"
    using assms by (subst unsigned_of_nat) (simp add: label_ok_def take_bit_nat_eq_self)
  then show "(of_nat (length l) :: byte) \<noteq> 0"
    using assms by (metis label_ok_def length_0_conv unsigned_0)
  have "take_bit 6 (of_nat (length l) :: byte) = of_nat (length l)"
    using assms by (simp add: take_bit_of_nat take_bit_nat_eq_self label_ok_def)
  then have "(of_nat (length l) :: byte) AND 0xc0 = take_bit 6 (of_nat (length l)) AND 0xc0" by simp
  also have "\<dots> = 0" by (simp add: take_bit_eq_mask and.assoc mask_eq_exp_minus_1)
  finally show "(of_nat (length l) :: byte) AND 0xc0 = 0" .
qed

lemma name_walk_labels:
  assumes "\<forall>l \<in> set ls. label_ok l" "length pre = pos"
  shows "name_walk sub (pre @ name_octets ls @ post) pos name = Inr (name @ name_text ls, pos + length (name_octets ls))"
  using assms
proof (induction ls arbitrary: pre pos name)
  case Nil
  then show ?case by (subst name_walk.simps) (simp add: name_octets_def name_text_def octets_at_def)
next
  case (Cons l ls)
  let ?n = "of_nat (length l) :: byte"
  define p where "p = pre @ name_octets (l # ls) @ post"
  have p: "p = (pre @ ?n # string_octets l) @ name_octets ls @ post"
    by (simp add: p_def name_octets_def)
  have ok: "label_ok l" using Cons.prems by simp
  have 1: "octets_at p pos 1 = Inr [?n]"
    using octets_at_middle [of pre pos "[?n]" 1 "string_octets l @ name_octets ls @ post"] Cons.prems by (simp add: p)
  have 2: "octets_at p (pos + 1) (length l) = Inr (string_octets l)"
    using octets_at_middle [of "pre @ [?n]" "pos + 1" "string_octets l" "length l" "name_octets ls @ post"] Cons.prems by (simp add: p)
  have "name_walk sub p pos name = name_walk sub p (pos + 1 + length l) (name @ l @ ''.'')"
    using label_length [OF ok] by (subst name_walk.simps) (simp add: 1 2 Let_def del: One_nat_def)
  also have "\<dots> = Inr ((name @ l @ ''.'') @ name_text ls, pos + 1 + length l + length (name_octets ls))"
    unfolding p using Cons.prems by (intro Cons.IH) auto
  finally show ?case by (simp add: p_def name_text_def name_octets_def)
qed

lemma get_name_labels:
  assumes "\<forall>l \<in> set ls. label_ok l" "length pre = pos"
  shows "get_name (pre @ name_octets ls @ post) pos = Inr (name_text ls, pos + length (name_octets ls))"
  using name_walk_labels [OF assms] by (simp add: get_name_def)

text \<open>A name that refers to one at the position 12, behind the header.\<close>

lemma get_name_pointer:
  assumes "\<forall>l \<in> set ls. label_ok l" "length pre = 12" "p = pre @ name_octets ls @ mid @ [0xc0, 0x0c] @ post"
    and "pos = 12 + length (name_octets ls) + length mid"
  shows "get_name p pos = Inr (name_text ls, pos + 2)"
proof -
  have n: "name_octets ls \<noteq> []" by (simp add: name_octets_def)
  have a: "octets_at p pos 1 = Inr [0xc0]"
    using octets_at_middle [of "pre @ name_octets ls @ mid" pos "[0xc0]" 1 "0x0c # post"] assms by simp
  have b: "octets_at p (pos + 1) 1 = Inr [0x0c]"
    using octets_at_middle [of "pre @ name_octets ls @ mid @ [0xc0]" "pos + 1" "[0x0c]" 1 post] assms by simp
  have c: "octets_at p 12 1 = Inr [hd (name_octets ls)]"
    using n assms by (cases "name_octets ls") (auto simp: octets_at_def)
  have "name_walk sub p 12 [] = Inr (name_text ls, 12 + length (name_octets ls))" for sub
    using name_walk_labels [OF assms(1,2)] by (simp add: assms(3))
  then show ?thesis
    unfolding get_name_def by (subst name_walk.simps [of _ p pos]) (simp add: a b c mk16_def del: One_nat_def)
qed

section \<open>Answers and queries\<close>

lemma name_text_join: "ls \<noteq> [] \<Longrightarrow> name_text ls = join_str ''.'' ls @ ''.''"
  by (induction ls rule: induct_list012) (simp_all add: name_text_def)

lemma butlast_name_text: "ls \<noteq> [] \<Longrightarrow> butlast (name_text ls) = join_str ''.'' ls"
  by (simp add: name_text_join)

text \<open>The octets of an answer behind its name, and a response with one question and answers that begin with a reference to it.\<close>

definition answer_octets :: "u16 \<Rightarrow> u32 \<Rightarrow> byte list \<Rightarrow> byte list" where
  "answer_octets ty ttl rdata = bytes16 ty @ [0, 1] @ bytes32 ttl @ bytes16 (of_nat (length rdata)) @ rdata"

definition dns_response :: "byte list \<Rightarrow> u16 \<Rightarrow> u16 \<Rightarrow> string list \<Rightarrow> u16 \<Rightarrow> byte list \<Rightarrow> byte list" where
  "dns_response i fl an ls ty answers =
     (i @ bytes16 fl @ [0, 1] @ bytes16 an @ [0, 0, 0, 0]) @ name_octets ls @ (bytes16 ty @ [0, 1]) @ [0xc0, 0x0c] @ answers"

lemma octets_at_answer:
  assumes "p = pre @ answer_octets ty ttl rdata @ post" "length pre = pos"
  shows "octets_at p pos 10 = Inr (bytes16 ty @ [0, 1] @ bytes32 ttl @ bytes16 (of_nat (length rdata)))"
    and "octets_at p (pos + 10) (length rdata) = Inr rdata"
  using octets_at_middle [OF assms(2), of "bytes16 ty @ [0, 1] @ bytes32 ttl @ bytes16 (of_nat (length rdata))" 10 "rdata @ post"]
    octets_at_middle [of "pre @ bytes16 ty @ [0, 1] @ bytes32 ttl @ bytes16 (of_nat (length rdata))" "pos + 10" rdata "length rdata" post]
    assms by (simp_all add: answer_octets_def)

lemma answer_fields:
  "h = bytes16 ty @ [0, 1] @ bytes32 ttl @ bytes16 len \<Longrightarrow>
   mk16 (h ! 0) (h ! 1) = ty \<and> mk32 (h ! 4) (h ! 5) (h ! 6) (h ! 7) = ttl \<and> mk16 (h ! 8) (h ! 9) = len"
  by (simp add: bytes16_def bytes32_def codec_simps)

lemma dns_input_response:
  assumes "length i = 2" "fl \<noteq> 0x8400" "\<forall>l \<in> set ls. label_ok l"
  shows "dns_input (dns_ip d) now (dns_response i fl an ls ty answers) d =
    answers_loop (dns_response i fl an ls ty answers) now (unat an) (16 + length (name_octets ls)) d"
proof -
  define p where "p = dns_response i fl an ls ty answers"
  let ?h = "i @ bytes16 fl @ [0, 1] @ bytes16 an @ [0, 0, 0, 0]"
  have p: "p = ?h @ name_octets ls @ (bytes16 ty @ [0, 1]) @ [0xc0, 0x0c] @ answers" by (simp add: p_def dns_response_def)
  have f: "octets_at p 2 2 = Inr (bytes16 fl)"
    using octets_at_middle [of i 2 "bytes16 fl" 2] assms(1) by (simp add: p)
  have n: "octets_at p 4 4 = Inr ([0, 1] @ bytes16 an)"
    using octets_at_middle [of "i @ bytes16 fl" 4 "[0, 1] @ bytes16 an" 4] assms(1) by (simp add: p)
  have g: "get_name p 12 = Inr (name_text ls, 12 + length (name_octets ls))"
    unfolding p using assms(1) by (intro get_name_labels [OF assms(3)]) simp
  have q: "octets_at p (12 + length (name_octets ls)) 4 = Inr (bytes16 ty @ [0, 1])"
    using octets_at_middle [of "?h @ name_octets ls" "12 + length (name_octets ls)" "bytes16 ty @ [0, 1]" 4] assms(1) by (simp add: p)
  have "mk16 (bytes16 fl ! 0) (bytes16 fl ! 1) = fl" "mk16 (([0, 1] @ bytes16 an) ! 0) (([0, 1] @ bytes16 an) ! 1) = 1"
    "mk16 (([0, 1] @ bytes16 an) ! 2) (([0, 1] @ bytes16 an) ! 3) = an"
    by (simp_all add: bytes16_def codec_simps mk16_split)
  moreover have "questions_loop p (unat (1 :: u16)) 12 = Inr (16 + length (name_octets ls))"
    by (simp only: unat_1 One_nat_def questions_loop.simps g q rbind_simps prod.case) simp
  ultimately show ?thesis
    using assms(2) unfolding p_def [symmetric] by (simp only: dns_input_def f n rbind_simps if_False not_True_eq_False) simp
qed








text \<open>
  Requests: the request for a name of at most 238 characters fits its buffer and asks for that name, as the
  parser of the resolver itself reads it; longer names, which the protocol allows up to 253 characters, are
  written behind the end of the buffer.\<close>

theorem dns_query_packet:
  assumes "ls \<noteq> []" and "\<forall>l \<in> set ls. label_ok l"
  shows "(length (join_str ''.'' ls) \<le> 238 \<longrightarrow> (\<exists>p. query_packet (join_str ''.'' ls) = Inr p \<and>
      take 12 p = [0, 0, 1, 0, 0, 1, 0, 0, 0, 0, 0, 0] \<and>
      get_name p 12 = Inr (join_str ''.'' ls @ ''.'', length p - 4) \<and> drop (length p - 4) p = [0, 1, 0, 1])) \<and>
    (238 < length (join_str ''.'' ls) \<longrightarrow> query_packet (join_str ''.'' ls) = Inl Undefined_behaviour)"
proof -
  let ?h = "[0, 0, 1, 0, 0, 1, 0, 0, 0, 0, 0, 0] :: byte list"
  have sp: "split_loop ''.'' (join_str ''.'' ls) = ls"
    using assms by (intro split_loop_join) (auto simp: label_ok_def)
  let ?p = "?h @ name_octets ls @ [0, 1, 0, 1]"
  have q: "query_packet (join_str ''.'' ls) = (if length ?p \<le> 256 then Inr ?p else Inl Undefined_behaviour)"
    by (simp add: query_packet_def sp Let_def name_octets_def)
  have l: "length (name_octets ls) = length (join_str ''.'' ls) + 2"
  proof -
    have "length (name_octets ls) = length (name_text ls) + 1"
      by (simp add: name_octets_def name_text_def length_concat comp_def)
    with name_text_join [OF assms(1)] show ?thesis by simp
  qed
  have "get_name ?p 12 = Inr (join_str ''.'' ls @ ''.'', length ?p - 4)"
    using get_name_labels [OF assms(2), of ?h 12 "[0, 1, 0, 1]"] by (simp add: name_text_join [OF assms(1)])
  with q l show ?thesis by simp
qed

theorem dns_query_packet_witness:
  "\<exists>p. query_packet ''a.nl'' = Inr p \<and> get_name p 12 = Inr (''a.nl.'', 12 + 6)"
proof -
  have l: "\<forall>l \<in> set [''a'', ''nl'']. label_ok l" by (simp add: label_ok_def)
  obtain p where "query_packet ''a.nl'' = Inr p" "get_name p 12 = Inr (''a.nl.'', length p - 4)"
    using dns_query_packet [OF _ l] by auto
  moreover from this(1) have "length p = 22"
    using split_loop_join [of "[''a'', ''nl'']" "CHR ''.''"] by (auto simp: query_packet_def)
  ultimately show ?thesis by simp
qed

text \<open>
  A second answer: of a response with an alias and the address it stands for, as name servers send them, only
  the alias is remembered, since the resolver looks for the next answer in the data of the first;
  the address is not.\<close>

theorem dns_second_answer:
  assumes "ls \<noteq> []" and "\<forall>l \<in> set ls. label_ok l" and "cs \<noteq> []" and "\<forall>l \<in> set cs. label_ok l"
    and "length i = 2" and "fl \<noteq> 0x8400"
  shows "dns_input (dns_ip d) now (dns_response i fl 2 ls ty
      (answer_octets 5 ttl (name_octets cs) @ [0xc0, off] @ answer_octets 1 ttl2 a)) d =
    Inr (d\<lparr>cname_cache := (cname_cache d)(join_str ''.'' ls \<mapsto> \<lparr>cr_name = join_str ''.'' cs, cr_t = now, cr_max_age = sint ttl\<rparr>)\<rparr>)"
proof -
  let ?second = "[0xc0, off] @ answer_octets 1 ttl2 a"
  let ?ans = "answer_octets 5 ttl (name_octets cs) @ ?second"
  define p where "p = dns_response i fl 2 ls ty ?ans"
  let ?pos = "16 + length (name_octets ls)"
  let ?pre = "i @ bytes16 fl @ [0, 1] @ bytes16 2 @ [0, 0, 0, 0]"
  let ?front = "?pre @ name_octets ls @ (bytes16 ty @ [0, 1]) @ [0xc0, 0x0c]"
  let ?d = "d\<lparr>cname_cache := (cname_cache d)(join_str ''.'' ls \<mapsto> \<lparr>cr_name = join_str ''.'' cs, cr_t = now, cr_max_age = sint ttl\<rparr>)\<rparr>"
  have p: "p = ?front @ ?ans" by (simp add: p_def dns_response_def)
  have lf: "length ?front = ?pos + 2" using assms(5) by simp
  have g: "get_name p ?pos = Inr (name_text ls, ?pos + 2)"
    using assms(5) by (intro get_name_pointer [OF assms(2), where pre = ?pre and mid = "bytes16 ty @ [0, 1]" and post = ?ans]) (simp_all add: p)
  have gc: "get_name p (?pos + 12) = Inr (name_text cs, ?pos + 12 + length (name_octets cs))"
    using get_name_labels [OF assms(4), of "?front @ bytes16 5 @ [0, 1] @ bytes32 ttl @ bytes16 (of_nat (length (name_octets cs)))" "?pos + 12" ?second]
      lf by (simp add: p answer_octets_def)
  note o = octets_at_answer [OF p lf]
  define h where "h = bytes16 5 @ [0, 1] @ bytes32 ttl @ bytes16 (of_nat (length (name_octets cs)))"
  note f = answer_fields [OF h_def]
  have st: "store_answer p now (name_text ls) (?pos + 2) d = Inr ?d"
    unfolding store_answer_def o(1) h_def [symmetric]
    using f gc by (simp add: Let_def butlast_name_text [OF assms(1)] butlast_name_text [OF assms(3)] add.assoc del: One_nat_def)
  have o2: "octets_at p (?pos + 12 + length (name_octets cs)) 10 = Inr (take 10 ?second)"
    using octets_at_middle [of "?front @ answer_octets 5 ttl (name_octets cs)" "?pos + 12 + length (name_octets cs)" "take 10 ?second" 10 "drop 10 ?second"]
      lf by (simp add: p answer_octets_def bytes16_def bytes32_def)
  have st2: "store_answer p now name (?pos + 12 + length (name_octets cs)) ?d = Inr ?d" for name
  proof -
    have "mk16 (take 10 ?second ! 0) (take 10 ?second ! 1) = mk16 0xc0 off" by simp
    moreover have "drop_bit 8 (mk16 0xc0 off) = 0xc0"
      unfolding mk16_def by (rule bit_word_eqI) (auto simp: bit_simps dest: bit_imp_le_length)
    then have "mk16 0xc0 off \<noteq> 0x0001" "mk16 0xc0 off \<noteq> 0x0005" "mk16 0xc0 off \<noteq> 0x001c" by auto
    ultimately show ?thesis by (simp only: store_answer_def o2 rbind_simps Let_def) simp
  qed
  have "answers_loop p now 2 ?pos d = Inr ?d"
    using g st gc st2 by (simp only: numeral_2_eq_2 answers_loop.simps rbind_simps prod.case) (simp add: add.assoc)
  then show ?thesis using dns_input_response [OF assms(5,6,2), of d now 2 ty ?ans] by (simp add: p_def)
qed

theorem dns_second_answer_witness:
  "dns_input (Addr AF_ipv4 [9, 9, 9, 9]) 1000 (dns_response [0, 0] 0x8180 2 [''w'', ''nl''] 1
      (answer_octets 5 60 (name_octets [''h'', ''nl'']) @ [0xc0, 0x20] @ answer_octets 1 60 [1, 2, 3, 4]))
      (dns_new (Addr AF_ipv4 [10, 0, 0, 1]) (Addr AF_ipv4 [9, 9, 9, 9])) =
   Inr ((dns_new (Addr AF_ipv4 [10, 0, 0, 1]) (Addr AF_ipv4 [9, 9, 9, 9]))
     \<lparr>cname_cache := [''w.nl'' \<mapsto> \<lparr>cr_name = ''h.nl'', cr_t = 1000, cr_max_age = 60\<rparr>]\<rparr>)"
  using dns_second_answer [of "[''w'', ''nl'']" "[''h'', ''nl'']" "[0, 0]" "0x8180"
      "dns_new (Addr AF_ipv4 [10, 0, 0, 1]) (Addr AF_ipv4 [9, 9, 9, 9])" 1000 1 60 "0x20" 60 "[1, 2, 3, 4]"]
  by (simp add: label_ok_def dns_new_def)

end
