(* ===== verification/Mdns.thy ===== *)
theory Mdns
  imports Dns
begin

text \<open>
  The announcements of services (\<^verbatim>\<open>src/mdns.cpp\<close>).  The records are written one behind the other into
  a buffer of 256 octets; here they are lists, and the size is checked when all have been written.
\<close>

unbundle bit_operations_syntax

section \<open>Records\<close>

text \<open>\<open>sprintf\<close> with \<open>%s\<close> stops at a null character, the length in front of it does not.\<close>

definition sprintf_s :: "string \<Rightarrow> byte list" where
  "sprintf_s s = string_octets (takeWhile (\<lambda>c. c \<noteq> char_of (0 :: nat)) s)"

definition mdns_label :: "string \<Rightarrow> byte list" where
  "mdns_label s = of_nat (length s) # sprintf_s s"

definition mdns_ttl :: u32 where
  "mdns_ttl = 5"

definition add_ptr :: "string list \<Rightarrow> byte list" where
  "add_ptr name =
     concat (map mdns_label (tl name)) @ [0] @ [0x00, 0x0c] @ [0x00, 0x01] @ bytes32 mdns_ttl @
     bytes16 (1 + (\<Sum>s\<leftarrow>name. of_nat (length s) + 1)) @ concat (map mdns_label name) @ [0]"

definition add_srv :: "string list \<Rightarrow> int \<Rightarrow> byte list res" where
  "add_srv name port =
     rbind (vec_at name 0) (\<lambda>host.
     Inr (concat (map mdns_label name) @ [0] @ [0x00, 0x21] @ [0x80, 0x01] @ bytes32 mdns_ttl @
       bytes16 (2 + 2 + 2 + 1 + of_nat (length host) + 1 + 5 + 1) @ [0, 0] @ [0, 0] @ bytes16 (word_of_int port) @
       mdns_label host @ [5] @ sprintf_s ''local'' @ [0]))"

definition add_a :: "string list \<Rightarrow> addr \<Rightarrow> byte list res" where
  "add_a name a =
     rbind (vec_at name 0) (\<lambda>host.
     Inr (mdns_label host @ [5] @ sprintf_s ''local'' @ [0] @ [0x00, 0x01] @ [0x80, 0x01] @ bytes32 mdns_ttl @
       [0, of_nat (length (octets a))] @ octets a))"

definition add_txt :: "string list \<Rightarrow> byte list" where
  "add_txt name = concat (map mdns_label name) @ [0] @ [0x00, 0x10] @ [0x80, 0x01] @ bytes32 mdns_ttl @ [0, 0]"

text \<open>The bit map of the types: octet \<open>t / 8\<close>, bit \<open>7 - t % 8\<close>.\<close>

definition set_type_bit :: "nat \<Rightarrow> byte list \<Rightarrow> byte list" where
  "set_type_bit t bm = bm[t div 8 := bm ! (t div 8) OR push_bit (7 - t mod 8) 1]"

definition add_nsec :: "string list \<Rightarrow> byte list res" where
  "add_nsec name =
     rbind (vec_at name 0) (\<lambda>host.
     Inr (mdns_label host @ [5] @ sprintf_s ''local'' @ [0] @ [0x00, 0x2f] @ [0x00, 0x01] @ bytes32 mdns_ttl @
       bytes16 (1 + of_nat (length host) + 1 + 5 + 1 + 2 + 6) @ mdns_label host @ [5] @ sprintf_s ''local'' @ [0] @
       [0x00, 0x06] @ set_type_bit 47 (set_type_bit 33 (set_type_bit 16 (set_type_bit 12 (set_type_bit 1 (replicate 6 0)))))))"

section \<open>The packet\<close>

record mdns_protocol =
  mp_ip :: addr
  mp_port :: int
  mp_hostname :: string

definition add_protocol :: "addr \<Rightarrow> int \<Rightarrow> string \<Rightarrow> mdns_protocol list \<Rightarrow> mdns_protocol list" where
  "add_protocol ip port hostname ps = ps @ [\<lparr>mp_ip = ip, mp_port = port, mp_hostname = hostname\<rparr>]"

text \<open>The last character of an empty name is outside of it.\<close>

definition mdns_packet :: "mdns_protocol \<Rightarrow> byte list res" where
  "mdns_packet tgt =
     (let hostname = mp_hostname tgt in
      if hostname = [] then Inl Undefined_behaviour
      else
        let name = split_loop ''.'' (if last hostname = CHR ''.'' then butlast hostname else hostname) in
        rbind (add_srv name (mp_port tgt)) (\<lambda>srv.
        rbind (add_a name (mp_ip tgt)) (\<lambda>a.
        let buffer = [0x00, 0x00, 0x84, 0x00, 0x00, 0x00, 0x00, 0x03, 0x00, 0x00, 0x00, 0x00] @ add_ptr name @ add_txt name @ srv @ a in
        if length buffer \<le> 256 then Inr buffer else Inl Undefined_behaviour)))"

fun mdns_round :: "mdns_protocol list \<Rightarrow> ip_send option list res" where
  "mdns_round [] = Inr []"
| "mdns_round (tgt # ps) =
     rbind (mdns_packet tgt) (\<lambda>buffer.
     rbind (udp_transmit_packet (Addr AF_ipv4 [224, 0, 0, 251]) 5353 (mp_ip tgt) 5353 buffer) (\<lambda>out.
     rbind (mdns_round ps) (\<lambda>outs. Inr (out # outs))))"

section \<open>Resource records\<close>

text \<open>The format of RFC 1035, 3.2.1.\<close>

definition resource_record :: "string list \<Rightarrow> u16 \<Rightarrow> u16 \<Rightarrow> u32 \<Rightarrow> byte list \<Rightarrow> byte list" where
  "resource_record name ty cl ttl rdata =
     name_octets name @ bytes16 ty @ bytes16 cl @ bytes32 ttl @ bytes16 (of_nat (length rdata)) @ rdata"

definition plain_label :: "string \<Rightarrow> bool" where
  "plain_label l \<longleftrightarrow> label_ok l \<and> char_of (0 :: nat) \<notin> set l"

lemma mdns_label_plain: "plain_label l \<Longrightarrow> mdns_label l = of_nat (length l) # string_octets l"
proof -
  assume "plain_label l"
  then have "takeWhile (\<lambda>c. c \<noteq> char_of (0 :: nat)) l = l" unfolding takeWhile_eq_all_conv plain_label_def by blast
  then show ?thesis by (simp only: mdns_label_def sprintf_s_def)
qed

lemma mdns_labels_plain: "\<forall>l \<in> set ls. plain_label l \<Longrightarrow> concat (map mdns_label ls) @ [0] = name_octets ls"
  by (induction ls) (simp_all add: name_octets_def mdns_label_plain)

lemma length_name_octets: "length (name_octets ls) = (\<Sum>s\<leftarrow>ls. length s + 1) + 1"
  by (simp add: name_octets_def length_concat comp_def)

lemma sum_of_nat: "(\<Sum>s\<leftarrow>ls. of_nat (length s) + 1 :: u16) = of_nat (\<Sum>s\<leftarrow>ls. length s + 1)"
  by (induction ls) (simp_all add: algebra_simps)

lemma local_octets: "mdns_label host @ [5] @ sprintf_s ''local'' @ [0] = name_octets [host, ''local'']" if "plain_label host"
proof -
  have "takeWhile (\<lambda>c. c \<noteq> char_of (0 :: nat)) ''local'' = ''local''" by code_simp
  with that show ?thesis by (simp add: name_octets_def mdns_label_plain sprintf_s_def)
qed

lemma bytes16_small: "n < 256 \<Longrightarrow> bytes16 (of_nat n) = [0, of_nat n]"
proof -
  assume n: "n < 256"
  then have "unat (of_nat n :: u16) = n" by (simp add: unat_of_nat16)
  with n have "unat (drop_bit 8 (of_nat n :: u16)) = 0" by (simp add: drop_bit_eq_div unat_div)
  then have "drop_bit 8 (of_nat n :: u16) = 0" by (rule unat_eq_zero [THEN iffD1])
  moreover have "ucast (of_nat n :: u16) = (of_nat n :: byte)" using n by (simp add: unsigned_of_nat take_bit_nat_eq_self)
  ultimately show ?thesis by (simp add: bytes16_def)
qed

lemma last_join: "ls \<noteq> [] \<Longrightarrow> \<forall>l \<in> set ls. label_ok l \<Longrightarrow> join_str ''.'' ls \<noteq> [] \<and> last (join_str ''.'' ls) \<noteq> CHR ''.''"
proof (induction ls rule: induct_list012)
  case (2 x)
  then show ?case by (auto simp: label_ok_def dest: last_in_set)
next
  case (3 x y zs)
  then have "join_str ''.'' (y # zs) \<noteq> [] \<and> last (join_str ''.'' (y # zs)) \<noteq> CHR ''.''" by simp
  then show ?case by simp
qed simp

text \<open>
  Announcements: for a service whose name has proper labels, with or without a dot at its end, the packet is a header
  followed by four resource records of the format of the protocol: the pointer from the service to the name, an empty text
  record, the port and host of the service, and the address of the host.  The header counts three of them.  If it is longer than 256
  octets the buffer overflows.\<close>

theorem mdns_announces:
  assumes "\<forall>l \<in> set (host # svc). plain_label l" and "length (octets ip) < 256"
    and "hostname = join_str ''.'' (host # svc) \<or> hostname = join_str ''.'' (host # svc) @ ''.''"
    and "p = [0, 0, 0x84, 0, 0, 0, 0, 3, 0, 0, 0, 0] @
      resource_record svc 12 1 5 (name_octets (host # svc)) @
      resource_record (host # svc) 16 0x8001 5 [] @
      resource_record (host # svc) 33 0x8001 5 ([0, 0, 0, 0] @ bytes16 (word_of_int port) @ name_octets [host, ''local'']) @
      resource_record [host, ''local''] 1 0x8001 5 (octets ip)"
  shows "mdns_packet \<lparr>mp_ip = ip, mp_port = port, mp_hostname = hostname\<rparr> = (if length p \<le> 256 then Inr p else Inl Undefined_behaviour)"
proof -
  let ?ls = "host # svc"
  have ok: "\<forall>l \<in> set ?ls. label_ok l" using assms(1) by (simp add: plain_label_def)
  have j: "join_str ''.'' ?ls \<noteq> []" "last (join_str ''.'' ?ls) \<noteq> CHR ''.''" using last_join [OF _ ok] by blast+
  have sp: "split_loop ''.'' (join_str ''.'' ?ls) = ?ls"
    using ok by (intro split_loop_join) (auto simp: label_ok_def)
  have h: "hostname \<noteq> []" "(if last hostname = CHR ''.'' then butlast hostname else hostname) = join_str ''.'' ?ls"
    using assms(3) j by (auto simp: butlast_append)
  have lab: "concat (map mdns_label ?ls) @ 0 # r = name_octets ?ls @ r" "concat (map mdns_label svc) @ 0 # r = name_octets svc @ r" for r
    using mdns_labels_plain [OF assms(1)] mdns_labels_plain [of svc] assms(1) by simp_all
  have "1 + (\<Sum>s\<leftarrow>?ls. of_nat (length s) + 1) = (of_nat (length (name_octets ?ls)) :: u16)"
    unfolding sum_of_nat length_name_octets by simp
  then have ptr: "add_ptr ?ls = resource_record svc 12 1 5 (name_octets ?ls)"
    unfolding add_ptr_def resource_record_def mdns_ttl_def list.sel
    by (simp only: append_Cons append_Nil lab) (simp add: bytes16_def)
  have tx: "add_txt ?ls = resource_record ?ls 16 0x8001 5 []"
    unfolding add_txt_def resource_record_def mdns_ttl_def by (simp only: append_Cons append_Nil lab) (simp add: bytes16_def)
  have lo: "mdns_label host @ 5 # sprintf_s ''local'' @ 0 # r = name_octets [host, ''local''] @ r" for r
    using local_octets [of host] assms(1) by simp
  have len: "of_nat (length (name_octets [host, ''local''])) = (8 + of_nat (length host) :: u16)"
    by (simp add: length_name_octets)
  have "bytes16 33 = [0x00, 0x21]" "bytes16 0x8001 = [0x80, 0x01]" by (simp_all add: bytes16_def)
  then have srv: "add_srv ?ls port = Inr (resource_record ?ls 33 0x8001 5 ([0, 0, 0, 0] @ bytes16 (word_of_int port) @ name_octets [host, ''local'']))"
    by (simp add: add_srv_def resource_record_def mdns_ttl_def lo len lab(1) [simplified])
  have a: "add_a ?ls ip = Inr (resource_record [host, ''local''] 1 0x8001 5 (octets ip))"
    using bytes16_small [OF assms(2)]
    by (simp add: add_a_def resource_record_def mdns_ttl_def lo) (simp add: bytes16_def)
  show ?thesis
    using h(1) by (simp only: mdns_packet_def Let_def mdns_protocol.simps if_False h(2) sp ptr tx srv a rbind_simps assms(4))
qed

theorem mdns_announces_witness:
  "\<exists>p. mdns_packet \<lparr>mp_ip = Addr AF_ipv4 [10, 0, 0, 1], mp_port = 80, mp_hostname = ''h._http._tcp.local.''\<rparr> = Inr p \<and>
     take 12 p = [0, 0, 0x84, 0, 0, 0, 0, 3, 0, 0, 0, 0]"
proof -
  have l: "\<forall>l \<in> set [''h'', ''_http'', ''_tcp'', ''local'']. plain_label l"
    by (simp add: plain_label_def label_ok_def) code_simp
  show ?thesis
    using mdns_announces [OF l _ _ refl, of "Addr AF_ipv4 [10, 0, 0, 1]" "''h._http._tcp.local.''" 80]
    by (simp add: resource_record_def length_name_octets)
qed

end
