(* ===== verification/Ntp.thy ===== *)
theory Ntp
  imports Udp
begin

text \<open>
  The time server (\<^verbatim>\<open>src/ntp.cpp\<close>): the answer to a request and the broadcast.  A datagram is the
  memory of an \<open>sntp_datagram\<close> on a little endian host, 48 octets; times are pairs of seconds and nanoseconds (or
  microseconds, for the broadcast).
\<close>

unbundle bit_operations_syntax

record ntp =
  ntp_my_ip :: addr
  upstream_ntp_server :: addr
  ntp_requests :: u64
  ntp_invalid :: u64
  ntp_time_req :: u64
  ntp_t_req_v :: "nat \<Rightarrow> u64"
  ntp_broadcast :: u64

definition ntp_new :: "addr \<Rightarrow> addr \<Rightarrow> ntp" where
  "ntp_new ip upstream = \<lparr>ntp_my_ip = ip, upstream_ntp_server = upstream, ntp_requests = 0, ntp_invalid = 0, ntp_time_req = 0,
     ntp_t_req_v = (\<lambda>_. 0), ntp_broadcast = 0\<rparr>"

section \<open>Datagrams\<close>

text \<open>The bit fields of the first octet: \<open>mode\<close> in the lower three bits, then \<open>vn\<close> and \<open>li\<close>.\<close>

record sntp_datagram =
  sd_mode :: byte
  sd_vn :: byte
  sd_li :: byte
  sd_stratum :: byte
  sd_poll :: byte
  sd_precision :: byte
  root_delay :: u32
  root_dispersion :: u32
  reference_identifier :: "byte list"
  reference_timestamp :: "byte list"
  originate_timestamp :: "byte list"
  receive_timestamp :: "byte list"
  transmit_timestamp :: "byte list"

definition sntp_octets :: "sntp_datagram \<Rightarrow> byte list" where
  "sntp_octets m =
     [(sd_mode m AND 7) OR push_bit 3 (sd_vn m AND 7) OR push_bit 6 (sd_li m), sd_stratum m, sd_poll m, sd_precision m] @
     rev (bytes32 (root_delay m)) @ rev (bytes32 (root_dispersion m)) @ reference_identifier m @ reference_timestamp m @
     originate_timestamp m @ receive_timestamp m @ transmit_timestamp m"

definition NTP_EPOCH :: int where
  "NTP_EPOCH = 86400 * (365 * 70 + 17)"

text \<open>\<open>htonl\<close> of the seconds and of the microseconds times 4295, both cut to 32 bits.\<close>

definition ntp_timestamp :: "int \<Rightarrow> int \<Rightarrow> byte list" where
  "ntp_timestamp sec usec = bytes32 (word_of_int (sec + NTP_EPOCH)) @ bytes32 (word_of_int (usec * 4295))"

text \<open>The upstream server must be an IPv4 address; \<open>get\<close> with a size asserts it.\<close>

definition upstream_octets :: "ntp \<Rightarrow> byte list res" where
  "upstream_octets n = rbind (rassert (length (octets (upstream_ntp_server n)) = 4)) (\<lambda>_. Inr (octets (upstream_ntp_server n)))"

section \<open>Requests\<close>

definition ntp_input :: "int \<times> int \<Rightarrow> int \<times> int \<Rightarrow> addr \<Rightarrow> int \<Rightarrow> addr \<Rightarrow> int \<Rightarrow> byte list \<Rightarrow> ntp \<Rightarrow> (ip_send option list \<times> ntp) res" where
  "ntp_input recv_now now src_ip src_port dst_ip dst_port p n =
     (if dst_ip \<noteq> ntp_my_ip n then Inr ([], n)
      else
        let n1 = n\<lparr>ntp_requests := ntp_requests n + 1\<rparr> in
        if length p < 8 then Inr ([], n1\<lparr>ntp_invalid := ntp_invalid n1 + 1\<rparr>)
        else if p ! 0 AND 7 \<noteq> 3 then Inr ([], n1)
        else
          let vn = unat (drop_bit 3 (p ! 0) AND 7);
              n2 = n1\<lparr>ntp_time_req := ntp_time_req n1 + 1, ntp_t_req_v := (ntp_t_req_v n1)(vn := ntp_t_req_v n1 vn + 1)\<rparr>
          in rbind (upstream_octets n2) (\<lambda>upstream.
             rbind (octets_at p 40 8) (\<lambda>originate.
             let msgout = \<lparr>sd_mode = 4, sd_vn = 3, sd_li = 0, sd_stratum = 2, sd_poll = 16, sd_precision = - 18,
                   root_delay = 369098752, root_dispersion = 369098752, reference_identifier = upstream,
                   reference_timestamp = ntp_timestamp (fst now) (snd now div 1000), originate_timestamp = originate,
                   receive_timestamp = ntp_timestamp (fst recv_now) (snd recv_now div 1000),
                   transmit_timestamp = ntp_timestamp (fst now) (snd now div 1000)\<rparr>
             in rbind (udp_transmit_packet src_ip src_port dst_ip dst_port (sntp_octets msgout)) (\<lambda>out.
                Inr ([out], n2)))))"

text \<open>A round of the broadcasting thread.\<close>

definition ntp_broadcast_round :: "int \<times> int \<Rightarrow> ntp \<Rightarrow> (ip_send option \<times> ntp) res" where
  "ntp_broadcast_round now n =
     (let n1 = n\<lparr>ntp_broadcast := ntp_broadcast n + 1\<rparr> in
      rbind (upstream_octets n1) (\<lambda>upstream.
      let msgout = \<lparr>sd_mode = 5, sd_vn = 3, sd_li = 0, sd_stratum = 2, sd_poll = 16, sd_precision = - 18,
            root_delay = 1, root_dispersion = 1, reference_identifier = upstream,
            reference_timestamp = ntp_timestamp (fst now) (snd now), originate_timestamp = replicate 8 0,
            receive_timestamp = replicate 8 0, transmit_timestamp = ntp_timestamp (fst now) (snd now)\<rparr>
      in rbind (udp_transmit_packet (Addr AF_ipv4 [224, 0, 1, 1]) 123 (ntp_my_ip n1) 123 (sntp_octets msgout)) (\<lambda>out.
         Inr (out, n1))))"

section \<open>The answer\<close>

lemma length_ntp_timestamp [simp]: "length (ntp_timestamp s u) = 8"
  by (simp add: ntp_timestamp_def)

definition seconds_of :: "byte list \<Rightarrow> nat" where
  "seconds_of t = unat (mk32 (t ! 0) (t ! 1) (t ! 2) (t ! 3))"

definition fraction_of :: "byte list \<Rightarrow> nat" where
  "fraction_of t = unat (mk32 (t ! 4) (t ! 5) (t ! 6) (t ! 7))"

lemma unat_of_int32: "unat (word_of_int x :: u32) = nat (x mod 2 ^ 32)"
  by (simp add: unsigned_of_int take_bit_eq_mod)

text \<open>The fraction of a second: exact up to 0.04 percent, except in the last seven microseconds of each second.\<close>

lemma timestamp_fraction:
  assumes "0 \<le> usec" "usec < 1000000"
  shows "fraction_of (ntp_timestamp sec usec) = (if usec \<le> 999992 then nat usec * 4295 else nat usec * 4295 - 2 ^ 32)"
proof -
  obtain a b c d where w: "bytes32 (word_of_int (sec + NTP_EPOCH)) = [a, b, c, d]" by (metis bytes32_def)
  obtain e f g h where x: "bytes32 (word_of_int (usec * 4295)) = [e, f, g, h]" "mk32 e f g h = word_of_int (usec * 4295)"
    by (rule bytes32_obtain)
  have "fraction_of (ntp_timestamp sec usec) = unat (word_of_int (usec * 4295) :: u32)"
    unfolding fraction_of_def ntp_timestamp_def w x(1) by (simp add: x(2))
  also have "\<dots> = nat ((usec * 4295) mod 2 ^ 32)" by (rule unat_of_int32)
  also have "(usec * 4295) mod 2 ^ 32 = (if usec \<le> 999992 then usec * 4295 else usec * 4295 - 2 ^ 32)"
  proof (cases "usec \<le> 999992")
    case True
    with assms show ?thesis by (simp add: mod_pos_pos_trivial)
  next
    case False
    with assms have "(usec * 4295) mod 2 ^ 32 = (usec * 4295 - 2 ^ 32) mod 2 ^ 32" by (simp add: mod_diff_eq [symmetric])
    also have "\<dots> = usec * 4295 - 2 ^ 32" using False assms by (intro mod_pos_pos_trivial) auto
    finally show ?thesis using False by simp
  qed
  finally show ?thesis using assms by (auto simp: nat_mult_distrib nat_diff_distrib)
qed

definition time_request :: "byte list \<Rightarrow> bool" where
  "time_request p \<longleftrightarrow> 8 \<le> length p \<and> p ! 0 AND 7 = 3"

lemma timestamp_seconds: "seconds_of (ntp_timestamp sec usec) = nat ((sec + NTP_EPOCH) mod 2 ^ 32)"
proof -
  obtain a b c d where w: "bytes32 (word_of_int (sec + NTP_EPOCH)) = [a, b, c, d]" "mk32 a b c d = word_of_int (sec + NTP_EPOCH)"
    by (rule bytes32_obtain)
  have "seconds_of (ntp_timestamp sec usec) = unat (word_of_int (sec + NTP_EPOCH) :: u32)"
    unfolding seconds_of_def ntp_timestamp_def w(1) by (simp add: w(2))
  then show ?thesis by (simp only: unat_of_int32)
qed

text \<open>
  C32. Time requests: a request of at least 48 octets is answered, to its sender, by 48 octets: a server reply that repeats the
  transmit time of the request as originate time and carries the times of arrival and of the answer.  A shorter
  request of 8 octets or more is read behind its end.  The fraction of a second of a time is its
  microseconds times 4295, which is too much for 32 bits in the last 7 microseconds of a second.\<close>

theorem ntp_answers:
  assumes "time_request p" and "dst_ip = ntp_my_ip n" and "length (octets (upstream_ntp_server n)) = 4"
    and "wf_addr src_ip" and "wf_addr dst_ip" and "addr_fam src_ip = AF_ipv4" and "addr_fam dst_ip = AF_ipv4"
    and "0 \<le> ns" and "ns < 1000000000"
  shows "(length p < 48 \<longrightarrow> ntp_input (rs, rn) (s, ns) src_ip src_port dst_ip dst_port p n = Inl Undefined_behaviour) \<and>
    (48 \<le> length p \<longrightarrow> (\<exists>out n' c r. ntp_input (rs, rn) (s, ns) src_ip src_port dst_ip dst_port p n = Inr ([Some out], n') \<and>
      is_dst_ip out = src_ip \<and> is_src_ip out = dst_ip \<and> is_payload out = udp_segment dst_port src_port c r \<and> length r = 48 \<and>
      take 4 r = [0x1c, 2, 16, - 18] \<and> take 8 (drop 24 r) = take 8 (drop 40 p) \<and>
      drop 40 r = ntp_timestamp s (ns div 1000) \<and> take 8 (drop 32 r) = ntp_timestamp rs (rn div 1000) \<and>
      ntp_requests n' = ntp_requests n + 1 \<and> ntp_time_req n' = ntp_time_req n + 1)) \<and>
    seconds_of (ntp_timestamp s (ns div 1000)) = nat ((s + NTP_EPOCH) mod 2 ^ 32) \<and>
    fraction_of (ntp_timestamp s (ns div 1000)) =
      (if ns div 1000 \<le> 999992 then nat (ns div 1000) * 4295 else nat (ns div 1000) * 4295 - 2 ^ 32)"
proof -
  have q: "\<not> length p < 8" "p ! 0 AND 7 = 3" using assms(1) by (auto simp: time_request_def)
  have up: "upstream_octets n' = Inr (octets (upstream_ntp_server n))" if "upstream_ntp_server n' = upstream_ntp_server n" for n'
    using that assms(3) by (simp add: upstream_octets_def)
  have short: "ntp_input (rs, rn) (s, ns) src_ip src_port dst_ip dst_port p n = Inl Undefined_behaviour" if "length p < 48"
    using that q assms(2) by (simp add: ntp_input_def Let_def up octets_at_def)
  have long: "\<exists>out n' c r. ntp_input (rs, rn) (s, ns) src_ip src_port dst_ip dst_port p n = Inr ([Some out], n') \<and>
      is_dst_ip out = src_ip \<and> is_src_ip out = dst_ip \<and> is_payload out = udp_segment dst_port src_port c r \<and> length r = 48 \<and>
      take 4 r = [0x1c, 2, 16, - 18] \<and> take 8 (drop 24 r) = take 8 (drop 40 p) \<and>
      drop 40 r = ntp_timestamp s (ns div 1000) \<and> take 8 (drop 32 r) = ntp_timestamp rs (rn div 1000) \<and>
      ntp_requests n' = ntp_requests n + 1 \<and> ntp_time_req n' = ntp_time_req n + 1" if l: "48 \<le> length p"
  proof -
    define r where "r = sntp_octets \<lparr>sd_mode = 4, sd_vn = 3, sd_li = 0, sd_stratum = 2, sd_poll = 16, sd_precision = - 18,
      root_delay = 369098752, root_dispersion = 369098752, reference_identifier = octets (upstream_ntp_server n),
      reference_timestamp = ntp_timestamp s (ns div 1000), originate_timestamp = take 8 (drop 40 p),
      receive_timestamp = ntp_timestamp rs (rn div 1000), transmit_timestamp = ntp_timestamp s (ns div 1000)\<rparr>"
    have lr: "length r = 48" using l assms(3) by (simp add: r_def sntp_octets_def)
    obtain c where "tcp_udp_checksum src_ip dst_ip False (udp_segment dst_port src_port 0 r) = Inr c"
      using udp_segment_checksum [of dst_ip src_ip r] assms(4-7) lr by auto
    moreover have "length (octets src_ip) = length (octets dst_ip)" using assms(4-7) by (simp add: wf_addr_def)
    ultimately have u: "udp_transmit_packet src_ip src_port dst_ip dst_port r = Inr (Some \<lparr>is_dst_mac = None, is_dst_ip = src_ip,
        is_src_ip = dst_ip, is_protocol = 0x11, is_payload = udp_segment dst_port src_port c r, is_header_template = None\<rparr>)"
      by (simp add: udp_transmit_packet_def)
    have "take 4 r = [0x1c, 2, 16, - 18]" "take 8 (drop 24 r) = take 8 (drop 40 p)" "drop 40 r = ntp_timestamp s (ns div 1000)"
      "take 8 (drop 32 r) = ntp_timestamp rs (rn div 1000)"
      using l assms(3) by (simp_all add: r_def sntp_octets_def)
    with l q assms(2) u lr show ?thesis
      by (simp add: ntp_input_def Let_def up octets_at_def r_def [symmetric]) blast
  qed
  have us: "0 \<le> ns div 1000" "ns div 1000 < 1000000" using assms(8,9) by auto
  show ?thesis using short long timestamp_seconds timestamp_fraction [OF us] by blast
qed

theorem ntp_answers_witness:
  "\<exists>out n'. ntp_input (100, 0) (100, 999999000) (Addr AF_ipv4 [10, 0, 0, 2]) 5000 (Addr AF_ipv4 [10, 0, 0, 1]) 123
      (0x1b # replicate 47 0) (ntp_new (Addr AF_ipv4 [10, 0, 0, 1]) (Addr AF_ipv4 [10, 0, 0, 9])) = Inr ([Some out], n') \<and>
    fraction_of (ntp_timestamp 100 999999) = 28409"
  using ntp_answers [of "0x1b # replicate 47 0" "Addr AF_ipv4 [10, 0, 0, 1]" "ntp_new (Addr AF_ipv4 [10, 0, 0, 1]) (Addr AF_ipv4 [10, 0, 0, 9])"
      "Addr AF_ipv4 [10, 0, 0, 2]" 999999000 100 0 100 5000 123]
  by (auto simp: time_request_def ntp_new_def wf_addr_def)

end
