(* ===== verification/Lldp.thy ===== *)
theory Lldp
  imports Phys
begin

text \<open>
  The announcements of the link layer (\<^verbatim>\<open>src/lldp.cpp\<close>), and a decoder of their format to state what they
  say.
\<close>

unbundle bit_operations_syntax

record lldp =
  lldp_my_mac :: addr
  lldp_mgmt_addr :: addr
  lldp_interface_idx :: u32

definition add_tlv :: "byte list \<Rightarrow> byte \<Rightarrow> byte list \<Rightarrow> byte list" where
  "add_tlv target ty payload =
     (let header = push_bit 9 (ucast ty) OR of_nat (length payload) :: u16 in target @ bytes16 header @ payload)"

definition str_to_uvec :: "string \<Rightarrow> byte list" where
  "str_to_uvec s = map (\<lambda>c. of_nat (of_char c)) s"

text \<open>The six octets of the link address; the operator asserts the index.\<close>

definition six_octets :: "addr \<Rightarrow> byte list res" where
  "six_octets a = rbind (rassert (6 \<le> length (octets a))) (\<lambda>_. Inr (take 6 (octets a)))"

definition lldp_mgmt :: "lldp \<Rightarrow> byte list" where
  "lldp_mgmt l =
     [1 + of_nat (length (octets (lldp_mgmt_addr l))), if length (octets (lldp_mgmt_addr l)) = 4 then 1 else 6] @
     octets (lldp_mgmt_addr l) @ [2] @ bytes32 (lldp_interface_idx l) @ [0]"

definition generate_lldp_packet :: "lldp \<Rightarrow> byte list res" where
  "generate_lldp_packet l =
     rbind (six_octets (lldp_my_mac l)) (\<lambda>mac.
     let out = add_tlv [] 1 ([4] @ mac);
         out = add_tlv out 2 ([3] @ mac);
         out = add_tlv out 3 [0, 30];
         out = add_tlv out 6 (str_to_uvec ''MyIP - www.vanheusden.com'');
         out = add_tlv out 7 (bytes16 (0x01 OR 0x10 OR 0x80) @ [0, 0]);
         out = add_tlv out 8 (lldp_mgmt l)
     in Inr (add_tlv out 0 []))"

text \<open>A round of \<open>operator()\<close>: destination, source, ether type and octets of the frame, if there is a device.\<close>

definition lldp_round :: "bool \<Rightarrow> byte list \<Rightarrow> lldp \<Rightarrow> (addr \<times> addr \<times> u16 \<times> byte list) option" where
  "lldp_round has_pdev payload l =
     (if has_pdev then Some (Addr AF_mac [0x01, 0x80, 0xc2, 0x00, 0x00, 0x0e], lldp_my_mac l, 0x88cc, payload) else None)"

section \<open>Decoding\<close>

text \<open>Type (7 bits), length (9 bits), value, up to an element of type 0.\<close>

function lldp_elements :: "byte list \<Rightarrow> (nat \<times> byte list) list option" where
  "lldp_elements (a # b # rest) =
     (let header = unat (mk16 a b); ty = header div 512; len = header mod 512 in
      if length rest < len then None
      else if ty = 0 then (if len = 0 \<and> rest = [] then Some [(0, [])] else None)
      else map_option (\<lambda>es. (ty, take len rest) # es) (lldp_elements (drop len rest)))"
| "lldp_elements [] = None"
| "lldp_elements [a] = None"
  by pat_completeness auto
termination
  by (relation "measure length") auto

declare lldp_elements.simps [simp del]

lemma tlv_header:
  assumes "ty < 128" "length v < 512"
  shows "unat (push_bit 9 (ucast ty) OR of_nat (length v) :: u16) = unat (ty :: byte) * 512 + length v"
proof -
  have t: "unat ty < 128" using assms(1) by (simp add: word_less_nat_alt)
  have l: "(of_nat (length v) :: u16) = take_bit 9 (of_nat (length v))"
    using assms(2) by (simp add: take_bit_of_nat take_bit_nat_eq_self)
  have "push_bit 9 (ucast ty) AND (of_nat (length v) :: u16) = 0"
    by (subst l) (rule bit_word_eqI, auto simp: bit_simps)
  then have "(push_bit 9 (ucast ty) OR of_nat (length v) :: u16) = push_bit 9 (ucast ty) + of_nat (length v)"
    by (rule disjunctive_add_eq_or [symmetric])
  also have "\<dots> = of_nat (unat ty * 512 + length v)"
    by (simp add: push_bit_eq_mult of_nat_unat mult.commute)
  finally show ?thesis using t assms(2) by (simp only:) (subst unsigned_of_nat, simp add: take_bit_nat_eq_self)
qed

lemma lldp_elements_tlv:
  assumes "0 < ty" "ty < (128 :: byte)" "length v < 512"
  shows "lldp_elements (bytes16 (push_bit 9 (ucast ty) OR of_nat (length v)) @ v @ rest) =
    map_option (\<lambda>es. (unat ty, v) # es) (lldp_elements rest)"
proof -
  obtain a b where w: "bytes16 (push_bit 9 (ucast ty) OR of_nat (length v)) = [a, b]"
    "mk16 a b = push_bit 9 (ucast ty) OR of_nat (length v)" by (rule bytes16_obtain)
  have h: "unat (mk16 a b) = unat ty * 512 + length v" using tlv_header [OF assms(2,3)] w(2) by simp
  have "0 < unat ty" using assms(1) by (simp add: word_less_nat_alt)
  with h assms(3) show ?thesis unfolding w(1) by (simp add: lldp_elements.simps Let_def)
qed

text \<open>
  What a host announces: the packet is a sequence of elements, closed by the end element, that name the link address as chassis and
  port, a life time of 30 seconds, the description, the capabilities, and the management address
  with the index of the interface.\<close>

theorem lldp_announces:
  assumes "length (octets (lldp_my_mac l)) = 6" and "length (octets (lldp_mgmt_addr l)) \<le> 16"
  shows "\<exists>p. generate_lldp_packet l = Inr p \<and> lldp_elements p = Some
    [(1, 4 # octets (lldp_my_mac l)), (2, 3 # octets (lldp_my_mac l)), (3, [0, 30]),
     (6, str_to_uvec ''MyIP - www.vanheusden.com''), (7, [0, 0x91, 0, 0]), (8, lldp_mgmt l), (0, [])]"
proof -
  let ?tlv = "\<lambda>ty v. bytes16 (push_bit 9 (ucast (ty :: byte)) OR of_nat (length v)) @ v"
  let ?p = "?tlv 1 (4 # octets (lldp_my_mac l)) @ ?tlv 2 (3 # octets (lldp_my_mac l)) @ ?tlv 3 [0, 30] @
    ?tlv 6 (str_to_uvec ''MyIP - www.vanheusden.com'') @ ?tlv 7 [0, 0x91, 0, 0] @ ?tlv 8 (lldp_mgmt l) @ [0, 0]"
  have c: "bytes16 (0x01 OR 0x10 OR 0x80) @ [0, 0] = [0, 0x91, 0, 0]" by (simp add: bytes16_def)
  have g: "generate_lldp_packet l = Inr ?p"
    using assms(1) c by (simp add: generate_lldp_packet_def six_octets_def add_tlv_def Let_def bytes16_def)
  have e: "lldp_elements (?tlv ty v @ rest) = map_option (\<lambda>es. (unat ty, v) # es) (lldp_elements rest)"
    if "0 < ty" "ty < 128" "length v < 512" for ty v rest
    using lldp_elements_tlv [OF that] by simp
  have m: "length (lldp_mgmt l) < 512" using assms(2) by (simp add: lldp_mgmt_def)
  have s: "length (str_to_uvec ''MyIP - www.vanheusden.com'') < 512" by (simp add: str_to_uvec_def)
  have f: "lldp_elements [0, 0] = Some [(0, [])]" by (simp add: lldp_elements.simps mk16_def)
  show ?thesis
    using g e [of 1 "4 # octets (lldp_my_mac l)"] e [of 2 "3 # octets (lldp_my_mac l)"] e [of 3 "[0, 30]"] e [OF _ _ s, of 6]
      e [of 7 "[0, 0x91, 0, 0]"] e [OF _ _ m, of 8] f assms(1)
    by (intro exI [of _ ?p]) (simp only: append_assoc, simp)
qed

theorem lldp_announces_witness:
  "\<exists>p. generate_lldp_packet \<lparr>lldp_my_mac = Addr AF_mac [2, 0, 0, 0, 0, 1], lldp_mgmt_addr = Addr AF_ipv4 [10, 0, 0, 1], lldp_interface_idx = 3\<rparr> = Inr p \<and>
     map_option hd (lldp_elements p) = Some (1, [4, 2, 0, 0, 0, 0, 1])"
  using lldp_announces [of "\<lparr>lldp_my_mac = Addr AF_mac [2, 0, 0, 0, 0, 1], lldp_mgmt_addr = Addr AF_ipv4 [10, 0, 0, 1], lldp_interface_idx = 3\<rparr>"]
  by auto

end
