(* ===== verification/Vpn.thy ===== *)
theory Vpn
  imports Phys Udp
begin

text \<open>
  The tunnel (\<^verbatim>\<open>src/vpn.cpp\<close>) and the device that feeds it (\<^verbatim>\<open>src/phys_vpn_insertion_point.cpp\<close>).
  The functions of the crypto library are arguments: \<open>md5\<close>, and \<open>enc\<close> and \<open>dec\<close> for
  \<open>DES_ncbc_encrypt\<close> with the keys of both directions, which take the chaining value and a block and
  give the other block and the next chaining value.
\<close>

unbundle bit_operations_syntax

section \<open>State\<close>

record vpn =
  vpn_my_ip :: addr
  vpn_my_port :: int
  vpn_peer_ip :: addr
  vpn_peer_port :: int
  ivec_encrypt :: "byte list"
  ivec_decrypt :: "byte list"

definition vpn_new :: "addr \<Rightarrow> int \<Rightarrow> addr \<Rightarrow> int \<Rightarrow> vpn" where
  "vpn_new ip port peer_ip peer_port = \<lparr>vpn_my_ip = ip, vpn_my_port = port, vpn_peer_ip = peer_ip, vpn_peer_port = peer_port,
     ivec_encrypt = replicate 8 0, ivec_decrypt = replicate 8 0\<rparr>"

text \<open>The loops over the blocks of a packet.\<close>

type_synonym cipher = "byte list \<Rightarrow> byte list \<Rightarrow> byte list \<times> byte list"

function des_loop :: "cipher \<Rightarrow> byte list \<Rightarrow> byte list \<Rightarrow> byte list \<times> byte list" where
  "des_loop f iv bs =
     (if bs = [] then ([], iv)
      else
        let (b, iv1) = f iv (take 8 bs);
            (rest, iv2) = des_loop f iv1 (drop 8 bs)
        in (b @ rest, iv2))"
  by auto
termination
  by (relation "measure (\<lambda>(f, iv, bs). length bs)") auto

declare des_loop.simps [simp del]

section \<open>Sending\<close>

text \<open>
  The size of the packet counts one octet for each address where two are written in front of it, the
  family and the length.
\<close>

definition vpn_out_len :: "addr \<Rightarrow> addr \<Rightarrow> nat \<Rightarrow> nat" where
  "vpn_out_len dst_mac src_mac pl_size =
     (let out_len = 16 + 2 + 2 + 1 + length (octets dst_mac) + 1 + length (octets src_mac) + pl_size in
      if out_len mod 8 \<noteq> 0 then out_len + (8 - out_len mod 8) else out_len)"

definition vpn_address :: "addr \<Rightarrow> byte list" where
  "vpn_address a = [of_nat (family_nr (addr_fam a)), of_nat (length (octets a))] @ octets a"

definition vpn_frame :: "(byte list \<Rightarrow> byte list) \<Rightarrow> addr \<Rightarrow> addr \<Rightarrow> u16 \<Rightarrow> byte list \<Rightarrow> byte list res" where
  "vpn_frame md5 dst_mac src_mac ether_type payload =
     (let out_len = vpn_out_len dst_mac src_mac (length payload);
          content = bytes16 ether_type @ bytes16 (of_nat (length payload)) @ vpn_address dst_mac @ vpn_address src_mac @ payload
      in if out_len < 16 + length content then Inl Undefined_behaviour
         else let body = content @ replicate (out_len - (16 + length content)) 0 in Inr (md5 body @ body))"

definition vpn_transmit_packet :: "(byte list \<Rightarrow> byte list) \<Rightarrow> cipher \<Rightarrow> addr \<Rightarrow> addr \<Rightarrow> u16 \<Rightarrow> byte list \<Rightarrow> vpn \<Rightarrow>
    (ip_send option \<times> byte list \<times> vpn) res" where
  "vpn_transmit_packet md5 enc dst_mac src_mac ether_type payload v =
     rbind (vpn_frame md5 dst_mac src_mac ether_type payload) (\<lambda>plain.
     let (out, iv) = des_loop enc (ivec_encrypt v) plain in
     rbind (udp_transmit_packet (vpn_peer_ip v) (vpn_peer_port v) (vpn_my_ip v) (vpn_my_port v) out) (\<lambda>sent.
     Inr (sent, out, v\<lparr>ivec_encrypt := iv\<rparr>)))"

section \<open>The device\<close>

text \<open>The addresses are given to the packet in the order destination, source; it takes them as source, destination.\<close>

definition insert_packet :: "addr \<Rightarrow> addr \<Rightarrow> u16 \<Rightarrow> byte list \<Rightarrow> 'a phys_scheme \<Rightarrow> (nat \<times> packet) option" where
  "insert_packet dst_mac src_mac ether_type payload dev =
     (case phys_prot_map dev ether_type of
        None \<Rightarrow> None
      | Some layer \<Rightarrow> Some (layer, packet_new_link dst_mac src_mac payload [] True))"

text \<open>\<open>v\<close>: the tunnel, when one is configured.  A frame to the device itself does not go through it.\<close>

datatype vpn_way = Not_configured | Loopback "(nat \<times> packet) option" | Tunnel "ip_send option \<times> byte list \<times> vpn"

definition vpn_dev_transmit_packet :: "(byte list \<Rightarrow> byte list) \<Rightarrow> cipher \<Rightarrow> vpn option \<Rightarrow> addr \<Rightarrow> addr \<Rightarrow> u16 \<Rightarrow> byte list \<Rightarrow>
    'a phys_scheme \<Rightarrow> (vpn_way \<times> 'a phys_scheme) res" where
  "vpn_dev_transmit_packet md5 enc v dst_mac src_mac ether_type payload dev =
     (case v of
        None \<Rightarrow> Inr (Not_configured, dev)
      | Some t \<Rightarrow>
          let dev1 = dev\<lparr>phys_ifOutOctets := phys_ifOutOctets dev + of_nat (length payload),
                phys_ifHCOutOctets := phys_ifHCOutOctets dev + of_nat (length payload),
                phys_ifOutUcastPkts := phys_ifOutUcastPkts dev + 1\<rparr>
          in if dst_mac = my_mac dev then Inr (Loopback (insert_packet dst_mac src_mac ether_type payload dev), dev1)
             else rbind (vpn_transmit_packet md5 enc dst_mac src_mac ether_type payload t) (\<lambda>r. Inr (Tunnel r, dev1)))"

section \<open>Receiving\<close>

text \<open>An address in a packet: the octets follow from the family, the position from the length that was sent.\<close>

definition family_of :: "byte \<Rightarrow> addr_family res" where
  "family_of b = (if b = 0 then Inr AF_ipv4 else if b = 1 then Inr AF_mac else if b = 2 then Inr AF_ax25
     else if b = 3 then Inr AF_ipv6 else Inl Undefined_behaviour)"

definition read_address :: "byte list \<Rightarrow> nat \<Rightarrow> (addr \<times> nat) res" where
  "read_address p pos =
     rbind (octets_at p pos 2) (\<lambda>h.
     rbind (family_of (h ! 0)) (\<lambda>fam.
     rbind (octets_at p (pos + 2) (family_size fam)) (\<lambda>a.
     Inr (Addr fam a, pos + 2 + unat (h ! 1)))))"

definition vpn_input :: "(byte list \<Rightarrow> byte list) \<Rightarrow> cipher \<Rightarrow> byte list \<Rightarrow> 'a phys_scheme \<Rightarrow> vpn \<Rightarrow> ((nat \<times> packet) option \<times> vpn) res" where
  "vpn_input md5 dec p dev v =
     (if length p mod 8 \<noteq> 0 then Inr (None, v)
      else
        let (temp, iv) = des_loop dec (ivec_decrypt v) p; v1 = v\<lparr>ivec_decrypt := iv\<rparr> in
        if length p < 16 then Inl Undefined_behaviour
        else if md5 (drop 16 temp) \<noteq> take 16 temp then Inr (None, v1)
        else
          rbind (octets_at temp 16 4) (\<lambda>h.
          rbind (read_address temp 20) (\<lambda>(dst_mac, pos1).
          rbind (read_address temp pos1) (\<lambda>(src_mac, pos2).
          rbind (octets_at temp pos2 (unat (mk16 (h ! 2) (h ! 3)))) (\<lambda>payload.
          Inr (insert_packet dst_mac src_mac (mk16 (h ! 0) (h ! 1)) payload dev, v1))))))"

section \<open>The way through the tunnel\<close>

text \<open>What the cipher and the hash promise.\<close>

definition cipher_ok :: "cipher \<Rightarrow> cipher \<Rightarrow> bool" where
  "cipher_ok enc dec \<longleftrightarrow> (\<forall>iv b. length iv = 8 \<and> length b = 8 \<longrightarrow>
     (\<exists>c iv'. enc iv b = (c, iv') \<and> length c = 8 \<and> length iv' = 8 \<and> dec iv c = (b, iv')))"

definition md5_ok :: "(byte list \<Rightarrow> byte list) \<Rightarrow> bool" where
  "md5_ok md5 \<longleftrightarrow> (\<forall>bs. length (md5 bs) = 16)"

lemma des_loop_inverse:
  assumes "cipher_ok enc dec"
  shows "length iv = 8 \<Longrightarrow> length bs = 8 * n \<Longrightarrow>
    \<exists>cs iv'. des_loop enc iv bs = (cs, iv') \<and> length cs = length bs \<and> length iv' = 8 \<and> des_loop dec iv cs = (bs, iv')"
proof (induction n arbitrary: iv bs)
  case 0
  then show ?case by (simp add: des_loop.simps)
next
  case (Suc n)
  have t: "length (take 8 bs) = 8" "length (drop 8 bs) = 8 * n" "bs \<noteq> []" using Suc.prems by auto
  from assms Suc.prems(1) t(1) obtain c iv1 where c: "enc iv (take 8 bs) = (c, iv1)" "length c = 8" "length iv1 = 8" "dec iv c = (take 8 bs, iv1)"
    unfolding cipher_ok_def by blast
  from Suc.IH [OF c(3) t(2)] obtain cs iv2 where cs: "des_loop enc iv1 (drop 8 bs) = (cs, iv2)" "length cs = length (drop 8 bs)"
    "length iv2 = 8" "des_loop dec iv1 cs = (drop 8 bs, iv2)" by blast
  have "des_loop enc iv bs = (c @ cs, iv2)" using t(3) c(1) cs(1) by (subst des_loop.simps) simp
  moreover have "des_loop dec iv (c @ cs) = (bs, iv2)"
    using c cs(4) t by (subst des_loop.simps) auto
  ultimately show ?case using c(2) cs(2,3) t by (intro exI [of _ "c @ cs"] exI [of _ iv2]) simp
qed

definition is_mac :: "addr \<Rightarrow> bool" where
  "is_mac a \<longleftrightarrow> addr_fam a = AF_mac \<and> length (octets a) = 6"

lemma vpn_address_mac: "is_mac a \<Longrightarrow> vpn_address a = [1, 6] @ octets a \<and> a = Addr AF_mac (octets a)"
  by (cases a) (simp add: is_mac_def vpn_address_def)

lemma out_len_mac:
  assumes "is_mac d" "is_mac s"
  shows "vpn_out_len d s n < n + 36 \<longleftrightarrow> n mod 8 = 5 \<or> n mod 8 = 6" "vpn_out_len d s n mod 8 = 0"
proof -
  have o: "vpn_out_len d s n = (if (34 + n) mod 8 \<noteq> 0 then 34 + n + (8 - (34 + n) mod 8) else 34 + n)"
    using assms by (simp add: vpn_out_len_def is_mac_def)
  have m: "(34 + n) mod 8 = (2 + n mod 8) mod 8" by presburger
  show "vpn_out_len d s n < n + 36 \<longleftrightarrow> n mod 8 = 5 \<or> n mod 8 = 6" unfolding o by presburger
  show "vpn_out_len d s n mod 8 = 0" unfolding o by presburger
qed

lemma read_address_mac:
  assumes "is_mac a" "p = pre @ vpn_address a @ post" "length pre = pos"
  shows "read_address p pos = Inr (a, pos + 8)"
proof -
  note a = vpn_address_mac [OF assms(1)]
  have "octets_at p pos 2 = Inr [1, 6]"
    using octets_at_middle [OF assms(3), of "[1, 6]" 2 "octets a @ post"] a assms(2) by simp
  moreover have "octets_at p (pos + 2) 6 = Inr (octets a)"
    using octets_at_middle [of "pre @ [1, 6]" "pos + 2" "octets a" 6 post] a assms by (simp add: is_mac_def)
  ultimately show ?thesis using a by (simp add: read_address_def family_of_def)
qed

definition ends_ok :: "vpn \<Rightarrow> bool" where
  "ends_ok v \<longleftrightarrow> wf_addr (vpn_my_ip v) \<and> wf_addr (vpn_peer_ip v) \<and> addr_fam (vpn_my_ip v) = addr_fam (vpn_peer_ip v) \<and>
     (addr_fam (vpn_peer_ip v) = AF_ipv4 \<or> addr_fam (vpn_peer_ip v) = AF_ipv6)"

lemma udp_sends:
  assumes "ends_ok v" "8 + length out \<le> 65535"
  shows "\<exists>sent. udp_transmit_packet (vpn_peer_ip v) (vpn_peer_port v) (vpn_my_ip v) (vpn_my_port v) out = Inr (Some sent) \<and>
    is_dst_ip sent = vpn_peer_ip v"
proof -
  obtain c where "tcp_udp_checksum (vpn_peer_ip v) (vpn_my_ip v) False (udp_segment (vpn_my_port v) (vpn_peer_port v) 0 out) = Inr c"
    using udp_segment_checksum [of "vpn_my_ip v" "vpn_peer_ip v" out] assms unfolding ends_ok_def by blast
  moreover have "length (octets (vpn_peer_ip v)) = length (octets (vpn_my_ip v))"
    using assms(1) by (simp add: ends_ok_def wf_addr_def)
  ultimately show ?thesis by (simp add: udp_transmit_packet_def)
qed

text \<open>The receiver, with the plain text of a packet.\<close>

lemma vpn_input_plain:
  assumes "is_mac dst" "is_mac src" "length payload < 65536" "length (md5 body) = 16"
    and "body = (bytes16 ety @ bytes16 (of_nat (length payload)) @ vpn_address dst @ vpn_address src @ payload) @ pad"
    and "des_loop dec (ivec_decrypt b) cs = (md5 body @ body, iv')" "length cs mod 8 = 0" "16 \<le> length cs"
  shows "vpn_input md5 dec cs dev b = Inr (insert_packet dst src ety payload dev, b\<lparr>ivec_decrypt := iv'\<rparr>)"
proof -
  let ?plain = "md5 body @ body"
  let ?h = "bytes16 ety @ bytes16 (of_nat (length payload) :: u16)"
  note ad = vpn_address_mac [OF assms(1)] vpn_address_mac [OF assms(2)]
  have la: "length (vpn_address dst) = 8" "length (vpn_address src) = 8" using ad assms(1,2) by (simp_all add: is_mac_def)
  have h: "octets_at ?plain 16 4 = Inr ?h"
    using octets_at_middle [OF assms(4), of ?h 4] by (simp add: assms(5))
  have r1: "read_address ?plain 20 = Inr (dst, 28)"
    using read_address_mac [OF assms(1), of ?plain "md5 body @ ?h" "vpn_address src @ payload @ pad" 20] assms(4) by (simp add: assms(5))
  have r2: "read_address ?plain 28 = Inr (src, 36)"
    using read_address_mac [OF assms(2), of ?plain "md5 body @ ?h @ vpn_address dst" "payload @ pad" 28] assms(4) la by (simp add: assms(5))
  have pl: "octets_at ?plain 36 (length payload) = Inr payload"
    using octets_at_middle [of "md5 body @ ?h @ vpn_address dst @ vpn_address src" 36 payload "length payload" pad] assms(4) la by (simp add: assms(5))
  have f: "mk16 (?h ! 0) (?h ! 1) = ety" "unat (mk16 (?h ! 2) (?h ! 3)) = length payload"
    using assms(3) by (simp_all add: bytes16_def codec_simps mk16_split unat_of_nat16)
  have "\<not> length cs < 16" using assms(8) by simp
  then show ?thesis
    unfolding vpn_input_def assms(6) prod.case Let_def using assms(4,7) h r1 r2 pl f by (simp only: rbind_simps prod.case) simp
qed

text \<open>
  C31. Through the tunnel: a frame between Ethernet addresses overruns its block exactly if the size of its payload
  is 5 or 6 modulo 8.  Otherwise it is sent to the peer, and when both ends are at the same point of their chains,
  the receiver delivers exactly that payload to the layer of the ether type, once, and both ends are at the same
  point again; the delivered packet has source and destination exchanged.\<close>

theorem vpn_transfer:
  assumes "cipher_ok enc dec" and "md5_ok md5" and "is_mac dst" and "is_mac src" and "length payload \<le> 65480"
    and "ends_ok a" and "length (ivec_encrypt a) = 8" and "ivec_decrypt b = ivec_encrypt a"
  shows "if length payload mod 8 = 5 \<or> length payload mod 8 = 6
    then vpn_transmit_packet md5 enc dst src ety payload a = Inl Undefined_behaviour
    else \<exists>sent out a' b'. vpn_transmit_packet md5 enc dst src ety payload a = Inr (Some sent, out, a') \<and>
      is_dst_ip sent = vpn_peer_ip a \<and>
      vpn_input md5 dec out dev b =
        Inr (map_option (\<lambda>layer. (layer, packet_new_link dst src payload [] True)) (phys_prot_map dev ety), b') \<and>
      length (ivec_encrypt a') = 8 \<and> ivec_decrypt b' = ivec_encrypt a'"
proof -
  let ?content = "bytes16 ety @ bytes16 (of_nat (length payload)) @ vpn_address dst @ vpn_address src @ payload"
  let ?n = "vpn_out_len dst src (length payload)"
  define body where "body = ?content @ replicate (?n - (16 + length ?content)) 0"
  have lc: "16 + length ?content = length payload + 36"
    using assms(3,4) by (simp add: vpn_address_mac is_mac_def)
  have fr: "vpn_frame md5 dst src ety payload = (if ?n < length payload + 36 then Inl Undefined_behaviour else Inr (md5 body @ body))"
    unfolding vpn_frame_def Let_def lc body_def ..
  note big = out_len_mac(1) [OF assms(3,4), of "length payload"]
  show ?thesis
  proof (cases "length payload mod 8 = 5 \<or> length payload mod 8 = 6")
    case True
    with fr big show ?thesis by (simp add: vpn_transmit_packet_def)
  next
    case False
    let ?plain = "md5 body @ body"
    have lm: "length (md5 body) = 16" using assms(2) by (simp add: md5_ok_def)
    have lp: "length ?plain = ?n" using False big lc lm by (simp add: body_def)
    have m8: "?n mod 8 = 0" by (rule out_len_mac(2) [OF assms(3,4)])
    then obtain k where k: "length ?plain = 8 * k" unfolding lp by (metis mod_0_imp_dvd dvd_def)
    from des_loop_inverse [OF assms(1,7) k] obtain cs iv' where d: "des_loop enc (ivec_encrypt a) ?plain = (cs, iv')"
      "length cs = length ?plain" "length iv' = 8" "des_loop dec (ivec_encrypt a) cs = (?plain, iv')" by blast
    have "?n \<le> length payload + 44"
      using assms(3,4) by (simp add: vpn_out_len_def is_mac_def Let_def) arith
    with assms(5) d(2) lp have "8 + length cs \<le> 65535" by simp
    from udp_sends [OF assms(6) this] obtain sent where
      u: "udp_transmit_packet (vpn_peer_ip a) (vpn_peer_port a) (vpn_my_ip a) (vpn_my_port a) cs = Inr (Some sent)" "is_dst_ip sent = vpn_peer_ip a"
      by blast
    have t: "vpn_transmit_packet md5 enc dst src ety payload a = Inr (Some sent, cs, a\<lparr>ivec_encrypt := iv'\<rparr>)"
      using False big fr d(1) u(1) by (simp add: vpn_transmit_packet_def)
    have "vpn_input md5 dec cs dev b = Inr (insert_packet dst src ety payload dev, b\<lparr>ivec_decrypt := iv'\<rparr>)"
      using vpn_input_plain [of dst src payload md5 body ety _ dec b cs iv' dev] assms(3,4,5,8) lm d(2,4) lp m8 False big
      by (simp add: body_def)
    with t u(2) d(3) False show ?thesis
      by (simp add: insert_packet_def map_option_case)
  qed
qed

theorem vpn_transfer_witness:
  "\<exists>sent out a' b'. vpn_transmit_packet (\<lambda>_. replicate 16 7) (\<lambda>iv b. let c = map2 (XOR) b iv in (c, c))
      (Addr AF_mac [1, 2, 3, 4, 5, 6]) (Addr AF_mac [6, 5, 4, 3, 2, 1]) 0x0800 [69, 0, 0, 20]
      (vpn_new (Addr AF_ipv4 [10, 0, 0, 1]) 4000 (Addr AF_ipv4 [10, 0, 0, 2]) 4000) = Inr (Some sent, out, a') \<and>
    vpn_input (\<lambda>_. replicate 16 7) (\<lambda>iv c. (map2 (XOR) c iv, c)) out
      ((phys_new (Addr AF_mac [1, 2, 3, 4, 5, 6]))\<lparr>phys_prot_map := [0x0800 \<mapsto> 4]\<rparr>)
      (vpn_new (Addr AF_ipv4 [10, 0, 0, 2]) 4000 (Addr AF_ipv4 [10, 0, 0, 1]) 4000) =
      Inr (Some (4, packet_new_link (Addr AF_mac [1, 2, 3, 4, 5, 6]) (Addr AF_mac [6, 5, 4, 3, 2, 1]) [69, 0, 0, 20] [] True), b')"
proof -
  have x: "map2 (XOR) (map2 (XOR) b iv) iv = b" if "length iv = 8" "length b = 8" for b iv :: "byte list"
    using that by (auto intro!: nth_equalityI simp: xor.assoc)
  have c: "cipher_ok (\<lambda>iv b. let c = map2 (XOR) b iv in (c, c)) (\<lambda>iv c. (map2 (XOR) c iv, c))"
    by (auto simp: cipher_ok_def Let_def x)
  show ?thesis
    using vpn_transfer [OF c, of "\<lambda>_. replicate 16 7" "Addr AF_mac [1, 2, 3, 4, 5, 6]" "Addr AF_mac [6, 5, 4, 3, 2, 1]" "[69, 0, 0, 20]"
      "vpn_new (Addr AF_ipv4 [10, 0, 0, 1]) 4000 (Addr AF_ipv4 [10, 0, 0, 2]) 4000"
      "vpn_new (Addr AF_ipv4 [10, 0, 0, 2]) 4000 (Addr AF_ipv4 [10, 0, 0, 1]) 4000" "0x0800"
      "(phys_new (Addr AF_mac [1, 2, 3, 4, 5, 6]))\<lparr>phys_prot_map := [0x0800 \<mapsto> 4]\<rparr>"]
    by (auto simp: md5_ok_def is_mac_def ends_ok_def vpn_new_def wf_addr_def)
qed

end
