(* ===== verification/Irc.thy ===== *)
theory Irc
  imports Str Std_Map "HOL-Library.Char_ord" "HOL-Library.List_Lexorder"
begin

text \<open>
  The chat server (\<^verbatim>\<open>src/irc.cpp\<close>): the table of nick names, the topics, the commands and the thread of
  a session.  Sessions are numbers; \<open>sent\<close> are the results of \<open>send_data\<close>, \<open>now\<close> is the
  time in milliseconds.  A line is processed in one step.
\<close>

unbundle bit_operations_syntax

section \<open>State\<close>

text \<open>The set of channels of a person is the list of its elements, in order.\<close>

record person =
  real_name :: string
  channels :: "string list"
  tcp_session :: nat

record irc_session_data =
  irc_client_addr :: string
  irc_nick :: string
  irc_username :: string
  irc_input :: string
  irc_terminate :: bool

record irc_thread =
  seen_nick :: bool
  seen_user :: bool
  last_ping :: "64 word"
  last_msg :: "64 word"
  irc_ended :: bool

record irc =
  local_host :: string
  nicknames :: "(string, person) std_map"
  topicnames :: "string \<rightharpoonup> string"
  isds :: "nat \<rightharpoonup> irc_session_data"
  irc_threads :: "nat \<Rightarrow> irc_thread"

definition irc_thread_new :: "64 word \<Rightarrow> irc_thread" where
  "irc_thread_new now = \<lparr>seen_nick = False, seen_user = False, last_ping = now, last_msg = now, irc_ended = False\<rparr>"

definition irc_new :: "string \<Rightarrow> irc" where
  "irc_new host = \<lparr>local_host = host, nicknames = [], topicnames = Map.empty, isds = Map.empty,
     irc_threads = (\<lambda>_. (irc_thread_new 0)\<lparr>irc_ended := True\<rparr>)\<rparr>"

definition upd_isd :: "nat \<Rightarrow> (irc_session_data \<Rightarrow> irc_session_data) \<Rightarrow> irc \<Rightarrow> irc" where
  "upd_isd sid f m = m\<lparr>isds := (isds m)(sid := map_option f (isds m sid))\<rparr>"

definition upd_thread :: "nat \<Rightarrow> (irc_thread \<Rightarrow> irc_thread) \<Rightarrow> irc \<Rightarrow> irc" where
  "upd_thread sid f m = m\<lparr>irc_threads := (irc_threads m)(sid := f (irc_threads m sid))\<rparr>"

definition upd_person :: "string \<Rightarrow> (person \<Rightarrow> person) \<Rightarrow> irc \<Rightarrow> irc res" where
  "upd_person nick f m =
     (case map_of (nicknames m) nick of
        None \<Rightarrow> Inl Undefined_behaviour
      | Some p \<Rightarrow> Inr (m\<lparr>nicknames := map_modify nick (f p) (nicknames m)\<rparr>))"

section \<open>Sending\<close>

definition crlf :: string where
  "crlf = [CHR 0x0D, CHR 0x0A]"

type_synonym irc_line = "nat \<times> string"

text \<open>
  A line for a client: it must contain the end of a line, and the session must still be there.
\<close>

definition transmit_to_client :: "irc \<Rightarrow> irc_line \<Rightarrow> irc_line res" where
  "transmit_to_client m l =
     (if str_find crlf (snd l) = None then Inl Undefined_behaviour
      else if isds m (fst l) = None then Inl Undefined_behaviour
      else Inr l)"

text \<open>Lines one after the other; with \<open>stop\<close>, until one cannot be sent.  The flag tells whether all were.\<close>

fun transmit_lines :: "(irc_line \<Rightarrow> bool) \<Rightarrow> bool \<Rightarrow> irc \<Rightarrow> irc_line list \<Rightarrow> (irc_line list \<times> bool) res" where
  "transmit_lines sent stop m [] = Inr ([], True)"
| "transmit_lines sent stop m (l # ls) =
     rbind (transmit_to_client m l) (\<lambda>l'.
     if stop \<and> \<not> sent l' then Inr ([l'], False)
     else rbind (transmit_lines sent stop m ls) (\<lambda>(out, ok). Inr (l' # out, ok)))"

definition channel_lines :: "string \<Rightarrow> string \<Rightarrow> string \<Rightarrow> irc \<Rightarrow> irc_line list" where
  "channel_lines channel msg_line sender_nick m =
     map (\<lambda>(n, p). (tcp_session p, msg_line))
       (filter (\<lambda>(n, p). n \<noteq> sender_nick \<and> (channel \<in> set (channels p) \<or> channel = n)) (nicknames m))"

definition user_lines :: "string \<Rightarrow> string \<Rightarrow> irc \<Rightarrow> irc_line list" where
  "user_lines channel nick m =
     (let members = filter (\<lambda>(n, p). channel \<in> set (channels p)) (nicknames m);
          out = '':'' @ local_host m @ '' 353 '' @ nick @ '' @ '' @ channel @ '' :'' @ join_str '' '' (map fst members) @ crlf @
            '': 366 * '' @ channel @ '' :End of /NAMES list.'' @ crlf
      in map (\<lambda>(n, p). (tcp_session p, out)) members)"

definition count_channel :: "string \<Rightarrow> (string, nat) std_map \<Rightarrow> (string, nat) std_map" where
  "count_channel ch cs = (case map_of cs ch of Some k \<Rightarrow> map_modify ch (k + 1) cs | None \<Rightarrow> map_insert ch 1 cs)"

definition get_channel_list :: "irc \<Rightarrow> (string, nat) std_map" where
  "get_channel_list m = fold (\<lambda>(n, p). fold count_channel (channels p)) (nicknames m) []"

definition get_topic :: "irc \<Rightarrow> string \<Rightarrow> string" where
  "get_topic m channel = (case topicnames m channel of None \<Rightarrow> [] | Some t \<Rightarrow> t)"

definition topic_line :: "nat \<Rightarrow> string \<Rightarrow> irc \<Rightarrow> irc_line" where
  "topic_line sid channel m = (sid, '': TOPIC '' @ channel @ '' :'' @ get_topic m channel @ crlf)"

section \<open>Commands\<close>

text \<open>The result of a line: what is sent, whether the session goes on, and the state.\<close>

type_synonym irc_result = "(irc_line list \<times> bool \<times> irc) res"

definition nick_line :: "string \<Rightarrow> string \<Rightarrow> string" where
  "nick_line old_nick new_nick = '':'' @ old_nick @ '' NICK '' @ new_nick @ crlf"

definition named :: "nat \<Rightarrow> string \<Rightarrow> irc \<Rightarrow> irc" where
  "named sid new_nick m = upd_thread sid (\<lambda>t. t\<lparr>seen_nick := True\<rparr>) (upd_isd sid (\<lambda>s. s\<lparr>irc_nick := new_nick\<rparr>) m)"

definition on_nick :: "(irc_line \<Rightarrow> bool) \<Rightarrow> nat \<Rightarrow> string \<Rightarrow> string \<Rightarrow> irc \<Rightarrow> irc_result" where
  "on_nick sent sid old_nick name m =
     (let new_nick = str_tolower name in
         if map_of (nicknames m) new_nick = None then
           case map_of (nicknames m) old_nick of
             Some p \<Rightarrow>
               let m1 = m\<lparr>nicknames := map_insert new_nick p (map_erase old_nick (nicknames m))\<rparr>
               in rbind (transmit_lines sent True m1 (map (\<lambda>(n, p). (tcp_session p, nick_line old_nick new_nick)) (nicknames m1))) (\<lambda>(out, ok).
                  if ok then Inr (out, True, named sid new_nick m1) else Inr (out, False, m1))
           | None \<Rightarrow>
               Inr ([], True, named sid new_nick (m\<lparr>nicknames :=
                 map_insert new_nick \<lparr>real_name = [], channels = [], tcp_session = sid\<rparr> (nicknames m)\<rparr>))
         else
           rbind (transmit_lines sent True m [(sid, '': 433 * '' @ new_nick @ '' :Nickname is already in use.'' @ crlf)]) (\<lambda>(out, ok).
           Inr (out, ok, m)))"

definition welcome_lines :: "string \<Rightarrow> nat \<Rightarrow> nat \<Rightarrow> string list" where
  "welcome_lines nick n_channels n_users =
     ['': 001 '' @ nick @ '' :Welcome'' @ crlf,
      '': 002 '' @ nick @ '' :Your host runs MyIP'' @ crlf,
      '': 003 '' @ nick @ '' :'' @ crlf,
      '': 004 '' @ nick @ '' '' @ crlf,
      '': 005 '' @ nick @ '' :'' @ crlf,
      '': 005 '' @ nick @ '' :'' @ crlf,
      '': 251 '' @ nick @ '' :'' @ crlf,
      '': 252 '' @ nick @ '' 0 :operator(s) online'' @ crlf,
      '': 253 '' @ nick @ '' 0 :unknown connections'' @ crlf,
      '': 254 '' @ nick @ '' '' @ fmt_d n_channels @ '' :channels formed'' @ crlf,
      '': 255 '' @ nick @ '' :I have '' @ fmt_d n_users @ '' clients and 1 server'' @ crlf,
      '': 265 '' @ nick @ '' :Current local users: '' @ fmt_d n_users @ '' Max: -1'' @ crlf,
      '': 266 '' @ nick @ '' :Current global users: '' @ fmt_d n_users @ ''  Max: -1'' @ crlf,
      '': 375 '' @ nick @ '' :message of the day'' @ crlf,
      '': 372 '' @ nick @ '' :'' @ crlf,
      '': 376 '' @ nick @ '' :End of message of the day.'' @ crlf]"

text \<open>What follows the first colon of a line.\<close>

definition after_colon :: "string \<Rightarrow> string" where
  "after_colon line = (case str_find '':'' line of None \<Rightarrow> [] | Some k \<Rightarrow> drop (k + 1) line)"

definition on_user :: "(irc_line \<Rightarrow> bool) \<Rightarrow> nat \<Rightarrow> string \<Rightarrow> string \<Rightarrow> string \<Rightarrow> irc \<Rightarrow> irc_result" where
  "on_user sent sid nick username line m =
     (if map_of (nicknames m) nick = None then
        rbind (transmit_lines sent True m [(sid, '': 401 * :What is your nick?'' @ crlf)]) (\<lambda>(out, ok). Inr (out, ok, m))
      else
        rbind (upd_person nick (\<lambda>p. p\<lparr>real_name := after_colon line\<rparr>) m) (\<lambda>m1.
        let m2 = upd_thread sid (\<lambda>t. t\<lparr>seen_user := True\<rparr>) (upd_isd sid (\<lambda>s. s\<lparr>irc_username := username\<rparr>) m1) in
        rbind (transmit_lines sent True m2 (map (\<lambda>l. (sid, l)) (welcome_lines nick (length (get_channel_list m1)) (length (nicknames m1))))) (\<lambda>(out, ok).
        Inr (out, ok, m2))))"

definition mask_line :: "irc_session_data \<Rightarrow> string \<Rightarrow> string" where
  "mask_line s rest = '':'' @ irc_nick s @ ''!'' @ irc_username s @ ''@'' @ irc_client_addr s @ '' '' @ rest @ crlf"

text \<open>The name that no client has, which excludes nobody.\<close>

definition nobody :: string where
  "nobody = ''___'' @ [CHR 0x03] @ ''invalid''"

fun join_loop :: "(irc_line \<Rightarrow> bool) \<Rightarrow> nat \<Rightarrow> irc_session_data \<Rightarrow> string list \<Rightarrow> irc \<Rightarrow> (irc_line list \<times> bool) res" where
  "join_loop sent sid s [] m = Inr ([], True)"
| "join_loop sent sid s (channel # cs) m =
     rbind (transmit_lines sent False m (channel_lines channel (mask_line s (''JOIN '' @ channel)) nobody m)) (\<lambda>(o1, _).
     rbind (transmit_lines sent False m (user_lines channel (irc_nick s) m)) (\<lambda>(o2, _).
     rbind (transmit_lines sent True m [topic_line sid channel m]) (\<lambda>(o3, ok).
     if \<not> ok then Inr (o1 @ o2 @ o3, False)
     else rbind (join_loop sent sid s cs m) (\<lambda>(o4, ok'). Inr (o1 @ o2 @ o3 @ o4, ok')))))"

definition on_join :: "(irc_line \<Rightarrow> bool) \<Rightarrow> nat \<Rightarrow> irc_session_data \<Rightarrow> string \<Rightarrow> irc \<Rightarrow> irc_result" where
  "on_join sent sid s arg m =
     (let cs = split_loop '','' arg in
      rbind (upd_person (irc_nick s) (\<lambda>p. p\<lparr>channels := fold (\<lambda>c. insort_insert (str_tolower c)) cs (channels p)\<rparr>) m) (\<lambda>m1.
      rbind (join_loop sent sid s cs m1) (\<lambda>(out, ok). Inr (out, ok, m1))))"

fun part_loop :: "(irc_line \<Rightarrow> bool) \<Rightarrow> irc_session_data \<Rightarrow> string list \<Rightarrow> irc \<Rightarrow> irc_line list res" where
  "part_loop sent s [] m = Inr []"
| "part_loop sent s (channel # cs) m =
     rbind (transmit_lines sent False m (channel_lines channel (mask_line s (''PART '' @ channel)) (irc_nick s) m)) (\<lambda>(o1, _).
     rbind (transmit_lines sent False m (user_lines channel nobody m)) (\<lambda>(o2, _).
     rbind (part_loop sent s cs m) (\<lambda>o3. Inr (o1 @ o2 @ o3))))"

definition on_part :: "(irc_line \<Rightarrow> bool) \<Rightarrow> irc_session_data \<Rightarrow> string \<Rightarrow> irc \<Rightarrow> irc_result" where
  "on_part sent s arg m =
     (let cs = split_loop '','' arg in
      rbind (upd_person (irc_nick s) (\<lambda>p. p\<lparr>channels := fold (\<lambda>c. removeAll (str_tolower c)) cs (channels p)\<rparr>) m) (\<lambda>m1.
      rbind (part_loop sent s cs m1) (\<lambda>out. Inr (out, True, m1))))"

definition on_privmsg :: "(irc_line \<Rightarrow> bool) \<Rightarrow> irc_session_data \<Rightarrow> string \<Rightarrow> string \<Rightarrow> irc \<Rightarrow> irc_result" where
  "on_privmsg sent s target line m =
     rbind (transmit_lines sent False m (channel_lines (str_tolower target) (mask_line s line) (irc_nick s) m)) (\<lambda>(out, _).
     Inr (out, True, m))"

definition on_ping :: "(irc_line \<Rightarrow> bool) \<Rightarrow> nat \<Rightarrow> string \<Rightarrow> irc \<Rightarrow> irc_result" where
  "on_ping sent sid line m =
     rbind (transmit_lines sent True m [(sid, '':'' @ local_host m @ '' PONG '' @ local_host m @ '' :'' @
       (case str_find '' '' line of None \<Rightarrow> [] | Some k \<Rightarrow> drop (k + 1) line) @ crlf)]) (\<lambda>(out, ok). Inr (out, ok, m))"

definition on_topic :: "(irc_line \<Rightarrow> bool) \<Rightarrow> nat \<Rightarrow> string \<Rightarrow> string \<Rightarrow> irc \<Rightarrow> irc_result" where
  "on_topic sent sid channel line m =
     (let m1 = m\<lparr>topicnames := (topicnames m)(channel \<mapsto> after_colon line)\<rparr> in
      rbind (transmit_lines sent True m1 [topic_line sid channel m1]) (\<lambda>(out, ok). Inr (out, ok, m1)))"

definition on_list :: "(irc_line \<Rightarrow> bool) \<Rightarrow> nat \<Rightarrow> string \<Rightarrow> irc \<Rightarrow> irc_result" where
  "on_list sent sid nick m =
     rbind (transmit_lines sent True m (map (\<lambda>l. (sid, l))
       ([ '':'' @ local_host m @ '' 321 '' @ nick @ '' Channel :Users Name'' @ crlf] @
        map (\<lambda>(ch, k). '':'' @ local_host m @ '' 322 '' @ nick @ '' '' @ ch @ '' '' @ fmt_d k @ '' :[+nt] '' @ get_topic m ch @ crlf)
          (get_channel_list m) @
        ['':'' @ local_host m @ '' 323 '' @ nick @ '' :End of channel list.'' @ crlf]))) (\<lambda>(out, ok). Inr (out, ok, m))"

definition process_line :: "(irc_line \<Rightarrow> bool) \<Rightarrow> nat \<Rightarrow> string \<Rightarrow> irc \<Rightarrow> irc_result" where
  "process_line sent sid line m =
     (case isds m sid of
        None \<Rightarrow> Inl Undefined_behaviour
      | Some s \<Rightarrow>
          let parts = split_loop '' '' line; t = irc_threads m sid in
          if line = [] then Inr ([], True, m)
          else if parts = [] then Inr ([], True, m)
          else if parts ! 0 = ''NICK'' \<and> 2 \<le> length parts then on_nick sent sid (irc_nick s) (parts ! 1) m
          else if parts ! 0 = ''USER'' \<and> 5 \<le> length parts then on_user sent sid (irc_nick s) (parts ! 1) line m
          else if \<not> seen_user t \<or> \<not> seen_nick t then Inr ([], True, m)
          else if parts ! 0 = ''JOIN'' \<and> 2 \<le> length parts then on_join sent sid s (parts ! 1) m
          else if parts ! 0 = ''PART'' \<and> 2 \<le> length parts then on_part sent s (parts ! 1) m
          else if (parts ! 0 = ''PRIVMSG'' \<or> parts ! 0 = ''NOTICE'') \<and> 2 \<le> length parts then on_privmsg sent s (parts ! 1) line m
          else if parts ! 0 = ''PING'' then on_ping sent sid line m
          else if parts ! 0 = ''TOPIC'' \<and> 3 \<le> length parts then on_topic sent sid (parts ! 1) line m
          else if parts ! 0 = ''LIST'' then on_list sent sid (irc_nick s) m
          else if parts ! 0 = ''QUIT'' then Inr ([], False, m)
          else Inr ([], True, m))"

section \<open>The thread of a session\<close>

datatype irc_out = Line nat string | Sent nat string | Ended_session nat

text \<open>The end of the thread: its nick is removed, and the session ended.\<close>

definition irc_end :: "nat \<Rightarrow> irc \<Rightarrow> irc_out list \<times> irc" where
  "irc_end sid m =
     (let nick = (case isds m sid of None \<Rightarrow> [] | Some s \<Rightarrow> irc_nick s) in
      ([Ended_session sid], upd_thread sid (\<lambda>t. t\<lparr>irc_ended := True\<rparr>) (m\<lparr>nicknames := map_erase nick (nicknames m)\<rparr>)))"

definition irc_idle :: "(irc_line \<Rightarrow> bool) \<Rightarrow> 64 word \<Rightarrow> nat \<Rightarrow> irc \<Rightarrow> (irc_line list \<times> bool \<times> irc) res" where
  "irc_idle sent now sid m =
     (let t = irc_threads m sid; ping = 5000 < now - last_ping t;
          m1 = (if ping then upd_thread sid (\<lambda>t. t\<lparr>last_ping := now\<rparr>) m else m)
      in rbind (transmit_lines sent True m1 (if ping then [(sid, ''PING :'' @ local_host m @ crlf)] else [])) (\<lambda>(out, ok).
         if \<not> ok then Inr (out, False, m1)
         else Inr (out, \<not> 16000 < now - last_msg t, m1)))"

text \<open>A line and its end are taken from the input.\<close>

definition take_line :: "nat \<Rightarrow> nat \<Rightarrow> irc \<Rightarrow> irc" where
  "take_line sid k m = upd_isd sid (\<lambda>s. s\<lparr>irc_input := drop (k + 2) (irc_input s)\<rparr>) m"

definition irc_thread_step :: "(irc_line \<Rightarrow> bool) \<Rightarrow> 64 word \<Rightarrow> nat \<Rightarrow> irc \<Rightarrow> (irc_out list \<times> irc) res" where
  "irc_thread_step sent now sid m =
     (case isds m sid of
        None \<Rightarrow> Inl Undefined_behaviour
      | Some s \<Rightarrow>
          if irc_ended (irc_threads m sid) then Inr ([], m)
          else if irc_terminate s then Inr (irc_end sid m)
          else
            case str_find crlf (irc_input s) of
              Some k \<Rightarrow>
                let line = take k (irc_input s); m1 = take_line sid k m in
                rbind (process_line sent sid line m1) (\<lambda>(out, ok, m2).
                let outs = Line sid line # map (\<lambda>(x, l). Sent x l) out in
                if ok then Inr (outs, upd_thread sid (\<lambda>t. t\<lparr>last_msg := now\<rparr>) m2)
                else let (o2, m3) = irc_end sid m2 in Inr (outs @ o2, m3))
            | None \<Rightarrow>
                rbind (irc_idle sent now sid m) (\<lambda>(out, ok, m2).
                let outs = map (\<lambda>(x, l). Sent x l) out in
                if ok then Inr (outs, m2)
                else let (o2, m3) = irc_end sid m2 in Inr (outs @ o2, m3)))"

section \<open>Sessions\<close>

definition irc_new_session :: "64 word \<Rightarrow> nat \<Rightarrow> string \<Rightarrow> irc \<Rightarrow> irc" where
  "irc_new_session now sid client_addr m =
     m\<lparr>isds := (isds m)(sid \<mapsto> \<lparr>irc_client_addr = client_addr, irc_nick = [], irc_username = [], irc_input = [], irc_terminate = False\<rparr>),
       irc_threads := (irc_threads m)(sid := irc_thread_new now)\<rparr>"

definition irc_new_data :: "nat \<Rightarrow> string \<Rightarrow> irc \<Rightarrow> irc" where
  "irc_new_data sid d m = upd_isd sid (\<lambda>s. s\<lparr>irc_input := irc_input s @ d\<rparr>) m"

text \<open>\<open>irc_close_session_2\<close> waits for the thread between these two parts.\<close>

definition irc_close_session_2 :: "nat \<Rightarrow> irc \<Rightarrow> irc" where
  "irc_close_session_2 sid m = upd_isd sid (\<lambda>s. s\<lparr>irc_terminate := True\<rparr>) m"

definition irc_delete :: "nat \<Rightarrow> irc \<Rightarrow> irc" where
  "irc_delete sid m = m\<lparr>isds := (isds m)(sid := None)\<rparr>"

inductive irc_step :: "(irc_line \<Rightarrow> bool) \<Rightarrow> irc \<Rightarrow> irc_out list \<Rightarrow> irc \<Rightarrow> bool" for sent where
  irc_step_new: "isds m sid = None \<Longrightarrow> irc_step sent m [] (irc_new_session now sid a m)"
| irc_step_data: "irc_step sent m [] (irc_new_data sid d m)"
| irc_step_thread: "isds m sid \<noteq> None \<Longrightarrow> irc_thread_step sent now sid m = Inr (out, m') \<Longrightarrow> irc_step sent m out m'"
| irc_step_close: "isds m sid \<noteq> None \<Longrightarrow> irc_step sent m [] (irc_close_session_2 sid m)"
| irc_step_join: "isds m sid \<noteq> None \<Longrightarrow> irc_ended (irc_threads m sid) \<Longrightarrow> irc_step sent m [] (irc_delete sid m)"

inductive irc_run :: "(irc_line \<Rightarrow> bool) \<Rightarrow> irc \<Rightarrow> irc_out list \<Rightarrow> irc \<Rightarrow> bool" for sent where
  irc_run_start: "irc_run sent m [] m"
| irc_run_step: "irc_run sent m tr m' \<Longrightarrow> irc_step sent m' out m'' \<Longrightarrow> irc_run sent m (tr @ out) m''"

section \<open>The table of nick names\<close>

text \<open>
  The session an entry belongs to, and the nick a session goes by.  The table is right when it
  lists exactly the sessions that have a nick and whose thread runs.
\<close>

definition owner :: "irc \<Rightarrow> string \<Rightarrow> nat option" where
  "owner m n = map_option tcp_session (map_of (nicknames m) n)"

definition nick_of :: "irc \<Rightarrow> nat \<Rightarrow> string option" where
  "nick_of m sid = map_option irc_nick (isds m sid)"

definition ended :: "irc \<Rightarrow> nat \<Rightarrow> bool" where
  "ended m sid = irc_ended (irc_threads m sid)"

definition irc_ok :: "irc \<Rightarrow> bool" where
  "irc_ok m \<longleftrightarrow> map_ok (nicknames m) \<and>
     (\<forall>n sid. owner m n = Some sid \<longleftrightarrow> n \<noteq> [] \<and> nick_of m sid = Some n \<and> \<not> ended m sid) \<and>
     (\<forall>sid. nick_of m sid = Some [] \<and> \<not> ended m sid \<longrightarrow> \<not> seen_nick (irc_threads m sid))"

lemma irc_okD:
  assumes "irc_ok m"
  shows "map_ok (nicknames m)"
    and "owner m n = Some sid \<longleftrightarrow> n \<noteq> [] \<and> nick_of m sid = Some n \<and> \<not> ended m sid"
    and "nick_of m sid = Some [] \<Longrightarrow> \<not> ended m sid \<Longrightarrow> \<not> seen_nick (irc_threads m sid)"
  using assms unfolding irc_ok_def by blast+

lemma irc_ok_new: "irc_ok (irc_new host)"
  by (simp add: irc_ok_def irc_new_def owner_def nick_of_def)

lemma irc_ok_cong:
  assumes "irc_ok m" "map_ok (nicknames m')" "owner m' = owner m" "nick_of m' = nick_of m"
    "\<And>sid. ended m' sid = ended m sid" "\<And>sid. seen_nick (irc_threads m' sid) = seen_nick (irc_threads m sid)"
  shows "irc_ok m'"
  using assms unfolding irc_ok_def by simp

lemma owner_none: "irc_ok m \<Longrightarrow> owner m [] = None"
  using irc_okD(2) [of m "[]"] by (cases "owner m []") auto

text \<open>A session takes a nick nobody has.\<close>

lemma irc_ok_rename:
  assumes ok: "irc_ok m" and nick: "nick_of m sid = Some old" "\<not> ended m sid" and new: "new \<noteq> []" "owner m new = None"
    and "map_ok (nicknames m')" and owner: "owner m' = (owner m)(old := None, new \<mapsto> sid)"
    and nick': "nick_of m' = (nick_of m)(sid \<mapsto> new)" and ended: "\<And>x. ended m' x = ended m x"
    and seen: "\<And>x. x \<noteq> sid \<Longrightarrow> seen_nick (irc_threads m' x) = seen_nick (irc_threads m x)"
  shows "irc_ok m'"
proof -
  have other: "nick_of m x \<noteq> Some new" if "\<not> ended m x" for x
    using irc_okD(2) [OF ok, of new x] new that by auto
  have mine: "nick_of m x = Some old \<Longrightarrow> \<not> ended m x \<Longrightarrow> old \<noteq> [] \<Longrightarrow> x = sid" for x
    using irc_okD(2) [OF ok, of old x] irc_okD(2) [OF ok, of old sid] nick by auto
  have "owner m' n = Some x \<longleftrightarrow> n \<noteq> [] \<and> nick_of m' x = Some n \<and> \<not> ended m' x" for n x
    using irc_okD(2) [OF ok, of n x] other mine nick new by (auto simp: owner nick' ended)
  moreover have "nick_of m' x = Some [] \<and> \<not> ended m' x \<longrightarrow> \<not> seen_nick (irc_threads m' x)" for x
    using irc_okD(3) [OF ok, of x] new seen by (auto simp: nick' ended)
  ultimately show ?thesis using assms(6) by (simp add: irc_ok_def)
qed

text \<open>A thread ends and takes its nick along.\<close>

lemma irc_ok_leave:
  assumes ok: "irc_ok m" and nick: "nick_of m sid = Some old" "\<not> ended m sid"
    and "map_ok (nicknames m')" and owner: "owner m' = (owner m)(old := None)" and nick': "nick_of m' = nick_of m"
    and ended: "\<And>x. ended m' x = (x = sid \<or> ended m x)"
    and seen: "\<And>x. x \<noteq> sid \<Longrightarrow> seen_nick (irc_threads m' x) = seen_nick (irc_threads m x)"
  shows "irc_ok m'"
proof -
  have "owner m' n = Some x \<longleftrightarrow> n \<noteq> [] \<and> nick_of m' x = Some n \<and> \<not> ended m' x" for n x
    using irc_okD(2) [OF ok, of n x] irc_okD(2) [OF ok, of old sid] nick by (auto simp: owner nick' ended)
  moreover have "nick_of m' x = Some [] \<and> \<not> ended m' x \<longrightarrow> \<not> seen_nick (irc_threads m' x)" for x
    using irc_okD(3) [OF ok, of x] seen by (auto simp: nick' ended)
  ultimately show ?thesis using assms(4) by (simp add: irc_ok_def)
qed

section \<open>What is sent\<close>

definition sendable :: "irc \<Rightarrow> irc_line \<Rightarrow> bool" where
  "sendable m l \<longleftrightarrow> suffix crlf (snd l) \<and> nick_of m (fst l) \<noteq> None"

lemma transmit_sendable: "sendable m l \<Longrightarrow> transmit_to_client m l = Inr l"
  by (auto simp: sendable_def transmit_to_client_def nick_of_def str_find_None suffix_imp_sublist)

lemma transmit_lines_all:
  "\<forall>l \<in> set ls. sendable m l \<Longrightarrow> \<not> stop \<or> (\<forall>l \<in> set ls. sent l) \<Longrightarrow> transmit_lines sent stop m ls = Inr (ls, True)"
  by (induction ls) (auto simp: transmit_sendable)

lemma transmit_lines_defined: "\<forall>l \<in> set ls. sendable m l \<Longrightarrow> \<exists>out ok. transmit_lines sent stop m ls = Inr (out, ok)"
  by (induction ls) (auto simp: transmit_sendable)

lemma line_ends [intro!]:
  "suffix crlf crlf" "suffix crlf y \<Longrightarrow> suffix crlf (x @ y)"
  by (auto intro: suffix_appendI)

lemma person_of_table:
  assumes ok: "irc_ok m" and "(n, p) \<in> set (nicknames m)"
  shows "nick_of m (tcp_session p) = Some n \<and> \<not> ended m (tcp_session p) \<and> n \<noteq> []"
proof -
  have "map_of (nicknames m) n = Some p"
    using assms(2) map_ok_distinct [OF irc_okD(1) [OF ok]] by simp
  then have "owner m n = Some (tcp_session p)" by (simp add: owner_def)
  with irc_okD(2) [OF ok] show ?thesis by blast
qed

lemma table_sendable:
  "irc_ok m \<Longrightarrow> suffix crlf t \<Longrightarrow> l \<in> set (map (\<lambda>(n, p). (tcp_session p, t)) (filter P (nicknames m))) \<Longrightarrow> sendable m l"
  by (auto simp: sendable_def dest!: person_of_table)

lemma mask_line_ends [intro!]: "suffix crlf (mask_line s rest)"
  unfolding mask_line_def by (intro line_ends)

lemma channel_lines_sendable:
  "irc_ok m \<Longrightarrow> suffix crlf t \<Longrightarrow> \<forall>l \<in> set (channel_lines channel t nick m). sendable m l"
  unfolding channel_lines_def using table_sendable by blast

lemma user_lines_sendable: "irc_ok m \<Longrightarrow> \<forall>l \<in> set (user_lines channel nick m). sendable m l"
  unfolding user_lines_def Let_def by (intro ballI, erule table_sendable [rotated 2]) (assumption, intro line_ends)

lemma own_sendable: "nick_of m sid \<noteq> None \<Longrightarrow> suffix crlf t \<Longrightarrow> sendable m (sid, t)"
  by (simp add: sendable_def)

lemma topic_sendable: "nick_of m sid \<noteq> None \<Longrightarrow> sendable m (topic_line sid channel m)"
  unfolding topic_line_def by (intro own_sendable line_ends)

lemma join_loop_defined:
  assumes "irc_ok m" "nick_of m sid \<noteq> None"
  shows "\<exists>out ok. join_loop sent sid s cs m = Inr (out, ok)"
proof (induction cs)
  case (Cons channel cs)
  have "transmit_lines sent False m (channel_lines channel (mask_line s (''JOIN '' @ channel)) nobody m) =
      Inr (channel_lines channel (mask_line s (''JOIN '' @ channel)) nobody m, True)"
    by (intro transmit_lines_all channel_lines_sendable assms mask_line_ends) simp
  moreover have "transmit_lines sent False m (user_lines channel (irc_nick s) m) = Inr (user_lines channel (irc_nick s) m, True)"
    by (intro transmit_lines_all user_lines_sendable assms) simp
  ultimately show ?case using Cons topic_sendable [OF assms(2)] by (auto simp: transmit_sendable)
qed auto

lemma part_loop_defined:
  assumes "irc_ok m"
  shows "\<exists>out. part_loop sent s cs m = Inr out"
proof (induction cs)
  case (Cons channel cs)
  have "transmit_lines sent False m (channel_lines channel (mask_line s (''PART '' @ channel)) (irc_nick s) m) =
      Inr (channel_lines channel (mask_line s (''PART '' @ channel)) (irc_nick s) m, True)"
    by (intro transmit_lines_all channel_lines_sendable assms mask_line_ends) simp
  moreover have "transmit_lines sent False m (user_lines channel nobody m) = Inr (user_lines channel nobody m, True)"
    by (intro transmit_lines_all user_lines_sendable assms) simp
  ultimately show ?case using Cons by auto
qed simp

section \<open>Every command keeps the table\<close>

lemma irc_fields [simp]:
  "owner (upd_isd sid f m) = owner m" "owner (upd_thread sid g m) = owner m"
  "nick_of (upd_thread sid g m) = nick_of m" "ended (upd_isd sid f m) = ended m"
  "nicknames (upd_isd sid f m) = nicknames m" "nicknames (upd_thread sid g m) = nicknames m"
  "irc_threads (upd_isd sid f m) = irc_threads m" "isds (upd_thread sid g m) = isds m"
  "owner (m\<lparr>topicnames := ts\<rparr>) = owner m" "nick_of (m\<lparr>topicnames := ts\<rparr>) = nick_of m" "ended (m\<lparr>topicnames := ts\<rparr>) = ended m"
  "nick_of (m\<lparr>nicknames := ns\<rparr>) = nick_of m" "ended (m\<lparr>nicknames := ns\<rparr>) = ended m"
  by (simp_all add: fun_eq_iff owner_def nick_of_def ended_def upd_isd_def upd_thread_def)

lemma irc_threads_upd [simp]: "irc_threads (upd_thread sid g m) = (irc_threads m)(sid := g (irc_threads m sid))"
  by (simp add: upd_thread_def)

lemma ended_upd: "ended (upd_thread sid g m) x = (if x = sid then irc_ended (g (irc_threads m sid)) else ended m x)"
  by (simp add: ended_def)

lemma nick_of_upd: "nick_of (upd_isd sid f m) x = (if x = sid then map_option (irc_nick \<circ> f) (isds m sid) else nick_of m x)"
  by (simp add: nick_of_def upd_isd_def option.map_comp comp_def)

lemma nick_of_keeps [simp]: "(\<And>s. irc_nick (f s) = irc_nick s) \<Longrightarrow> nick_of (upd_isd sid f m) = nick_of m"
  by (simp add: nick_of_upd fun_eq_iff comp_def) (simp add: nick_of_def)

lemma irc_ok_upd:
  "irc_ok m \<Longrightarrow> (\<And>s. irc_nick (f s) = irc_nick s) \<Longrightarrow> irc_ok (upd_isd sid f m)"
  "irc_ok m \<Longrightarrow> (\<And>t. irc_ended (g t) = irc_ended t \<and> seen_nick (g t) = seen_nick t) \<Longrightarrow> irc_ok (upd_thread sid g m)"
  "irc_ok m \<Longrightarrow> irc_ok (m\<lparr>topicnames := ts\<rparr>)"
  by (frule irc_okD(1), erule irc_ok_cong; auto simp: ended_upd ended_def)+

text \<open>What a person did not have to do with its name or session.\<close>

lemma upd_person_ok:
  assumes ok: "irc_ok m" and "upd_person nick f m = Inr m'" and keep: "\<And>p. tcp_session (f p) = tcp_session p"
  shows "irc_ok m' \<and> isds m' = isds m \<and> irc_threads m' = irc_threads m"
proof -
  from assms(2) obtain p where p: "map_of (nicknames m) nick = Some p"
    and m': "m' = m\<lparr>nicknames := map_modify nick (f p) (nicknames m)\<rparr>"
    by (auto simp: upd_person_def split: option.splits)
  have "owner m' = owner m" using p by (auto simp: fun_eq_iff owner_def m' map_of_modify keep)
  then have "irc_ok m'"
    using irc_okD(1) [OF ok] by (intro irc_ok_cong [OF ok]) (auto simp: m')
  then show ?thesis by (simp add: m')
qed

text \<open>
  The result of a command: it is defined, the table is right afterwards, and no session or thread
  came or went.
\<close>

definition good_result :: "irc \<Rightarrow> irc_result \<Rightarrow> bool" where
  "good_result m r \<longleftrightarrow> (\<exists>out ok m'. r = Inr (out, ok, m') \<and> irc_ok m' \<and> dom (isds m') = dom (isds m) \<and> ended m' = ended m)"

lemma good_resultI: "r = Inr (out, ok, m') \<Longrightarrow> irc_ok m' \<Longrightarrow> dom (isds m') = dom (isds m) \<Longrightarrow> ended m' = ended m \<Longrightarrow> good_result m r"
  by (auto simp: good_result_def)

lemma good_sends:
  assumes "irc_ok m'" "dom (isds m') = dom (isds m)" "ended m' = ended m" "\<forall>l \<in> set ls. sendable m'' l"
  shows "good_result m (rbind (transmit_lines sent stop m'' ls) (\<lambda>(out, ok). Inr (out, ok, m')))"
    and "good_result m (rbind (transmit_lines sent stop m'' ls) (\<lambda>(out, ok). Inr (out, True, m')))"
  using transmit_lines_defined [OF assms(4), of sent stop] assms(1-3) by (auto simp: good_result_def)

lemma dom_isds [simp]: "dom (isds (upd_isd sid f m)) = dom (isds m)"
  by (auto simp: upd_isd_def split: if_splits)

lemma some_nick_of: "isds m sid = Some s \<Longrightarrow> nick_of m sid = Some (irc_nick s)"
  by (simp add: nick_of_def)

definition renames_sent :: "(irc_line \<Rightarrow> bool) \<Rightarrow> bool" where
  "renames_sent sent \<longleftrightarrow> (\<forall>sid old new. sent (sid, nick_line old new))"

lemma named_fields [simp]:
  "nicknames (named sid new m) = nicknames m" "owner (named sid new m) = owner m" "dom (isds (named sid new m)) = dom (isds m)"
  "ended (named sid new m) = ended m"
  "x \<noteq> sid \<Longrightarrow> irc_threads (named sid new m) x = irc_threads m x"
  by (simp_all add: named_def fun_eq_iff ended_def)

lemma nick_of_named: "nick_of m sid \<noteq> None \<Longrightarrow> nick_of (named sid new m) = (nick_of m)(sid \<mapsto> new)"
  by (auto simp: named_def upd_isd_def upd_thread_def fun_eq_iff nick_of_def)

lemma named_ok:
  assumes ok: "irc_ok m" and nick: "nick_of m sid = Some old" "\<not> ended m sid" and new: "new \<noteq> []" "owner m new = None"
    and p: "tcp_session p = sid"
  shows "irc_ok (named sid new (m\<lparr>nicknames := map_insert new p (map_erase old (nicknames m))\<rparr>))"
proof (rule irc_ok_rename [OF ok nick new])
  have "map_of (nicknames m) new = None" using new by (simp add: owner_def)
  then show "owner (named sid new (m\<lparr>nicknames := map_insert new p (map_erase old (nicknames m))\<rparr>)) = (owner m)(old := None, new \<mapsto> sid)"
    using p map_ok_erase [OF irc_okD(1) [OF ok]] by (auto simp: owner_def fun_eq_iff map_of_insert map_of_erase)
qed (use irc_okD(1) [OF ok] nick in \<open>auto simp: nick_of_named\<close>)

lemma nick_lines_sendable:
  assumes ok: "irc_ok m" and p: "map_of (nicknames m) old = Some p" and m1: "m1 = m\<lparr>nicknames := map_insert new p (map_erase old (nicknames m))\<rparr>"
  shows "\<forall>l \<in> set (map (\<lambda>(n, p). (tcp_session p, nick_line old new)) (nicknames m1)). sendable m1 l"
proof
  fix l assume "l \<in> set (map (\<lambda>(n, p). (tcp_session p, nick_line old new)) (nicknames m1))"
  then obtain n q where q: "(n, q) \<in> set (nicknames m1)" "l = (tcp_session q, nick_line old new)" by auto
  then have "(n, q) \<in> set (nicknames m) \<or> q = p" by (auto simp: m1 dest!: set_map_insertD set_map_eraseD)
  with person_of_table [OF ok] map_of_SomeD [OF p] have "nick_of m1 (tcp_session q) \<noteq> None" by (auto simp: m1)
  then show "sendable m1 l" unfolding q(2) nick_line_def by (intro own_sendable line_ends)
qed

lemma in_use_sendable:
  "nick_of m sid \<noteq> None \<Longrightarrow> \<forall>l \<in> set [(sid, '': 433 * '' @ n @ '' :Nickname is already in use.'' @ crlf)]. sendable m l"
  unfolding list.set ball_simps by (intro conjI TrueI own_sendable line_ends)

lemma on_nick_defined:
  assumes ok: "irc_ok m" and nick: "nick_of m sid \<noteq> None"
  shows "\<not> isl (on_nick sent sid old name m)"
proof (cases "map_of (nicknames m) (str_tolower name)")
  case None
  show ?thesis
  proof (cases "map_of (nicknames m) old")
    case (Some p)
    define m1 where "m1 = m\<lparr>nicknames := map_insert (str_tolower name) p (map_erase old (nicknames m))\<rparr>"
    obtain out b where
      "transmit_lines sent True m1 (map (\<lambda>(n, p). (tcp_session p, nick_line old (str_tolower name))) (nicknames m1)) = Inr (out, b)"
      using transmit_lines_defined [OF nick_lines_sendable [OF ok Some m1_def]] by blast
    with Some None show ?thesis by (cases b) (auto simp: on_nick_def Let_def m1_def [symmetric])
  qed (use None in \<open>simp add: on_nick_def Let_def\<close>)
next
  case (Some p)
  with transmit_lines_defined [OF in_use_sendable [OF nick], of sent True "str_tolower name"] show ?thesis
    by (auto simp: on_nick_def Let_def simp del: transmit_lines.simps)
qed

lemma on_nick_good:
  assumes ok: "irc_ok m" and nick: "nick_of m sid = Some old" "\<not> ended m sid" and name: "name \<noteq> []" and sent: "renames_sent sent"
  shows "good_result m (on_nick sent sid old name m)"
proof (cases "map_of (nicknames m) (str_tolower name)")
  case None
  let ?new = "str_tolower name"
  have new: "?new \<noteq> []" "owner m ?new = None" using name None by (auto simp: str_tolower_def owner_def)
  show ?thesis
  proof (cases "map_of (nicknames m) old")
    case None
    then have "map_erase old (nicknames m) = nicknames m"
      by (force simp: map_erase_def filter_id_conv map_of_eq_None_iff)
    with named_ok [OF ok nick new, of "\<lparr>real_name = [], channels = [], tcp_session = sid\<rparr>"] None \<open>map_of (nicknames m) ?new = None\<close>
    show ?thesis
      by (intro good_resultI [where m' = "named sid ?new (m\<lparr>nicknames := map_insert ?new \<lparr>real_name = [], channels = [], tcp_session = sid\<rparr> (nicknames m)\<rparr>)"])
        (simp_all add: on_nick_def Let_def)
  next
    case (Some p)
    define m1 where "m1 = m\<lparr>nicknames := map_insert ?new p (map_erase old (nicknames m))\<rparr>"
    have p: "tcp_session p = sid"
      using Some nick irc_okD(2) [OF ok, of old "tcp_session p"] irc_okD(2) [OF ok, of old sid] by (simp add: owner_def)
    have named: "irc_ok (named sid ?new m1)" unfolding m1_def by (rule named_ok [OF ok nick new p])
    note nick_lines_sendable [OF ok Some m1_def]
    then have "transmit_lines sent True m1 (map (\<lambda>(n, p). (tcp_session p, nick_line old ?new)) (nicknames m1)) =
        Inr (map (\<lambda>(n, p). (tcp_session p, nick_line old ?new)) (nicknames m1), True)"
      by (intro transmit_lines_all) (use sent in \<open>auto simp: renames_sent_def\<close>)
    with named Some None show ?thesis
      by (intro good_resultI [where m' = "named sid ?new m1"])
        (simp_all add: on_nick_def Let_def m1_def [symmetric], simp_all add: m1_def)
  qed
next
  case (Some p)
  from good_sends(1) [OF ok refl refl in_use_sendable] nick Some show ?thesis
    by (simp only: on_nick_def Let_def option.distinct simp_thms if_False)
qed

lemma on_user_good:
  assumes ok: "irc_ok m" and nick: "nick_of m sid \<noteq> None"
  shows "good_result m (on_user sent sid nick username line m)"
proof (cases "map_of (nicknames m) nick")
  case None
  have "\<forall>l \<in> set [(sid, '': 401 * :What is your nick?'' @ crlf)]. sendable m l"
    unfolding list.set ball_simps using nick by (intro conjI TrueI own_sendable line_ends)
  with good_sends(1) [OF ok refl refl this] None show ?thesis by (simp only: on_user_def simp_thms if_True)
next
  case (Some p)
  then obtain m1 where m1: "upd_person nick (\<lambda>p. p\<lparr>real_name := after_colon line\<rparr>) m = Inr m1"
    by (simp add: upd_person_def)
  have k: "irc_ok m1 \<and> isds m1 = isds m \<and> irc_threads m1 = irc_threads m"
    by (rule upd_person_ok [OF ok m1]) simp
  define m2 where "m2 = upd_thread sid (\<lambda>t. t\<lparr>seen_user := True\<rparr>) (upd_isd sid (\<lambda>s. s\<lparr>irc_username := username\<rparr>) m1)"
  have m2: "irc_ok m2" "dom (isds m2) = dom (isds m)" "ended m2 = ended m" "nick_of m2 sid \<noteq> None"
  proof -
    show "ended m2 = ended m" using k by (simp add: m2_def fun_eq_iff ended_def)
  qed (use k nick in \<open>simp_all add: m2_def irc_ok_upd nick_of_def\<close>)
  have "suffix crlf t" if "t \<in> set (welcome_lines nick a b)" for t a b
    using that unfolding welcome_lines_def list.set by (elim insertE emptyE) (hypsubst, intro line_ends)+
  then have "\<forall>l \<in> set (map (\<lambda>l. (sid, l)) (welcome_lines nick a b)). sendable m2 l" for a b
    using m2(4) by (auto intro: own_sendable)
  from good_sends(1) [OF m2(1-3) this] m1 Some show ?thesis
    by (simp only: on_user_def Let_def m2_def option.distinct simp_thms if_False rbind_simps)
qed

lemma own_entry:
  "irc_ok m \<Longrightarrow> isds m sid = Some s \<Longrightarrow> \<not> ended m sid \<Longrightarrow> seen_nick (irc_threads m sid) \<Longrightarrow>
   \<exists>p. map_of (nicknames m) (irc_nick s) = Some p \<and> tcp_session p = sid"
  using irc_okD(2) [of m "irc_nick s" sid] irc_okD(3) [of m sid] by (auto simp: owner_def nick_of_def)

lemma upd_own_entry:
  assumes "irc_ok m" "isds m sid = Some s" "\<not> ended m sid" "seen_nick (irc_threads m sid)" "\<And>p. tcp_session (f p) = tcp_session p"
  obtains m1 where "upd_person (irc_nick s) f m = Inr m1" "irc_ok m1" "isds m1 = isds m" "irc_threads m1 = irc_threads m"
proof -
  from own_entry [OF assms(1-4)] obtain m1 where "upd_person (irc_nick s) f m = Inr m1" by (auto simp: upd_person_def)
  with upd_person_ok [OF assms(1) this assms(5)] that show thesis by blast
qed

lemma on_join_good:
  assumes "irc_ok m" "isds m sid = Some s" "\<not> ended m sid" "seen_nick (irc_threads m sid)"
  shows "good_result m (on_join sent sid s arg m)"
proof -
  let ?f = "\<lambda>p. p\<lparr>channels := fold (\<lambda>c. insort_insert (str_tolower c)) (split_loop '','' arg) (channels p)\<rparr>"
  obtain m1 where m1: "upd_person (irc_nick s) ?f m = Inr m1" "irc_ok m1" "isds m1 = isds m" "irc_threads m1 = irc_threads m"
    by (rule upd_own_entry [OF assms, of ?f]) simp_all
  moreover obtain out ok where "join_loop sent sid s (split_loop '','' arg) m1 = Inr (out, ok)"
    using join_loop_defined [OF m1(2), of sid sent s "split_loop '','' arg"] m1(3) assms(2) by (auto simp: nick_of_def)
  ultimately show ?thesis
    by (intro good_resultI [of _ out ok m1]) (auto simp: on_join_def Let_def ended_def fun_eq_iff)
qed

lemma on_part_good:
  assumes "irc_ok m" "isds m sid = Some s" "\<not> ended m sid" "seen_nick (irc_threads m sid)"
  shows "good_result m (on_part sent s arg m)"
proof -
  let ?f = "\<lambda>p. p\<lparr>channels := fold (\<lambda>c. removeAll (str_tolower c)) (split_loop '','' arg) (channels p)\<rparr>"
  obtain m1 where m1: "upd_person (irc_nick s) ?f m = Inr m1" "irc_ok m1" "isds m1 = isds m" "irc_threads m1 = irc_threads m"
    by (rule upd_own_entry [OF assms, of ?f]) simp_all
  moreover obtain out where "part_loop sent s (split_loop '','' arg) m1 = Inr out"
    using part_loop_defined [OF m1(2)] by blast
  ultimately show ?thesis
    by (intro good_resultI [of _ out True m1]) (auto simp: on_part_def Let_def ended_def fun_eq_iff)
qed

lemma on_privmsg_good: "irc_ok m \<Longrightarrow> good_result m (on_privmsg sent s target line m)"
  unfolding on_privmsg_def by (intro good_sends(2) channel_lines_sendable mask_line_ends refl)

lemma on_ping_good: "irc_ok m \<Longrightarrow> nick_of m sid \<noteq> None \<Longrightarrow> good_result m (on_ping sent sid line m)"
  unfolding on_ping_def by (intro good_sends(1) refl) (assumption, simp only: list.set ball_simps, intro conjI TrueI own_sendable line_ends)

lemma on_topic_good:
  assumes "irc_ok m" "nick_of m sid \<noteq> None"
  shows "good_result m (on_topic sent sid channel line m)"
proof -
  define m1 where "m1 = m\<lparr>topicnames := (topicnames m)(channel \<mapsto> after_colon line)\<rparr>"
  have "irc_ok m1" "dom (isds m1) = dom (isds m)" "ended m1 = ended m" "\<forall>l \<in> set [topic_line sid channel m1]. sendable m1 l"
    using assms topic_sendable [of m1 sid channel] by (auto simp: m1_def irc_ok_upd)
  from good_sends(1) [OF this] show ?thesis by (simp only: on_topic_def Let_def m1_def)
qed

lemma on_list_good:
  assumes "irc_ok m" "nick_of m sid \<noteq> None"
  shows "good_result m (on_list sent sid nick m)"
proof -
  have "suffix crlf l"
    if "l \<in> set ([ '':'' @ local_host m @ '' 321 '' @ nick @ '' Channel :Users Name'' @ crlf] @
        map (\<lambda>(ch, k). '':'' @ local_host m @ '' 322 '' @ nick @ '' '' @ ch @ '' '' @ fmt_d k @ '' :[+nt] '' @ get_topic m ch @ crlf)
          (get_channel_list m) @
        ['':'' @ local_host m @ '' 323 '' @ nick @ '' :End of channel list.'' @ crlf])" for l
    using that unfolding set_append list.set set_map case_prod_beta
    by (elim UnE insertE emptyE imageE) (hypsubst, intro line_ends)+
  then show ?thesis unfolding on_list_def using assms
    by (intro good_sends(1) refl) (auto intro!: own_sendable)
qed

definition empty_nick :: "string \<Rightarrow> bool" where
  "empty_nick line \<longleftrightarrow> (let parts = split_loop '' '' line in 2 \<le> length parts \<and> parts ! 0 = ''NICK'' \<and> parts ! 1 = [])"

lemma process_line_good:
  assumes ok: "irc_ok m" and s: "isds m sid = Some s" "\<not> ended m sid" and line: "\<not> empty_nick line" and sent: "renames_sent sent"
  shows "good_result m (process_line sent sid line m)"
proof -
  have stay: "good_result m (Inr ([], b, m))" for b using ok by (simp add: good_result_def)
  have n: "nick_of m sid \<noteq> None" "nick_of m sid = Some (irc_nick s)" using s by (auto simp: nick_of_def)
  have nick: "good_result m (on_nick sent sid (irc_nick s) (split_loop '' '' line ! 1) m)"
    if "split_loop '' '' line ! 0 = ''NICK'' \<and> 2 \<le> length (split_loop '' '' line)"
    using that line by (intro on_nick_good [OF ok n(2) s(2) _ sent]) (auto simp: empty_nick_def Let_def)
  show ?thesis
    unfolding process_line_def s(1) option.case Let_def
    using stay nick on_user_good [OF ok n(1)] on_join_good [OF ok s] on_part_good [OF ok s] on_privmsg_good [OF ok]
      on_ping_good [OF ok n(1)] on_topic_good [OF ok n(1)] on_list_good [OF ok n(1)]
    by simp
qed

lemma good_result_defined: "good_result m r \<Longrightarrow> \<not> isl r"
  by (auto simp: good_result_def)

lemma process_line_defined:
  assumes ok: "irc_ok m" and s: "isds m sid = Some s" "\<not> ended m sid"
  shows "\<not> isl (process_line sent sid line m)"
proof -
  have n: "nick_of m sid \<noteq> None" using s by (simp add: nick_of_def)
  show ?thesis
    unfolding process_line_def s(1) option.case Let_def
    using on_nick_defined [OF ok n] on_user_good [OF ok n, THEN good_result_defined]
      on_join_good [OF ok s, THEN good_result_defined] on_part_good [OF ok s, THEN good_result_defined]
      on_privmsg_good [OF ok, THEN good_result_defined] on_ping_good [OF ok n, THEN good_result_defined]
      on_topic_good [OF ok n, THEN good_result_defined] on_list_good [OF ok n, THEN good_result_defined]
    by simp
qed

section \<open>Every step keeps the table\<close>

lemma irc_end_ok:
  assumes ok: "irc_ok m" and s: "isds m sid = Some s" "\<not> ended m sid"
  shows "irc_ok (snd (irc_end sid m))"
proof (rule irc_ok_leave [OF ok some_nick_of [OF s(1)] s(2)])
  show "owner (snd (irc_end sid m)) = (owner m)(irc_nick s := None)"
    using s by (auto simp: irc_end_def fun_eq_iff owner_def map_of_erase)
qed (use s irc_okD(1) [OF ok] in \<open>auto simp: irc_end_def ended_upd\<close>)

lemma irc_idle_good:
  assumes ok: "irc_ok m" and s: "isds m sid = Some s"
  shows "good_result m (irc_idle sent now sid m)"
proof -
  define m1 where "m1 = (if 5000 < now - last_ping (irc_threads m sid) then upd_thread sid (\<lambda>t. t\<lparr>last_ping := now\<rparr>) m else m)"
  have m1: "irc_ok m1" "dom (isds m1) = dom (isds m)" "ended m1 = ended m" "nick_of m1 sid \<noteq> None"
    using ok s irc_ok_upd(2) [OF ok, of "\<lambda>t. t\<lparr>last_ping := now\<rparr>" sid]
    by (auto simp: m1_def nick_of_def fun_eq_iff ended_def)
  have "sendable m1 (sid, ''PING :'' @ local_host m @ crlf)" using m1(4) by (intro own_sendable line_ends)
  then have l: "\<forall>l \<in> set (if 5000 < now - last_ping (irc_threads m sid) then [(sid, ''PING :'' @ local_host m @ crlf)] else []). sendable m1 l"
    by simp
  from transmit_lines_defined [OF l, of sent True] obtain out b where
    "transmit_lines sent True m1 (if 5000 < now - last_ping (irc_threads m sid) then [(sid, ''PING :'' @ local_host m @ crlf)] else []) = Inr (out, b)"
    by blast
  then have "irc_idle sent now sid m = Inr (out, b \<and> \<not> 16000 < now - last_msg (irc_threads m sid), m1)"
    by (cases b) (simp_all only: irc_idle_def Let_def m1_def [symmetric] rbind_simps prod.case, simp_all)
  with m1 show ?thesis by (auto simp: good_result_def)
qed

text \<open>A line taken from the input leaves the rest as it was.\<close>

lemma take_line_ok:
  assumes "irc_ok m" "isds m sid = Some s" "\<not> ended m sid"
  obtains s' where "irc_ok (take_line sid k m)" "isds (take_line sid k m) sid = Some s'" "\<not> ended (take_line sid k m) sid"
  using assms irc_ok_upd(1) [of m "\<lambda>s. s\<lparr>irc_input := drop (k + 2) (irc_input s)\<rparr>" sid]
  by (auto simp: take_line_def upd_isd_def ended_def)

lemma take_line_fields [simp]: "dom (isds (take_line sid k m)) = dom (isds m)" "ended (take_line sid k m) = ended m"
  by (simp_all add: take_line_def)

lemma irc_thread_step_defined:
  assumes ok: "irc_ok m" and s: "isds m sid = Some s"
  shows "\<exists>out m'. irc_thread_step sent now sid m = Inr (out, m')"
proof (cases "irc_ended (irc_threads m sid) \<or> irc_terminate s")
  case False
  then have e: "\<not> ended m sid" by (simp add: ended_def)
  show ?thesis
  proof (cases "str_find crlf (irc_input s)")
    case None
    obtain out b m2 where "irc_idle sent now sid m = Inr (out, b, m2)"
      using irc_idle_good [OF ok s, of sent now] by (auto simp: good_result_def)
    with None s False show ?thesis
      by (cases b; cases "irc_end sid m2") (simp_all add: irc_thread_step_def Let_def)
  next
    case (Some k)
    have "\<not> isl (process_line sent sid (take k (irc_input s)) (take_line sid k m))"
      by (rule take_line_ok [OF ok s e, of k]) (rule process_line_defined)
    then obtain out b m2 where "process_line sent sid (take k (irc_input s)) (take_line sid k m) = Inr (out, b, m2)"
      by (cases "process_line sent sid (take k (irc_input s)) (take_line sid k m)") auto
    with Some s False show ?thesis
      by (cases b; cases "irc_end sid m2") (simp_all add: irc_thread_step_def Let_def)
  qed
qed (use s in \<open>auto simp: irc_thread_step_def irc_end_def Let_def\<close>)

lemma irc_thread_step_ok:
  assumes ok: "irc_ok m" and step: "irc_thread_step sent now sid m = Inr (out, m')"
    and lines: "\<forall>line. Line sid line \<in> set out \<longrightarrow> \<not> empty_nick line" and sent: "renames_sent sent"
  shows "irc_ok m'"
proof -
  obtain s where s: "isds m sid = Some s" using step by (auto simp: irc_thread_step_def split: option.splits)
  have leave: "irc_ok (snd (irc_end sid m2))" if good: "irc_ok m2" "dom (isds m2) = dom (isds m)" "ended m2 = ended m" "\<not> ended m sid" for m2
  proof -
    obtain s2 where "isds m2 sid = Some s2" using s good(2) domIff [of sid "isds m2"] domIff [of sid "isds m"] by auto
    with irc_end_ok [OF good(1)] good show ?thesis by simp
  qed
  consider "irc_ended (irc_threads m sid)" | "\<not> ended m sid" "irc_terminate s"
    | "\<not> ended m sid" "\<not> irc_terminate s" "str_find crlf (irc_input s) = None"
    | k where "\<not> ended m sid" "\<not> irc_terminate s" "str_find crlf (irc_input s) = Some k"
    by (cases "str_find crlf (irc_input s)") (auto simp: ended_def)
  then show ?thesis
  proof cases
    case 1
    with ok step s show ?thesis by (simp add: irc_thread_step_def)
  next
    case 2
    with step s irc_end_ok [OF ok s 2(1)] show ?thesis by (auto simp: irc_thread_step_def ended_def)
  next
    case 3
    obtain o2 b m2 where m2: "irc_idle sent now sid m = Inr (o2, b, m2)" "irc_ok m2" "dom (isds m2) = dom (isds m)" "ended m2 = ended m"
      using irc_idle_good [OF ok s, of sent now] by (auto simp: good_result_def)
    with 3 step s leave [OF m2(2-4) 3(1)] show ?thesis
      by (cases b; cases "irc_end sid m2") (simp_all add: irc_thread_step_def Let_def ended_def)
  next
    case (4 k)
    let ?line = "take k (irc_input s)"
    obtain o2 b m2 where m2: "process_line sent sid ?line (take_line sid k m) = Inr (o2, b, m2)"
      using step s 4 by (auto simp: irc_thread_step_def Let_def ended_def)
    then have "Line sid ?line \<in> set out"
      using step s 4 by (cases b; cases "irc_end sid m2") (auto simp: irc_thread_step_def Let_def ended_def)
    with lines have l: "\<not> empty_nick ?line" by blast
    have "good_result (take_line sid k m) (process_line sent sid ?line (take_line sid k m))"
      by (rule take_line_ok [OF ok s 4(1), of k]) (rule process_line_good [OF _ _ _ l sent])
    with m2 have g: "irc_ok m2" "dom (isds m2) = dom (isds m)" "ended m2 = ended m" by (auto simp: good_result_def)
    have "irc_ok (upd_thread sid (\<lambda>t. t\<lparr>last_msg := now\<rparr>) m2)" using g(1) by (intro irc_ok_upd) simp_all
    with m2 g 4 step s leave [OF g 4(1)] show ?thesis
      by (cases b; cases "irc_end sid m2") (auto simp: irc_thread_step_def Let_def ended_def)
  qed
qed

definition clean :: "irc_out list \<Rightarrow> bool" where
  "clean tr \<longleftrightarrow> (\<forall>sid line. Line sid line \<in> set tr \<longrightarrow> \<not> empty_nick line)"

lemma irc_new_session_ok:
  assumes ok: "irc_ok m" and "isds m sid = None"
  shows "irc_ok (irc_new_session now sid a m)"
proof -
  let ?m = "irc_new_session now sid a m"
  have f: "owner ?m = owner m" "nick_of ?m = (nick_of m)(sid \<mapsto> [])" "nicknames ?m = nicknames m"
    "ended ?m x = (x \<noteq> sid \<and> ended m x)" "seen_nick (irc_threads ?m x) = (x \<noteq> sid \<and> seen_nick (irc_threads m x))" for x
    by (auto simp: irc_new_session_def irc_thread_new_def owner_def nick_of_def ended_def fun_eq_iff)
  have "nick_of m sid = None" using assms(2) by (simp add: nick_of_def)
  with ok show ?thesis unfolding irc_ok_def f by auto
qed

lemma irc_delete_ok:
  assumes ok: "irc_ok m" and "irc_ended (irc_threads m sid)"
  shows "irc_ok (irc_delete sid m)"
proof -
  let ?m = "irc_delete sid m"
  have f: "owner ?m = owner m" "nick_of ?m = (nick_of m)(sid := None)" "nicknames ?m = nicknames m" "ended ?m = ended m" "irc_threads ?m = irc_threads m"
    by (auto simp: irc_delete_def owner_def nick_of_def ended_def fun_eq_iff)
  have "ended m sid" using assms(2) by (simp add: ended_def)
  with ok show ?thesis unfolding irc_ok_def f by auto
qed

lemma irc_step_ok:
  assumes "irc_step sent m out m'" "irc_ok m" "clean out" "renames_sent sent"
  shows "irc_ok m'"
  using assms
proof cases
  case (irc_step_thread sid now)
  with assms irc_thread_step_ok [OF assms(2) irc_step_thread(2)] show ?thesis by (auto simp: clean_def)
qed (use assms irc_ok_upd(1) in \<open>auto simp: irc_new_session_ok irc_delete_ok irc_new_data_def irc_close_session_2_def\<close>)

lemma irc_run_ok: "irc_run sent m tr m' \<Longrightarrow> irc_ok m \<Longrightarrow> clean tr \<Longrightarrow> renames_sent sent \<Longrightarrow> irc_ok m'"
  by (induction rule: irc_run.induct) (auto simp: clean_def intro: irc_step_ok)

section \<open>The server is safe, and messages arrive\<close>

text \<open>
  C16. However sessions come and go, whatever the clients send and whenever the threads run: as long as nobody asks for an
  empty nick and the notices of a new nick can be sent, every thread can take its next step, so it uses no
  session that is gone and no entry that is not there.  The table then has an entry for exactly the sessions that have a
  nick and whose thread runs, under that nick.
\<close>

theorem irc_safe:
  assumes "irc_run sent (irc_new host) tr m" and "renames_sent sent" and "clean tr"
  shows "(\<forall>sid now. isds m sid \<noteq> None \<longrightarrow> (\<exists>out m'. irc_thread_step sent now sid m = Inr (out, m'))) \<and>
    (\<forall>n sid. owner m n = Some sid \<longleftrightarrow> n \<noteq> [] \<and> nick_of m sid = Some n \<and> \<not> ended m sid)"
proof -
  have ok: "irc_ok m" by (rule irc_run_ok [OF assms(1) irc_ok_new assms(3,2)])
  show ?thesis using irc_thread_step_defined [OF ok] irc_okD(2) [OF ok] by blast
qed

lemma members_once:
  assumes ok: "irc_ok m"
  shows "distinct (map (\<lambda>(n, p). tcp_session p) (nicknames m))"
proof -
  have inj: "inj_on (\<lambda>(n, p). tcp_session p) (set (nicknames m))"
  proof (rule inj_onI, clarify)
    fix n p n' p'
    assume "(n, p) \<in> set (nicknames m)" "(n', p') \<in> set (nicknames m)" "tcp_session p = tcp_session p'"
    then show "n = n' \<and> p = p'"
      using person_of_table [OF ok, of n p] person_of_table [OF ok, of n' p'] map_ok_distinct [OF irc_okD(1) [OF ok]]
      by (auto dest: eq_key_imp_eq_value)
  qed
  have "distinct (nicknames m)" using map_ok_distinct [OF irc_okD(1) [OF ok]] by (simp add: distinct_map)
  with inj show ?thesis by (simp add: distinct_map)
qed

text \<open>
  The sessions a message for a target goes to: the members of the channel, or the user of that
  name, and not the session it came from.
\<close>

definition recipients :: "irc \<Rightarrow> string \<Rightarrow> nat \<Rightarrow> nat set" where
  "recipients m target sid =
     {x. x \<noteq> sid \<and> (\<exists>n p. map_of (nicknames m) n = Some p \<and> tcp_session p = x \<and> (target \<in> set (channels p) \<or> target = n))}"

lemma channel_lines_recipients:
  assumes ok: "irc_ok m" and s: "isds m sid = Some s" "\<not> ended m sid" "seen_nick (irc_threads m sid)"
  shows "set (map fst (channel_lines target t (irc_nick s) m)) = recipients m target sid \<and>
    distinct (map fst (channel_lines target t (irc_nick s) m))"
proof -
  obtain q where q: "map_of (nicknames m) (irc_nick s) = Some q" "tcp_session q = sid" using own_entry [OF ok s] by blast
  have d: "distinct (map fst (nicknames m))" by (rule map_ok_distinct [OF irc_okD(1) [OF ok]])
  have me: "n = irc_nick s \<longleftrightarrow> tcp_session p = sid" if "map_of (nicknames m) n = Some p" for n p
    using that q person_of_table [OF ok map_of_SomeD [OF that]] person_of_table [OF ok map_of_SomeD [OF q(1)]] by auto
  have m: "map fst (channel_lines target t (irc_nick s) m) =
      map (\<lambda>(n, p). tcp_session p) (filter (\<lambda>(n, p). n \<noteq> irc_nick s \<and> (target \<in> set (channels p) \<or> target = n)) (nicknames m))"
    by (simp add: channel_lines_def comp_def case_prod_beta)
  have "distinct (map fst (channel_lines target t (irc_nick s) m))" 
    unfolding m by (rule distinct_map_filter [OF members_once [OF ok]])
  moreover have "set (map fst (channel_lines target t (irc_nick s) m)) = recipients m target sid"
    unfolding m recipients_def using me d by (force simp: map_of_eq_Some_iff)
  ultimately show ?thesis by simp
qed

text \<open>
  C17. Provided nobody has asked for an empty nick and every notice of a new nick could be sent so far: a message or notice of a user is
  sent, whichever of its own transmissions fail, to each other member of the channel, or to the user it is for, exactly
  once and with the mask of the sender in front of the line as it came, and to nobody else, the sender included; the session
  goes on and the state is unchanged.
\<close>

theorem irc_message_delivered:
  assumes "irc_run sent (irc_new host) tr m" and "renames_sent sent" and "clean tr"
    and s: "isds m sid = Some s" "\<not> ended m sid" "seen_nick (irc_threads m sid)" "seen_user (irc_threads m sid)"
    and line: "line \<noteq> []" "2 \<le> length (split_loop '' '' line)" "split_loop '' '' line ! 0 = ''PRIVMSG'' \<or> split_loop '' '' line ! 0 = ''NOTICE''"
  shows "\<exists>out. process_line sent sid line m = Inr (out, True, m) \<and>
    distinct (map fst out) \<and> set (map fst out) = recipients m (str_tolower (split_loop '' '' line ! 1)) sid \<and>
    (\<forall>l \<in> set out. snd l = '':'' @ irc_nick s @ ''!'' @ irc_username s @ ''@'' @ irc_client_addr s @ '' '' @ line @ crlf)"
proof -
  let ?out = "channel_lines (str_tolower (split_loop '' '' line ! 1)) (mask_line s line) (irc_nick s) m"
  have ok: "irc_ok m" by (rule irc_run_ok [OF assms(1) irc_ok_new assms(3,2)])
  have "transmit_lines sent False m ?out = Inr (?out, True)"
    by (intro transmit_lines_all channel_lines_sendable ok mask_line_ends) simp
  moreover have "process_line sent sid line m = on_privmsg sent s (split_loop '' '' line ! 1) line m"
    using s line unfolding process_line_def Let_def by auto
  ultimately have "process_line sent sid line m = Inr (?out, True, m)" by (simp add: on_privmsg_def)
  moreover have "\<forall>l \<in> set ?out. snd l = mask_line s line" by (auto simp: channel_lines_def)
  ultimately show ?thesis using channel_lines_recipients [OF ok s(1-3)] unfolding mask_line_def by blast
qed

section \<open>Runs that can be computed\<close>

datatype irc_action = Irc_new "64 word" nat string | Irc_data nat string | Irc_thread "64 word" nat | Irc_close nat | Irc_join nat

fun irc_act :: "(irc_line \<Rightarrow> bool) \<Rightarrow> irc_action \<Rightarrow> irc \<Rightarrow> (irc_out list \<times> irc) res" where
  "irc_act sent (Irc_new now sid a) m = (if isds m sid = None then Inr ([], irc_new_session now sid a m) else Inr ([], m))"
| "irc_act sent (Irc_data sid d) m = Inr ([], irc_new_data sid d m)"
| "irc_act sent (Irc_thread now sid) m = irc_thread_step sent now sid m"
| "irc_act sent (Irc_close sid) m = (if isds m sid = None then Inr ([], m) else Inr ([], irc_close_session_2 sid m))"
| "irc_act sent (Irc_join sid) m = (if isds m sid = None \<or> \<not> irc_ended (irc_threads m sid) then Inr ([], m) else Inr ([], irc_delete sid m))"

fun irc_acts :: "(irc_line \<Rightarrow> bool) \<Rightarrow> irc_action list \<Rightarrow> irc_out list \<Rightarrow> irc \<Rightarrow> (irc_out list \<times> irc) res" where
  "irc_acts sent [] tr m = Inr (tr, m)"
| "irc_acts sent (a # as) tr m = rbind (irc_act sent a m) (\<lambda>(out, m'). irc_acts sent as (tr @ out) m')"

lemma irc_thread_step_isd: "irc_thread_step sent now sid m = Inr r \<Longrightarrow> isds m sid \<noteq> None"
  by (auto simp: irc_thread_step_def split: option.splits)

lemma irc_act_run:
  assumes "irc_act sent a m = Inr (out, m')" "irc_run sent m0 tr m"
  shows "irc_run sent m0 (tr @ out) m'"
proof (cases "irc_step sent m out m'")
  case True
  with assms(2) show ?thesis by (rule irc_run_step)
next
  case False
  with assms(1) have "out = [] \<and> m' = m"
    by (cases a) (auto split: if_splits intro: irc_step.intros dest: irc_thread_step_isd)
  with assms(2) show ?thesis by simp
qed

lemma irc_acts_run: "irc_acts sent as tr m = Inr (tr', m') \<Longrightarrow> irc_run sent m0 tr m \<Longrightarrow> irc_run sent m0 tr' m'"
  by (induction as arbitrary: tr m) (auto dest: irc_act_run)

lemma clean_code [code]: "clean tr \<longleftrightarrow> list_all (\<lambda>e. case e of Line sid line \<Rightarrow> \<not> empty_nick line | _ \<Rightarrow> True) tr"
  by (auto simp: clean_def list_all_iff split: irc_out.splits)

definition example_acts :: "irc_action list" where
  "example_acts = [Irc_new 0 1 ''1.2.3.4'', Irc_data 1 (''NICK A'' @ crlf @ ''USER u x x :A'' @ crlf), Irc_thread 5 1, Irc_thread 6 1,
     Irc_new 10 2 ''1.2.3.5'', Irc_data 2 (''NICK B'' @ crlf), Irc_thread 11 2]"

lemma example_acts_result:
  "case irc_acts (\<lambda>_. True) example_acts [] (irc_new ''h'') of
     Inr (tr, m) \<Rightarrow> clean tr \<and> isds m 1 \<noteq> None \<and> isds m 2 \<noteq> None \<and> \<not> ended m 1 \<and> seen_nick (irc_threads m 1) \<and> seen_user (irc_threads m 1) \<and>
       owner m ''b'' = Some 2
   | Inl e \<Rightarrow> False"
  by code_simp

lemma example_acts_run:
  obtains tr m s where "irc_run (\<lambda>_. True) (irc_new ''h'') tr m" "clean tr" "isds m 1 = Some s" "isds m 2 \<noteq> None" "\<not> ended m 1"
    "seen_nick (irc_threads m 1)" "seen_user (irc_threads m 1)" "owner m ''b'' = Some 2"
proof -
  obtain tr m where r: "irc_acts (\<lambda>_. True) example_acts [] (irc_new ''h'') = Inr (tr, m)"
    using example_acts_result by (cases "irc_acts (\<lambda>_. True) example_acts [] (irc_new ''h'')") auto
  show thesis
    using that [OF irc_acts_run [OF r irc_run_start]] example_acts_result unfolding r by auto
qed

theorem irc_safe_witness:
  "\<exists>tr m out m'. irc_run (\<lambda>_. True) (irc_new ''h'') tr m \<and> isds m 2 \<noteq> None \<and> irc_thread_step (\<lambda>_. True) 20 2 m = Inr (out, m')"
proof (rule example_acts_run)
  fix tr m
  assume "irc_run (\<lambda>_. True) (irc_new ''h'') tr m" "clean tr" "isds m 2 \<noteq> None"
  moreover then obtain out m' where "irc_thread_step (\<lambda>_. True) 20 2 m = Inr (out, m')"
    using irc_safe [of "\<lambda>_. True" "''h''" tr m] unfolding renames_sent_def by blast
  ultimately show ?thesis by blast
qed

theorem irc_message_delivered_witness:
  "\<exists>tr m out. irc_run (\<lambda>_. True) (irc_new ''h'') tr m \<and> process_line (\<lambda>_. True) 1 ''PRIVMSG B hi'' m = Inr (out, True, m) \<and> 2 \<in> set (map fst out)"
proof (rule example_acts_run)
  fix tr m s
  assume a: "irc_run (\<lambda>_. True) (irc_new ''h'') tr m" "clean tr" "isds m 1 = Some s" "\<not> ended m 1" "seen_nick (irc_threads m 1)"
    "seen_user (irc_threads m 1)" "owner m ''b'' = Some 2"
  have split: "split_loop '' '' ''PRIVMSG B hi'' = [''PRIVMSG'', ''B'', ''hi'']" by code_simp
  have "str_tolower ''B'' = ''b''" by code_simp
  then have "2 \<in> recipients m (str_tolower ''B'') 1" using a(7) by (auto simp: recipients_def owner_def)
  moreover have "renames_sent (\<lambda>_. True)" by (simp add: renames_sent_def)
  then obtain out where "process_line (\<lambda>_. True) 1 ''PRIVMSG B hi'' m = Inr (out, True, m)"
    "set (map fst out) = recipients m (str_tolower ''B'') 1"
    using irc_message_delivered [OF a(1) _ a(2-6), of "''PRIVMSG B hi''"] unfolding split by auto
  ultimately show ?thesis using a(1) by blast
qed

text \<open>
  What goes wrong otherwise.  A client that asks for an empty nick shares it with every session
  that has none yet: when such a session ends, the entry is gone and the next JOIN of the client uses an
  entry that is not there.
\<close>

lemma irc_empty_nick_undefined:
  "isl (irc_acts (\<lambda>_. True)
     [Irc_new 0 1 ''1.2.3.4'', Irc_data 1 (''NICK '' @ crlf @ ''USER u x x :A'' @ crlf), Irc_thread 5 1, Irc_thread 6 1,
      Irc_new 10 2 ''1.2.3.5'', Irc_close 2, Irc_thread 11 2, Irc_data 1 (''JOIN c'' @ crlf), Irc_thread 12 1] [] (irc_new ''h''))"
  by code_simp

text \<open>
  When the notice of a new nick cannot be sent, the session ends under its old nick and its entry stays under the
  new one: the next notice goes to a session that is gone.
\<close>

lemma irc_failed_rename_undefined:
  "isl (irc_acts (\<lambda>(sid, l). sid \<noteq> 1)
     [Irc_new 0 1 ''1.2.3.4'', Irc_data 1 (''NICK a'' @ crlf @ ''NICK b'' @ crlf), Irc_thread 5 1, Irc_thread 6 1, Irc_close 1, Irc_join 1,
      Irc_new 10 2 ''1.2.3.5'', Irc_data 2 (''NICK c'' @ crlf @ ''NICK d'' @ crlf), Irc_thread 11 2, Irc_thread 12 2] [] (irc_new ''h''))"
  by code_simp

end
