(* ===== verification/Spec2Isabelle.thy ===== *)
theory Spec2Isabelle
  imports Crc32c Tcp Slip Ppp Kiss Snmp Sctp_Data Mqtt_Stream Mdns Ntp Lldp Vpn Irc
begin

text \<open>
  \<^bold>\<open>MyIP: a TCP/IP stack in user space\<close>

  MyIP reads frames from devices (tap interfaces, serial lines, radio modems), runs its own network stack on
  them and serves applications on top.  Every arrow below is a queue with a thread behind it, a callback or a call:

    \<^item> a device (\<^verbatim>\<open>src/phys*.cpp\<close>) cuts its input into packets and puts each into the queue of the
      network layer registered for its type;
    \<^item> ARP, IPv4 and IPv6 take packets from their queues, check the header and put the payload into the
      queue of a transport layer (ICMP, UDP, TCP, SCTP);
    \<^item> a transport layer finds the session or port handler and calls the application;
    \<^item> what is sent goes down: the transport builds a segment, IP a datagram, the router picks the
      interface, asks the resolver for the link address and calls the device.

  The theories follow these components.  Each models the state of a class as a record, its data as
  datatypes and each method as one function, in the order of the source, and then proves what makes the
  component right.  A call that throws, runs into undefined behaviour or reads outside a block of memory returns an
  error (\<open>'a res\<close> of \<open>Prelude\<close>), so that a theorem with a normal result excludes these.

  \<^bold>\<open>Foundations\<close>

    \<^item> \<open>Prelude\<close>: machine types, errors, big-endian words, the locale \<open>octet_source\<close> (a reader of single octets
      from which the readers of words and blocks and their laws are derived); \<open>Std_Map\<close>: ordered maps.
    \<^item> \<open>Str\<close> (\<^verbatim>\<open>str.cpp\<close>): splitting, lower case, numbers.  Splitting loses nothing.
    \<^item> \<open>Buffer\<close> (\<^verbatim>\<open>buffer_in.cpp\<close>, \<^verbatim>\<open>buffer_out.cpp\<close>): the cursors of all parsers; interprets \<open>octet_source\<close>.  Every
      sequence of reads stays inside its buffer; what is written is read back.  \<open>Reader\<close>: how later proofs use it.
    \<^item> \<open>Hash\<close> (\<^verbatim>\<open>hash.cpp\<close>), \<open>Crc32c\<close> (\<^verbatim>\<open>sctp_crc32c.cpp\<close>): the table driven checksum is the bitwise one.
    \<^item> \<open>Net\<close> (\<^verbatim>\<open>net.cpp\<close>, \<^verbatim>\<open>network_layer.cpp\<close>): the Internet checksum and its pseudo header.
    \<^item> \<open>Any_Addr\<close> (\<^verbatim>\<open>any_addr.cpp\<close>), \<open>Ax25_Address\<close> and \<open>Ax25_Packet\<close> (\<^verbatim>\<open>ax25.cpp\<close>): addresses with their
      order, texts and octets, and packets of amateur radio, with their round trips.
    \<^item> \<open>Fifo\<close> (\<^verbatim>\<open>fifo.h\<close>): the queue between the threads as a state machine of calls that may block.  The locale
      \<open>conserving_queue\<close> states the contract (what goes in comes out, once and in order); \<open>fifo_queue\<close> is its
      interpretation.

  \<^bold>\<open>Link and network layer\<close>

    \<^item> \<open>Address_Cache\<close> (\<^verbatim>\<open>address_cache.cpp\<close>): the table of link addresses; locale \<open>address_store\<close>, interpretation
      \<open>ac\<close>.  \<open>Mac_Resolver\<close> (\<^verbatim>\<open>mac_resolver.cpp\<close>): the waiting thread, its time limit and other
      threads that wait for the same address.  \<open>Arp\<close> (\<^verbatim>\<open>arp.cpp\<close>): two
      hosts that exchange a request and an answer.
    \<^item> \<open>Router\<close> (\<^verbatim>\<open>router.cpp\<close>): the routing table, the best route and the frame that is transmitted.
    \<^item> \<open>Network_Layer\<close> (\<^verbatim>\<open>network_layer.cpp\<close>, \<^verbatim>\<open>transport_layer.cpp\<close>, \<^verbatim>\<open>packet.cpp\<close>): packets, registration, and
      the locale \<open>ip_layer\<close>: what an encoder and a decoder of datagrams promise to a transport.  \<open>Ipv4\<close>
      (\<^verbatim>\<open>ipv4.cpp\<close>) and \<open>Ipv6\<close> (\<^verbatim>\<open>ipv6.cpp\<close>) interpret it as \<open>ip4\<close> and \<open>ip6\<close>.
    \<^item> \<open>Icmp\<close> (\<^verbatim>\<open>icmp.cpp\<close>, \<^verbatim>\<open>icmp4.cpp\<close>, \<^verbatim>\<open>icmp6.cpp\<close>, \<^verbatim>\<open>ndp.cpp\<close>): echo, errors, neighbour discovery.
    \<^item> \<open>Phys\<close> (\<^verbatim>\<open>phys.cpp\<close>): what the devices share, and the locales \<open>framed_line\<close> (a receiver fed with frames
      delivers them in order) and \<open>resync_line\<close> (it does so from any state).  \<open>Slip\<close> (\<^verbatim>\<open>phys_slip.cpp\<close>), \<open>Kiss\<close>
      (\<^verbatim>\<open>phys_kiss.cpp\<close>, \<^verbatim>\<open>phys_tap.cpp\<close>, \<^verbatim>\<open>phys_promiscuous.cpp\<close>) and \<open>Ppp_Frame\<close>, \<open>Ppp\<close> (\<^verbatim>\<open>phys_gen_ppp.cpp\<close>,
      \<^verbatim>\<open>phys_ppp.cpp\<close>) interpret them: packets sent by one end are delivered by the other.
    \<^item> \<open>Lldp\<close> (\<^verbatim>\<open>lldp.cpp\<close>): the announcement is decoded by a reference decoder.  \<open>Vpn\<close> (\<^verbatim>\<open>vpn.cpp\<close>,
      \<^verbatim>\<open>phys_vpn_insertion_point.cpp\<close>): two ends of a tunnel stay synchronised; the cipher and the hash belong to
      a library and are arguments, with the law that decryption undoes encryption as a hypothesis.

  \<^bold>\<open>Transport layer\<close>

    \<^item> \<open>Udp\<close> (\<^verbatim>\<open>udp.cpp\<close>): a datagram reaches the handler of its port.
    \<^item> \<open>Tcp_Segment\<close> (segments), \<open>Tcp_Session\<close> (one session: segments, the send buffer, the window, and why a session changes its state),
      \<open>Tcp\<close> (the host: session table, listeners, client ports and its threads), all of \<^verbatim>\<open>tcp.cpp\<close>, \<^verbatim>\<open>tcp.h\<close> and
      \<^verbatim>\<open>session.cpp\<close>.  Sequence numbers and windows are words of 32 and 16 bits.  \<open>Tcp\<close> proves the invariant of the
      table over all interleavings, the handshake, the causes of every change a packet makes, and when the session cleaner
      ends.  \<open>Tcp_Stream\<close> puts two
      sessions on a network that loses, repeats and reorders segments: an application gets a prefix of what the session of the
      other stored.  \<open>send_data\<close> returns true also for data that it drops, because 1 MB is waiting or the session is not
      established; the calls are recorded with what became of them.  The handler ends a session and removes it under two
      locks, so these are two steps; the theorem is about runs in which no thread works on the session between them.
    \<^item> \<open>Sctp\<close> (\<^verbatim>\<open>sctp.cpp\<close>): chunks, cookies and sessions, and that handling any packet ends normally;
      \<open>Sctp_Association\<close>: the set-up, and that a session needs a valid cookie; \<open>Sctp_Data\<close>: the stream of data.
      A packet is handled in one step, which is what one handler thread does.  With more threads the sequence numbers of data
      are compared and incremented under a shared lock; \<open>sctp_race\<close> takes these steps apart and shows what goes wrong.

  \<^bold>\<open>Applications\<close>

    \<^item> \<open>Snmp_Elem\<close>, \<open>Snmp_Data\<close>, \<open>Snmp\<close> (\<^verbatim>\<open>snmp_elem.cpp\<close>, \<^verbatim>\<open>snmp_data.cpp\<close>, \<^verbatim>\<open>snmp.cpp\<close>): BER encoding, the tree of
      variables (locale \<open>oid_registry\<close>, interpretation \<open>mib\<close>) and the agent, which parses requests in memory.  Requests
      are those of the standard (integers in the fewest octets); the replies are what the agent writes.
    \<^item> \<open>Mqtt\<close>, \<open>Mqtt_Broker\<close>, \<open>Mqtt_Stream\<close> (\<^verbatim>\<open>mqtt.cpp\<close>): the broker; locale \<open>subscription_table\<close>, interpretation
      \<open>broker\<close>; publishing refines a set of filters, and the thread of a session refines a sequence of messages in the encoding of
      the standard; the broker reads lengths of 128 and more in the wrong order, and this is stated too.  The last theorem of this theory puts the broker on top of TCP.
    \<^item> \<open>Irc\<close> (\<^verbatim>\<open>irc.cpp\<close>): the chat server, its table of nick names and the delivery of messages.
    \<^item> \<open>Dns\<close> (\<^verbatim>\<open>dns.cpp\<close>), \<open>Mdns\<close> (\<^verbatim>\<open>mdns.cpp\<close>), \<open>Ntp\<close> (\<^verbatim>\<open>ntp.cpp\<close>): resolver, announcements, time server.

  \<^bold>\<open>Conventions\<close>

  Time, random numbers, results of system calls and of transmissions are arguments; where a loop asks for them again and
  again, a list or a function of them is.  No function has fuel: loops over data are structural or have a measure,
  a loop that waits is modelled by its rounds, and threads are step relations (\<open>tcp_step\<close>, \<open>link_step\<close>, \<open>fifo_step\<close>,
  \<open>mqtt_step\<close>, \<open>irc_step\<close>), whose steps are what the code does while it holds a lock or between two waits.  Sessions that
  the code reaches through pointers are numbers, and a pointer to a session that was deleted is a number without
  one; its use is undefined behaviour.  Logging, statistics counters (where nothing reads them back) and the capture of
  packets to files are left out.

  \<^bold>\<open>Not modelled\<close>

  \<^verbatim>\<open>main.cpp\<close> (configuration and start-up), \<^verbatim>\<open>utils.cpp\<close>, \<^verbatim>\<open>log.cpp\<close> and \<^verbatim>\<open>time.cpp\<close> (wrappers of the operating
  system), the counters of \<^verbatim>\<open>stats.cpp\<close> (shared memory), \<^verbatim>\<open>phys_sctp_udp.cpp\<close> (a socket), \<^verbatim>\<open>BearSSLHelpers.cpp\<close> (third
  party), \<^verbatim>\<open>font.cpp\<close> (a table of glyphs), \<^verbatim>\<open>mqtt_client.cpp\<close> (never started), and the servers that mostly handle
  files, shell commands, audio and graphics: \<^verbatim>\<open>http.cpp\<close>, \<^verbatim>\<open>sip.cpp\<close>, \<^verbatim>\<open>vnc.cpp\<close>, \<^verbatim>\<open>nrpe.cpp\<close>,
  \<^verbatim>\<open>socks_proxy.cpp\<close>, \<^verbatim>\<open>syslog.cpp\<close>, \<^verbatim>\<open>mynetperf.cpp\<close>, \<^verbatim>\<open>echo.cpp\<close> and \<^verbatim>\<open>ud.cpp\<close>.
\<close>

section \<open>The broker on top of TCP\<close>



end
